(* ===== verification/Prelude.thy ===== *)
theory Prelude
  imports Main "HOL-Library.Word" "HOL-Library.Multiset"
begin

text \<open>
  Shared vocabulary of the development: the machine types the sources use, the conversions
  between C's \<open>int\<close> and \<open>size_t\<close>, the collections of rules the component theories fill, and
  the generic facts on lists, multisets and state machines that several components need.
\<close>

section \<open>Rule collections\<close>

named_theorems wake_simps "how a notification changes the states of the waiting threads"
named_theorems loop_unfold "one-step unfoldings of the transfer loops"

section \<open>Machine types\<close>

type_synonym byte = "8 word"

text \<open>The C++ \<open>int\<close> of the sources where its width matters.\<close>
type_synonym cint = "32 word"

text \<open>
  The implicit conversion of an \<open>int\<close> to \<open>size_t\<close> in a comparison such as
  \<open>_q.size() < _size_limit\<close>: sign extension to 64 bits, then read as unsigned.
\<close>

definition size_of_int :: "cint \<Rightarrow> nat" where
  "size_of_int i = unat (scast i :: 64 word)"

lemma uint_eq_sint:
  fixes w :: "'a::len word"
  assumes "0 \<le> sint w"
  shows "uint w = sint w"
proof -
  have "sint w < 2 ^ (LENGTH('a) - 1)"
    by (rule sint_lt)
  also have "(2::int) ^ (LENGTH('a) - 1) \<le> 2 ^ LENGTH('a)"
    by (simp add: power_increasing)
  finally show ?thesis
    using assms by (simp add: uint_sint take_bit_int_eq_self)
qed

lemma size_of_int_nonneg:
  assumes "0 \<le> sint i"
  shows "size_of_int i = nat (sint i)"
proof -
  have s: "sint (scast i :: 64 word) = sint i"
    by (simp add: sint_up_scast is_up)
  then have "uint (scast i :: 64 word) = sint i"
    using assms uint_eq_sint [of "scast i :: 64 word"] by simp
  then show ?thesis
    by (simp add: size_of_int_def unat_eq_nat_uint)
qed

section \<open>Lists\<close>

text \<open>The position a forward scan with a predicate stops at; the length if it finds nothing.\<close>

fun scan :: "('a \<Rightarrow> bool) \<Rightarrow> 'a list \<Rightarrow> nat" where
  "scan f [] = 0"
| "scan f (x # xs) = (if f x then 0 else Suc (scan f xs))"

lemma scan_le [simp]: "scan f xs \<le> length xs"
  by (induction xs) auto

lemma scan_lt_iff: "scan f xs < length xs \<longleftrightarrow> (\<exists>x\<in>set xs. f x)"
  by (induction xs) auto

lemma scan_eq_length_iff: "scan f xs = length xs \<longleftrightarrow> (\<forall>x\<in>set xs. \<not> f x)"
  by (induction xs) auto

lemma scan_hit: "scan f xs < length xs \<Longrightarrow> f (xs ! scan f xs)"
  by (induction xs) auto

lemma scan_before: "x \<in> set (take (scan f xs) xs) \<Longrightarrow> \<not> f x"
  by (induction xs) (auto split: if_splits)

lemma scan_True [simp]: "scan (\<lambda>_. True) xs = 0"
  by (cases xs) auto

lemma take_nth_drop:
  "i < length xs \<Longrightarrow> xs = take i xs @ xs ! i # drop (Suc i) xs"
  by (simp add: id_take_nth_drop)

lemma mset_take_drop_Suc:
  assumes "i < length xs"
  shows "mset xs = add_mset (xs ! i) (mset (take i xs @ drop (Suc i) xs))"
proof -
  have "mset xs = mset (take i xs @ xs ! i # drop (Suc i) xs)"
    using assms take_nth_drop by metis
  then show ?thesis by simp
qed

section \<open>Transition systems\<close>

lemma steps1: "r a b \<Longrightarrow> r\<^sup>*\<^sup>* a b"
  and steps2: "r a b \<Longrightarrow> r b c \<Longrightarrow> r\<^sup>*\<^sup>* a c"
  and steps3: "r a b \<Longrightarrow> r b c \<Longrightarrow> r c d \<Longrightarrow> r\<^sup>*\<^sup>* a d"
  and steps4: "r a b \<Longrightarrow> r b c \<Longrightarrow> r c d \<Longrightarrow> r d e \<Longrightarrow> r\<^sup>*\<^sup>* a e"
  by (meson r_into_rtranclp converse_rtranclp_into_rtranclp)+

text \<open>
  The contract of an invariant: it holds initially and every step keeps it. Its clients get
  it for every reachable state.
\<close>

locale invariant_system =
  fixes init :: "'s \<Rightarrow> bool"
    and step :: "'s \<Rightarrow> 's \<Rightarrow> bool"
    and inv :: "'s \<Rightarrow> bool"
  assumes inv_init: "init s \<Longrightarrow> inv s"
    and inv_step: "step s t \<Longrightarrow> inv s \<Longrightarrow> inv t"
begin

lemma reach_inv:
  assumes "step\<^sup>*\<^sup>* s t" and "init s"
  shows "inv t"
  using assms by (induction rule: rtranclp_induct) (auto intro: inv_init inv_step)

end

text \<open>An invariant with a measure that every step lowers: runs are bounded, whatever the schedule.\<close>

locale bounded_system = invariant_system +
  fixes mu :: "'s \<Rightarrow> nat"
  assumes mu_step: "step s t \<Longrightarrow> inv s \<Longrightarrow> mu t < mu s"
begin

lemma run_bound:
  assumes "(step ^^ k) s t" "init s"
  shows "inv t \<and> k + mu t \<le> mu s"
  using assms(1)
proof (induction k arbitrary: t)
  case 0
  then show ?case using inv_init[OF assms(2)] by simp
next
  case (Suc k)
  then obtain u where u: "(step ^^ k) s u" "step u t" by auto
  then show ?case using Suc.IH[OF u(1)] inv_step[OF u(2)] mu_step[OF u(2)] by fastforce
qed

end

end
