(* ===== verification/BlockingQueue.thy ===== *)
theory BlockingQueue
  imports Prelude
begin

text \<open>
  \<open>thread_queue.h\<close>: the class template \<open>blocking_queue\<close>. Its fields are the record
  \<open>bqueue\<close>; each member function is one critical section under the mutex \<open>_m\<close>, so the
  operations are functions on the record, with an outcome that says whether the caller has
  to wait on a condition variable. The monitor around them (threads that sleep on \<open>_cv\<close> and
  \<open>_cv_notfull\<close>, \<open>notify_all\<close>, spurious wake-ups) is the step relation \<open>bq_step\<close>.
\<close>

section \<open>State and operations\<close>

record 'a bqueue =
  q_size_limit :: cint
  q_elems :: "'a list"
  q_max_size :: cint
  q_closed :: bool

definition bq_new :: "cint \<Rightarrow> 'a bqueue" where
  "bq_new sz = \<lparr>q_size_limit = sz, q_elems = [], q_max_size = 0, q_closed = False\<rparr>"

text \<open>\<open>_q.size() < _size_limit\<close>: the limit is converted to \<open>size_t\<close>.\<close>

definition not_full :: "'a bqueue \<Rightarrow> bool" where
  "not_full b \<longleftrightarrow> length (q_elems b) < size_of_int (q_size_limit b)"

text \<open>The predicate \<open>get\<close> waits for: a matching element, or a closed queue.\<close>

definition get_ready :: "('a \<Rightarrow> bool) \<Rightarrow> 'a bqueue \<Rightarrow> bool" where
  "get_ready f b \<longleftrightarrow> scan f (q_elems b) < length (q_elems b) \<or> q_closed b"

definition note_max :: "'a bqueue \<Rightarrow> 'a bqueue" where
  "note_max b =
     (if length (q_elems b) > size_of_int (q_max_size b)
      then b\<lparr>q_max_size := word_of_nat (length (q_elems b))\<rparr> else b)"

datatype 'a get_outcome =
    GetWaits                     \<comment> \<open>sleeps on \<open>_cv\<close>\<close>
  | GetFalse "'a bqueue"         \<comment> \<open>returns false: closed, and nothing matches\<close>
  | GetTrue 'a "'a bqueue"       \<comment> \<open>returns true with the element\<close>

definition bq_get :: "('a \<Rightarrow> bool) \<Rightarrow> 'a bqueue \<Rightarrow> 'a get_outcome" where
  "bq_get f b =
     (if \<not> get_ready f b then GetWaits
      else let b1 = note_max b; it = scan f (q_elems b1)
           in if it = length (q_elems b1) \<and> q_closed b1 then GetFalse b1
              else GetTrue (q_elems b1 ! it)
                     (b1\<lparr>q_elems := take it (q_elems b1) @ drop (Suc it) (q_elems b1)\<rparr>))"

text \<open>The overload without a filter.\<close>

definition bq_get_any :: "'a bqueue \<Rightarrow> 'a get_outcome" where
  "bq_get_any b = bq_get (\<lambda>_. True) b"

datatype 'a put_outcome = PutWaits | PutFalse | PutTrue "'a bqueue"

definition bq_put :: "'a \<Rightarrow> bool \<Rightarrow> 'a bqueue \<Rightarrow> 'a put_outcome" where
  "bq_put x blocking b =
     (if \<not> blocking \<and> length (q_elems b) \<ge> size_of_int (q_size_limit b) then PutFalse
      else if \<not> not_full b then PutWaits
      else PutTrue (b\<lparr>q_elems := q_elems b @ [x]\<rparr>))"

definition bq_close :: "'a bqueue \<Rightarrow> 'a bqueue" where
  "bq_close b = b\<lparr>q_closed := True\<rparr>"

definition bq_size :: "'a bqueue \<Rightarrow> cint" where
  "bq_size b = word_of_nat (length (q_elems b))"

definition bq_max_size :: "'a bqueue \<Rightarrow> cint" where
  "bq_max_size b = q_max_size b"

subsection \<open>What one operation does\<close>

lemma note_max_simps [simp]:
  "q_elems (note_max b) = q_elems b"
  "q_closed (note_max b) = q_closed b"
  "q_size_limit (note_max b) = q_size_limit b"
  by (simp_all add: note_max_def)

lemma bq_get_waits_iff: "bq_get f b = GetWaits \<longleftrightarrow> \<not> get_ready f b"
  by (simp add: bq_get_def Let_def)

lemma bq_get_FalseD:
  assumes "bq_get f b = GetFalse b'"
  shows "q_closed b" "\<forall>x\<in>set (q_elems b). \<not> f x" "b' = note_max b"
  using assms by (auto simp: bq_get_def Let_def scan_eq_length_iff split: if_splits)

lemma bq_get_TrueD:
  assumes "bq_get f b = GetTrue x b'"
  shows "scan f (q_elems b) < length (q_elems b)"
    and "x = q_elems b ! scan f (q_elems b)"
    and "q_elems b' = take (scan f (q_elems b)) (q_elems b) @ drop (Suc (scan f (q_elems b))) (q_elems b)"
    and "q_closed b' = q_closed b"
    and "q_size_limit b' = q_size_limit b"
proof -
  have *: "scan f (q_elems b) < length (q_elems b)"
    using assms by (auto simp: bq_get_def Let_def get_ready_def split: if_splits)
      (metis nat_less_le scan_le)+
  then show "scan f (q_elems b) < length (q_elems b)" .
  show "x = q_elems b ! scan f (q_elems b)"
    "q_elems b' = take (scan f (q_elems b)) (q_elems b) @ drop (Suc (scan f (q_elems b))) (q_elems b)"
    "q_closed b' = q_closed b" "q_size_limit b' = q_size_limit b"
    using assms * by (auto simp: bq_get_def Let_def split: if_splits)
qed

lemma bq_put_TrueD:
  assumes "bq_put x bl b = PutTrue b'"
  shows "not_full b" "b' = b\<lparr>q_elems := q_elems b @ [x]\<rparr>"
  using assms by (auto simp: bq_put_def split: if_splits)

lemma bq_put_WaitsD: "bq_put x bl b = PutWaits \<Longrightarrow> \<not> not_full b"
  by (auto simp: bq_put_def split: if_splits)

lemma bq_get_mset:
  assumes "bq_get f b = GetTrue x b'"
  shows "mset (q_elems b) = add_mset x (mset (q_elems b'))"
  using bq_get_TrueD[OF assms] mset_take_drop_Suc by metis

lemma bq_get_length:
  assumes "bq_get f b = GetTrue x b'"
  shows "length (q_elems b) = Suc (length (q_elems b'))"
  using bq_get_mset[OF assms] by (metis size_add_mset size_mset)

section \<open>The monitor: threads, condition variables, notifications\<close>

text \<open>
  A thread is outside the queue, about to run the critical section of \<open>get\<close> or \<open>put\<close>
  (it has just called, or it was woken and has to take the mutex again), or asleep on a
  condition variable. One step is one critical section, or one thread's call. The two ghost
  fields record the elements in the order in which \<open>put\<close> stored and \<open>get\<close> returned them.
\<close>

datatype 'a thr =
    Outside
  | Getting "'a \<Rightarrow> bool"
  | GetAsleep "'a \<Rightarrow> bool"     \<comment> \<open>in \<open>_cv.wait\<close>\<close>
  | Putting 'a bool
  | PutAsleep 'a                 \<comment> \<open>in \<open>_cv_notfull.wait\<close>\<close>

record 'a bq_sys =
  sys_q :: "'a bqueue"
  sys_thr :: "nat \<Rightarrow> 'a thr"
  sys_puts :: "'a list"
  sys_gots :: "'a list"

definition bq_sys0 :: "cint \<Rightarrow> 'a bq_sys" where
  "bq_sys0 sz = \<lparr>sys_q = bq_new sz, sys_thr = (\<lambda>_. Outside), sys_puts = [], sys_gots = []\<rparr>"

text \<open>\<open>_cv.notify_all()\<close> and \<open>_cv_notfull.notify_all()\<close>.\<close>

fun wake_get :: "'a thr \<Rightarrow> 'a thr" where
  "wake_get (GetAsleep f) = Getting f"
| "wake_get t = t"

fun wake_put :: "'a thr \<Rightarrow> 'a thr" where
  "wake_put (PutAsleep x) = Putting x True"
| "wake_put t = t"

definition notify_cv :: "(nat \<Rightarrow> 'a thr) \<Rightarrow> nat \<Rightarrow> 'a thr" where
  "notify_cv t = wake_get \<circ> t"

definition notify_notfull :: "(nat \<Rightarrow> 'a thr) \<Rightarrow> nat \<Rightarrow> 'a thr" where
  "notify_notfull t = wake_put \<circ> t"

text \<open>\<open>F\<close> is the set of filters the callers of \<open>get\<close> use.\<close>

inductive bq_step :: "('a \<Rightarrow> bool) set \<Rightarrow> 'a bq_sys \<Rightarrow> 'a bq_sys \<Rightarrow> bool"
  for F :: "('a \<Rightarrow> bool) set" where
  call_get: "sys_thr s i = Outside \<Longrightarrow> f \<in> F \<Longrightarrow>
     bq_step F s (s\<lparr>sys_thr := (sys_thr s)(i := Getting f)\<rparr>)"
| get_sleeps: "sys_thr s i = Getting f \<Longrightarrow> bq_get f (sys_q s) = GetWaits \<Longrightarrow>
     bq_step F s (s\<lparr>sys_thr := (sys_thr s)(i := GetAsleep f)\<rparr>)"
| get_false: "sys_thr s i = Getting f \<Longrightarrow> bq_get f (sys_q s) = GetFalse b \<Longrightarrow>
     bq_step F s (s\<lparr>sys_q := b, sys_thr := (sys_thr s)(i := Outside)\<rparr>)"
| get_true: "sys_thr s i = Getting f \<Longrightarrow> bq_get f (sys_q s) = GetTrue x b \<Longrightarrow>
     t = (sys_thr s)(i := Outside) \<Longrightarrow>
     bq_step F s (s\<lparr>sys_q := b, sys_thr := (if not_full b then notify_notfull t else t),
       sys_gots := sys_gots s @ [x]\<rparr>)"
| call_put: "sys_thr s i = Outside \<Longrightarrow>
     bq_step F s (s\<lparr>sys_thr := (sys_thr s)(i := Putting x bl)\<rparr>)"
| put_sleeps: "sys_thr s i = Putting x bl \<Longrightarrow> bq_put x bl (sys_q s) = PutWaits \<Longrightarrow>
     bq_step F s (s\<lparr>sys_thr := (sys_thr s)(i := PutAsleep x)\<rparr>)"
| put_false: "sys_thr s i = Putting x bl \<Longrightarrow> bq_put x bl (sys_q s) = PutFalse \<Longrightarrow>
     bq_step F s (s\<lparr>sys_thr := (sys_thr s)(i := Outside)\<rparr>)"
| put_true: "sys_thr s i = Putting x bl \<Longrightarrow> bq_put x bl (sys_q s) = PutTrue b \<Longrightarrow>
     bq_step F s (s\<lparr>sys_q := b, sys_thr := notify_cv ((sys_thr s)(i := Outside)),
       sys_puts := sys_puts s @ [x]\<rparr>)"
| close: "sys_thr s i = Outside \<Longrightarrow>
     bq_step F s (s\<lparr>sys_q := bq_close (sys_q s), sys_thr := notify_cv (sys_thr s)\<rparr>)"
| spurious_get: "sys_thr s i = GetAsleep f \<Longrightarrow>
     bq_step F s (s\<lparr>sys_thr := (sys_thr s)(i := Getting f)\<rparr>)"
| spurious_put: "sys_thr s i = PutAsleep x \<Longrightarrow>
     bq_step F s (s\<lparr>sys_thr := (sys_thr s)(i := Putting x True)\<rparr>)"

lemma wake_get_iff [wake_simps]:
  "wake_get t = GetAsleep f \<longleftrightarrow> False"
  "wake_get t = PutAsleep x \<longleftrightarrow> t = PutAsleep x"
  "wake_get t = Outside \<longleftrightarrow> t = Outside"
  by (cases t; auto)+

lemma wake_put_iff [wake_simps]:
  "wake_put t = PutAsleep x \<longleftrightarrow> False"
  "wake_put t = GetAsleep f \<longleftrightarrow> t = GetAsleep f"
  "wake_put t = Outside \<longleftrightarrow> t = Outside"
  by (cases t; auto)+

lemma notify_apply [wake_simps]:
  "notify_cv t i = wake_get (t i)" "notify_notfull t i = wake_put (t i)"
  by (simp_all add: notify_cv_def notify_notfull_def)

section \<open>The invariant of the monitor\<close>

text \<open>
  A sleeping thread's condition is false (no wake-up is ever lost), the queue respects its
  limit, and nothing is lost or duplicated between \<open>put\<close> and \<open>get\<close>.
\<close>

definition bq_inv :: "cint \<Rightarrow> 'a bq_sys \<Rightarrow> bool" where
  "bq_inv sz s \<longleftrightarrow>
     (\<forall>i f. sys_thr s i = GetAsleep f \<longrightarrow> \<not> get_ready f (sys_q s)) \<and>
     (\<forall>i x. sys_thr s i = PutAsleep x \<longrightarrow> \<not> not_full (sys_q s)) \<and>
     q_size_limit (sys_q s) = sz \<and>
     length (q_elems (sys_q s)) \<le> size_of_int sz \<and>
     mset (sys_puts s) = mset (sys_gots s) + mset (q_elems (sys_q s))"

lemma get_ready_take:
  assumes "bq_get f b = GetTrue x b'" and "\<not> get_ready g b"
  shows "\<not> get_ready g b'"
proof -
  from assms(2) have "\<not> q_closed b" and "\<forall>y\<in>set (q_elems b). \<not> g y"
    by (auto simp: get_ready_def scan_lt_iff)
  moreover have "set (q_elems b') \<subseteq> set (q_elems b)"
    using bq_get_mset[OF assms(1)] by (metis set_mset_mset set_mset_add_mset_insert subset_insertI)
  moreover have "q_closed b' = q_closed b"
    using bq_get_TrueD[OF assms(1)] by simp
  ultimately show ?thesis by (auto simp: get_ready_def scan_lt_iff)
qed

lemma get_ready_note_max [simp]: "get_ready f (note_max b) = get_ready f b"
  and not_full_note_max [simp]: "not_full (note_max b) = not_full b"
  by (simp_all add: get_ready_def not_full_def)

lemma not_full_take:
  assumes "bq_get f b = GetTrue x b'" and "not_full b"
  shows "not_full b'"
  using bq_get_length[OF assms(1)] bq_get_TrueD[OF assms(1)] assms(2)
  by (simp add: not_full_def)

lemma bq_inv_get_true:
  assumes inv: "bq_inv sz s" and get: "bq_get f (sys_q s) = GetTrue x b"
    and t: "t = (sys_thr s)(i := Outside)"
  shows "bq_inv sz (s\<lparr>sys_q := b, sys_thr := (if not_full b then notify_notfull t else t),
    sys_gots := sys_gots s @ [x]\<rparr>)"
proof -
  let ?t = "if not_full b then notify_notfull t else t"
  have "\<not> get_ready g b" if "?t j = GetAsleep g" for j g
    using that inv get_ready_take[OF get] t
    by (auto simp: bq_inv_def wake_simps split: if_splits)
  moreover have "\<not> not_full b" if "?t j = PutAsleep y" for j y
    using that by (auto simp: wake_simps split: if_splits)
  moreover have "q_size_limit b = sz" "length (q_elems b) \<le> size_of_int sz"
    using inv bq_get_TrueD(5)[OF get] bq_get_length[OF get] by (auto simp: bq_inv_def)
  moreover have "mset (sys_puts s) = mset (sys_gots s @ [x]) + mset (q_elems b)"
    using inv bq_get_mset[OF get] by (simp add: bq_inv_def)
  ultimately show ?thesis unfolding bq_inv_def by (simp add: wake_simps)
qed

lemma bq_inv_put_true:
  assumes "bq_inv sz s" and "bq_put x bl (sys_q s) = PutTrue b"
  shows "bq_inv sz (s\<lparr>sys_q := b, sys_thr := notify_cv ((sys_thr s)(i := Outside)),
    sys_puts := sys_puts s @ [x]\<rparr>)"
  using assms(1) bq_put_TrueD[OF assms(2)]
  by (auto simp: bq_inv_def wake_simps not_full_def)

lemma bq_inv_step: "bq_step F s s' \<Longrightarrow> bq_inv sz s \<Longrightarrow> bq_inv sz s'"
proof (induction rule: bq_step.induct)
  case (get_false s i f b)
  then show ?case using bq_get_FalseD[OF get_false(2)] by (auto simp: bq_inv_def)
next
  case (get_true s i f x b t)
  then show ?case by (intro bq_inv_get_true) auto
next
  case (put_true s i x bl b)
  then show ?case by (intro bq_inv_put_true)
next
  case (close s i)
  then show ?case by (auto simp: bq_inv_def wake_simps bq_close_def not_full_def)
qed (auto simp: bq_inv_def bq_get_waits_iff dest: bq_put_WaitsD)

interpretation bqs: invariant_system "\<lambda>s. s = bq_sys0 sz" "bq_step F" "bq_inv sz" for sz F
proof (unfold_locales, goal_cases)
  case (1 s)
  then show ?case by (simp add: bq_sys0_def bq_new_def bq_inv_def)
next
  case (2 s t)
  then show ?case by (rule bq_inv_step)
qed

lemmas bq_reach_inv = bqs.reach_inv [OF _ refl]

subsection \<open>First in, first out, when no filter is used\<close>

definition fifo_inv :: "'a bq_sys \<Rightarrow> bool" where
  "fifo_inv s \<longleftrightarrow>
     (\<forall>i f. sys_thr s i = Getting f \<or> sys_thr s i = GetAsleep f \<longrightarrow> f = (\<lambda>_. True)) \<and>
     sys_puts s = sys_gots s @ q_elems (sys_q s)"

lemma wake_filter [wake_simps]:
  "wake_get t = Getting f \<longleftrightarrow> t = Getting f \<or> t = GetAsleep f"
  "wake_put t = Getting f \<longleftrightarrow> t = Getting f"
  by (cases t; auto)+

lemma bq_get_any_front:
  assumes "bq_get (\<lambda>_. True) b = GetTrue x b'"
  shows "q_elems b = x # q_elems b'"
  using bq_get_TrueD[OF assms] by (cases "q_elems b") auto

lemma fifo_inv_step: "bq_step {\<lambda>_. True} s t \<Longrightarrow> fifo_inv s \<Longrightarrow> fifo_inv t"
proof (induction rule: bq_step.induct)
  case (get_true s i f x b t)
  then have "f = (\<lambda>_. True)" by (auto simp: fifo_inv_def)
  with get_true(2) have "q_elems (sys_q s) = x # q_elems b" by (simp add: bq_get_any_front)
  with get_true show ?case by (auto simp: fifo_inv_def wake_simps)
next
  case (get_false s i f b)
  then show ?case using bq_get_FalseD[OF get_false(2)] by (auto simp: fifo_inv_def)
next
  case (put_true s i x bl b)
  then show ?case using bq_put_TrueD[OF put_true(2)] by (auto simp: fifo_inv_def wake_simps)
next
  case (close s i)
  then show ?case by (auto simp: fifo_inv_def wake_simps bq_close_def)
qed (auto simp: fifo_inv_def)

interpretation fifo: invariant_system "\<lambda>s. s = bq_sys0 sz" "bq_step {\<lambda>_. True}" fifo_inv for sz
proof (unfold_locales, goal_cases)
  case (1 s)
  then show ?case by (simp add: bq_sys0_def bq_new_def fifo_inv_def)
next
  case (2 s t)
  then show ?case by (rule fifo_inv_step)
qed

subsection \<open>The high-water mark\<close>

definition mark_inv :: "cint \<Rightarrow> 'a bq_sys \<Rightarrow> bool" where
  "mark_inv sz s \<longleftrightarrow> bq_inv sz s \<and>
     0 \<le> sint (q_max_size (sys_q s)) \<and> sint (q_max_size (sys_q s)) \<le> sint sz"

lemma sint_word_of_nat_small:
  "n < 2 ^ 31 \<Longrightarrow> sint (word_of_nat n :: cint) = int n"
  by (simp add: signed_of_nat signed_take_bit_int_eq_self)

lemma note_max_mark:
  assumes "0 \<le> sint sz" and "length (q_elems b) \<le> size_of_int sz"
    and "0 \<le> sint (q_max_size b)" and "sint (q_max_size b) \<le> sint sz"
  shows "0 \<le> sint (q_max_size (note_max b)) \<and> sint (q_max_size (note_max b)) \<le> sint sz"
proof -
  have len: "int (length (q_elems b)) \<le> sint sz"
    using assms(1,2) by (simp add: size_of_int_nonneg)
  moreover have "sint sz < 2 ^ 31"
    using sint_lt [of sz] by simp
  ultimately have "int (length (q_elems b)) < int (2 ^ 31)" by simp
  then have "length (q_elems b) < 2 ^ 31" by (simp only: of_nat_less_iff)
  then have "sint (word_of_nat (length (q_elems b)) :: cint) = int (length (q_elems b))"
    by (rule sint_word_of_nat_small)
  then show ?thesis using assms(3,4) len by (simp add: note_max_def)
qed

lemma bq_get_marks:
  "bq_get f b = GetTrue x b' \<Longrightarrow> q_max_size b' = q_max_size (note_max b)"
  by (auto simp: bq_get_def Let_def split: if_splits)

lemma mark_inv_step:
  assumes "0 \<le> sint sz" and "bq_step F s t" and "mark_inv sz s"
  shows "mark_inv sz t"
proof -
  have "bq_inv sz t" using assms(2,3) bq_inv_step by (auto simp: mark_inv_def)
  moreover have "length (q_elems (sys_q s)) \<le> size_of_int sz"
    using assms(3) by (simp add: mark_inv_def bq_inv_def)
  note nm = note_max_mark [OF assms(1) this]
  have "0 \<le> sint (q_max_size (sys_q t)) \<and> sint (q_max_size (sys_q t)) \<le> sint sz"
    using assms(2)
  proof (cases rule: bq_step.cases)
    case (get_false i f b)
    then show ?thesis using nm assms(3) bq_get_FalseD(3) by (fastforce simp: mark_inv_def)
  next
    case (get_true i f x b t)
    then show ?thesis using nm assms(3) bq_get_marks by (fastforce simp: mark_inv_def)
  next
    case (put_true i x bl b)
    then show ?thesis using assms(3) bq_put_TrueD(2) by (fastforce simp: mark_inv_def)
  qed (use assms(3) in \<open>auto simp: mark_inv_def bq_close_def\<close>)
  ultimately show ?thesis by (simp add: mark_inv_def)
qed

section \<open>Properties\<close>

text \<open>C7: \<open>get\<close> decides its three outcomes by the queue alone: it blocks exactly when the
  queue is open and nothing matches, returns false exactly when it is closed and nothing
  matches, and otherwise removes the first matching element, leaving all others in order.\<close>
theorem bq_get_correct:
  "case bq_get f b of
     GetWaits \<Rightarrow> \<not> q_closed b \<and> (\<forall>y\<in>set (q_elems b). \<not> f y)
   | GetFalse b' \<Rightarrow> q_closed b \<and> (\<forall>y\<in>set (q_elems b). \<not> f y) \<and> b' = note_max b
   | GetTrue x b' \<Rightarrow> f x \<and> q_closed b' = q_closed b \<and> q_size_limit b' = q_size_limit b \<and>
       (\<exists>pre post. q_elems b = pre @ x # post \<and> q_elems b' = pre @ post \<and> (\<forall>y\<in>set pre. \<not> f y))"
proof (cases "bq_get f b")
  case GetWaits
  then have "\<not> get_ready f b" by (simp add: bq_get_waits_iff)
  with GetWaits show ?thesis by (auto simp: get_ready_def scan_lt_iff)
next
  case (GetFalse b')
  then show ?thesis using bq_get_FalseD[OF GetFalse] by simp
next
  case (GetTrue x b')
  note t = bq_get_TrueD[OF GetTrue]
  have "q_elems b = take (scan f (q_elems b)) (q_elems b) @ x # drop (Suc (scan f (q_elems b))) (q_elems b)"
    using t(1,2) take_nth_drop by metis
  moreover have "f x" using t(1,2) scan_hit by metis
  moreover have "\<forall>y\<in>set (take (scan f (q_elems b)) (q_elems b)). \<not> f y"
    using scan_before by metis
  ultimately show ?thesis
    unfolding GetTrue get_outcome.case using t(3-5) by blast
qed

definition queue_178 :: "nat bqueue" where
  "queue_178 = \<lparr>q_size_limit = 9, q_elems = [1, 7, 8], q_max_size = 0, q_closed = False\<rparr>"

theorem bq_get_correct_witness:
  "bq_get (\<lambda>k. 5 \<le> k) queue_178 = GetTrue 7 (queue_178\<lparr>q_elems := [1, 8], q_max_size := 3\<rparr>) \<and>
   (\<exists>pre post. q_elems queue_178 = pre @ 7 # post \<and> (\<forall>y\<in>set pre. \<not> 5 \<le> y))"
proof -
  have g: "bq_get (\<lambda>k. 5 \<le> k) queue_178 = GetTrue 7 (queue_178\<lparr>q_elems := [1, 8], q_max_size := 3\<rparr>)"
    by (simp add: queue_178_def bq_get_def get_ready_def note_max_def size_of_int_def)
  then have "\<exists>pre post. q_elems queue_178 = pre @ 7 # post \<and> (\<forall>y\<in>set pre. \<not> 5 \<le> y)"
    using bq_get_correct [where f = "\<lambda>k. 5 \<le> k" and b = queue_178] by auto
  with g show ?thesis ..
qed

text \<open>C1: no wake-up is lost: in every reachable state of the monitor a thread asleep in
  \<open>get\<close> has no matching element and an open queue, and a thread asleep in \<open>put\<close> a full queue.
  In particular \<open>close\<close> leaves no reader asleep.\<close>
theorem bq_no_lost_wakeup:
  assumes "(bq_step F)\<^sup>*\<^sup>* (bq_sys0 sz) s"
  shows "(sys_thr s i = GetAsleep f \<longrightarrow>
            \<not> q_closed (sys_q s) \<and> (\<forall>x\<in>set (q_elems (sys_q s)). \<not> f x)) \<and>
         (sys_thr s i = PutAsleep y \<longrightarrow>
            size_of_int (q_size_limit (sys_q s)) \<le> length (q_elems (sys_q s)))"
  using bq_reach_inv[OF assms] by (auto simp: bq_inv_def get_ready_def scan_lt_iff not_full_def)

definition asleep_example :: "nat bq_sys" where
  "asleep_example = (bq_sys0 4)\<lparr>sys_thr := (\<lambda>_. Outside)(3 := GetAsleep (\<lambda>_. True))\<rparr>"

lemma asleep_example_reachable: "(bq_step {\<lambda>_. True})\<^sup>*\<^sup>* (bq_sys0 4) asleep_example"
proof -
  let ?s = "(bq_sys0 4 :: nat bq_sys)\<lparr>sys_thr := (\<lambda>_. Outside)(3 := Getting (\<lambda>_. True))\<rparr>"
  have "bq_step {\<lambda>_. True} (bq_sys0 4) ?s"
    using bq_step.call_get [of "bq_sys0 4 :: nat bq_sys" 3 "\<lambda>_. True" "{\<lambda>_. True}"]
    by (simp add: bq_sys0_def)
  moreover have "bq_step {\<lambda>_. True} ?s asleep_example"
    using bq_step.get_sleeps [of ?s 3 "\<lambda>_. True" "{\<lambda>_. True}"]
    by (simp add: bq_sys0_def asleep_example_def bq_get_def get_ready_def bq_new_def)
  ultimately show ?thesis by (meson converse_rtranclp_into_rtranclp rtranclp.rtrancl_refl)
qed

theorem bq_no_lost_wakeup_witness:
  "sys_thr asleep_example 3 = GetAsleep (\<lambda>_. True) \<and> \<not> q_closed (sys_q asleep_example)"
  using bq_no_lost_wakeup[OF asleep_example_reachable, of 3 "\<lambda>_. True"]
  by (simp add: asleep_example_def)

text \<open>C32: in every reachable state the queue holds at most \<open>_size_limit\<close> elements, and the
  elements put so far are exactly those returned by \<open>get\<close> so far and those still queued.\<close>
theorem bq_conservation:
  assumes "(bq_step F)\<^sup>*\<^sup>* (bq_sys0 sz) s"
  shows "length (q_elems (sys_q s)) \<le> size_of_int sz \<and>
     mset (sys_puts s) = mset (sys_gots s) + mset (q_elems (sys_q s))"
  using bq_reach_inv[OF assms] by (simp add: bq_inv_def)

theorem bq_conservation_witness: "length (q_elems (sys_q asleep_example)) \<le> size_of_int 4"
  using bq_conservation[OF asleep_example_reachable] by simp

text \<open>Without filters the queue is first in, first out across all threads: what was put,
  in order, is what was got, in order, followed by what is still queued.\<close>
theorem bq_fifo:
  assumes "(bq_step {\<lambda>_. True})\<^sup>*\<^sup>* (bq_sys0 sz) s"
  shows "sys_puts s = sys_gots s @ q_elems (sys_q s)"
  using fifo.reach_inv[OF assms refl] by (simp add: fifo_inv_def)

theorem bq_fifo_witness: "sys_puts asleep_example = sys_gots asleep_example @ q_elems (sys_q asleep_example)"
  by (rule bq_fifo[OF asleep_example_reachable])

text \<open>\<open>max_size()\<close> of a queue with a non-negative limit is between zero and that limit.\<close>
theorem bq_max_size_bounds:
  assumes "(bq_step F)\<^sup>*\<^sup>* (bq_sys0 sz) s" and "0 \<le> sint sz"
  shows "0 \<le> sint (bq_max_size (sys_q s)) \<and> sint (bq_max_size (sys_q s)) \<le> sint sz"
proof -
  have "mark_inv sz s" using assms(1)
  proof (induction rule: rtranclp_induct)
    case base
    show ?case using assms(2) by (simp add: mark_inv_def bq_inv_def bq_sys0_def bq_new_def)
  next
    case (step s t)
    then show ?case using mark_inv_step[OF assms(2)] by blast
  qed
  then show ?thesis by (simp add: mark_inv_def bq_max_size_def)
qed

theorem bq_max_size_bounds_witness: "sint (bq_max_size (sys_q asleep_example)) \<le> 4"
  using bq_max_size_bounds[OF asleep_example_reachable] by simp

end
