(* ===== verification/Workers.thy ===== *)
theory Workers
  imports BlockingQueue
begin

text \<open>
  \<open>tthreads.cpp\<close>, tests 2 and 3: worker threads drain a \<open>blocking_queue\<close> and count what they
  got, the main thread puts the items, closes the queue and joins the workers. The threads'
  loops are the step relation \<open>work_step\<close> over the operations of a queue; the locale
  \<open>work_queue\<close> states what they rely on, and \<open>blocking_queue\<close> is shown to provide it.
\<close>

section \<open>The threads\<close>

text \<open>
  \<open>wk_todo\<close> are the items the main thread has not put yet, \<open>wk_closed\<close> says that it has
  called \<open>close\<close>; \<open>wk_cnt i\<close> is the counter passed to worker \<open>i\<close> by reference and \<open>wk_done i\<close>
  says that the worker has left its loop.
\<close>

record ('q, 'a) work =
  wk_q :: 'q
  wk_todo :: "'a list"
  wk_closed :: bool
  wk_cnt :: "nat \<Rightarrow> nat"
  wk_done :: "nat \<Rightarrow> bool"

text \<open>
  The queue as the threads use it: \<open>takes f q x q'\<close> (a call of \<open>get\<close> with filter \<open>f\<close> returns
  true with \<open>x\<close>), \<open>ends f q q'\<close> (it returns false), \<open>puts x q q'\<close> and \<open>closes q\<close>. A call that
  would block is no step. \<open>fs\<close> holds the filter of each worker.
\<close>

inductive work_step ::
  "(('a \<Rightarrow> bool) \<Rightarrow> 'q \<Rightarrow> 'a \<Rightarrow> 'q \<Rightarrow> bool) \<Rightarrow> (('a \<Rightarrow> bool) \<Rightarrow> 'q \<Rightarrow> 'q \<Rightarrow> bool) \<Rightarrow>
   ('a \<Rightarrow> 'q \<Rightarrow> 'q \<Rightarrow> bool) \<Rightarrow> ('q \<Rightarrow> 'q) \<Rightarrow> ('a \<Rightarrow> bool) list \<Rightarrow>
   ('q, 'a) work \<Rightarrow> ('q, 'a) work \<Rightarrow> bool"
  for takes ends puts closes fs where
  main_put: "wk_todo s = x # xs \<Longrightarrow> puts x (wk_q s) q \<Longrightarrow>
     work_step takes ends puts closes fs s (s\<lparr>wk_q := q, wk_todo := xs\<rparr>)"
| main_close: "wk_todo s = [] \<Longrightarrow> \<not> wk_closed s \<Longrightarrow>
     work_step takes ends puts closes fs s (s\<lparr>wk_q := closes (wk_q s), wk_closed := True\<rparr>)"
| worker_get: "i < length fs \<Longrightarrow> \<not> wk_done s i \<Longrightarrow> takes (fs ! i) (wk_q s) x q \<Longrightarrow>
     work_step takes ends puts closes fs s
       (s\<lparr>wk_q := q, wk_cnt := (wk_cnt s)(i := Suc (wk_cnt s i))\<rparr>)"
| worker_break: "i < length fs \<Longrightarrow> \<not> wk_done s i \<Longrightarrow> ends (fs ! i) (wk_q s) q \<Longrightarrow>
     work_step takes ends puts closes fs s
       (s\<lparr>wk_q := q, wk_done := (wk_done s)(i := True)\<rparr>)"

definition work0 :: "'q \<Rightarrow> 'a list \<Rightarrow> ('q, 'a) work" where
  "work0 q items = \<lparr>wk_q = q, wk_todo = items, wk_closed = False,
     wk_cnt = (\<lambda>_. 0), wk_done = (\<lambda>_. False)\<rparr>"

text \<open>The joins of the main thread have all returned.\<close>

definition all_joined :: "('a \<Rightarrow> bool) list \<Rightarrow> ('q, 'a) work \<Rightarrow> bool" where
  "all_joined fs s \<longleftrightarrow> wk_todo s = [] \<and> wk_closed s \<and> (\<forall>i<length fs. wk_done s i)"

text \<open>The sum \<open>t1+t2+t3\<close> that the tests print.\<close>

definition total_count :: "('a \<Rightarrow> bool) list \<Rightarrow> ('q, 'a) work \<Rightarrow> nat" where
  "total_count fs s = (\<Sum>i<length fs. wk_cnt s i)"

text \<open>\<open>call_from_thread(k, th)\<close>: with \<open>th > 0\<close> the worker asks for elements \<open>k >= th\<close>.\<close>

definition thread_filter :: "int \<Rightarrow> int \<Rightarrow> bool" where
  "thread_filter th = (if th > 0 then (\<lambda>k. k \<ge> th) else (\<lambda>_. True))"

definition test2_filters :: "(int \<Rightarrow> bool) list" where
  "test2_filters = [thread_filter 0, thread_filter 0, thread_filter 9999]"

definition test2_items :: "int list" where
  "test2_items = map int [0..<10000]"

text \<open>\<open>worker_thread\<close> of test 3: no filter, three workers.\<close>

definition test3_filters :: "('a \<Rightarrow> bool) list" where
  "test3_filters = [\<lambda>_. True, \<lambda>_. True, \<lambda>_. True]"

section \<open>What the threads rely on\<close>

locale work_queue =
  fixes contents :: "'q \<Rightarrow> 'a list"
    and shut :: "'q \<Rightarrow> bool"
    and invar :: "'q \<Rightarrow> bool"
    and cap :: nat
    and takes :: "('a \<Rightarrow> bool) \<Rightarrow> 'q \<Rightarrow> 'a \<Rightarrow> 'q \<Rightarrow> bool"
    and ends :: "('a \<Rightarrow> bool) \<Rightarrow> 'q \<Rightarrow> 'q \<Rightarrow> bool"
    and puts :: "'a \<Rightarrow> 'q \<Rightarrow> 'q \<Rightarrow> bool"
    and closes :: "'q \<Rightarrow> 'q"
  assumes cap_pos: "0 < cap"
    and take_law: "takes f q x q' \<Longrightarrow> invar q \<Longrightarrow> invar q' \<and> f x \<and> shut q' = shut q \<and>
          mset (contents q) = add_mset x (mset (contents q'))"
    and end_law: "ends f q q' \<Longrightarrow> invar q \<Longrightarrow> invar q' \<and> shut q \<and> shut q' \<and>
          contents q' = contents q \<and> (\<forall>x\<in>set (contents q). \<not> f x)"
    and put_law: "puts x q q' \<Longrightarrow> invar q \<Longrightarrow> invar q' \<and> shut q' = shut q \<and>
          contents q' = contents q @ [x]"
    and close_law: "invar q \<Longrightarrow> invar (closes q) \<and> shut (closes q) \<and> contents (closes q) = contents q"
    and take_enabled: "invar q \<Longrightarrow> \<exists>x\<in>set (contents q). f x \<Longrightarrow> \<exists>x q'. takes f q x q'"
    and end_enabled: "invar q \<Longrightarrow> shut q \<Longrightarrow> \<forall>x\<in>set (contents q). \<not> f x \<Longrightarrow> \<exists>q'. ends f q q'"
    and put_enabled: "invar q \<Longrightarrow> length (contents q) < cap \<Longrightarrow> \<exists>q'. puts x q q'"
begin

definition winv :: "('a \<Rightarrow> bool) list \<Rightarrow> nat \<Rightarrow> ('q, 'a) work \<Rightarrow> bool" where
  "winv fs n s \<longleftrightarrow> invar (wk_q s) \<and> shut (wk_q s) = wk_closed s \<and>
     (wk_closed s \<longrightarrow> wk_todo s = []) \<and>
     length (wk_todo s) + length (contents (wk_q s)) + total_count fs s = n \<and>
     (\<forall>i<length fs. wk_done s i \<longrightarrow> wk_closed s \<and> (\<forall>x\<in>set (contents (wk_q s)). \<not> (fs ! i) x))"

abbreviation "wstep \<equiv> work_step takes ends puts closes"

lemma count_upd:
  assumes "i < length fs"
  shows "total_count fs (s\<lparr>wk_q := q, wk_cnt := (wk_cnt s)(i := Suc (wk_cnt s i))\<rparr>)
    = Suc (total_count fs s)"
proof -
  have "(\<Sum>j<length fs. ((wk_cnt s)(i := Suc (wk_cnt s i))) j)
      = (\<Sum>j<length fs. wk_cnt s j + (if j = i then 1 else 0))"
    by (rule sum.cong) auto
  also have "\<dots> = (\<Sum>j<length fs. wk_cnt s j) + 1"
    using assms by (simp add: sum.distrib)
  finally show ?thesis by (simp add: total_count_def)
qed

lemma take_length:
  assumes "takes f q x q'" and "invar q"
  shows "length (contents q) = Suc (length (contents q'))"
    and "set (contents q') \<subseteq> set (contents q)"
proof -
  have m: "mset (contents q) = add_mset x (mset (contents q'))"
    using take_law[OF assms] by blast
  show "length (contents q) = Suc (length (contents q'))"
    using arg_cong[OF m, of size] by simp
  show "set (contents q') \<subseteq> set (contents q)"
    using arg_cong[OF m, of set_mset] by auto
qed

lemma winv_step: "wstep fs s t \<Longrightarrow> winv fs n s \<Longrightarrow> winv fs n t"
proof (induction rule: work_step.induct)
  case (main_put s x xs q)
  then have i: "invar (wk_q s)" "\<not> wk_closed s" by (auto simp: winv_def)
  from put_law[OF main_put(2) i(1)] main_put i show ?case
    by (auto simp: winv_def total_count_def)
next
  case (main_close s)
  then have "invar (wk_q s)" by (simp add: winv_def)
  from close_law[OF this] main_close show ?case
    by (auto simp: winv_def total_count_def)
next
  case (worker_get i s x q)
  then have i: "invar (wk_q s)" by (simp add: winv_def)
  note t = take_law[OF worker_get(3) i] take_length[OF worker_get(3) i]
  show ?case
    using worker_get t by (auto simp: winv_def count_upd)
next
  case (worker_break i s q)
  then have i: "invar (wk_q s)" by (simp add: winv_def)
  from end_law[OF worker_break(3) i] worker_break show ?case
    by (auto simp: winv_def total_count_def)
qed

lemma winv0: "invar q \<Longrightarrow> \<not> shut q \<Longrightarrow> contents q = [] \<Longrightarrow> winv fs (length items) (work0 q items)"
  by (simp add: winv_def work0_def total_count_def)

text \<open>When everything is joined, an unfiltered worker has left the queue empty.\<close>

lemma joined_total:
  assumes "winv fs n s" and "all_joined fs s" and "i < length fs" "fs ! i = (\<lambda>_. True)"
  shows "total_count fs s = n \<and> contents (wk_q s) = []"
proof -
  have "\<forall>x\<in>set (contents (wk_q s)). \<not> (fs ! i) x"
    using assms by (auto simp: winv_def all_joined_def)
  then have "contents (wk_q s) = []" using assms(4) by simp
  with assms(1,2) show ?thesis by (simp add: winv_def all_joined_def)
qed

text \<open>As long as not everything is joined, some thread can move.\<close>

lemma not_stuck:
  assumes inv: "winv fs n s" and nj: "\<not> all_joined fs s"
    and i: "i < length fs" "fs ! i = (\<lambda>_. True)"
  shows "\<exists>t. wstep fs s t"
proof (cases "wk_todo s")
  case (Cons x xs)
  then have open_q: "\<not> wk_done s i" "invar (wk_q s)" using inv i by (auto simp: winv_def)
  show ?thesis
  proof (cases "length (contents (wk_q s)) < cap")
    case True
    then show ?thesis
      using put_enabled[OF open_q(2)] work_step.main_put[OF Cons] by metis
  next
    case False
    then have "\<exists>y\<in>set (contents (wk_q s)). (fs ! i) y"
      using cap_pos i(2) by (cases "contents (wk_q s)") auto
    then show ?thesis
      using take_enabled[OF open_q(2)] work_step.worker_get[where i = i, OF i(1) open_q(1)] by metis
  qed
next
  case Nil
  show ?thesis
  proof (cases "wk_closed s")
    case False
    then show ?thesis using work_step.main_close[OF Nil] by metis
  next
    case True
    then obtain j where j: "j < length fs" "\<not> wk_done s j"
      using nj Nil by (auto simp: all_joined_def)
    have q: "invar (wk_q s)" "shut (wk_q s)" using inv True by (auto simp: winv_def)
    show ?thesis
      using take_enabled[OF q(1)] end_enabled[OF q] work_step.worker_get[where i = j, OF j]
        work_step.worker_break[where i = j, OF j] by metis
  qed
qed

text \<open>Every step uses up something: an item to put, an element, the close, a worker.\<close>

definition budget :: "('a \<Rightarrow> bool) list \<Rightarrow> ('q, 'a) work \<Rightarrow> nat" where
  "budget fs s = 2 * length (wk_todo s) + length (contents (wk_q s)) +
     (if wk_closed s then 0 else 1) + card {i. i < length fs \<and> \<not> wk_done s i}"

lemma budget_step: "wstep fs s t \<Longrightarrow> winv fs n s \<Longrightarrow> Suc (budget fs t) \<le> budget fs s"
proof (induction rule: work_step.induct)
  case (main_put s x xs q)
  then have "invar (wk_q s)" by (simp add: winv_def)
  from put_law[OF main_put(2) this] main_put(1) show ?case by (simp add: budget_def)
next
  case (main_close s)
  then have "invar (wk_q s)" by (simp add: winv_def)
  from close_law[OF this] main_close show ?case by (simp add: budget_def)
next
  case (worker_get i s x q)
  then have "invar (wk_q s)" by (simp add: winv_def)
  from take_length(1)[OF worker_get(3) this] show ?case by (simp add: budget_def)
next
  case (worker_break i s q)
  then have i: "invar (wk_q s)" by (simp add: winv_def)
  let ?A = "{j. j < length fs \<and> \<not> wk_done s j}"
  have "{j. j < length fs \<and> \<not> ((wk_done s)(i := True)) j} = ?A - {i}" by auto
  moreover have "i \<in> ?A" "finite ?A" using worker_break by auto
  ultimately have "Suc (card {j. j < length fs \<and> \<not> ((wk_done s)(i := True)) j}) = card ?A"
    by (metis card_Suc_Diff1)
  with end_law[OF worker_break(3) i] show ?case by (simp add: budget_def)
qed

definition wstart :: "nat \<Rightarrow> ('q, 'a) work \<Rightarrow> bool" where
  "wstart n s \<longleftrightarrow> (\<exists>q items. s = work0 q items \<and> n = length items \<and> invar q \<and> \<not> shut q \<and> contents q = [])"

lemma budget0: "contents q = [] \<Longrightarrow> budget fs (work0 q items) = 2 * length items + 1 + length fs"
proof -
  have "{i. i < length fs} = {..<length fs}" by auto
  then show "contents q = [] \<Longrightarrow> budget fs (work0 q items) = 2 * length items + 1 + length fs"
    by (simp add: budget_def work0_def)
qed

end

sublocale work_queue \<subseteq> runs: bounded_system "wstart n" "wstep fs" "winv fs n" "budget fs" for n fs
proof (unfold_locales, goal_cases)
  case (1 s)
  then show ?case by (auto simp: wstart_def intro: winv0)
next
  case (2 s t)
  then show ?case by (rule winv_step)
next
  case (3 s t)
  then show ?case using budget_step by fastforce
qed

section \<open>The blocking queue provides it\<close>

definition bq_takes :: "('a \<Rightarrow> bool) \<Rightarrow> 'a bqueue \<Rightarrow> 'a \<Rightarrow> 'a bqueue \<Rightarrow> bool" where
  "bq_takes f q x q' \<longleftrightarrow> bq_get f q = GetTrue x q'"

definition bq_ends :: "('a \<Rightarrow> bool) \<Rightarrow> 'a bqueue \<Rightarrow> 'a bqueue \<Rightarrow> bool" where
  "bq_ends f q q' \<longleftrightarrow> bq_get f q = GetFalse q'"

definition bq_puts :: "'a \<Rightarrow> 'a bqueue \<Rightarrow> 'a bqueue \<Rightarrow> bool" where
  "bq_puts x q q' \<longleftrightarrow> bq_put x True q = PutTrue q'"

text \<open>The default argument of the constructor.\<close>

definition default_limit :: cint where
  "default_limit = 0x7FFFFFFF"

lemma default_limit_size: "size_of_int default_limit = 2147483647"
  by (simp add: default_limit_def size_of_int_def)

abbreviation "bq_work_step \<equiv> work_step bq_takes bq_ends bq_puts bq_close"

interpretation wq: work_queue q_elems q_closed "\<lambda>q. q_size_limit q = default_limit"
  "size_of_int default_limit" bq_takes bq_ends bq_puts bq_close
proof (unfold_locales, goal_cases)
  case 1
  then show ?case by (simp add: default_limit_size)
next
  case (2 f q x q')
  then have g: "bq_get f q = GetTrue x q'" by (simp add: bq_takes_def)
  then have "f x" using bq_get_TrueD(1,2) scan_hit by metis
  with 2(2) show ?case using bq_get_TrueD(4,5)[OF g] bq_get_mset[OF g] by simp
next
  case (3 f q q')
  then have "bq_get f q = GetFalse q'" by (simp add: bq_ends_def)
  from bq_get_FalseD[OF this] 3 show ?case by simp
next
  case (4 x q q')
  then show ?case using bq_put_TrueD[of x True q q'] by (simp add: bq_puts_def)
next
  case (5 q)
  then show ?case by (simp add: bq_close_def)
next
  case (6 q f)
  then have "scan f (q_elems q) < length (q_elems q)" by (simp add: scan_lt_iff)
  then show ?case by (auto simp: bq_takes_def bq_get_def get_ready_def Let_def)
next
  case (7 q f)
  then have "scan f (q_elems q) = length (q_elems q)" by (simp add: scan_eq_length_iff)
  with 7 show ?case by (auto simp: bq_ends_def bq_get_def get_ready_def Let_def)
next
  case (8 q x)
  then show ?case by (auto simp: bq_puts_def bq_put_def not_full_def)
qed

lemma bq_new_start:
  "q_size_limit (bq_new default_limit) = default_limit" "\<not> q_closed (bq_new default_limit)"
  "q_elems (bq_new default_limit) = []"
  by (simp_all add: bq_new_def)

lemma bq_new_wstart: "wq.wstart (length items) (work0 (bq_new default_limit) items)"
  using bq_new_start by (auto simp: wq.wstart_def)

section \<open>Properties\<close>

text \<open>When a run of workers over the queue has been joined, the counters add up to the
  number of items put and the queue is empty, provided one worker takes every element.\<close>
theorem workers_count_all:
  assumes "(bq_work_step fs)\<^sup>*\<^sup>* (work0 (bq_new default_limit) items) s"
    and "all_joined fs s" and "i < length fs" and "fs ! i = (\<lambda>_. True)"
  shows "total_count fs s = length items \<and> bq_size (wk_q s) = 0"
  using wq.joined_total[OF wq.runs.reach_inv[OF assms(1) bq_new_wstart] assms(2-)]
  by (simp add: bq_size_def)

definition joined_example :: "(int bqueue, int) work" where
  "joined_example = \<lparr>wk_q = bq_close (bq_new default_limit), wk_todo = [], wk_closed = True,
     wk_cnt = (\<lambda>_. 0), wk_done = (\<lambda>_. False)(0 := True)\<rparr>"

lemma joined_example_reachable:
  "(bq_work_step [\<lambda>_. True])\<^sup>*\<^sup>* (work0 (bq_new default_limit) []) joined_example"
proof -
  let ?init = "work0 (bq_new default_limit) [] :: (int bqueue, int) work"
  let ?shut = "?init\<lparr>wk_q := bq_close (wk_q ?init), wk_closed := True\<rparr>"
  have "bq_work_step [\<lambda>_. True] ?init ?shut"
    by (rule work_step.main_close) (simp_all add: work0_def)
  moreover have "bq_ends (\<lambda>_. True) (wk_q ?shut) (wk_q ?shut)"
    by (simp add: bq_ends_def bq_get_def get_ready_def work0_def bq_close_def bq_new_def
        note_max_def size_of_int_def)
  then have "bq_work_step [\<lambda>_. True] ?shut joined_example"
    using work_step.worker_break [of 0 "[\<lambda>_. True]" ?shut bq_ends "wk_q ?shut"]
    by (simp add: work0_def joined_example_def)
  ultimately show ?thesis by (meson converse_rtranclp_into_rtranclp rtranclp.rtrancl_refl)
qed

theorem workers_count_all_witness: "total_count [\<lambda>_. True] joined_example = length ([] :: int list)"
  using workers_count_all[OF joined_example_reachable, of 0]
  by (simp add: all_joined_def joined_example_def)

text \<open>C8: the program of test 2 (two workers without a filter, one that asks for elements of
  at least 9999, ten thousand items) never gets stuck before the joins return, takes at
  most 20004 steps in any schedule, and prints the total 10000.\<close>
theorem test2_terminates:
  assumes "(bq_work_step test2_filters ^^ k) (work0 (bq_new default_limit) test2_items) s"
  shows "k \<le> 20004 \<and>
     (all_joined test2_filters s \<or> (\<exists>t. bq_work_step test2_filters s t)) \<and>
     (all_joined test2_filters s \<longrightarrow> total_count test2_filters s = 10000)"
proof -
  have run: "wq.winv test2_filters 10000 s \<and> k + wq.budget test2_filters s \<le> 20004"
    using wq.runs.run_bound[OF assms bq_new_wstart] wq.budget0[OF bq_new_start(3), of test2_filters test2_items]
    by (simp add: test2_items_def test2_filters_def)
  then have inv: "wq.winv test2_filters 10000 s" by blast
  have i: "0 < length test2_filters" "test2_filters ! 0 = (\<lambda>_. True)"
    by (simp_all add: test2_filters_def thread_filter_def)
  show ?thesis
    using run wq.not_stuck[OF inv _ i] wq.joined_total[OF inv _ i] by auto
qed

theorem test2_terminates_witness:
  "\<exists>t. bq_work_step test2_filters (work0 (bq_new default_limit) test2_items) t"
  using test2_terminates[of 0 "work0 (bq_new default_limit) test2_items"]
  by (simp add: all_joined_def work0_def)

end
