(* ===== verification/ThreadPool.thy ===== *)
theory ThreadPool
  imports Prelude
begin

text \<open>
  \<open>thread_pool.h\<close>: the class \<open>ThreadPool\<close> as a step relation. The workers' loop, \<open>enqueue\<close>
  and \<open>stop_all\<close> (whose critical section and notification the destructor shares) are split
  at the points where the mutex is released: \<open>enqueue\<close> notifies after its critical section,
  and so does \<open>stop_all\<close>. A task may itself call \<open>enqueue\<close>, so the callers of \<open>enqueue\<close> are
  outside threads and running workers.
\<close>

section \<open>State\<close>

datatype 'a worker =
    WTop             \<comment> \<open>before the critical section: next round of the loop, or woken\<close>
  | WAsleep          \<comment> \<open>in \<open>condition.wait\<close>\<close>
  | WRun 'a          \<comment> \<open>in \<open>task()\<close>\<close>
  | WExit            \<comment> \<open>returned, or never started\<close>

datatype 'a enq =
    EOut
  | ETry 'a          \<comment> \<open>before the critical section of \<open>enqueue\<close>\<close>
  | EAsleep 'a       \<comment> \<open>in \<open>condition_notfull.wait\<close>\<close>
  | ENotify          \<comment> \<open>after the critical section, before \<open>condition.notify_one()\<close>\<close>

datatype caller = Client nat | Worker nat

text \<open>
  \<open>pl_stopping\<close> counts the calls of \<open>stop_all\<close> between their critical section and their
  \<open>notify_all\<close>; \<open>pl_enqueued\<close> and \<open>pl_started\<close> record the tasks in the order in which they
  entered and left the queue.
\<close>

record 'a pool =
  pl_tasks :: "'a list"
  pl_stop :: bool
  pl_limit :: nat
  pl_workers :: "nat \<Rightarrow> 'a worker"
  pl_enq :: "caller \<Rightarrow> 'a enq"
  pl_stopping :: nat
  pl_enqueued :: "'a list"
  pl_started :: "'a list"

text \<open>The constructor \<open>ThreadPool(threads, work_limits)\<close>.\<close>

definition pool0 :: "nat \<Rightarrow> nat \<Rightarrow> 'a pool" where
  "pool0 threads limit = \<lparr>pl_tasks = [], pl_stop = False, pl_limit = limit,
     pl_workers = (\<lambda>i. if i < threads then WTop else WExit), pl_enq = (\<lambda>_. EOut),
     pl_stopping = 0, pl_enqueued = [], pl_started = []\<rparr>"

text \<open>The predicates of the two waits.\<close>

definition work_ready :: "'a pool \<Rightarrow> bool" where
  "work_ready p \<longleftrightarrow> pl_stop p \<or> pl_tasks p \<noteq> []"

definition room_ready :: "'a pool \<Rightarrow> bool" where
  "room_ready p \<longleftrightarrow> pl_stop p \<or> length (pl_tasks p) < pl_limit p"

section \<open>Notifications\<close>

fun wake_enq :: "'a enq \<Rightarrow> 'a enq" where
  "wake_enq (EAsleep x) = ETry x"
| "wake_enq e = e"

fun wake_worker :: "'a worker \<Rightarrow> 'a worker" where
  "wake_worker WAsleep = WTop"
| "wake_worker w = w"

text \<open>\<open>notify_one\<close> wakes one sleeper of the system's choice, if there is one.\<close>

definition notify_one :: "(nat \<Rightarrow> 'a worker) \<Rightarrow> (nat \<Rightarrow> 'a worker) \<Rightarrow> bool" where
  "notify_one w w' \<longleftrightarrow>
     (if \<exists>i. w i = WAsleep then \<exists>i. w i = WAsleep \<and> w' = w(i := WTop) else w' = w)"

section \<open>Steps\<close>

text \<open>\<open>sp\<close> says whether the condition variables may wake a thread spuriously.\<close>

inductive pool_step :: "bool \<Rightarrow> 'a pool \<Rightarrow> 'a pool \<Rightarrow> bool" for sp where
  worker_sleeps: "pl_workers p i = WTop \<Longrightarrow> \<not> work_ready p \<Longrightarrow>
     pool_step sp p (p\<lparr>pl_workers := (pl_workers p)(i := WAsleep)\<rparr>)"
| worker_returns: "pl_workers p i = WTop \<Longrightarrow> pl_stop p \<Longrightarrow> pl_tasks p = [] \<Longrightarrow>
     pool_step sp p (p\<lparr>pl_workers := (pl_workers p)(i := WExit)\<rparr>)"
| worker_takes: "pl_workers p i = WTop \<Longrightarrow> pl_tasks p = x # xs \<Longrightarrow>
     pool_step sp p (p\<lparr>pl_workers := (pl_workers p)(i := WRun x), pl_tasks := xs,
       pl_enq := wake_enq \<circ> pl_enq p, pl_started := pl_started p @ [x]\<rparr>)"
| worker_done: "pl_workers p i = WRun x \<Longrightarrow> pl_enq p (Worker i) = EOut \<Longrightarrow>
     pool_step sp p (p\<lparr>pl_workers := (pl_workers p)(i := WTop)\<rparr>)"
| enqueue_called: "pl_enq p c = EOut \<Longrightarrow> (\<forall>i. c = Worker i \<longrightarrow> (\<exists>y. pl_workers p i = WRun y)) \<Longrightarrow>
     pool_step sp p (p\<lparr>pl_enq := (pl_enq p)(c := ETry x)\<rparr>)"
| enqueue_sleeps: "pl_enq p c = ETry x \<Longrightarrow> \<not> room_ready p \<Longrightarrow>
     pool_step sp p (p\<lparr>pl_enq := (pl_enq p)(c := EAsleep x)\<rparr>)"
| enqueue_puts: "pl_enq p c = ETry x \<Longrightarrow> room_ready p \<Longrightarrow>
     pool_step sp p (p\<lparr>pl_enq := (pl_enq p)(c := ENotify), pl_tasks := pl_tasks p @ [x],
       pl_enqueued := pl_enqueued p @ [x]\<rparr>)"
| enqueue_notifies: "pl_enq p c = ENotify \<Longrightarrow> notify_one (pl_workers p) w \<Longrightarrow>
     pool_step sp p (p\<lparr>pl_enq := (pl_enq p)(c := EOut), pl_workers := w\<rparr>)"
| stop_sets: "pool_step sp p (p\<lparr>pl_stop := True, pl_stopping := Suc (pl_stopping p)\<rparr>)"
| stop_notifies: "pl_stopping p = Suc n \<Longrightarrow>
     pool_step sp p (p\<lparr>pl_stopping := n, pl_workers := wake_worker \<circ> pl_workers p\<rparr>)"
| spurious_worker: "sp \<Longrightarrow> pl_workers p i = WAsleep \<Longrightarrow>
     pool_step sp p (p\<lparr>pl_workers := (pl_workers p)(i := WTop)\<rparr>)"
| spurious_enqueue: "sp \<Longrightarrow> pl_enq p c = EAsleep x \<Longrightarrow>
     pool_step sp p (p\<lparr>pl_enq := (pl_enq p)(c := ETry x)\<rparr>)"

text \<open>The joins of \<open>stop_all\<close> return when every worker has returned.\<close>

definition pool_joined :: "'a pool \<Rightarrow> bool" where
  "pool_joined p \<longleftrightarrow> (\<forall>i. pl_workers p i = WExit)"

lemma wake_enq_iff [wake_simps]:
  "wake_enq e = EOut \<longleftrightarrow> e = EOut" "wake_enq e = ENotify \<longleftrightarrow> e = ENotify"
  "wake_enq e = EAsleep x \<longleftrightarrow> False"
  by (cases e; simp)+

lemma wake_worker_iff [wake_simps]:
  "wake_worker w = WAsleep \<longleftrightarrow> False" "wake_worker w = WExit \<longleftrightarrow> w = WExit"
  "wake_worker w = WRun x \<longleftrightarrow> w = WRun x"
  by (cases w; simp)+

lemma wake_worker_id: "w \<noteq> WAsleep \<Longrightarrow> wake_worker w = w"
  by (cases w) simp_all

section \<open>Invariant\<close>

text \<open>
  The worker threads that are awake before the critical section and the calls of \<open>enqueue\<close>
  that still owe a notification. If any worker sleeps, they are at least as many as the
  tasks in the queue: so no task is forgotten while a worker sleeps.
\<close>

definition awake :: "(nat \<Rightarrow> 'a worker) \<Rightarrow> nat" where
  "awake w = card {i. w i = WTop}"

definition owing :: "(caller \<Rightarrow> 'a enq) \<Rightarrow> nat" where
  "owing e = card {c. e c = ENotify}"

definition busy_callers :: "(caller \<Rightarrow> 'a enq) \<Rightarrow> bool" where
  "busy_callers e \<longleftrightarrow> finite {c. e c \<noteq> EOut}"

definition pool_inv :: "nat \<Rightarrow> 'a pool \<Rightarrow> bool" where
  "pool_inv n p \<longleftrightarrow>
     (\<forall>i\<ge>n. pl_workers p i = WExit) \<and>
     busy_callers (pl_enq p) \<and>
     (\<forall>i. pl_workers p i = WAsleep \<longrightarrow> pl_stop p \<longrightarrow> 0 < pl_stopping p) \<and>
     (\<forall>i. pl_workers p i = WAsleep \<longrightarrow>
        length (pl_tasks p) \<le> awake (pl_workers p) + owing (pl_enq p)) \<and>
     (\<not> pl_stop p \<longrightarrow> length (pl_tasks p) \<le> pl_limit p) \<and>
     (\<forall>i<n. pl_workers p i = WExit \<longrightarrow> pl_stop p) \<and>
     (0 < pl_stopping p \<longrightarrow> pl_stop p) \<and>
     pl_enqueued p = pl_started p @ pl_tasks p"

subsection \<open>Counting after one thread moves\<close>

lemma awake_in:
  assumes "\<forall>i\<ge>n. w i = WExit" and "w j \<noteq> WTop"
  shows "awake (w(j := WTop)) = Suc (awake w)"
proof -
  have "{i. w i = WTop} \<subseteq> {..<n}" using assms(1) by (auto simp: not_less[symmetric])
  then have "finite {i. w i = WTop}" by (rule finite_subset) simp
  moreover have "{i. (w(j := WTop)) i = WTop} = insert j {i. w i = WTop}" by auto
  ultimately show ?thesis using assms(2) by (simp add: awake_def)
qed

lemma awake_out:
  assumes "\<forall>i\<ge>n. w i = WExit" and "w j = WTop" and "y \<noteq> WTop"
  shows "awake w = Suc (awake (w(j := y)))"
proof -
  have "(w(j := y))(j := WTop) = w" using assms(2) by auto
  moreover have "\<forall>i\<ge>max n (Suc j). (w(j := y)) i = WExit" using assms(1) by auto
  ultimately show ?thesis using awake_in[of "max n (Suc j)" "w(j := y)" j] assms(3) by simp
qed

lemma busy_upd: "busy_callers e \<Longrightarrow> busy_callers (e(c := y))"
  unfolding busy_callers_def
  by (rule finite_subset [of _ "insert c {d. e d \<noteq> EOut}"]) auto

lemma owing_in:
  assumes "busy_callers e" and "e c \<noteq> ENotify"
  shows "owing (e(c := ENotify)) = Suc (owing e)"
proof -
  have "finite {d. e d = ENotify}"
    using assms(1) unfolding busy_callers_def by (rule rev_finite_subset) auto
  moreover have "{d. (e(c := ENotify)) d = ENotify} = insert c {d. e d = ENotify}" by auto
  ultimately show ?thesis using assms(2) by (simp add: owing_def)
qed

lemma owing_out:
  assumes "busy_callers e" and "e c = ENotify" and "y \<noteq> ENotify"
  shows "owing e = Suc (owing (e(c := y)))"
proof -
  have "(e(c := y))(c := ENotify) = e" using assms(2) by auto
  then show ?thesis using owing_in[OF busy_upd[OF assms(1)], of c y c] assms(3) by simp
qed

lemma owing_other:
  assumes "e c \<noteq> ENotify" and "y \<noteq> ENotify"
  shows "owing (e(c := y)) = owing e"
proof -
  have "{d. (e(c := y)) d = ENotify} = {d. e d = ENotify}" using assms by auto
  then show ?thesis by (simp add: owing_def)
qed

lemma owing_wake [simp]: "owing (wake_enq \<circ> e) = owing e"
  and busy_wake [simp]: "busy_callers (wake_enq \<circ> e) = busy_callers e"
  by (simp_all add: owing_def busy_callers_def wake_simps)

subsection \<open>Every step keeps the invariant\<close>

lemma pool_inv_sleeps:
  assumes "pool_inv n p" "pl_workers p i = WTop" "\<not> work_ready p"
  shows "pool_inv n (p\<lparr>pl_workers := (pl_workers p)(i := WAsleep)\<rparr>)"
  using assms by (auto simp: pool_inv_def work_ready_def)

lemma pool_inv_returns:
  assumes "pool_inv n p" "pl_workers p i = WTop" "pl_stop p" "pl_tasks p = []"
  shows "pool_inv n (p\<lparr>pl_workers := (pl_workers p)(i := WExit)\<rparr>)"
  using assms by (auto simp: pool_inv_def)

lemma pool_inv_takes:
  assumes inv: "pool_inv n p" and i: "pl_workers p i = WTop" and x: "pl_tasks p = x # xs"
  shows "pool_inv n (p\<lparr>pl_workers := (pl_workers p)(i := WRun x), pl_tasks := xs,
       pl_enq := wake_enq \<circ> pl_enq p, pl_started := pl_started p @ [x]\<rparr>)"
proof -
  have "awake (pl_workers p) = Suc (awake ((pl_workers p)(i := WRun x)))"
    using inv i by (intro awake_out[of n]) (auto simp: pool_inv_def)
  with assms show ?thesis by (auto simp: pool_inv_def)
qed

lemma pool_inv_wakes:
  assumes inv: "pool_inv n p" and i: "pl_workers p i \<noteq> WTop" "pl_workers p i \<noteq> WExit"
  shows "pool_inv n (p\<lparr>pl_workers := (pl_workers p)(i := WTop)\<rparr>)"
proof -
  have "awake ((pl_workers p)(i := WTop)) = Suc (awake (pl_workers p))"
    using inv i by (intro awake_in[of n]) (auto simp: pool_inv_def)
  with assms show ?thesis by (auto simp: pool_inv_def)
qed

lemma pool_inv_called:
  assumes inv: "pool_inv n p" and c: "pl_enq p c \<noteq> ENotify" "y \<noteq> ENotify"
  shows "pool_inv n (p\<lparr>pl_enq := (pl_enq p)(c := y)\<rparr>)"
  using inv owing_other[of "pl_enq p" c, OF c] busy_upd[of "pl_enq p" c y] by (simp add: pool_inv_def)

lemma pool_inv_puts:
  assumes inv: "pool_inv n p" and c: "pl_enq p c = ETry x" and r: "room_ready p"
  shows "pool_inv n (p\<lparr>pl_enq := (pl_enq p)(c := ENotify), pl_tasks := pl_tasks p @ [x],
       pl_enqueued := pl_enqueued p @ [x]\<rparr>)"
proof -
  have b: "busy_callers (pl_enq p)" using inv by (simp add: pool_inv_def)
  have "owing ((pl_enq p)(c := ENotify)) = Suc (owing (pl_enq p))"
    using owing_in[OF b] c by simp
  with inv r busy_upd[OF b, of c ENotify] show ?thesis
    by (auto simp: pool_inv_def room_ready_def simp del: fun_upd_apply)
qed

lemma pool_inv_notifies:
  assumes inv: "pool_inv n p" and c: "pl_enq p c = ENotify" and w: "notify_one (pl_workers p) w"
  shows "pool_inv n (p\<lparr>pl_enq := (pl_enq p)(c := EOut), pl_workers := w\<rparr>)"
proof -
  have b: "busy_callers (pl_enq p)" using inv by (simp add: pool_inv_def)
  have o: "owing (pl_enq p) = Suc (owing ((pl_enq p)(c := EOut)))"
    using owing_out[OF b c] by simp
  show ?thesis
  proof (cases "\<exists>i. pl_workers p i = WAsleep")
    case True
    then obtain j where j: "pl_workers p j = WAsleep" "w = (pl_workers p)(j := WTop)"
      using w by (auto simp: notify_one_def)
    have a: "awake w = Suc (awake (pl_workers p))"
      unfolding j(2) using inv j(1) by (intro awake_in[of n]) (auto simp: pool_inv_def)
    have l: "length (pl_tasks p) \<le> awake (pl_workers p) + owing (pl_enq p)"
      using inv j(1) unfolding pool_inv_def by blast
    have s: "pl_stop p \<longrightarrow> 0 < pl_stopping p"
      using inv j(1) unfolding pool_inv_def by blast
    have e: "\<forall>i\<ge>n. w i = WExit" "\<forall>i<n. w i = WExit \<longrightarrow> pl_stop p"
      using inv j by (auto simp: pool_inv_def)
    show ?thesis
      using inv a o l s e busy_upd[OF b, of c EOut] by (simp add: pool_inv_def)
  next
    case False
    with w have "w = pl_workers p" by (simp add: notify_one_def)
    with inv False busy_upd[OF b, of c EOut] show ?thesis by (simp add: pool_inv_def)
  qed
qed

lemma pool_inv_step: "pool_step sp p q \<Longrightarrow> pool_inv n p \<Longrightarrow> pool_inv n q"
proof (induction rule: pool_step.induct)
  case (worker_takes p i x xs)
  then show ?case by (intro pool_inv_takes)
next
  case (worker_done p i x)
  then show ?case by (intro pool_inv_wakes) auto
next
  case (enqueue_called p c x)
  then show ?case by (intro pool_inv_called) auto
next
  case (enqueue_sleeps p c x)
  then show ?case by (intro pool_inv_called) auto
next
  case (enqueue_puts p c x)
  then show ?case by (intro pool_inv_puts)
next
  case (enqueue_notifies p c w)
  then show ?case by (intro pool_inv_notifies)
next
  case (stop_notifies p m)
  then show ?case by (auto simp: pool_inv_def wake_simps)
next
  case (spurious_worker p i)
  then show ?case by (intro pool_inv_wakes) auto
next
  case (spurious_enqueue p c x)
  then show ?case by (intro pool_inv_called) auto
next
  case (worker_sleeps p i)
  then show ?case by (intro pool_inv_sleeps)
next
  case (worker_returns p i)
  then show ?case by (intro pool_inv_returns)
next
  case (stop_sets p)
  then show ?case by (auto simp: pool_inv_def)
qed

interpretation pools: invariant_system "\<lambda>p. p = pool0 n limit" "pool_step sp" "pool_inv n"
  for n limit sp
proof (unfold_locales, goal_cases)
  case (1 p)
  then show ?case by (auto simp: pool0_def pool_inv_def busy_callers_def split: if_splits)
next
  case (2 p q)
  then show ?case by (rule pool_inv_step)
qed

lemmas pool_reach_inv = pools.reach_inv [OF _ refl]

section \<open>A stop that nobody hears\<close>

text \<open>A worker is in a call of \<open>enqueue\<close> only while it runs a task.\<close>

definition calls_ok :: "'a pool \<Rightarrow> bool" where
  "calls_ok p \<longleftrightarrow> (\<forall>i. pl_enq p (Worker i) = EOut \<or> (\<exists>y. pl_workers p i = WRun y))"

lemma calls_ok_step: "pool_step sp p q \<Longrightarrow> calls_ok p \<Longrightarrow> calls_ok q"
proof (induction rule: pool_step.induct)
  case (enqueue_notifies p c w)
  then have "w i = WRun y" if "pl_workers p i = WRun y" for i y
    using that by (auto simp: notify_one_def split: if_splits)
  then show ?case using enqueue_notifies by (auto simp: calls_ok_def)
qed (auto simp: calls_ok_def wake_simps; metis worker.distinct enq.distinct)+

lemma calls_ok_reach: "(pool_step sp)\<^sup>*\<^sup>* (pool0 n limit) p \<Longrightarrow> calls_ok p"
proof (induction rule: rtranclp_induct)
  case base
  then show ?case by (simp add: calls_ok_def pool0_def)
qed (rule calls_ok_step)

text \<open>Without spurious wake-ups only a worker that takes a task wakes a thread in \<open>enqueue\<close>.\<close>

lemma started_grows: "pool_step sp p q \<Longrightarrow> length (pl_started p) \<le> length (pl_started q)"
  by (induction rule: pool_step.induct) simp_all

lemma started_grows_reach: "(pool_step sp)\<^sup>*\<^sup>* p q \<Longrightarrow> length (pl_started p) \<le> length (pl_started q)"
  by (induction rule: rtranclp_induct) (auto dest: started_grows)

lemma asleep_step:
  "pool_step False p q \<Longrightarrow> pl_enq p c = EAsleep x \<Longrightarrow>
   pl_enq q c = EAsleep x \<or> length (pl_started p) < length (pl_started q)"
  by (induction rule: pool_step.induct) auto

lemma asleep_until_start:
  assumes "(pool_step False)\<^sup>*\<^sup>* p q" "pl_enq p c = EAsleep x" "length (pl_started q) = length (pl_started p)"
  shows "pl_enq q c = EAsleep x"
  using assms(1,3)
proof (induction rule: rtranclp_induct)
  case (step q r)
  then have "length (pl_started q) = length (pl_started p)" "length (pl_started r) = length (pl_started q)"
    using started_grows_reach[OF step.hyps(1)] started_grows[OF step.hyps(2)] by simp_all
  then show ?case using step.IH asleep_step[OF step.hyps(2)] by fastforce
qed (simp add: assms(2))

text \<open>When every worker has returned or sleeps in \<open>enqueue\<close>, no worker moves any more.\<close>

definition workers_stuck :: "'a pool \<Rightarrow> bool" where
  "workers_stuck p \<longleftrightarrow>
     (\<forall>i. pl_workers p i = WExit \<or> (\<exists>y z. pl_workers p i = WRun y \<and> pl_enq p (Worker i) = EAsleep z))"

lemma stuck_step:
  assumes "pool_step False p q" "workers_stuck p"
  shows "workers_stuck q \<and> pl_workers q = pl_workers p \<and> pl_started q = pl_started p \<and>
    (pl_stop p \<longrightarrow> pl_stop q)"
proof -
  have no: "pl_workers p i \<noteq> WTop" "pl_workers p i \<noteq> WAsleep" for i
    using assms(2) unfolding workers_stuck_def by (metis worker.distinct)+
  have busy: "pl_enq p (Worker i) \<noteq> EOut" if "pl_workers p i = WRun y" for i y
    using assms(2) that unfolding workers_stuck_def by (metis worker.distinct enq.distinct)
  have w: "pl_workers q = pl_workers p" and t: "pl_started q = pl_started p"
    and st: "pl_stop p \<longrightarrow> pl_stop q"
    and e: "\<And>i y. pl_enq p (Worker i) = EAsleep y \<Longrightarrow> pl_enq q (Worker i) = EAsleep y"
    using assms no busy
    by (induction rule: pool_step.induct)
      (auto simp: notify_one_def workers_stuck_def fun_eq_iff intro: wake_worker_id)
  show ?thesis using assms(2) w t st e unfolding workers_stuck_def by metis
qed

lemma stuck_reach:
  "(pool_step False)\<^sup>*\<^sup>* p q \<Longrightarrow> workers_stuck p \<Longrightarrow>
   workers_stuck q \<and> pl_workers q = pl_workers p \<and> pl_started q = pl_started p \<and> (pl_stop p \<longrightarrow> pl_stop q)"
  by (induction rule: rtranclp_induct) (auto dest: stuck_step)

text \<open>
  The run: an outside thread enqueues task 10, the worker takes it, the outside thread fills
  the queue with task 20, task 10 calls \<open>enqueue\<close> and sleeps, the pool is stopped.
\<close>

definition put_by :: "nat \<Rightarrow> nat \<Rightarrow> nat pool \<Rightarrow> nat pool" where
  "put_by c x p = p\<lparr>pl_tasks := pl_tasks p @ [x], pl_enqueued := pl_enqueued p @ [x]\<rparr>"

lemma put_by_reachable:
  assumes "pl_enq p = (\<lambda>_. EOut)" and "room_ready p" and "\<forall>i. pl_workers p i \<noteq> WAsleep"
  shows "(pool_step False)\<^sup>*\<^sup>* p (put_by c x p)"
proof -
  let ?a = "p\<lparr>pl_enq := (pl_enq p)(Client c := ETry x)\<rparr>"
  let ?b = "?a\<lparr>pl_enq := (pl_enq ?a)(Client c := ENotify), pl_tasks := pl_tasks ?a @ [x],
     pl_enqueued := pl_enqueued ?a @ [x]\<rparr>"
  let ?c = "?b\<lparr>pl_enq := (pl_enq ?b)(Client c := EOut), pl_workers := pl_workers p\<rparr>"
  have 1: "pool_step False p ?a"
    by (rule pool_step.enqueue_called) (simp_all add: assms)
  have 2: "pool_step False ?a ?b"
    by (rule pool_step.enqueue_puts) (use assms in \<open>simp_all add: room_ready_def\<close>)
  have 3: "pool_step False ?b ?c"
    by (rule pool_step.enqueue_notifies) (use assms in \<open>simp_all add: notify_one_def\<close>)
  have c: "put_by c x p = ?c"
    using assms(1) by (simp add: put_by_def fun_upd_idem)
  show ?thesis
    unfolding c by (rule steps3[where r = "pool_step False", OF 1 2 3])
qed

definition unheard_example :: "nat pool" where
  "unheard_example = \<lparr>pl_tasks = [20], pl_stop = True, pl_limit = 1,
     pl_workers = (\<lambda>i. if i < 1 then WTop else WExit)(0 := WRun 10),
     pl_enq = (\<lambda>_. EOut)(Worker 0 := EAsleep 30), pl_stopping = 0,
     pl_enqueued = [10, 20], pl_started = [10]\<rparr>"

lemma unheard_example_reachable: "(pool_step False)\<^sup>*\<^sup>* (pool0 1 1) unheard_example"
proof -
  define p where "p = put_by 0 10 (pool0 1 1)"
  define q where "q = p\<lparr>pl_workers := (pl_workers p)(0 := WRun 10), pl_tasks := [],
       pl_enq := wake_enq \<circ> pl_enq p, pl_started := pl_started p @ [10]\<rparr>"
  define r where "r = put_by 0 20 q"
  define u where "u = r\<lparr>pl_enq := (pl_enq r)(Worker 0 := ETry 30)\<rparr>"
  define v where "v = u\<lparr>pl_enq := (pl_enq u)(Worker 0 := EAsleep 30)\<rparr>"
  define w where "w = v\<lparr>pl_stop := True, pl_stopping := Suc (pl_stopping v)\<rparr>"
  define x where "x = w\<lparr>pl_stopping := 0, pl_workers := wake_worker \<circ> pl_workers w\<rparr>"
  have p: "pl_workers p = (\<lambda>i. if i < 1 then WTop else WExit)" "pl_tasks p = [10]"
    "pl_enq p = (\<lambda>_. EOut)" "pl_stop p = False" "pl_limit p = 1" "pl_stopping p = 0"
    "pl_enqueued p = [10]" "pl_started p = []"
    by (simp_all add: p_def put_by_def pool0_def)
  have q: "pl_workers q = (pl_workers p)(0 := WRun 10)" "pl_tasks q = []"
    "pl_enq q = (\<lambda>_. EOut)" "pl_stop q = False" "pl_limit q = 1" "pl_stopping q = 0"
    "pl_enqueued q = [10]" "pl_started q = [10]"
    by (simp_all add: q_def p fun_eq_iff)
  have r: "pl_workers r = pl_workers q" "pl_tasks r = [20]"
    "pl_enq r = (\<lambda>_. EOut)" "pl_stop r = False" "pl_limit r = 1" "pl_stopping r = 0"
    "pl_enqueued r = [10, 20]" "pl_started r = [10]"
    by (simp_all add: r_def put_by_def q)
  have 1: "(pool_step False)\<^sup>*\<^sup>* (pool0 1 1) p"
    unfolding p_def by (rule put_by_reachable) (simp_all add: pool0_def room_ready_def)
  have 2: "pool_step False p q"
    unfolding q_def by (rule pool_step.worker_takes) (simp_all add: p)
  have 3: "(pool_step False)\<^sup>*\<^sup>* q r"
    unfolding r_def by (rule put_by_reachable) (simp_all add: p q room_ready_def)
  have 4: "pool_step False r u"
    unfolding u_def by (rule pool_step.enqueue_called) (simp_all add: q r)
  have 5: "pool_step False u v"
    unfolding v_def by (rule pool_step.enqueue_sleeps) (simp_all add: u_def room_ready_def r)
  have 6: "pool_step False v w"
    unfolding w_def by (rule pool_step.stop_sets)
  have 7: "pool_step False w x"
    unfolding x_def by (rule pool_step.stop_notifies) (simp add: w_def v_def u_def r)
  have "x = unheard_example"
    by (rule pool.equality) (simp_all add: x_def w_def v_def u_def unheard_example_def r q p fun_eq_iff)
  with 1 2 3 steps4[where r = "pool_step False", OF 4 5 6 7] show ?thesis
    by (meson rtranclp.rtrancl_into_rtrancl rtranclp_trans)
qed

section \<open>Properties\<close>

text \<open>C2: in every reachable state of a pool, if a worker sleeps on \<open>condition\<close> then \<open>stop\<close> is
  not set (or its notification is still to come), and the queue holds no more tasks than there
  are awake workers and \<open>enqueue\<close> calls about to notify: a task never waits for a sleeper
  that nobody will wake.\<close>
theorem pool_no_stranded_task:
  assumes "(pool_step sp)\<^sup>*\<^sup>* (pool0 n limit) p" and "pl_workers p i = WAsleep"
  shows "(pl_stop p \<longrightarrow> 0 < pl_stopping p) \<and>
     length (pl_tasks p) \<le> awake (pl_workers p) + owing (pl_enq p)"
  using pool_reach_inv[OF assms(1)] assms(2) by (auto simp: pool_inv_def)

definition sleeper_example :: "nat pool" where
  "sleeper_example = (pool0 1 1)\<lparr>pl_workers := (\<lambda>i. if i < 1 then WTop else WExit)(0 := WAsleep)\<rparr>"

lemma sleeper_example_reachable: "(pool_step False)\<^sup>*\<^sup>* (pool0 1 1) sleeper_example"
  using steps1[where r = "pool_step False", OF pool_step.worker_sleeps [of "pool0 1 1 :: nat pool" 0 False]]
  by (simp add: sleeper_example_def pool0_def work_ready_def)

theorem pool_no_stranded_task_witness:
  "length (pl_tasks sleeper_example) \<le> awake (pl_workers sleeper_example) + owing (pl_enq sleeper_example)"
  using pool_no_stranded_task[OF sleeper_example_reachable, of 0]
  by (simp add: sleeper_example_def)

text \<open>C33: tasks are started in the order in which they were enqueued, each exactly once, and
  as long as the pool is not stopped the queue holds at most \<open>work_limits\<close> tasks.\<close>
theorem pool_fifo_bounded:
  assumes "(pool_step sp)\<^sup>*\<^sup>* (pool0 n limit) p"
  shows "pl_enqueued p = pl_started p @ pl_tasks p \<and>
     (\<not> pl_stop p \<longrightarrow> length (pl_tasks p) \<le> pl_limit p)"
  using pool_reach_inv[OF assms] by (simp add: pool_inv_def)

theorem pool_fifo_bounded_witness:
  "pl_enqueued unheard_example = pl_started unheard_example @ pl_tasks unheard_example"
  using pool_fifo_bounded[OF unheard_example_reachable] by blast

text \<open>A worker of the pool returns from its loop only when the pool has been stopped and
  every task enqueued so far has been started.\<close>
theorem pool_worker_exit:
  assumes "(pool_step sp)\<^sup>*\<^sup>* (pool0 n limit) p" and "pool_step sp p q"
    and "pl_workers p i \<noteq> WExit" and "pl_workers q i = WExit"
  shows "pl_stop p \<and> pl_started p = pl_enqueued p"
proof -
  have "pl_stop p \<and> pl_tasks p = []"
    using assms(2) assms(3,4)
    by (cases rule: pool_step.cases)
      (auto simp: wake_simps notify_one_def split: if_splits)
  with pool_reach_inv[OF assms(1)] show ?thesis by (simp add: pool_inv_def)
qed

theorem pool_worker_exit_witness:
  "\<exists>p q :: nat pool. pool_step False p q \<and> pl_workers q 0 = WExit \<and> pl_started p = pl_enqueued p"
proof -
  let ?p = "(pool0 1 1 :: nat pool)\<lparr>pl_stop := True, pl_stopping := 1\<rparr>"
  let ?q = "?p\<lparr>pl_workers := (pl_workers ?p)(0 := WExit)\<rparr>"
  have r: "(pool_step False)\<^sup>*\<^sup>* (pool0 1 1) ?p"
    using steps1[where r = "pool_step False", OF pool_step.stop_sets [of False "pool0 1 1 :: nat pool"]] by (simp add: pool0_def)
  have s: "pool_step False ?p ?q"
    by (rule pool_step.worker_returns) (simp_all add: pool0_def)
  have "pl_stop ?p \<and> pl_started ?p = pl_enqueued ?p"
    by (rule pool_worker_exit[OF r s, of 0]) (simp_all add: pool0_def)
  with s show ?thesis by force
qed

text \<open>C39: \<open>stop_all\<close> never wakes a thread asleep in \<open>enqueue\<close>, although the condition it waits for
  then holds. From any state that a pool of any size and limit reaches, and unless a condition
  variable wakes a thread spuriously: a thread asleep in \<open>enqueue\<close> is still asleep after any
  steps, those of \<open>stop_all\<close> included, as long as no worker takes a task from the queue. And once
  every worker has returned or sleeps in \<open>enqueue\<close> itself, it stays asleep for ever, and no worker
  moves any more: if one of them sleeps, the joins never return.\<close>
theorem pool_stop_deadlock:
  assumes "(pool_step False)\<^sup>*\<^sup>* (pool0 n limit) p" and "pl_enq p c = EAsleep x"
    and "(pool_step False)\<^sup>*\<^sup>* p q"
  shows "(pl_started q = pl_started p \<longrightarrow> pl_enq q c = EAsleep x) \<and>
    ((\<forall>i. pl_workers p i = WExit \<or> (\<exists>y. pl_enq p (Worker i) = EAsleep y)) \<longrightarrow>
       pl_enq q c = EAsleep x \<and> pl_workers q = pl_workers p \<and> (pl_stop p \<longrightarrow> room_ready q))"
proof -
  have "workers_stuck p" if "\<forall>i. pl_workers p i = WExit \<or> (\<exists>y. pl_enq p (Worker i) = EAsleep y)"
    using that calls_ok_reach[OF assms(1)] unfolding workers_stuck_def calls_ok_def by (metis enq.distinct(3))
  then show ?thesis
    using asleep_until_start[OF assms(3,2)] stuck_reach[OF assms(3)] by (auto simp: room_ready_def)
qed

theorem pool_stop_deadlock_witness:
  "(pool_step False)\<^sup>*\<^sup>* (pool0 1 1) unheard_example \<and> pl_stop unheard_example \<and> pl_stopping unheard_example = 0 \<and>
   \<not> (\<exists>q. (pool_step False)\<^sup>*\<^sup>* unheard_example q \<and> pool_joined q)"
proof -
  have e: "pl_enq unheard_example (Worker 0) = EAsleep 30" "pl_workers unheard_example 0 \<noteq> WExit"
    "\<forall>i. pl_workers unheard_example i = WExit \<or> (\<exists>y. pl_enq unheard_example (Worker i) = EAsleep y)"
    by (auto simp: unheard_example_def)
  have "pl_workers q = pl_workers unheard_example" if "(pool_step False)\<^sup>*\<^sup>* unheard_example q" for q
    using pool_stop_deadlock[OF unheard_example_reachable e(1) that] e(3) by blast
  then have "\<not> (\<exists>q. (pool_step False)\<^sup>*\<^sup>* unheard_example q \<and> pool_joined q)"
    using e(2) unfolding pool_joined_def by metis
  then show ?thesis using unheard_example_reachable by (simp add: unheard_example_def)
qed

end
