(* ===== verification/IpcService.thy ===== *)
theory IpcService
  imports Prelude
begin

text \<open>
  \<open>tipc.cpp\<close>: \<open>string_copy\<close> and the class \<open>ipc_io_service\<close> on Linux: its table from
  descriptors to connections (the array \<open>m_map_fast\<close> beside the map \<open>m_map\<close>) and the two
  operations that register a connection, \<open>associate\<close> and \<open>unassociate\<close>. System calls that
  change the epoll set are recorded in a log, whose meaning is \<open>interest\<close>.
\<close>

unbundle bit_operations_syntax

section \<open>\<open>string_copy\<close>\<close>

datatype std_error = OutOfRange

abbreviation "NUL \<equiv> CHR 0x00"

text \<open>
  The branch for POSIX: \<open>str.copy(dest, destsz - 1, pos)\<close> throws when \<open>pos\<close> is past the end
  and otherwise copies at most \<open>destsz - 1\<close> characters. \<open>dest\<close> is an array of \<open>destsz\<close>
  characters; the result is its new contents and the number copied.
\<close>

definition string_copy :: "string \<Rightarrow> string \<Rightarrow> nat \<Rightarrow> std_error + (string \<times> nat)" where
  "string_copy dest str pos =
     (if length str < pos then Inl OutOfRange
      else let destsz = length dest;
               cnt = min (destsz - 1) (length str - pos);
               copied = take cnt (drop pos str) @ drop cnt dest;
               cnt' = min cnt (destsz - 1)
           in Inr (copied[cnt' := NUL], cnt'))"

text \<open>The C string that a character array holds.\<close>

definition c_str :: "string \<Rightarrow> string" where
  "c_str xs = takeWhile (\<lambda>c. c \<noteq> NUL) xs"

section \<open>The table\<close>

type_synonym handle = "32 word"

definition INVALID_OS_HANDLE :: handle where "INVALID_OS_HANDLE = - 1"

datatype ep_call = EpAdd handle "32 word" | EpDel handle | FdClose handle

text \<open>
  \<open>m_map_fast\<close> has \<open>fast_size\<close> cells, numbered from 0; a cell or an entry of \<open>m_map\<close> holds a
  pointer, None being NULL. \<open>overrun\<close> records whether a cell outside the array has been read or
  written, which is undefined in C++. \<open>epoll_log\<close> lists the calls of \<open>epoll_ctl\<close> and of \<open>close\<close>
  on descriptors.
\<close>

record 'c io_service =
  map_fast :: "nat \<Rightarrow> 'c option"
  overrun :: bool
  map_slow :: "handle \<Rightarrow> 'c option option"
  epoll_log :: "ep_call list"

definition fast_size :: nat where "fast_size = 1024"

text \<open>The conversion \<open>(unsigned long)oshd\<close> of an \<open>int\<close> descriptor.\<close>

definition as_ulong :: "handle \<Rightarrow> nat" where
  "as_ulong h = unat (scast h :: 64 word)"

text \<open>
  The constructor on Linux does not initialise the array: its contents are whatever the
  memory held.
\<close>

definition io_service_new :: "(nat \<Rightarrow> 'c option) \<Rightarrow> 'c io_service" where
  "io_service_new memory = \<lparr>map_fast = memory, overrun = False, map_slow = (\<lambda>_. None), epoll_log = []\<rparr>"

text \<open>An access to \<open>m_map_fast[v]\<close>.\<close>

definition touch :: "nat \<Rightarrow> 'c io_service \<Rightarrow> 'c io_service" where
  "touch v s = s\<lparr>overrun := overrun s \<or> \<not> v < fast_size\<rparr>"

text \<open>\<open>get(oshd)\<close> read as a value: it inserts a NULL entry for a new handle of the map.\<close>

definition svc_get :: "handle \<Rightarrow> 'c io_service \<Rightarrow> 'c option \<times> 'c io_service" where
  "svc_get h s =
     (let v = as_ulong h in
      if v < fast_size then (map_fast s v, touch v s)
      else case map_slow s h of
             None \<Rightarrow> (None, s\<lparr>map_slow := (map_slow s)(h := Some None)\<rparr>)
           | Some p \<Rightarrow> (p, s))"

text \<open>\<open>get(oshd) = p\<close>: assignment through the returned reference.\<close>

definition svc_set :: "handle \<Rightarrow> 'c option \<Rightarrow> 'c io_service \<Rightarrow> 'c io_service" where
  "svc_set h p s =
     (let v = as_ulong h; s1 = snd (svc_get h s) in
      if v < fast_size then (touch v s1)\<lparr>map_fast := (map_fast s1)(v := p)\<rparr>
      else s1\<lparr>map_slow := (map_slow s1)(h := Some p)\<rparr>)"

definition svc_erase :: "handle \<Rightarrow> 'c io_service \<Rightarrow> 'c io_service" where
  "svc_erase h s =
     (let v = as_ulong h in
      if v < fast_size then (touch v s)\<lparr>map_fast := (map_fast s)(v := None)\<rparr>
      else s\<lparr>map_slow := (map_slow s)(h := None)\<rparr>)"

section \<open>Registration\<close>

definition EPOLLIN :: "32 word" where "EPOLLIN = 0x1"
definition EPOLLRDHUP :: "32 word" where "EPOLLRDHUP = 0x2000"

definition conn_events :: "32 word" where
  "conn_events = EPOLLIN OR EPOLLRDHUP"

definition ep_call :: "ep_call \<Rightarrow> 'c io_service \<Rightarrow> 'c io_service" where
  "ep_call e s = s\<lparr>epoll_log := epoll_log s @ [e]\<rparr>"

text \<open>\<open>associate(pconn)\<close> for a connection \<open>c\<close> whose \<open>native_handle()\<close> is \<open>h\<close>.\<close>

definition associate :: "handle \<Rightarrow> 'c \<Rightarrow> 'c io_service \<Rightarrow> 'c io_service" where
  "associate h c s =
     (if h = INVALID_OS_HANDLE then s
      else let (p, s1) = svc_get h s;
               s2 = (if p = None then ep_call (EpAdd h conn_events) s1 else s1)
           in svc_set h (Some c) s2)"

definition unassociate :: "handle \<Rightarrow> 'c io_service \<Rightarrow> 'c io_service" where
  "unassociate h s =
     (if h = INVALID_OS_HANDLE then s else svc_erase h (ep_call (EpDel h) s))"

text \<open>The descriptors epoll watches after a log: closing a descriptor removes it.\<close>

fun ep_apply :: "ep_call \<Rightarrow> handle set \<Rightarrow> handle set" where
  "ep_apply (EpAdd h ev) A = insert h A"
| "ep_apply (EpDel h) A = A - {h}"
| "ep_apply (FdClose h) A = A - {h}"

definition interest :: "'c io_service \<Rightarrow> handle set" where
  "interest s = fold ep_apply (epoll_log s) {}"

section \<open>The table as a map\<close>

definition svc_lookup :: "'c io_service \<Rightarrow> handle \<Rightarrow> 'c option" where
  "svc_lookup s h =
     (if as_ulong h < fast_size then map_fast s (as_ulong h)
      else case map_slow s h of None \<Rightarrow> None | Some p \<Rightarrow> p)"

text \<open>The operations of the table, as a client issues them one after the other.\<close>

datatype 'c table_op = TGet handle | TSet handle "'c option" | TErase handle

fun table_run ::
  "(handle \<Rightarrow> 's \<Rightarrow> 'c option \<times> 's) \<Rightarrow> (handle \<Rightarrow> 'c option \<Rightarrow> 's \<Rightarrow> 's) \<Rightarrow> (handle \<Rightarrow> 's \<Rightarrow> 's) \<Rightarrow>
   'c table_op list \<Rightarrow> 's \<Rightarrow> 'c option list \<times> 's" where
  "table_run g st er [] s = ([], s)"
| "table_run g st er (TGet h # ops) s =
     (let (p, s1) = g h s; (ps, s2) = table_run g st er ops s1 in (p # ps, s2))"
| "table_run g st er (TSet h p # ops) s = table_run g st er ops (st h p s)"
| "table_run g st er (TErase h # ops) s = table_run g st er ops (er h s)"

text \<open>The specification: a partial map from handles to pointers.\<close>

definition map_get :: "handle \<Rightarrow> (handle \<Rightarrow> 'c option) \<Rightarrow> 'c option \<times> (handle \<Rightarrow> 'c option)" where
  "map_get h m = (m h, m)"

definition map_set :: "handle \<Rightarrow> 'c option \<Rightarrow> (handle \<Rightarrow> 'c option) \<Rightarrow> (handle \<Rightarrow> 'c option)" where
  "map_set h p m = m(h := p)"

definition map_erase :: "handle \<Rightarrow> (handle \<Rightarrow> 'c option) \<Rightarrow> (handle \<Rightarrow> 'c option)" where
  "map_erase h m = m(h := None)"

locale conn_table =
  fixes lookup :: "'s \<Rightarrow> handle \<Rightarrow> 'c option"
    and get :: "handle \<Rightarrow> 's \<Rightarrow> 'c option \<times> 's"
    and set_at :: "handle \<Rightarrow> 'c option \<Rightarrow> 's \<Rightarrow> 's"
    and erase :: "handle \<Rightarrow> 's \<Rightarrow> 's"
  assumes get_value: "fst (get h s) = lookup s h"
    and get_frame: "lookup (snd (get h s)) = lookup s"
    and set_law: "lookup (set_at h p s) = (lookup s)(h := p)"
    and erase_law: "lookup (erase h s) = (lookup s)(h := None)"
begin

lemma run_refines:
  "fst (table_run get set_at erase ops s) = fst (table_run map_get map_set map_erase ops (lookup s)) \<and>
   lookup (snd (table_run get set_at erase ops s)) =
     snd (table_run map_get map_set map_erase ops (lookup s))"
proof (induction ops arbitrary: s)
  case Nil
  then show ?case by simp
next
  case (Cons op ops)
  show ?case
  proof (cases op)
    case (TGet h)
    have "get h s = (lookup s h, snd (get h s))"
      by (rule prod_eqI) (simp_all add: get_value)
    then show ?thesis using Cons[of "snd (get h s)"] TGet get_frame[of h s]
      by (auto simp: map_get_def Let_def split: prod.splits)
  next
    case (TSet h p)
    then show ?thesis using Cons[of "set_at h p s"] by (simp add: set_law map_set_def)
  next
    case (TErase h)
    then show ?thesis using Cons[of "erase h s"] by (simp add: erase_law map_erase_def)
  qed
qed

end

lemma as_ulong_inj: "as_ulong h = as_ulong h' \<Longrightarrow> h = h'"
proof -
  assume "as_ulong h = as_ulong h'"
  then have "(scast h :: 64 word) = scast h'" by (simp add: as_ulong_def word_unat_eq_iff)
  then have "sint (scast h :: 64 word) = sint (scast h' :: 64 word)" by simp
  then show "h = h'" by (simp add: sint_up_scast is_up signed_word_eqI)
qed

lemma touch_lookup [simp]: "svc_lookup (touch v s) = svc_lookup s"
  by (simp add: svc_lookup_def touch_def fun_eq_iff)

lemma touch_simps [simp]:
  "map_fast (touch v s) = map_fast s" "map_slow (touch v s) = map_slow s"
  "epoll_log (touch v s) = epoll_log s" "overrun (touch v s) = (overrun s \<or> \<not> v < fast_size)"
  by (simp_all add: touch_def)

lemma svc_lookup_set: "svc_lookup (svc_set h p s) = (svc_lookup s)(h := p)"
  by (auto simp: svc_lookup_def svc_set_def svc_get_def Let_def fun_eq_iff
      dest: as_ulong_inj split: option.splits)

lemma svc_lookup_erase: "svc_lookup (svc_erase h s) = (svc_lookup s)(h := None)"
  by (auto simp: svc_lookup_def svc_erase_def Let_def fun_eq_iff dest: as_ulong_inj)

lemma svc_lookup_get: "svc_lookup (snd (svc_get h s)) = svc_lookup s"
  by (auto simp: svc_lookup_def svc_get_def Let_def fun_eq_iff split: option.splits)

text \<open>No operation reads or writes outside the array.\<close>

lemma svc_get_overrun [simp]: "overrun (snd (svc_get h s)) = overrun s"
  by (simp add: svc_get_def Let_def split: option.splits)

lemma svc_set_overrun [simp]: "overrun (svc_set h p s) = overrun s"
  by (simp add: svc_set_def Let_def)

lemma svc_erase_overrun [simp]: "overrun (svc_erase h s) = overrun s"
  by (simp add: svc_erase_def Let_def)

lemma table_run_overrun [simp]:
  "overrun (snd (table_run svc_get svc_set svc_erase ops s)) = overrun s"
proof (induction ops arbitrary: s)
  case Nil
  then show ?case by simp
next
  case (Cons op ops)
  then show ?case by (cases op) (simp_all add: case_prod_beta Let_def)
qed

interpretation svc: conn_table svc_lookup svc_get svc_set svc_erase
  by unfold_locales
    (auto simp: svc_lookup_set svc_lookup_erase svc_lookup_get svc_get_def svc_lookup_def Let_def
      split: option.splits)

section \<open>What \<open>string_copy\<close> guarantees\<close>

lemma string_copy_cases:
  "string_copy dest str pos =
     (if length str < pos then Inl OutOfRange
      else let cnt = min (length dest - 1) (length str - pos)
           in Inr ((take cnt (drop pos str) @ drop cnt dest)[cnt := NUL], cnt))"
  by (simp add: string_copy_def Let_def)

lemma c_str_terminated:
  assumes "NUL \<notin> set xs"
  shows "c_str (xs @ NUL # ys) = xs"
  using assms by (simp add: c_str_def takeWhile_append)

lemma list_update_at_length: "ys \<noteq> [] \<Longrightarrow> (xs @ ys)[length xs := a] = xs @ a # tl ys"
  by (cases ys) simp_all

lemma string_copy_shape:
  assumes "dest \<noteq> []" and "pos \<le> length str"
    and "cnt = min (length dest - 1) (length str - pos)"
  shows "string_copy dest str pos = Inr (take cnt (drop pos str) @ NUL # drop (Suc cnt) dest, cnt)"
proof -
  have cnt: "cnt < length dest" "cnt \<le> length str - pos"
    using assms(1,3) by (cases dest; simp)+
  then have len: "length (take cnt (drop pos str)) = cnt" by simp
  have "(take cnt (drop pos str) @ drop cnt dest)[cnt := NUL] =
        take cnt (drop pos str) @ NUL # tl (drop cnt dest)"
    using list_update_at_length[of "drop cnt dest" "take cnt (drop pos str)" NUL] cnt len by simp
  then show ?thesis
    using assms cnt by (simp add: string_copy_cases Let_def drop_Suc tl_drop)
qed

text \<open>\<open>string_copy\<close> into an array of at least one character never writes outside it, leaves
  it NUL terminated whatever the source is, returns the length of the copied part, which is
  the source from \<open>pos\<close> on cut to \<open>destsz - 1\<close> characters; for a source without NUL the C string
  in the array is exactly that part. A position past the end is the only error.\<close>

theorem string_copy_safe:
  assumes "dest \<noteq> []"
  shows "if length str < pos then string_copy dest str pos = Inl OutOfRange
         else \<exists>dest' cnt. string_copy dest str pos = Inr (dest', cnt) \<and>
                length dest' = length dest \<and> cnt < length dest \<and> dest' ! cnt = NUL \<and>
                cnt = min (length dest - 1) (length str - pos) \<and>
                (NUL \<notin> set str \<longrightarrow> c_str dest' = take (length dest - 1) (drop pos str))"
proof (cases "length str < pos")
  case True
  then show ?thesis by (simp add: string_copy_def)
next
  case False
  define cnt where "cnt = min (length dest - 1) (length str - pos)"
  have sh: "string_copy dest str pos =
      Inr (take cnt (drop pos str) @ NUL # drop (Suc cnt) dest, cnt)"
    using string_copy_shape[OF assms _ cnt_def] False by simp
  have lt: "cnt < length dest" "length (take cnt (drop pos str)) = cnt"
    using assms by (cases dest; simp add: cnt_def)+
  have tk: "take cnt (drop pos str) = take (length dest - 1) (drop pos str)"
    by (simp add: cnt_def min_def)
  have "NUL \<notin> set str \<Longrightarrow> NUL \<notin> set (take cnt (drop pos str))"
    by (meson in_set_dropD in_set_takeD)
  then have cs: "NUL \<notin> set str \<longrightarrow>
      c_str (take cnt (drop pos str) @ NUL # drop (Suc cnt) dest) = take (length dest - 1) (drop pos str)"
    using c_str_terminated tk by metis
  have nth: "(take cnt (drop pos str) @ NUL # drop (Suc cnt) dest) ! cnt = NUL"
    using lt by (simp add: nth_append)
  show ?thesis
    using False sh lt nth cs cnt_def by simp
qed

theorem string_copy_safe_witness:
  "string_copy ''....'' ''socket'' 2 = Inr (''cke'' @ [NUL], 3) \<and>
   (\<exists>dest' cnt. string_copy ''....'' ''socket'' 2 = Inr (dest', cnt) \<and> length dest' = 4 \<and>
      c_str dest' = ''cke'')"
  using string_copy_safe[of "''....''" "''socket''" 2]
  by (simp add: string_copy_def c_str_def)

section \<open>What the table guarantees\<close>

text \<open>C34: on the table the constructor leaves, whatever its memory held, any sequence of \<open>get\<close>,
  assignments through \<open>get\<close> and \<open>erase\<close>, on descriptors of the fast array and of the map alike,
  never touches a cell outside the array of 1024 cells, returns what a single partial map from
  descriptors to connections returns, and ends in a table that represents that map. The map
  starts with whatever the uninitialised cells hold; it is empty exactly when they all hold
  NULL, which the Linux constructor does not provide.\<close>

theorem table_refines_map:
  "\<not> overrun (snd (table_run svc_get svc_set svc_erase ops (io_service_new memory))) \<and>
   fst (table_run svc_get svc_set svc_erase ops (io_service_new memory)) =
     fst (table_run map_get map_set map_erase ops
            (\<lambda>h. if as_ulong h < fast_size then memory (as_ulong h) else None)) \<and>
   svc_lookup (snd (table_run svc_get svc_set svc_erase ops (io_service_new memory))) =
     snd (table_run map_get map_set map_erase ops
            (\<lambda>h. if as_ulong h < fast_size then memory (as_ulong h) else None))"
proof -
  have start: "svc_lookup (io_service_new memory) =
      (\<lambda>h. if as_ulong h < fast_size then memory (as_ulong h) else None)"
    by (simp add: svc_lookup_def io_service_new_def fun_eq_iff)
  have "\<not> overrun (io_service_new memory)" by (simp add: io_service_new_def)
  then show ?thesis
    using svc.run_refines[of ops "io_service_new memory"] by (simp add: start)
qed

section \<open>What registration guarantees\<close>

lemma svc_get_log [simp]: "epoll_log (snd (svc_get h s)) = epoll_log s"
  by (simp add: svc_get_def Let_def split: option.splits)

lemma svc_set_log [simp]: "epoll_log (svc_set h p s) = epoll_log s"
  by (simp add: svc_set_def Let_def)

lemma svc_erase_log [simp]: "epoll_log (svc_erase h s) = epoll_log s"
  by (simp add: svc_erase_def Let_def)

lemma ep_call_lookup [simp]: "svc_lookup (ep_call e s) = svc_lookup s"
  by (simp add: svc_lookup_def ep_call_def fun_eq_iff)

lemma ep_call_overrun [simp]: "overrun (ep_call e s) = overrun s"
  by (simp add: ep_call_def)

lemma interest_ep_call [simp]: "interest (ep_call e s) = ep_apply e (interest s)"
  by (simp add: interest_def ep_call_def)

lemma interest_cong: "epoll_log s = epoll_log t \<Longrightarrow> interest s = interest t"
  by (simp add: interest_def)

lemma interest_frame [simp]:
  "interest (svc_set h p s) = interest s"
  "interest (svc_erase h s) = interest s"
  "interest (snd (svc_get h s)) = interest s"
  by (rule interest_cong, simp)+

lemma svc_get_pair: "svc_get h s = (svc_lookup s h, snd (svc_get h s))"
  by (rule prod_eqI) (simp_all add: svc.get_value)

lemma associate_lookup:
  "svc_lookup (associate h c s) =
     (if h = INVALID_OS_HANDLE then svc_lookup s else (svc_lookup s)(h := Some c))"
  by (subst associate_def, subst svc_get_pair)
    (simp add: Let_def svc_lookup_set svc_lookup_get)

lemma associate_interest:
  "interest (associate h c s) =
     (if h = INVALID_OS_HANDLE \<or> svc_lookup s h \<noteq> None then interest s else insert h (interest s))"
  by (subst associate_def, subst svc_get_pair) (simp add: Let_def)

lemma associate_overrun [simp]: "overrun (associate h c s) = overrun s"
  by (subst associate_def, subst svc_get_pair) (simp add: Let_def)

lemma unassociate_overrun [simp]: "overrun (unassociate h s) = overrun s"
  by (simp add: unassociate_def)

lemma unassociate_lookup:
  "svc_lookup (unassociate h s) =
     (if h = INVALID_OS_HANDLE then svc_lookup s else (svc_lookup s)(h := None))"
  by (simp add: unassociate_def svc_lookup_erase)

lemma unassociate_interest:
  "interest (unassociate h s) = (if h = INVALID_OS_HANDLE then interest s else interest s - {h})"
  by (simp add: unassociate_def)

text \<open>\<open>associate\<close> relies on the array \<open>m_map_fast\<close> being NULL, and the Linux constructor
  does not set it. For any descriptor of the fast range, when the memory happens to hold a
  non-NULL word in its cell, the connection is entered in the table but no call of
  \<open>epoll_ctl\<close> is made at all, so no event of it is ever reported; with zero memory the same
  call watches the descriptor.\<close>

theorem uninitialised_table_loses_events:
  assumes "h \<noteq> INVALID_OS_HANDLE" and "as_ulong h < fast_size"
  shows "(\<forall>junk. memory (as_ulong h) = Some junk \<longrightarrow>
           svc_lookup (associate h c (io_service_new memory)) h = Some c \<and>
           epoll_log (associate h c (io_service_new memory)) = [] \<and>
           h \<notin> interest (associate h c (io_service_new memory))) \<and>
         (memory (as_ulong h) = None \<longrightarrow>
           svc_lookup (associate h c (io_service_new memory)) h = Some c \<and>
           interest (associate h c (io_service_new memory)) = {h})"
proof -
  have l: "svc_lookup (io_service_new memory) h = memory (as_ulong h)"
    using assms by (simp add: svc_lookup_def io_service_new_def)
  have i: "interest (io_service_new memory :: 'a io_service) = {}"
    by (simp add: interest_def io_service_new_def)
  have e: "epoll_log (io_service_new memory :: 'a io_service) = []"
    by (simp add: io_service_new_def)
  have junk: "epoll_log (associate h c (io_service_new memory)) = []"
    if "memory (as_ulong h) = Some junk" for junk
    by (subst associate_def, subst svc_get_pair) (use that l e in \<open>simp add: Let_def\<close>)
  show ?thesis
    using assms l i junk by (simp add: associate_lookup associate_interest)
qed

theorem uninitialised_table_loses_events_witness:
  "(5::handle) \<notin> interest (associate 5 ''conn'' (io_service_new (\<lambda>_. Some ''junk''))) \<and>
   interest (associate 5 ''conn'' (io_service_new (\<lambda>_. None))) = {5::handle}"
  using uninitialised_table_loses_events[of 5 "\<lambda>_. Some ''junk''" "''conn''"]
    uninitialised_table_loses_events[of 5 "\<lambda>_. None" "''conn''"]
  by (simp add: as_ulong_def fast_size_def INVALID_OS_HANDLE_def)

end
