(* ===== verification/StreamIO.thy ===== *)
theory StreamIO
  imports IpcService
begin

text \<open>
  The transfer loops over a descriptor: \<open>ipc_connection_linux_UDS::read\<close>, \<open>write\<close> and
  \<open>set_block_mode\<close> of \<open>tipc.cpp\<close>, and \<open>readSocket\<close>, \<open>writeSocket\<close>, \<open>setSocketBlockMode\<close> of
  \<open>SocketHelper.cpp\<close>. The system calls are parameters, the fields of the record \<open>os_io\<close> over
  an abstract kernel state \<open>'k\<close>; what POSIX promises of them is a named hypothesis
  (\<open>byte_source\<close>, \<open>byte_sink\<close>). A loop that the system calls may keep alive for ever is a
  partial function with None for not returning.
\<close>

section \<open>System calls\<close>

definition EINTR :: int where "EINTR = 4"
definition EAGAIN :: int where "EAGAIN = 11"
definition EWOULDBLOCK :: int where "EWOULDBLOCK = 11"
definition EPIPE :: int where "EPIPE = 32"

text \<open>The test of \<open>errno\<close> that all loops share: these errors are ignored and tried again.\<close>

definition transient :: "int \<Rightarrow> bool" where
  "transient e \<longleftrightarrow> \<not> (e \<noteq> EINTR \<and> e \<noteq> EAGAIN \<and> e \<noteq> EWOULDBLOCK)"

text \<open>
  \<open>::read\<close> returns the bytes it stored (none at the end of the stream) or sets \<open>errno\<close>;
  \<open>::write\<close> returns how many bytes it took or sets \<open>errno\<close>.
\<close>

datatype read_res = RdBytes "byte list" | RdErr int
datatype write_res = WrCount nat | WrErr int

text \<open>\<open>fcntl\<close> with \<open>F_GETFL\<close> and \<open>F_SETFL\<close>, and the kernel interface that extends it.\<close>

record 'k os_fl =
  os_getfl :: "handle \<Rightarrow> 'k \<Rightarrow> 32 word \<times> 'k"
  os_setfl :: "handle \<Rightarrow> 32 word \<Rightarrow> 'k \<Rightarrow> 32 word \<times> 'k"

record 'k os_io = "'k os_fl" +
  os_read :: "handle \<Rightarrow> nat \<Rightarrow> 'k \<Rightarrow> read_res \<times> 'k"
  os_write :: "handle \<Rightarrow> byte list \<Rightarrow> 'k \<Rightarrow> write_res \<times> 'k"

section \<open>The block mode\<close>

definition O_NONBLOCK :: "32 word" where "O_NONBLOCK = 0x800"

text \<open>\<open>set_block_mode(makeBlocking)\<close> of the connection.\<close>

definition set_block_mode :: "('k, 'm) os_fl_scheme \<Rightarrow> handle \<Rightarrow> bool \<Rightarrow> 'k \<Rightarrow> bool \<times> 'k" where
  "set_block_mode os fd makeBlocking k =
     (let (curFlags, k0) = os_getfl os fd k;
          newFlags = (if makeBlocking then curFlags AND NOT O_NONBLOCK
                      else curFlags OR O_NONBLOCK);
          (status, k1) = os_setfl os fd newFlags k0
      in if sint status < 0 then (False, k1) else (True, k1))"

text \<open>\<open>setSocketBlockMode(sockfd, makeNonBlocking)\<close>.\<close>

definition setSocketBlockMode :: "('k, 'm) os_fl_scheme \<Rightarrow> handle \<Rightarrow> bool \<Rightarrow> 'k \<Rightarrow> bool \<times> 'k" where
  "setSocketBlockMode os sockfd makeNonBlocking k =
     (let (curFlags, k0) = os_getfl os sockfd k;
          newFlags = (if makeNonBlocking then curFlags OR O_NONBLOCK
                      else curFlags AND NOT O_NONBLOCK);
          (status, k1) = os_setfl os sockfd newFlags k0
      in if sint status < 0 then (False, k1) else (True, k1))"

section \<open>Reading\<close>

text \<open>Bytes stored at an offset of a buffer.\<close>

definition store :: "byte list \<Rightarrow> nat \<Rightarrow> byte list \<Rightarrow> byte list" where
  "store buf ptr bs = take ptr buf @ bs @ drop (ptr + length bs) buf"

text \<open>
  The loop of \<open>read\<close>: \<open>once\<close> says that \<open>lp_cnt\<close> was given. The result is the error, the bytes
  left, the buffer and the kernel.
\<close>

partial_function (option) read_loop ::
  "(nat \<Rightarrow> 'k \<Rightarrow> read_res \<times> 'k) \<Rightarrow> bool \<Rightarrow> byte list \<Rightarrow> nat \<Rightarrow> int \<Rightarrow> 'k \<Rightarrow>
   (int \<times> int \<times> byte list \<times> 'k) option" where
  "read_loop rd once buf ptr left k =
     (if left > 0 then
        (case rd (nat left) k of
           (RdBytes bs, k1) \<Rightarrow>
             if bs = [] then Some (0, left, buf, k1)
             else if once then Some (0, left - int (length bs), store buf ptr bs, k1)
             else read_loop rd once (store buf ptr bs) (ptr + length bs) (left - int (length bs)) k1
         | (RdErr e, k1) \<Rightarrow>
             if \<not> transient e then Some (e, left, buf, k1)
             else if once then Some (0, left, buf, k1)
             else read_loop rd once buf ptr left k1)
      else Some (0, left, buf, k))"

text \<open>What \<open>read\<close> reports: the return value, \<open>*lp_cnt\<close> when it was given, the buffer.\<close>

record 'k read_report =
  rr_ret :: int
  rr_cnt :: "int option"
  rr_buf :: "byte list"
  rr_kernel :: 'k

text \<open>A NULL buffer is None; \<open>want_cnt\<close> says that \<open>lp_cnt\<close> is not NULL.\<close>

definition uds_read ::
  "'k os_io \<Rightarrow> handle \<Rightarrow> byte list option \<Rightarrow> int \<Rightarrow> bool \<Rightarrow> 'k \<Rightarrow> 'k read_report option" where
  "uds_read os fd buffer bufferSize want_cnt k =
     (if sint fd \<le> 0 \<or> buffer = None \<or> bufferSize \<le> 0
      then Some \<lparr>rr_ret = -1, rr_cnt = None, rr_buf = (case buffer of None \<Rightarrow> [] | Some b \<Rightarrow> b),
                rr_kernel = k\<rparr>
      else let k0 = snd (set_block_mode os fd (\<not> want_cnt) k)
           in case read_loop (os_read os fd) want_cnt (the buffer) 0 bufferSize k0 of
                None \<Rightarrow> None
              | Some (err, left, buf, k1) \<Rightarrow>
                  Some \<lparr>rr_ret = err,
                        rr_cnt = (if want_cnt then Some (bufferSize - left) else None),
                        rr_buf = buf, rr_kernel = k1\<rparr>)"

text \<open>The loop of \<open>readSocket\<close>, which returns from inside: the value, the buffer, the kernel.\<close>

partial_function (option) readSocket_loop ::
  "(nat \<Rightarrow> 'k \<Rightarrow> read_res \<times> 'k) \<Rightarrow> int \<Rightarrow> byte list \<Rightarrow> nat \<Rightarrow> int \<Rightarrow> 'k \<Rightarrow>
   (int \<times> byte list \<times> 'k) option" where
  "readSocket_loop rd bufferSize buf ptr left k =
     (if left > 0 then
        (case rd (nat left) k of
           (RdBytes bs, k1) \<Rightarrow>
             if bs = [] then Some (0, buf, k1)
             else readSocket_loop rd bufferSize (store buf ptr bs) (ptr + length bs)
                    (left - int (length bs)) k1
         | (RdErr e, k1) \<Rightarrow>
             if \<not> transient e then Some (-1, buf, k1)
             else readSocket_loop rd bufferSize buf ptr left k1)
      else Some (bufferSize - left, buf, k))"

definition readSocket ::
  "'k os_io \<Rightarrow> handle \<Rightarrow> byte list option \<Rightarrow> int \<Rightarrow> 'k \<Rightarrow> (int \<times> byte list \<times> 'k) option" where
  "readSocket os fd buffer bufferSize k =
     (if sint fd \<le> 0 \<or> buffer = None \<or> bufferSize \<le> 0
      then Some (-1, (case buffer of None \<Rightarrow> [] | Some b \<Rightarrow> b), k)
      else readSocket_loop (os_read os fd) bufferSize (the buffer) 0 bufferSize k)"

section \<open>Writing\<close>

partial_function (option) write_loop ::
  "(byte list \<Rightarrow> 'k \<Rightarrow> write_res \<times> 'k) \<Rightarrow> byte list \<Rightarrow> nat \<Rightarrow> int \<Rightarrow> 'k \<Rightarrow>
   (int \<times> int \<times> 'k) option" where
  "write_loop wr buf ptr left k =
     (if left > 0 then
        (case wr (take (nat left) (drop ptr buf)) k of
           (WrErr e, k1) \<Rightarrow>
             if \<not> transient e then Some (e, left, k1) else write_loop wr buf ptr left k1
         | (WrCount m, k1) \<Rightarrow> write_loop wr buf (ptr + m) (left - int m) k1)
      else Some (0, left, k))"

definition uds_write ::
  "'k os_io \<Rightarrow> handle \<Rightarrow> byte list option \<Rightarrow> int \<Rightarrow> 'k \<Rightarrow> (int \<times> 'k) option" where
  "uds_write os fd buffer bufferSize k =
     (if sint fd \<le> 0 \<or> buffer = None \<or> bufferSize \<le> 0 then Some (-1, k)
      else case write_loop (os_write os fd) (the buffer) 0 bufferSize k of
             None \<Rightarrow> None
           | Some (err, left, k1) \<Rightarrow> Some (err, k1))"

partial_function (option) writeSocket_loop ::
  "(byte list \<Rightarrow> 'k \<Rightarrow> write_res \<times> 'k) \<Rightarrow> int \<Rightarrow> byte list \<Rightarrow> nat \<Rightarrow> int \<Rightarrow> 'k \<Rightarrow>
   (int \<times> 'k) option" where
  "writeSocket_loop wr bufferSize buf ptr left k =
     (if left > 0 then
        (case wr (take (nat left) (drop ptr buf)) k of
           (WrErr e, k1) \<Rightarrow>
             if \<not> transient e then Some (-1, k1) else writeSocket_loop wr bufferSize buf ptr left k1
         | (WrCount m, k1) \<Rightarrow> writeSocket_loop wr bufferSize buf (ptr + m) (left - int m) k1)
      else Some (bufferSize - left, k))"

definition writeSocket ::
  "'k os_io \<Rightarrow> handle \<Rightarrow> byte list option \<Rightarrow> int \<Rightarrow> 'k \<Rightarrow> (int \<times> 'k) option" where
  "writeSocket os fd buffer bufferSize k =
     (if sint fd \<le> 0 \<or> buffer = None \<or> bufferSize \<le> 0 then Some (-1, k)
      else writeSocket_loop (os_write os fd) bufferSize (the buffer) 0 bufferSize k)"

section \<open>What POSIX promises of the calls\<close>

text \<open>
  A stream socket read: \<open>pending\<close> is what the peer has sent and will still send, in order. A
  call takes at most as many bytes as asked, from the front, and none only at the end of the
  stream; an error takes nothing. \<open>stalls\<close> counts the transient errors still to come before
  the call makes progress.
\<close>

definition byte_source ::
  "(nat \<Rightarrow> 'k \<Rightarrow> read_res \<times> 'k) \<Rightarrow> ('k \<Rightarrow> byte list) \<Rightarrow> ('k \<Rightarrow> nat) \<Rightarrow> bool" where
  "byte_source rd pending stalls \<longleftrightarrow>
     (\<forall>n k bs k'. 0 < n \<longrightarrow> rd n k = (RdBytes bs, k') \<longrightarrow>
        length bs \<le> n \<and> pending k = bs @ pending k' \<and> (bs = [] \<longrightarrow> pending k = [])) \<and>
     (\<forall>n k e k'. 0 < n \<longrightarrow> rd n k = (RdErr e, k') \<longrightarrow>
        e \<noteq> 0 \<and> pending k' = pending k \<and> (transient e \<longrightarrow> stalls k' < stalls k))"

text \<open>
  A stream socket write: \<open>sent\<close> is what the peer gets. A call takes a prefix of what it is
  given.
\<close>

definition byte_sink ::
  "(byte list \<Rightarrow> 'k \<Rightarrow> write_res \<times> 'k) \<Rightarrow> ('k \<Rightarrow> byte list) \<Rightarrow> ('k \<Rightarrow> nat) \<Rightarrow> bool" where
  "byte_sink wr sent stalls \<longleftrightarrow>
     (\<forall>bs k m k'. wr bs k = (WrCount m, k') \<longrightarrow>
        m \<le> length bs \<and> sent k' = sent k @ take m bs \<and> (m = 0 \<longrightarrow> bs \<noteq> [] \<longrightarrow> stalls k' < stalls k)) \<and>
     (\<forall>bs k e k'. wr bs k = (WrErr e, k') \<longrightarrow>
        e \<noteq> 0 \<and> sent k' = sent k \<and> (transient e \<longrightarrow> stalls k' < stalls k))"

definition keeps_flags ::
  "'k os_io \<Rightarrow> ('k \<Rightarrow> byte list) \<Rightarrow> bool" where
  "keeps_flags os pending \<longleftrightarrow>
     (\<forall>fd f k. pending (snd (os_getfl os fd k)) = pending k \<and>
               pending (snd (os_setfl os fd f k)) = pending k)"

section \<open>The loops under these promises\<close>

lemma store_Nil [simp]: "store buf ptr [] = buf"
  by (simp add: store_def)

lemma length_store [simp]: "ptr + length bs \<le> length buf \<Longrightarrow> length (store buf ptr bs) = length buf"
  by (simp add: store_def)

lemma store_store:
  assumes "ptr \<le> length buf"
  shows "store (store buf ptr bs) (ptr + length bs) got = store buf ptr (bs @ got)"
  using assms by (simp add: store_def min_def ac_simps)

lemma byte_source_bytes:
  assumes "byte_source rd pending stalls" "0 < n" "rd n k = (RdBytes bs, k')"
  shows "length bs \<le> n" "pending k = bs @ pending k'" "bs = [] \<Longrightarrow> pending k = []"
  using assms unfolding byte_source_def by metis+

lemma byte_source_err:
  assumes "byte_source rd pending stalls" "0 < n" "rd n k = (RdErr e, k')"
  shows "e \<noteq> 0" "pending k' = pending k" "transient e \<Longrightarrow> stalls k' < stalls k"
  using assms unfolding byte_source_def by metis+

lemma byte_sink_count:
  assumes "byte_sink wr sent stalls" "wr bs k = (WrCount m, k')"
  shows "m \<le> length bs" "sent k' = sent k @ take m bs" "m = 0 \<Longrightarrow> bs \<noteq> [] \<Longrightarrow> stalls k' < stalls k"
  using assms unfolding byte_sink_def by metis+

lemma byte_sink_err:
  assumes "byte_sink wr sent stalls" "wr bs k = (WrErr e, k')"
  shows "e \<noteq> 0" "sent k' = sent k" "transient e \<Longrightarrow> stalls k' < stalls k"
  using assms unfolding byte_sink_def by metis+

lemma read_loop_done [loop_unfold]:
  "left \<le> 0 \<Longrightarrow> read_loop rd once buf ptr left k = Some (0, left, buf, k)"
  by (subst read_loop.simps) simp

lemma read_loop_bytes [loop_unfold]:
  "0 < left \<Longrightarrow> rd (nat left) k = (RdBytes bs, k1) \<Longrightarrow>
   read_loop rd once buf ptr left k =
     (if bs = [] then Some (0, left, buf, k1)
      else if once then Some (0, left - int (length bs), store buf ptr bs, k1)
      else read_loop rd once (store buf ptr bs) (ptr + length bs) (left - int (length bs)) k1)"
  by (subst read_loop.simps) simp

lemma read_loop_err [loop_unfold]:
  "0 < left \<Longrightarrow> rd (nat left) k = (RdErr e, k1) \<Longrightarrow>
   read_loop rd once buf ptr left k =
     (if \<not> transient e then Some (e, left, buf, k1)
      else if once then Some (0, left, buf, k1) else read_loop rd once buf ptr left k1)"
  by (subst read_loop.simps) simp

text \<open>The measure of every transfer loop: the bytes left, then the stalls left.\<close>

lemmas transfer_induct = wf_induct_rule[OF wf_lex_prod[OF wf_less_than wf_less_than]]

text \<open>What a loop that reads \<open>n\<close> bytes has achieved when it stops with \<open>got\<close>.\<close>

definition read_outcome ::
  "('k \<Rightarrow> byte list) \<Rightarrow> nat \<Rightarrow> bool \<Rightarrow> int \<Rightarrow> byte list \<Rightarrow> 'k \<Rightarrow> 'k \<Rightarrow> bool" where
  "read_outcome pending n once err got k k' \<longleftrightarrow>
     pending k = got @ pending k' \<and> length got \<le> n \<and> (err \<noteq> 0 \<longrightarrow> \<not> transient err) \<and>
     (\<not> once \<longrightarrow> err = 0 \<longrightarrow> length got = n \<or> pending k' = [])"

lemma read_outcome_extend:
  assumes "read_outcome pending (n - length bs) False err got k1 k2" and "length bs \<le> n"
    and "pending k = bs @ pending k1"
  shows "read_outcome pending n False err (bs @ got) k k2"
  using assms by (auto simp: read_outcome_def)

lemma read_loop_source:
  assumes src: "byte_source rd pending stalls"
  shows "0 \<le> left \<Longrightarrow> ptr + nat left \<le> length buf \<Longrightarrow>
    \<exists>err got k'. read_loop rd once buf ptr left k =
        Some (err, left - int (length got), store buf ptr got, k') \<and>
      read_outcome pending (nat left) once err got k k'"
proof (induction "(nat left, stalls k)" arbitrary: left k buf ptr rule: transfer_induct)
  case less: (1 left k buf ptr)
  show ?case
  proof (cases "left = 0")
    case True
    then show ?thesis by (auto simp: loop_unfold read_outcome_def intro!: exI[of _ "[]"])
  next
    case False
    with less.prems have pos: "0 < left" by simp
    obtain r k1 where rd: "rd (nat left) k = (r, k1)" by (cases "rd (nat left) k")
    show ?thesis
    proof (cases r)
      case (RdErr e)
      note e = byte_source_err[OF src _ rd[unfolded RdErr]]
      show ?thesis
      proof (cases "transient e \<and> \<not> once")
        case True
        then show ?thesis
          using less.hyps[of left k1] less.prems e pos rd RdErr
          by (auto simp: loop_unfold read_outcome_def)
      next
        case False
        then show ?thesis using e pos rd RdErr
          by (auto simp: loop_unfold read_outcome_def intro!: exI[of _ "[]"])
      qed
    next
      case (RdBytes bs)
      note b = byte_source_bytes[OF src _ rd[unfolded RdBytes]]
      show ?thesis
      proof (cases "bs = [] \<or> once")
        case True
        then show ?thesis using b pos rd RdBytes
          by (auto simp: loop_unfold read_outcome_def intro!: exI[of _ bs])
      next
        case False
        have lb: "length bs \<le> nat left" using b pos by simp
        have "\<exists>err got k'. read_loop rd once (store buf ptr bs) (ptr + length bs)
              (left - int (length bs)) k1 =
              Some (err, left - int (length bs) - int (length got),
                    store (store buf ptr bs) (ptr + length bs) got, k') \<and>
            read_outcome pending (nat (left - int (length bs))) once err got k1 k'"
          by (rule less.hyps) (use lb pos False less.prems in auto)
        then obtain err got k' where
          ih: "read_loop rd once (store buf ptr bs) (ptr + length bs) (left - int (length bs)) k1 =
              Some (err, left - int (length bs) - int (length got),
                    store (store buf ptr bs) (ptr + length bs) got, k')"
            "read_outcome pending (nat (left - int (length bs))) once err got k1 k'"
          by blast
        have "read_outcome pending (nat left) once err (bs @ got) k k'"
          using read_outcome_extend[of pending "nat left" bs err got k1 k' k] ih(2) lb b pos False
          by (simp add: nat_diff_distrib)
        then show ?thesis
          using ih(1) pos rd RdBytes False less.prems store_store[of ptr buf bs got]
          by (intro exI[of _ err] exI[of _ "bs @ got"] exI[of _ k'])
            (simp add: loop_unfold)
      qed
    qed
  qed
qed

lemma write_loop_count [loop_unfold]:
  "0 < left \<Longrightarrow> wr (take (nat left) (drop ptr buf)) k = (WrCount m, k1) \<Longrightarrow>
   write_loop wr buf ptr left k = write_loop wr buf (ptr + m) (left - int m) k1"
  by (subst write_loop.simps) simp

lemma write_loop_err [loop_unfold]:
  "0 < left \<Longrightarrow> wr (take (nat left) (drop ptr buf)) k = (WrErr e, k1) \<Longrightarrow>
   write_loop wr buf ptr left k =
     (if \<not> transient e then Some (e, left, k1) else write_loop wr buf ptr left k1)"
  by (subst write_loop.simps) simp

lemma write_loop_done [loop_unfold]:
  "left \<le> 0 \<Longrightarrow> write_loop wr buf ptr left k = Some (0, left, k)"
  by (subst write_loop.simps) simp

text \<open>What a loop that writes the bytes \<open>bs\<close> has achieved when it stops after \<open>m\<close> of them.\<close>

definition write_outcome ::
  "('k \<Rightarrow> byte list) \<Rightarrow> byte list \<Rightarrow> int \<Rightarrow> nat \<Rightarrow> 'k \<Rightarrow> 'k \<Rightarrow> bool" where
  "write_outcome sent bs err m k k' \<longleftrightarrow>
     m \<le> length bs \<and> sent k' = sent k @ take m bs \<and>
     (if err = 0 then m = length bs else m < length bs \<and> \<not> transient err)"

lemma write_outcome_extend:
  assumes "write_outcome sent (drop c bs) err m k1 k2" and "c \<le> length bs"
    and "sent k1 = sent k @ take c bs"
  shows "write_outcome sent bs err (c + m) k k2"
  using assms by (auto simp: write_outcome_def take_add)

lemma write_loop_sink:
  assumes snk: "byte_sink wr sent stalls"
  shows "0 \<le> left \<Longrightarrow> ptr + nat left \<le> length buf \<Longrightarrow>
    \<exists>err m k'. write_loop wr buf ptr left k = Some (err, left - int m, k') \<and>
      write_outcome sent (take (nat left) (drop ptr buf)) err m k k'"
proof (induction "(nat left, stalls k)" arbitrary: left k ptr rule: transfer_induct)
  case less: (1 left k ptr)
  show ?case
  proof (cases "left = 0")
    case True
    then show ?thesis by (auto simp: loop_unfold write_outcome_def)
  next
    case False
    with less.prems have pos: "0 < left" by simp
    define bs where "bs = take (nat left) (drop ptr buf)"
    have lbs: "length bs = nat left" "bs \<noteq> []" using less.prems pos by (auto simp: bs_def)
    obtain r k1 where wr: "wr bs k = (r, k1)" by (cases "wr bs k")
    show ?thesis
    proof (cases r)
      case (WrErr e)
      note e = byte_sink_err[OF snk wr[unfolded WrErr]]
      show ?thesis
      proof (cases "transient e")
        case True
        then show ?thesis
          using less.hyps[of left k1] less.prems e pos wr WrErr
          by (auto simp: loop_unfold write_outcome_def bs_def)
      next
        case False
        then have "write_outcome sent bs e 0 k k1" using e lbs pos by (simp add: write_outcome_def)
        then show ?thesis using False e pos wr WrErr
          by (intro exI[of _ e] exI[of _ "0::nat"] exI[of _ k1]) (simp add: loop_unfold bs_def)
      qed
    next
      case (WrCount c)
      note b = byte_sink_count[OF snk wr[unfolded WrCount]]
      have cl: "c \<le> nat left" using b lbs by simp
      have st: "c = 0 \<Longrightarrow> stalls k1 < stalls k" using b(3) lbs by simp
      have "\<exists>err m k'. write_loop wr buf (ptr + c) (left - int c) k1 =
            Some (err, left - int c - int m, k') \<and>
          write_outcome sent (take (nat (left - int c)) (drop (ptr + c) buf)) err m k1 k'"
        by (rule less.hyps) (use cl pos less.prems st in \<open>auto simp: nat_diff_distrib\<close>)
      then obtain err m k' where
        ih: "write_loop wr buf (ptr + c) (left - int c) k1 = Some (err, left - int c - int m, k')"
          "write_outcome sent (take (nat (left - int c)) (drop (ptr + c) buf)) err m k1 k'"
        by blast
      have "take (nat (left - int c)) (drop (ptr + c) buf) = drop c bs"
        using cl pos by (simp add: bs_def drop_take nat_diff_distrib add.commute)
      then have "write_outcome sent bs err (c + m) k k'"
        using write_outcome_extend[of sent c bs err m k1 k' k] ih(2) b lbs cl by simp
      then show ?thesis
        using ih(1) pos wr WrCount
        by (intro exI[of _ err] exI[of _ "c + m"] exI[of _ k']) (simp add: loop_unfold bs_def)
    qed
  qed
qed

section \<open>The connection's read and write\<close>

lemma keeps_flags_block: "keeps_flags os pending \<Longrightarrow> pending (snd (set_block_mode os fd b k)) = pending k"
  by (simp add: keeps_flags_def set_block_mode_def Let_def split: prod.splits) (metis snd_conv)

lemma store_front: "length got \<le> length buf \<Longrightarrow> store buf 0 got = got @ drop (length got) buf"
  by (simp add: store_def)

lemma uds_read_source:
  assumes "byte_source (os_read os fd) pending stalls" and "keeps_flags os pending"
    and "0 < sint fd" and "0 < n" and "nat n \<le> length buf"
  shows "\<exists>err got k'. uds_read os fd (Some buf) n want_cnt k =
      Some \<lparr>rr_ret = err, rr_cnt = (if want_cnt then Some (int (length got)) else None),
            rr_buf = got @ drop (length got) buf, rr_kernel = k'\<rparr> \<and>
    read_outcome pending (nat n) want_cnt err got k k'"
proof -
  define k0 where "k0 = snd (set_block_mode os fd (\<not> want_cnt) k)"
  have p: "pending k0 = pending k" using assms keeps_flags_block by (simp add: k0_def)
  obtain err got k' where l:
    "read_loop (os_read os fd) want_cnt buf 0 n k0 = Some (err, n - int (length got), store buf 0 got, k')"
    "read_outcome pending (nat n) want_cnt err got k0 k'"
    using read_loop_source[OF assms(1), of n 0 buf want_cnt k0] assms by auto
  have "length got \<le> length buf" using l(2) assms by (simp add: read_outcome_def)
  then show ?thesis
    using assms l p
    by (intro exI[of _ err] exI[of _ got] exI[of _ k'])
      (simp add: uds_read_def k0_def[symmetric] store_front read_outcome_def)
qed

text \<open>C5: a blocking read (no \<open>lp_cnt\<close>) of a connection whose descriptor keeps the promises of a
  stream socket always returns, whatever sequence of short reads and transient errors it
  meets. On success the buffer starts with the next \<open>n\<close> bytes of the stream, in order, or with
  all that is left of it when the peer closed earlier (the same return value 0); on failure
  it returns an \<open>errno\<close> that is not transient and has still consumed exactly the prefix it
  stored. Bytes behind the prefix keep their old contents.\<close>

theorem uds_read_blocking:
  assumes "byte_source (os_read os fd) pending stalls" and "keeps_flags os pending"
    and "0 < sint fd" and "0 < n" and "nat n \<le> length buf"
  shows "\<exists>err got k'. uds_read os fd (Some buf) n False k =
      Some \<lparr>rr_ret = err, rr_cnt = None, rr_buf = got @ drop (length got) buf, rr_kernel = k'\<rparr> \<and>
    pending k = got @ pending k' \<and> length got \<le> nat n \<and>
    (if err = 0 then got = take (nat n) (pending k) else \<not> transient err)"
proof -
  obtain err got k' where u: "uds_read os fd (Some buf) n False k =
      Some \<lparr>rr_ret = err, rr_cnt = None, rr_buf = got @ drop (length got) buf, rr_kernel = k'\<rparr>"
    and o: "read_outcome pending (nat n) False err got k k'"
    using uds_read_source[OF assms, of False k] by auto
  have "err = 0 \<Longrightarrow> got = take (nat n) (pending k)"
    using o by (auto simp: read_outcome_def)
  then show ?thesis using u o by (auto simp: read_outcome_def)
qed

text \<open>A read with \<open>lp_cnt\<close> always returns, after switching the descriptor to non-blocking
  mode and after one system call; the count is the number of bytes stored, which are the
  front of the stream. No data yet (a transient error) and the end of the stream give the
  same report: return value 0 and count 0.\<close>

theorem uds_read_poll:
  assumes "byte_source (os_read os fd) pending stalls" and "keeps_flags os pending"
    and "0 < sint fd" and "0 < n" and "nat n \<le> length buf"
    and "k0 = snd (set_block_mode os fd False k)" and "os_read os fd (nat n) k0 = (res, k1)"
  shows "\<exists>got err. uds_read os fd (Some buf) n True k =
      Some \<lparr>rr_ret = err, rr_cnt = Some (int (length got)), rr_buf = got @ drop (length got) buf,
            rr_kernel = k1\<rparr> \<and>
    pending k = got @ pending k1 \<and>
    (case res of RdBytes bs \<Rightarrow> got = bs \<and> err = 0
     | RdErr e \<Rightarrow> got = [] \<and> err = (if transient e then 0 else e)) \<and>
    (err = 0 \<longrightarrow> got = [] \<longrightarrow> pending k = [] \<or> (\<exists>e. res = RdErr e \<and> transient e))"
proof -
  have p: "pending k0 = pending k" using assms keeps_flags_block by metis
  have n: "0 < nat n" using assms by simp
  show ?thesis
  proof (cases res)
    case (RdErr e)
    note e = byte_source_err[OF assms(1) n assms(7)[unfolded RdErr]]
    show ?thesis
      using assms RdErr e p
      by (intro exI[of _ "[]"] exI[of _ "if transient e then 0 else e"])
        (auto simp: uds_read_def loop_unfold)
  next
    case (RdBytes bs)
    note b = byte_source_bytes[OF assms(1) n assms(7)[unfolded RdBytes]]
    show ?thesis
      using assms RdBytes b p
      by (intro exI[of _ bs] exI[of _ 0]) (auto simp: uds_read_def loop_unfold store_front)
  qed
qed

text \<open>C6: a write to a descriptor that keeps the promises of a stream socket always returns. It
  returns 0 exactly when the peer's stream has grown by the first \<open>n\<close> bytes of the buffer, in
  order, with no byte lost or doubled across short writes and interruptions. Any other result
  is an \<open>errno\<close> that is not transient, and then the stream has grown by a proper prefix of
  these bytes.\<close>

theorem uds_write_all:
  assumes "byte_sink (os_write os fd) sent stalls"
    and "0 < sint fd" and "0 < n" and "nat n \<le> length buf"
  shows "\<exists>err m k'. uds_write os fd (Some buf) n k = Some (err, k') \<and>
    m \<le> nat n \<and> sent k' = sent k @ take m buf \<and>
    (err = 0 \<longleftrightarrow> m = nat n) \<and> (err = 0 \<or> \<not> transient err)"
proof -
  obtain err m k' where "write_loop (os_write os fd) buf 0 n k = Some (err, n - int m, k')"
    and "write_outcome sent (take (nat n) buf) err m k k'"
    using write_loop_sink[OF assms(1), of n 0 buf k] assms by auto
  then show ?thesis
    using assms
    by (intro exI[of _ err] exI[of _ m] exI[of _ k'])
      (auto simp: uds_write_def write_outcome_def min_def split: if_splits)
qed

section \<open>The socket helper's read and write\<close>

text \<open>A system call that fails sets \<open>errno\<close> to a positive number.\<close>

definition errno_set :: "(nat \<Rightarrow> 'k \<Rightarrow> read_res \<times> 'k) \<Rightarrow> bool" where
  "errno_set rd \<longleftrightarrow> (\<forall>n k k'. rd n k \<noteq> (RdErr 0, k'))"

definition socket_value :: "int \<Rightarrow> int \<times> int \<times> byte list \<times> 'k \<Rightarrow> int \<times> byte list \<times> 'k" where
  "socket_value n = (\<lambda>(err, left, b, k). (if err \<noteq> 0 then -1 else if 0 < left then 0 else n - left, b, k))"

lemma readSocket_loop_le:
  assumes "errno_set rd" "read_loop rd False buf ptr left k = Some x"
  shows "readSocket_loop rd n buf ptr left k = Some (socket_value n x)"
proof -
  define P where "P = (\<lambda>rd once buf ptr left k x. errno_set rd \<longrightarrow> \<not> once \<longrightarrow>
    readSocket_loop (rd :: nat \<Rightarrow> 'a \<Rightarrow> read_res \<times> 'a) n buf ptr left k = Some (socket_value n x))"
  have "P rd False buf ptr left k x"
    using assms(2)
  proof (rule read_loop.raw_induct[where P = P, rotated])
    fix loop :: "(nat \<Rightarrow> 'a \<Rightarrow> read_res \<times> 'a) \<Rightarrow> bool \<Rightarrow> byte list \<Rightarrow> nat \<Rightarrow> int \<Rightarrow> 'a \<Rightarrow>
      (int \<times> int \<times> byte list \<times> 'a) option" and rd once buf ptr left k x
    assume ih: "\<And>rd once buf ptr left k y. loop rd once buf ptr left k = Some y \<Longrightarrow>
        P rd once buf ptr left k y"
      and body: "(if left > 0 then
        (case rd (nat left) k of
           (RdBytes bs, k1) \<Rightarrow>
             if bs = [] then Some (0, left, buf, k1)
             else if once then Some (0, left - int (length bs), store buf ptr bs, k1)
             else loop rd once (store buf ptr bs) (ptr + length bs) (left - int (length bs)) k1
         | (RdErr e, k1) \<Rightarrow>
             if \<not> transient e then Some (e, left, buf, k1)
             else if once then Some (0, left, buf, k1)
             else loop rd once buf ptr left k1)
      else Some (0, left, buf, k)) = Some x"
    show "P rd once buf ptr left k x"
      using ih body unfolding P_def
      by (subst readSocket_loop.simps)
        (auto simp: socket_value_def errno_set_def split: if_splits prod.splits read_res.splits)
  qed
  then show ?thesis using assms(1) by (simp add: P_def)
qed

lemma readSocket_loop_ge:
  assumes "readSocket_loop rd n buf ptr left k = Some y"
  shows "\<exists>x. read_loop rd False buf ptr left k = Some x"
proof -
  define P where "P = (\<lambda>rd (n::int) buf ptr left k (y::int \<times> byte list \<times> 'a).
    \<exists>x. read_loop (rd :: nat \<Rightarrow> 'a \<Rightarrow> read_res \<times> 'a) False buf ptr left k = Some x)"
  have "P rd n buf ptr left k y"
    using assms
  proof (rule readSocket_loop.raw_induct[where P = P, rotated])
    fix loop :: "(nat \<Rightarrow> 'a \<Rightarrow> read_res \<times> 'a) \<Rightarrow> int \<Rightarrow> byte list \<Rightarrow> nat \<Rightarrow> int \<Rightarrow> 'a \<Rightarrow>
      (int \<times> byte list \<times> 'a) option" and rd n buf ptr left k y
    assume ih: "\<And>rd n buf ptr left k y. loop rd n buf ptr left k = Some y \<Longrightarrow> P rd n buf ptr left k y"
      and body: "(if left > 0 then
        (case rd (nat left) k of
           (RdBytes bs, k1) \<Rightarrow>
             if bs = [] then Some (0, buf, k1)
             else loop rd n (store buf ptr bs) (ptr + length bs) (left - int (length bs)) k1
         | (RdErr e, k1) \<Rightarrow>
             if \<not> transient e then Some (-1, buf, k1) else loop rd n buf ptr left k1)
      else Some (n - left, buf, k)) = Some y"
    show "P rd n buf ptr left k y"
      using ih body unfolding P_def
      by (subst read_loop.simps) (auto split: if_splits prod.splits read_res.splits)
  qed
  then show ?thesis by (simp add: P_def)
qed

text \<open>C24: \<open>readSocket\<close> and the connection's blocking \<open>read\<close> are the same transfer under two
  conventions: for every system call that sets \<open>errno\<close> when it fails, either both never
  return, or both stop with the same buffer and kernel, and \<open>readSocket\<close> returns -1 where
  \<open>read\<close> returns an error, the full count where nothing is left, and 0 where \<open>read\<close> stopped
  early at the end of the stream.\<close>

theorem readSocket_refines_read:
  assumes "errno_set rd"
  shows "readSocket_loop rd n buf ptr left k =
         map_option (socket_value n) (read_loop rd False buf ptr left k)"
proof (cases "read_loop rd False buf ptr left k")
  case None
  then have "readSocket_loop rd n buf ptr left k = None"
    using readSocket_loop_ge[of rd n buf ptr left k]
    by (cases "readSocket_loop rd n buf ptr left k") auto
  then show ?thesis using None by simp
next
  case (Some x)
  then show ?thesis using readSocket_loop_le[OF assms Some] by simp
qed

definition never_fails :: "(nat \<Rightarrow> 'k \<Rightarrow> read_res \<times> 'k) \<Rightarrow> bool" where
  "never_fails rd \<longleftrightarrow> (\<forall>n k e k'. rd n k = (RdErr e, k') \<longrightarrow> transient e)"

lemma never_failsD: "never_fails rd \<Longrightarrow> rd n k = (RdErr e, k') \<Longrightarrow> transient e"
  unfolding never_fails_def by blast

lemma never_fails_loop:
  assumes "read_loop rd once buf ptr left k = Some x" "never_fails rd"
  shows "fst x = 0"
proof -
  define P where "P = (\<lambda>rd (once :: bool) (buf :: byte list) (ptr :: nat) (left :: int) (k :: 'a) x.
    never_fails (rd :: nat \<Rightarrow> 'a \<Rightarrow> read_res \<times> 'a) \<longrightarrow>
    fst (x :: int \<times> int \<times> byte list \<times> 'a) = 0)"
  have "P rd once buf ptr left k x"
    using assms(1)
    by (rule read_loop.raw_induct[where P = P, rotated])
      (auto simp: P_def split: if_splits prod.splits read_res.splits dest: never_failsD)
  then show ?thesis using assms(2) by (simp add: P_def)
qed

text \<open>The comment of \<open>readSocket\<close> says it returns the number of bytes received on success,
  and that 0 indicates end of file. When the peer sends some bytes, but fewer than asked, and
  closes, the bytes are consumed and stored but the result is 0, so the caller cannot tell a
  partial message from an empty stream. With enough bytes the result is the full count.\<close>

theorem readSocket_partial_eof:
  assumes "byte_source (os_read os fd) pending stalls" and "never_fails (os_read os fd)"
    and "errno_set (os_read os fd)"
    and "0 < sint fd" and "0 < n" and "nat n \<le> length buf"
  shows "\<exists>k'. readSocket os fd (Some buf) n k =
      Some (if length (pending k) < nat n then 0 else n,
            take (nat n) (pending k) @ drop (min (nat n) (length (pending k))) buf, k') \<and>
    pending k' = drop (nat n) (pending k)"
proof -
  obtain err got k' where
    l: "read_loop (os_read os fd) False buf 0 n k = Some (err, n - int (length got), store buf 0 got, k')"
    and o: "read_outcome pending (nat n) False err got k k'"
    using read_loop_source[OF assms(1), of n 0 buf False k] assms by auto
  have e: "err = 0" using never_fails_loop[OF l assms(2)] by simp
  have lb: "length got \<le> length buf" using o assms by (simp add: read_outcome_def)
  have got: "got = take (nat n) (pending k)" "pending k' = drop (nat n) (pending k)"
    using o e by (auto simp: read_outcome_def)
  have "readSocket os fd (Some buf) n k = Some (socket_value n (err, n - int (length got), store buf 0 got, k'))"
    using assms l by (simp add: readSocket_def readSocket_loop_le)
  then show ?thesis
    using got e lb assms(5)
    by (intro exI[of _ k']) (auto simp: socket_value_def store_front min_def)
qed

lemma writeSocket_loop_value:
  assumes "byte_sink wr sent stalls"
  shows "0 \<le> left \<Longrightarrow> ptr + nat left \<le> length buf \<Longrightarrow> write_loop wr buf ptr left k = Some (err, l, k') \<Longrightarrow>
    writeSocket_loop wr n buf ptr left k = Some (if err = 0 then n - l else -1, k')"
proof (induction "(nat left, stalls k)" arbitrary: left k ptr rule: transfer_induct)
  case less: (1 left k ptr)
  show ?case
  proof (cases "0 < left")
    case False
    then show ?thesis using less.prems
      by (subst writeSocket_loop.simps) (simp add: loop_unfold)
  next
    case pos: True
    define bs where "bs = take (nat left) (drop ptr buf)"
    have lbs: "length bs = nat left" "bs \<noteq> []" using less.prems pos by (auto simp: bs_def)
    obtain r k1 where wr: "wr bs k = (r, k1)" by (cases "wr bs k")
    show ?thesis
    proof (cases r)
      case (WrErr e)
      note e = byte_sink_err[OF assms wr[unfolded WrErr]]
      show ?thesis
      proof (cases "transient e")
        case True
        have "writeSocket_loop wr n buf ptr left k = writeSocket_loop wr n buf ptr left k1"
          using True wr WrErr pos by (subst writeSocket_loop.simps) (simp add: bs_def)
        also have "\<dots> = Some (if err = 0 then n - l else -1, k')"
          by (rule less.hyps)
            (use e True less.prems wr WrErr pos in \<open>auto simp: loop_unfold bs_def\<close>)
        finally show ?thesis .
      next
        case False
        then show ?thesis using e less.prems wr WrErr pos
          by (subst writeSocket_loop.simps) (simp add: loop_unfold bs_def)
      qed
    next
      case (WrCount c)
      note b = byte_sink_count[OF assms wr[unfolded WrCount]]
      have cl: "c \<le> nat left" using b lbs by simp
      have st: "c = 0 \<Longrightarrow> stalls k1 < stalls k" using b(3) lbs by simp
      have "writeSocket_loop wr n buf ptr left k = writeSocket_loop wr n buf (ptr + c) (left - int c) k1"
        using wr WrCount pos by (subst writeSocket_loop.simps) (simp add: bs_def)
      also have "\<dots> = Some (if err = 0 then n - l else -1, k')"
        by (rule less.hyps)
          (use cl st less.prems wr WrCount pos in \<open>auto simp: loop_unfold bs_def nat_diff_distrib\<close>)
      finally show ?thesis .
    qed
  qed
qed

text \<open>\<open>writeSocket\<close> to a stream socket always returns: the full count, and then the peer's
  stream has grown by exactly the first \<open>n\<close> bytes of the buffer, or -1 after a prefix of them
  was sent. Bad arguments (a descriptor below 1, a NULL buffer, a count below 1) are refused
  with -1 and no system call.\<close>

theorem writeSocket_all_or_error:
  assumes "byte_sink (os_write os fd) sent stalls"
    and "\<And>b. buffer = Some b \<Longrightarrow> nat n \<le> length b"
  shows "\<exists>r m k'. writeSocket os fd buffer n k = Some (r, k') \<and>
    (if sint fd \<le> 0 \<or> buffer = None \<or> n \<le> 0 then r = -1 \<and> k' = k
     else sent k' = sent k @ take m (the buffer) \<and> m \<le> nat n \<and> (r = n \<and> m = nat n \<or> r = -1))"
proof (cases "sint fd \<le> 0 \<or> buffer = None \<or> n \<le> 0")
  case True
  then show ?thesis by (simp add: writeSocket_def)
next
  case False
  then obtain buf where buf: "buffer = Some buf" by (cases buffer) auto
  have len: "0 + nat n \<le> length buf" using assms(2)[OF buf] by simp
  obtain err m k' where
    l: "write_loop (os_write os fd) buf 0 n k = Some (err, n - int m, k')"
    and o: "write_outcome sent (take (nat n) (drop 0 buf)) err m k k'"
    using write_loop_sink[OF assms(1) _ len, of k] False by auto
  have "writeSocket_loop (os_write os fd) n buf 0 n k = Some (if err = 0 then n - (n - int m) else -1, k')"
    using writeSocket_loop_value[OF assms(1) _ len l] False by simp
  then show ?thesis
    using False buf o len
    by (intro exI[of _ "if err = 0 then n else -1"] exI[of _ m] exI[of _ k'])
      (auto simp: writeSocket_def write_outcome_def min_def split: if_splits)
qed

text \<open>\<open>set_block_mode(b)\<close> and \<open>setSocketBlockMode(fd, !b)\<close> are the same operation, although
  their flags have opposite meanings; the flags written differ from those read in the
  \<open>O_NONBLOCK\<close> bit only, which is set exactly for a non-blocking request, and the result tells
  whether the kernel accepted them.\<close>

theorem block_mode_flags:
  "\<exists>new. (\<forall>i. bit new i = (if i = 11 then \<not> b else bit (fst (os_getfl os fd k)) i)) \<and>
     set_block_mode os fd b k =
       (let (status, k1) = os_setfl os fd new (snd (os_getfl os fd k)) in (0 \<le> sint status, k1)) \<and>
     setSocketBlockMode os fd (\<not> b) k = set_block_mode os fd b k"
proof -
  let ?cur = "fst (os_getfl os fd k)"
  have o: "bit O_NONBLOCK i \<longleftrightarrow> i = 11" for i
  proof -
    have p: "O_NONBLOCK = push_bit 11 (1 :: 32 word)" by (simp add: O_NONBLOCK_def)
    show ?thesis unfolding p by (auto simp: bit_push_bit_iff bit_1_iff simp del: push_bit_of_1)
  qed
  show ?thesis
    by (rule exI[of _ "if b then ?cur AND NOT O_NONBLOCK else ?cur OR O_NONBLOCK"])
      (auto simp: set_block_mode_def setSocketBlockMode_def Let_def bit_and_iff bit_or_iff
        bit_not_iff o split: prod.splits dest: bit_imp_le_length)
qed

section \<open>A kernel that keeps the promises\<close>

text \<open>
  Its state is the stream and the number of interruptions to come; a call moves at most two
  bytes. The properties above are applied to it.
\<close>

definition demo_os :: "(byte list \<times> nat) os_io" where
  "demo_os = \<lparr>os_getfl = (\<lambda>fd k. (2, k)),
             os_setfl = (\<lambda>fd f k. (0, k)),
             os_read = (\<lambda>fd n (bs, s). if s = 0 then (RdBytes (take (min n 2) bs), (drop (min n 2) bs, 0))
                                    else (RdErr EAGAIN, (bs, s - 1))),
             os_write = (\<lambda>fd xs (bs, s). if s = 0 then (WrCount (min 2 (length xs)), (bs @ take 2 xs, 0))
                                     else (WrErr EINTR, (bs, s - 1)))\<rparr>"

lemma demo_source: "byte_source (os_read demo_os fd) fst snd"
  by (auto simp: byte_source_def demo_os_def EAGAIN_def split: if_splits)

lemma demo_sink: "byte_sink (os_write demo_os fd) fst snd"
  by (auto simp: byte_sink_def demo_os_def EINTR_def min_def split: if_splits)

lemma demo_flags: "keeps_flags demo_os fst"
  by (simp add: keeps_flags_def demo_os_def)

lemma demo_errno: "errno_set (os_read demo_os fd)"
  by (auto simp: errno_set_def demo_os_def EAGAIN_def split: if_splits)

lemma demo_never_fails: "never_fails (os_read demo_os fd)"
  by (auto simp: never_fails_def demo_os_def transient_def split: if_splits)

theorem uds_read_blocking_witness:
  "\<exists>err got k'. uds_read demo_os 5 (Some [0, 0, 0, 0]) 3 False ([7, 8, 9, 10], 2) =
      Some \<lparr>rr_ret = err, rr_cnt = None, rr_buf = got @ drop (length got) [0, 0, 0, 0], rr_kernel = k'\<rparr> \<and>
    [7, 8, 9, 10] = got @ fst k' \<and> length got \<le> 3 \<and>
    (if err = 0 then got = [7, 8, 9] else \<not> transient err)"
  using uds_read_blocking[OF demo_source demo_flags, of 5 3 "[0, 0, 0, 0]" "([7, 8, 9, 10], 2)"]
  by (simp split del: if_split cong: if_cong)

theorem uds_read_poll_witness:
  "\<exists>got err. uds_read demo_os 5 (Some [0, 0, 0, 0]) 4 True ([7, 8, 9, 10], 0) =
      Some \<lparr>rr_ret = err, rr_cnt = Some (int (length got)), rr_buf = got @ drop (length got) [0, 0, 0, 0],
            rr_kernel = ([9, 10], 0)\<rparr> \<and> got = [7, 8] \<and> err = 0"
  using uds_read_poll[OF demo_source demo_flags, of 5 4 "[0, 0, 0, 0]" "([7, 8, 9, 10], 0)"
      "([7, 8, 9, 10], 0)" "RdBytes [7, 8]" "([9, 10], 0)"]
  by (simp add: demo_os_def set_block_mode_def)

theorem uds_write_all_witness:
  "\<exists>err m k'. uds_write demo_os 5 (Some [7, 8, 9]) 3 ([1], 2) = Some (err, k') \<and>
    m \<le> 3 \<and> fst k' = 1 # take m [7, 8, 9] \<and> (err = 0 \<longleftrightarrow> m = 3) \<and> (err = 0 \<or> \<not> transient err)"
  using uds_write_all[OF demo_sink, of 5 3 "[7, 8, 9]" "([1], 2)"]
  by (simp split del: if_split cong: if_cong)

theorem readSocket_refines_read_witness:
  "readSocket_loop (os_read demo_os 5) 2 [0, 0] 0 2 ([7], 0) =
     map_option (socket_value 2) (read_loop (os_read demo_os 5) False [0, 0] 0 2 ([7], 0))"
  by (rule readSocket_refines_read[OF demo_errno])

theorem readSocket_partial_eof_witness:
  "\<exists>k'. readSocket demo_os 5 (Some [0, 0, 0, 0]) 4 ([7, 8, 9], 1) = Some (0, [7, 8, 9, 0], k') \<and>
     fst k' = []"
  using readSocket_partial_eof[OF demo_source demo_never_fails demo_errno,
      of 5 4 "[0, 0, 0, 0]" "([7, 8, 9], 1)"]
  by simp

theorem writeSocket_all_or_error_witness:
  "\<exists>r m k'. writeSocket demo_os 5 (Some [7, 8, 9]) 3 ([1], 2) = Some (r, k') \<and>
     fst k' = 1 # take m [7, 8, 9] \<and> (r = 3 \<and> m = 3 \<or> r = -1)"
  using writeSocket_all_or_error[OF demo_sink, of "Some [7, 8, 9]" 3 5 "([1], 2)"] by auto

end
