(* ===== verification/Kernel.thy ===== *)
theory Kernel
  imports IpcService
begin

text \<open>
  System calls as the sources issue them, in order. The kernel is a parameter: the record
  \<open>os\<close> gives, for every history of calls, what the last of them returned, so an answer may
  depend on anything that happened before. A program is a function on the history and
  \<open>errno\<close>. The descriptors that are open after a history are computed from it.
\<close>

datatype sockaddr =
    Inet "string option" "16 word"   \<comment> \<open>host, or \<open>INADDR_ANY\<close>, and port\<close>
  | Unix string                      \<comment> \<open>the array \<open>sun_path\<close>\<close>

datatype call =
    CSocket bool                     \<comment> \<open>True for \<open>AF_UNIX\<close>, False for \<open>AF_INET\<close>\<close>
  | CSetCloexec int
  | CReuseAddr int
  | CReusePort int
  | CBind int sockaddr nat           \<comment> \<open>descriptor, address, length\<close>
  | CGetFl int
  | CSetFl int "32 word"
  | CListen int int
  | CAccept int
  | CConnect int sockaddr nat
  | CClose int
  | CUnlink string
  | CStat string
  | CGetpid
  | CLog                             \<comment> \<open>a message to the log, which may change \<open>errno\<close>\<close>

record os =
  os_ret :: "call list \<Rightarrow> int"
  os_errno :: "call list \<Rightarrow> int"
  os_peer :: "call list \<Rightarrow> string"   \<comment> \<open>the path of the peer an \<open>accept\<close> reports\<close>
  os_is_sock :: "call list \<Rightarrow> bool"  \<comment> \<open>\<open>S_ISSOCK\<close> of the mode a \<open>stat\<close> reports\<close>
  os_uid :: "call list \<Rightarrow> int"

record sys =
  calls :: "call list"
  errno :: int

definition sys_call :: "os \<Rightarrow> call \<Rightarrow> sys \<Rightarrow> int \<times> sys" where
  "sys_call os c s =
     (let h = calls s @ [c] in (os_ret os h, \<lparr>calls = h, errno = os_errno os h\<rparr>))"

section \<open>Open descriptors\<close>

fun creates :: "call \<Rightarrow> bool" where
  "creates (CSocket u) = True"
| "creates (CAccept l) = True"
| "creates _ = False"

fun fd_step :: "os \<Rightarrow> call list \<Rightarrow> call \<Rightarrow> int set \<Rightarrow> int set" where
  "fd_step os h (CClose fd) A = A - {fd}"
| "fd_step os h c A = (if creates c \<and> 0 \<le> os_ret os (h @ [c]) then insert (os_ret os (h @ [c])) A else A)"

text \<open>The descriptors open after a history that started with those of \<open>A\<close>.\<close>

fun fds_from :: "os \<Rightarrow> call list \<Rightarrow> call list \<Rightarrow> int set \<Rightarrow> int set" where
  "fds_from os h [] A = A"
| "fds_from os h (c # cs) A = fds_from os (h @ [c]) cs (fd_step os h c A)"

definition open_fds :: "os \<Rightarrow> call list \<Rightarrow> int set" where
  "open_fds os h = fds_from os [] h {}"

lemma fds_from_append:
  "fds_from os h (cs @ ds) A = fds_from os (h @ cs) ds (fds_from os h cs A)"
  by (induction cs arbitrary: h A) simp_all

lemma open_fds_snoc: "open_fds os (h @ [c]) = fd_step os h c (open_fds os h)"
  by (simp add: open_fds_def fds_from_append)

lemma open_fds_Nil [simp]: "open_fds os [] = {}"
  by (simp add: open_fds_def)

text \<open>POSIX: a descriptor that a call creates was not open before.\<close>

definition fresh_fds :: "os \<Rightarrow> bool" where
  "fresh_fds os \<longleftrightarrow>
     (\<forall>h c. creates c \<longrightarrow> 0 \<le> os_ret os (h @ [c]) \<longrightarrow> os_ret os (h @ [c]) \<notin> open_fds os h)"

lemma fresh_fdsD:
  "fresh_fds os \<Longrightarrow> creates c \<Longrightarrow> 0 \<le> os_ret os (h @ [c]) \<Longrightarrow> os_ret os (h @ [c]) \<notin> open_fds os h"
  by (simp add: fresh_fds_def)

definition sys_fds :: "os \<Rightarrow> sys \<Rightarrow> int set" where
  "sys_fds os s = open_fds os (calls s)"

text \<open>
  What one call does to the open descriptors and to the history: the facts the component
  proofs rest on.
\<close>

lemma sys_call_fst: "fst (sys_call os c s) = os_ret os (calls s @ [c])"
  and sys_call_calls [simp]: "calls (snd (sys_call os c s)) = calls s @ [c]"
  and sys_call_errno: "errno (snd (sys_call os c s)) = os_errno os (calls s @ [c])"
  by (simp_all add: sys_call_def Let_def)

lemma sys_fds_close [simp]:
  "sys_fds os (snd (sys_call os (CClose fd) s)) = sys_fds os s - {fd}"
  by (simp add: sys_fds_def open_fds_snoc)

lemma sys_fds_create:
  "creates c \<Longrightarrow> sys_fds os (snd (sys_call os c s)) =
     (if 0 \<le> fst (sys_call os c s) then insert (fst (sys_call os c s)) (sys_fds os s) else sys_fds os s)"
  by (cases c) (simp_all add: sys_fds_def open_fds_snoc sys_call_fst)

fun neutral :: "call \<Rightarrow> bool" where
  "neutral (CClose fd) = False"
| "neutral c = (\<not> creates c)"

lemma sys_fds_neutral: "neutral c \<Longrightarrow> sys_fds os (snd (sys_call os c s)) = sys_fds os s"
  by (cases c) (simp_all add: sys_fds_def open_fds_snoc)

lemma sys_fds_frame [simp]:
  "sys_fds os (snd (sys_call os (CSetCloexec fd) s)) = sys_fds os s"
  "sys_fds os (snd (sys_call os (CReuseAddr fd) s)) = sys_fds os s"
  "sys_fds os (snd (sys_call os (CReusePort fd) s)) = sys_fds os s"
  "sys_fds os (snd (sys_call os (CBind fd a n) s)) = sys_fds os s"
  "sys_fds os (snd (sys_call os (CGetFl fd) s)) = sys_fds os s"
  "sys_fds os (snd (sys_call os (CSetFl fd w) s)) = sys_fds os s"
  "sys_fds os (snd (sys_call os (CListen fd m) s)) = sys_fds os s"
  "sys_fds os (snd (sys_call os (CConnect fd a n) s)) = sys_fds os s"
  "sys_fds os (snd (sys_call os (CUnlink p) s)) = sys_fds os s"
  "sys_fds os (snd (sys_call os (CStat p) s)) = sys_fds os s"
  "sys_fds os (snd (sys_call os CGetpid s)) = sys_fds os s"
  "sys_fds os (snd (sys_call os CLog s)) = sys_fds os s"
  by (rule sys_fds_neutral, simp)+

lemma sys_fds_errno [simp]: "sys_fds os (s\<lparr>errno := e\<rparr>) = sys_fds os s"
  by (simp add: sys_fds_def)

lemma fresh_create:
  assumes "fresh_fds os" "creates c" "0 \<le> fst (sys_call os c s)"
  shows "fst (sys_call os c s) \<notin> sys_fds os s"
  using fresh_fdsD[OF assms(1,2), of "calls s"] assms(3)
  by (simp add: sys_call_fst sys_fds_def)

section \<open>Strings in fixed arrays\<close>

definition sun_path_size :: nat where "sun_path_size = 108"

text \<open>The offset of \<open>sun_path\<close> in \<open>sockaddr_un\<close>.\<close>

definition sun_path_offset :: nat where "sun_path_offset = 2"

definition zeroed_path :: string where
  "zeroed_path = replicate sun_path_size NUL"

text \<open>\<open>strcpy\<close>: None when the array is too small, which is undefined behaviour.\<close>

definition strcpy :: "string \<Rightarrow> string \<Rightarrow> string option" where
  "strcpy dest src =
     (if length (c_str src) < length dest
      then Some (c_str src @ NUL # drop (Suc (length (c_str src))) dest) else None)"

text \<open>An assignment \<open>a[i] = c\<close>: None outside the array.\<close>

definition array_set :: "'a list \<Rightarrow> nat \<Rightarrow> 'a \<Rightarrow> 'a list option" where
  "array_set a i x = (if i < length a then Some (a[i := x]) else None)"

text \<open>\<open>setw(width)\<close>, \<open>setfill('0')\<close>, or \<open>%05d\<close>, of a number that is not negative.\<close>

fun digits :: "nat \<Rightarrow> string" where
  "digits n = (if n < 10 then [char_of (48 + n)] else digits (n div 10) @ [char_of (48 + n mod 10)])"

declare digits.simps [simp del]

definition padded :: "nat \<Rightarrow> nat \<Rightarrow> string" where
  "padded width n = replicate (width - length (digits n)) CHR ''0'' @ digits n"

definition CLI_PATH :: string where "CLI_PATH = ''/var/tmp/''"

definition client_path :: "int \<Rightarrow> string" where
  "client_path pid = CLI_PATH @ padded 5 (nat pid)"

end
