(* ===== verification/SocketHelper.thy ===== *)
theory SocketHelper
  imports Kernel StreamIO
begin

text \<open>
  \<open>SocketHelper.cpp\<close>: the functions that set up, accept and connect sockets, as programs over
  the history of system calls, and the passing of descriptors over a socket. Of the messages to
  the log the model keeps that they are written, as calls \<open>CLog\<close> of the history, since writing
  one may change \<open>errno\<close>; the functions that pass descriptors do not look at \<open>errno\<close> afterwards,
  and there they are left out. The overloaded C++ names are told apart by a suffix: \<open>_in\<close> for the
  Internet versions, \<open>_un\<close> for those of Unix domain sockets.
\<close>

section \<open>Internet sockets\<close>

text \<open>A finished call, or a write outside an array: the C++ program has no defined result then.\<close>

datatype 'a outcome = Ret 'a sys | UB sys

text \<open>\<open>HError(...)\<close>: it opens no descriptor, and \<open>errno\<close> is afterwards whatever it leaves.\<close>

definition hlog :: "os \<Rightarrow> sys \<Rightarrow> sys" where
  "hlog os s = snd (sys_call os CLog s)"

definition createStreamSocket :: "os \<Rightarrow> sys \<Rightarrow> int \<times> sys" where
  "createStreamSocket os s =
     (let (newSocket, s1) = sys_call os (CSocket False) s in
      if newSocket < 0 then (newSocket, hlog os s1)
      else let (_, s2) = sys_call os (CSetCloexec newSocket) s1;
               (r, s3) = sys_call os (CReuseAddr newSocket) s2
           in if r < 0 then let (_, s4) = sys_call os (CClose newSocket) (hlog os s3) in (-1, s4)
              else (newSocket, s3))"

text \<open>The message, \<open>close(fd)\<close> and \<open>return -1\<close>.\<close>

definition close_and_fail :: "os \<Rightarrow> int \<Rightarrow> sys \<Rightarrow> int \<times> sys" where
  "close_and_fail os fd s = (let (_, s1) = sys_call os (CClose fd) (hlog os s) in (-1, s1))"

text \<open>\<open>fcntl\<close> of this kernel, for \<open>setSocketBlockMode\<close>.\<close>

definition fcntl_of :: "os \<Rightarrow> sys os_fl" where
  "fcntl_of os =
     \<lparr>os_getfl = (\<lambda>fd s. let (r, s1) = sys_call os (CGetFl (sint fd)) s in (word_of_int r, s1)),
      os_setfl = (\<lambda>fd w s. let (r, s1) = sys_call os (CSetFl (sint fd) w) s in (word_of_int r, s1))\<rparr>"

definition sizeof_sockaddr_in :: nat where "sizeof_sockaddr_in = 16"

definition make_sockaddr_in :: "string option \<Rightarrow> cint \<Rightarrow> sockaddr" where
  "make_sockaddr_in hostAddr hostPort = Inet hostAddr (ucast hostPort)"

definition setupListenSocket_in :: "os \<Rightarrow> cint \<Rightarrow> int \<Rightarrow> bool \<Rightarrow> sys \<Rightarrow> int \<times> sys" where
  "setupListenSocket_in os listenPort maxConnNum makeNonBlocking s =
     (let (newSocket, s1) = createStreamSocket os s in
      if newSocket \<le> 0 then (-1, s1)
      else let addr = make_sockaddr_in None listenPort;
               (b, s2) = sys_call os (CBind newSocket addr sizeof_sockaddr_in) s1
           in if b \<noteq> 0 then close_and_fail os newSocket s2
              else let (ok, s3) = setSocketBlockMode (fcntl_of os) (word_of_int newSocket) makeNonBlocking s2
                   in if \<not> ok then close_and_fail os newSocket s3
                      else let (l, s4) = sys_call os (CListen newSocket maxConnNum) s3
                           in if l < 0 then close_and_fail os newSocket s4 else (newSocket, s4))"

text \<open>
  \<open>setupConnectionSocket\<close>; \<open>reuse\<close> says that the program is built with \<open>REUSE_FOR_TCP\<close> on a
  system with \<open>SO_REUSEPORT\<close>.
\<close>

definition setupConnectionSocket_in :: "bool \<Rightarrow> os \<Rightarrow> string option \<Rightarrow> cint \<Rightarrow> sys \<Rightarrow> int \<times> sys" where
  "setupConnectionSocket_in reuse os remoteIP connectPort s =
     (let (newSocket, s1) = createStreamSocket os s in
      if newSocket \<le> 0 then (-1, s1)
      else let (r, s2) = (if reuse then sys_call os (CReusePort newSocket) s1 else (0, s1))
           in if r < 0 then close_and_fail os newSocket s2
              else let addr = make_sockaddr_in remoteIP connectPort;
                       (c, s3) = sys_call os (CConnect newSocket addr sizeof_sockaddr_in) s2
                   in if c \<noteq> 0 then close_and_fail os newSocket s3 else (newSocket, s3))"

text \<open>
  \<open>acceptConnectSocket(listenfd, clientAddr)\<close>. \<open>peer\<close> is the address of the peer, as bytes.
  With a non-NULL \<open>clientAddr\<close> the code passes the address and the size of the pointer
  variable itself, so the kernel writes over the variable. The result is the descriptor, the
  bytes of the variable and the structure it pointed to.
\<close>

definition sizeof_pointer :: nat where "sizeof_pointer = 8"

definition overwrite :: "byte list \<Rightarrow> byte list \<Rightarrow> byte list" where
  "overwrite target src = take (length target) src @ drop (length src) target"

definition acceptConnectSocket_in ::
  "os \<Rightarrow> int \<Rightarrow> byte list \<Rightarrow> (byte list \<times> byte list) option \<Rightarrow> sys \<Rightarrow>
   (int \<times> (byte list \<times> byte list) option) \<times> sys" where
  "acceptConnectSocket_in os listenfd peer clientAddr s =
     (let (connfd, s1) = sys_call os (CAccept listenfd) s in
      case clientAddr of
        None \<Rightarrow> ((connfd, None), s1)
      | Some (pointer, pointee) \<Rightarrow>
          if connfd < 0 then ((connfd, clientAddr), s1)
          else ((connfd, Some (overwrite pointer (take sizeof_pointer peer), pointee)), s1))"

section \<open>Unix domain sockets\<close>

text \<open>The exit \<open>errout\<close>: close the descriptor and restore \<open>errno\<close>.\<close>

definition errout :: "os \<Rightarrow> int \<Rightarrow> int \<Rightarrow> sys \<Rightarrow> int outcome" where
  "errout os fd rval s =
     (let err = errno s; (_, s1) = sys_call os (CClose fd) s in Ret rval (s1\<lparr>errno := err\<rparr>))"

definition setupListenSocket_un :: "os \<Rightarrow> string \<Rightarrow> int \<Rightarrow> sys \<Rightarrow> int outcome" where
  "setupListenSocket_un os serverName maxConnNum s =
     (let (fd, s1) = sys_call os (CSocket True) s in
      if fd < 0 then Ret (-1) (hlog os s1)
      else let (_, s2) = sys_call os (CUnlink serverName) s1 in
           case strcpy zeroed_path serverName of
             None \<Rightarrow> UB s2
           | Some sun_path \<Rightarrow>
               let len = sun_path_offset + length (c_str serverName);
                   (b, s3) = sys_call os (CBind fd (Unix sun_path) len) s2
               in if b < 0 then errout os fd (-2) (hlog os s3)
                  else let (l, s4) = sys_call os (CListen fd maxConnNum) s3
                       in if l < 0 then errout os fd (-3) (hlog os s4) else Ret fd s4)"

text \<open>
  The address of the peer as the code makes a C string of it: \<open>addr.sun_path[len] = 0\<close>, where
  \<open>len\<close> is the length the kernel reported, less the offset of the array.
\<close>

definition peer_path :: "string \<Rightarrow> string option" where
  "peer_path reported =
     map_option c_str (array_set (take sun_path_size (reported @ zeroed_path)) (length reported) NUL)"

definition acceptConnectSocket_un :: "os \<Rightarrow> int \<Rightarrow> sys \<Rightarrow> (int \<times> int option) outcome" where
  "acceptConnectSocket_un os listenfd s =
     (let (clifd, s1) = sys_call os (CAccept listenfd) s in
      if clifd < 0 then Ret (-1, None) (hlog os s1)
      else case peer_path (os_peer os (calls s1)) of
             None \<Rightarrow> UB s1
           | Some path \<Rightarrow>
               let (st, s2) = sys_call os (CStat path) s1
               in if st < 0
                  then (case errout os clifd (-2) (hlog os s2) of Ret r s3 \<Rightarrow> Ret (r, None) s3 | UB s3 \<Rightarrow> UB s3)
                  else if \<not> os_is_sock os (calls s2)
                  then (case errout os clifd (-3) (hlog os s2) of Ret r s3 \<Rightarrow> Ret (r, None) s3 | UB s3 \<Rightarrow> UB s3)
                  else let uid = os_uid os (calls s2); (_, s3) = sys_call os (CUnlink path) s2
                       in Ret (clifd, Some uid) s3)"

definition setupConnectionSocket_un :: "os \<Rightarrow> string \<Rightarrow> sys \<Rightarrow> int outcome" where
  "setupConnectionSocket_un os serverName s =
     (let (fd, s1) = sys_call os (CSocket True) s in
      if fd < 0 then Ret (-1) s1
      else let (pid, s2) = sys_call os CGetpid s1 in
           case strcpy zeroed_path (client_path pid) of
             None \<Rightarrow> UB s2
           | Some own \<Rightarrow>
               let len = sun_path_offset + length (c_str own);
                   (_, s3) = sys_call os (CUnlink (c_str own)) s2;
                   (b, s4) = sys_call os (CBind fd (Unix own) len) s3
               in if b < 0 then errout os fd (-2) (hlog os s4)
                  else case strcpy zeroed_path serverName of
                         None \<Rightarrow> UB s4
                       | Some peer \<Rightarrow>
                           let len' = sun_path_offset + length (c_str serverName);
                               (c, s5) = sys_call os (CConnect fd (Unix peer) len') s4
                           in if c < 0 then errout os fd (-4) (hlog os s5) else Ret fd s5)"

section \<open>What the setup functions guarantee\<close>

text \<open>
  The contract of a function that creates a descriptor: on failure the open descriptors are
  those before the call, on success they have grown by exactly the one returned.
\<close>

definition acquires :: "os \<Rightarrow> sys \<Rightarrow> int \<times> sys \<Rightarrow> bool" where
  "acquires os s = (\<lambda>(r, s'). if r < 0 then sys_fds os s' = sys_fds os s
      else r \<notin> sys_fds os s \<and> sys_fds os s' = insert r (sys_fds os s))"

lemma hlog_simps [simp]:
  "sys_fds os (hlog os s) = sys_fds os s" "calls (hlog os s) = calls s @ [CLog]"
  "errno (hlog os s) = os_errno os (calls s @ [CLog])"
  by (simp_all add: hlog_def sys_call_errno)

lemma acquires_cond:
  "acquires os s (if b then x else y) \<longleftrightarrow> (if b then acquires os s x else acquires os s y)"
  by simp

lemma acquires_pair: "acquires os s (a, b) \<longleftrightarrow> (if a < 0 then sys_fds os b = sys_fds os s
      else a \<notin> sys_fds os s \<and> sys_fds os b = insert a (sys_fds os s))"
  by (simp add: acquires_def)

lemma insert_minus: "a \<notin> A \<Longrightarrow> insert a A - {a} = A"
  by blast

lemma setSocketBlockMode_fds [simp]:
  "sys_fds os (snd (setSocketBlockMode (fcntl_of os) fd b s)) = sys_fds os s"
  by (simp add: setSocketBlockMode_def fcntl_of_def Let_def case_prod_beta)

lemma close_and_fail_simps [simp]:
  "fst (close_and_fail os fd s) = -1"
  "sys_fds os (snd (close_and_fail os fd s)) = sys_fds os s - {fd}"
  by (simp_all add: close_and_fail_def case_prod_beta)

lemma acquires_fail:
  assumes "sys_fds os s' = insert fd (sys_fds os s)" "fd \<notin> sys_fds os s"
  shows "acquires os s (close_and_fail os fd s')"
  using assms by (simp add: acquires_def case_prod_beta insert_minus)

lemma createStreamSocket_acquires:
  assumes "fresh_fds os"
  shows "acquires os s (createStreamSocket os s)"
  using fresh_create[OF assms, of "CSocket False" s]
  by (auto simp: createStreamSocket_def acquires_def Let_def case_prod_beta sys_fds_create)

lemma createStreamSocket_fds:
  assumes "fresh_fds os" "0 < fst (createStreamSocket os s)"
  shows "fst (createStreamSocket os s) \<notin> sys_fds os s"
    "sys_fds os (snd (createStreamSocket os s)) = insert (fst (createStreamSocket os s)) (sys_fds os s)"
  using createStreamSocket_acquires[OF assms(1), of s] assms(2)
  by (auto simp: acquires_def case_prod_beta)

lemma setup_in_acquires:
  assumes "fresh_fds os" and "fst (createStreamSocket os s) \<noteq> 0"
  shows "acquires os s (setupListenSocket_in os port m nb s)"
    and "acquires os s (setupConnectionSocket_in reuse os ip port s)"
proof -
  let ?c = "createStreamSocket os s"
  have neg: "fst ?c \<le> 0 \<Longrightarrow> sys_fds os (snd ?c) = sys_fds os s"
    using createStreamSocket_acquires[OF assms(1), of s] assms(2)
    by (auto simp: acquires_def case_prod_beta)
  note pos = createStreamSocket_fds[OF assms(1), of s]
  show "acquires os s (setupListenSocket_in os port m nb s)"
  proof (cases "0 < fst ?c")
    case True
    then have "\<not> fst ?c < 0" by simp
    then show ?thesis using pos[OF True] True
      by (simp add: setupListenSocket_in_def Let_def case_prod_beta acquires_cond acquires_pair
          acquires_fail split del: if_split cong: if_cong)
  next
    case False
    then show ?thesis using neg
      by (simp add: setupListenSocket_in_def Let_def case_prod_beta acquires_pair)
  qed
  show "acquires os s (setupConnectionSocket_in reuse os ip port s)"
  proof (cases "0 < fst ?c")
    case True
    then have "\<not> fst ?c < 0" by simp
    then show ?thesis using pos[OF True] True
      by (cases reuse) (simp_all add: setupConnectionSocket_in_def Let_def case_prod_beta acquires_cond
          acquires_pair acquires_fail split del: if_split cong: if_cong)
  next
    case False
    then show ?thesis using neg
      by (simp add: setupConnectionSocket_in_def Let_def case_prod_beta acquires_pair)
  qed
qed

text \<open>As long as descriptor 0 is in use, the Internet setup functions never leak a
  descriptor and never return a closed one, on any of their error paths: a negative result
  leaves the set of open descriptors as it was, any other result is a new descriptor and the
  only one added.\<close>

theorem tcp_setup_acquires:
  assumes "fresh_fds os" and "0 \<in> sys_fds os s"
  shows "acquires os s (createStreamSocket os s) \<and>
    acquires os s (setupListenSocket_in os port m nb s) \<and>
    acquires os s (setupConnectionSocket_in reuse os ip port s)"
proof -
  have "fst (createStreamSocket os s) \<noteq> 0"
    using createStreamSocket_acquires[OF assms(1), of s] assms(2)
    by (auto simp: acquires_def case_prod_beta)
  then show ?thesis
    using createStreamSocket_acquires setup_in_acquires assms(1) by blast
qed

text \<open>With descriptor 0 closed, \<open>createStreamSocket\<close> may return 0, which its callers take for
  a failure: they return -1 and leave descriptor 0 open.\<close>

theorem tcp_setup_leaks_zero:
  assumes "fst (createStreamSocket os s) = 0"
  shows "fst (setupListenSocket_in os port m nb s) = -1 \<and>
    fst (setupConnectionSocket_in reuse os ip port s) = -1 \<and>
    0 \<in> sys_fds os (snd (setupListenSocket_in os port m nb s)) \<and>
    0 \<in> sys_fds os (snd (setupConnectionSocket_in reuse os ip port s))"
proof -
  have "0 \<in> sys_fds os (snd (createStreamSocket os s))"
    using assms
    by (auto simp: createStreamSocket_def Let_def case_prod_beta sys_fds_create split: if_splits)
  then show ?thesis using assms
    by (simp add: setupListenSocket_in_def setupConnectionSocket_in_def Let_def case_prod_beta)
qed

text \<open>A kernel whose calls succeed; a new descriptor is the length of the history.\<close>

definition demo_kernel :: "int \<Rightarrow> os" where
  "demo_kernel first =
     \<lparr>os_ret = (\<lambda>h. if h \<noteq> [] \<and> creates (last h) then first + int (length h) - 1 else 0),
      os_errno = (\<lambda>h. 0), os_peer = (\<lambda>h. ''/var/tmp/00042''), os_is_sock = (\<lambda>h. True),
      os_uid = (\<lambda>h. 1000)\<rparr>"

lemma demo_kernel_fds: "fd \<in> open_fds (demo_kernel first) h \<Longrightarrow> fd < first + int (length h)"
proof (induction h rule: rev_induct)
  case (snoc c h)
  then show ?case by (cases c) (auto simp: open_fds_snoc demo_kernel_def split: if_splits)
qed simp

lemma demo_kernel_fresh: "fresh_fds (demo_kernel first)"
  using demo_kernel_fds[of _ first]
  by (fastforce simp: fresh_fds_def demo_kernel_def)

theorem tcp_setup_acquires_witness:
  "acquires (demo_kernel 0) \<lparr>calls = [CSocket True], errno = 0\<rparr>
     (setupListenSocket_in (demo_kernel 0) 8080 5 True \<lparr>calls = [CSocket True], errno = 0\<rparr>)"
  using tcp_setup_acquires[OF demo_kernel_fresh[of 0], of "\<lparr>calls = [CSocket True], errno = 0\<rparr>"]
  by (simp add: sys_fds_def open_fds_def demo_kernel_def)

theorem tcp_setup_leaks_zero_witness:
  "fst (setupListenSocket_in (demo_kernel 0) 8080 5 True \<lparr>calls = [], errno = 0\<rparr>) = -1"
  using tcp_setup_leaks_zero[of "demo_kernel 0" "\<lparr>calls = [], errno = 0\<rparr>" 8080 5 True False None]
  by (simp add: createStreamSocket_def sys_call_def demo_kernel_def Let_def)

subsection \<open>Unix domain sockets\<close>

fun finishes :: "('a \<Rightarrow> sys \<Rightarrow> bool) \<Rightarrow> 'a outcome \<Rightarrow> bool" where
  "finishes P (Ret r s) = P r s"
| "finishes P (UB s) = False"

lemma errout_eq: "errout os fd rval s =
    Ret rval ((snd (sys_call os (CClose fd) s))\<lparr>errno := errno s\<rparr>)"
  by (simp add: errout_def Let_def case_prod_beta)

lemma c_str_length: "length (c_str xs) \<le> length xs"
  by (simp add: c_str_def length_takeWhile_le)

lemma NUL_c_str [simp]: "NUL \<notin> set (c_str xs)"
  by (auto simp: c_str_def dest: set_takeWhileD)

lemma strcpy_fits:
  "length (c_str name) < sun_path_size \<Longrightarrow>
   \<exists>path. strcpy zeroed_path name = Some path \<and> length path = sun_path_size \<and> c_str path = c_str name"
  by (simp add: strcpy_def zeroed_path_def c_str_terminated)

lemma strcpy_overflows: "sun_path_size \<le> length (c_str name) \<Longrightarrow> strcpy zeroed_path name = None"
  by (simp add: strcpy_def zeroed_path_def)

lemma fresh_socket:
  assumes "fresh_fds os" "0 \<le> fst (sys_call os c s)" "creates c"
  shows "fst (sys_call os c s) \<notin> sys_fds os s"
    "sys_fds os (snd (sys_call os c s)) = insert (fst (sys_call os c s)) (sys_fds os s)"
  using fresh_create[OF assms(1,3,2)] assms(2,3) by (simp_all add: sys_fds_create)

text \<open>
  What the error exit leaves: the \<open>errno\<close> from before \<open>close\<close>, which is what the message to the
  log has left of the error of the call that failed.
\<close>

definition keeps_errno :: "os \<Rightarrow> int \<Rightarrow> sys \<Rightarrow> bool" where
  "keeps_errno os r s' \<longleftrightarrow>
     (r < -1 \<longrightarrow> (\<exists>h fd. calls s' = h @ [CLog, CClose fd] \<and> errno s' = os_errno os (h @ [CLog])))"

lemma keeps_errno_errout:
  "keeps_errno os r ((snd (sys_call os (CClose fd) (hlog os s)))\<lparr>errno := os_errno os (calls s @ [CLog])\<rparr>)"
  by (auto simp: keeps_errno_def)

definition good_setup :: "os \<Rightarrow> sys \<Rightarrow> int \<Rightarrow> sys \<Rightarrow> bool" where
  "good_setup os s r s' \<longleftrightarrow> acquires os s (r, s') \<and> keeps_errno os r s'"

lemma finishes_if:
  "finishes P (if b then x else y) = (if b then finishes P x else finishes P y)"
  by simp

lemma listen_un_good:
  assumes "fresh_fds os" and "length (c_str name) < sun_path_size"
  shows "finishes (good_setup os s) (setupListenSocket_un os name m s)"
proof (cases "fst (sys_call os (CSocket True) s) < 0")
  case True
  then show ?thesis
    by (simp add: setupListenSocket_un_def Let_def case_prod_beta good_setup_def acquires_pair
        keeps_errno_def sys_fds_create sys_call_fst)
next
  case False
  obtain path where path: "strcpy zeroed_path name = Some path" using strcpy_fits[OF assms(2)] by blast
  note new = fresh_socket[OF assms(1), of "CSocket True" s]
  show ?thesis
    using False path new
    by (simp add: setupListenSocket_un_def Let_def case_prod_beta good_setup_def acquires_pair
        finishes_if errout_eq keeps_errno_errout sys_call_errno insert_minus split del: if_split
        cong: if_cong)
      (simp add: keeps_errno_def)
qed

lemma digits_length: "0 < k \<Longrightarrow> n < 10 ^ k \<Longrightarrow> length (digits n) \<le> k"
proof (induction n arbitrary: k rule: digits.induct)
  case (1 n)
  show ?case
  proof (cases "n < 10")
    case True
    then show ?thesis using 1(2) by (subst digits.simps) simp
  next
    case False
    then obtain k' where k: "k = Suc k'" "0 < k'" using 1(2,3) by (cases k; cases "k - 1") auto
    have "n div 10 < 10 ^ k'" using 1(3) k by (simp add: less_mult_imp_div_less mult.commute)
    then show ?thesis using 1(1)[OF False, of k'] False k by (subst digits.simps) simp
  qed
qed

lemma digits_no_NUL: "NUL \<notin> set (digits n)"
proof (induction n rule: digits.induct)
  case (1 n)
  have d: "char_of (48 + m) \<noteq> NUL" if "m < 10" for m :: nat
  proof
    assume "char_of (48 + m) = NUL"
    then have "of_char (char_of (48 + m) :: char) = (0 :: nat)" by simp
    then show False using that by (simp add: of_char_of)
  qed
  show ?case
    using 1 d[of n] d[of "n mod 10"] by (subst digits.simps) auto
qed

lemma client_path_fits:
  assumes "pid < 2 ^ 31"
  shows "c_str (client_path pid) = client_path pid" "length (client_path pid) < sun_path_size"
proof -
  have "nat pid < 10 ^ 10" using assms by simp
  then have "length (digits (nat pid)) \<le> 10" by (rule digits_length[rotated]) simp
  then show "length (client_path pid) < sun_path_size"
    by (simp add: client_path_def padded_def CLI_PATH_def sun_path_size_def)
  have "NUL \<notin> set (client_path pid)"
    using digits_no_NUL by (auto simp: client_path_def padded_def CLI_PATH_def)
  then show "c_str (client_path pid) = client_path pid"
    by (simp add: c_str_def takeWhile_eq_all_conv) metis
qed

lemma connect_un_good:
  assumes "fresh_fds os" and "length (c_str name) < sun_path_size" and "\<And>h. os_ret os (h @ [CGetpid]) < 2 ^ 31"
  shows "finishes (good_setup os s) (setupConnectionSocket_un os name s)"
proof (cases "fst (sys_call os (CSocket True) s) < 0")
  case True
  then show ?thesis
    by (simp add: setupConnectionSocket_un_def Let_def case_prod_beta good_setup_def acquires_pair
        keeps_errno_def sys_fds_create)
next
  case False
  define s1 where "s1 = snd (sys_call os (CSocket True) s)"
  define pid where "pid = fst (sys_call os CGetpid s1)"
  obtain peer where peer: "strcpy zeroed_path name = Some peer" using strcpy_fits[OF assms(2)] by blast
  have "pid < 2 ^ 31" using assms(3) by (simp add: pid_def sys_call_fst)
  then obtain own where own: "strcpy zeroed_path (client_path pid) = Some own"
    using client_path_fits[of pid] strcpy_fits[of "client_path pid"] by auto
  note new = fresh_socket[OF assms(1), of "CSocket True" s]
  show ?thesis
    using False peer own new
    by (simp add: setupConnectionSocket_un_def Let_def case_prod_beta good_setup_def acquires_pair
        s1_def[symmetric] pid_def[symmetric]
        finishes_if errout_eq keeps_errno_errout sys_call_errno insert_minus split del: if_split
        cong: if_cong)
      (simp add: keeps_errno_def)
qed

text \<open>C37: with a server name of at most 107 characters the Unix setup functions always return,
  for every kernel: on success with a new descriptor and that one only, on failure with no
  descriptor left open. On the failures that close the descriptor they restore the \<open>errno\<close> from
  before \<open>close\<close>; but it is the one that the message to the log leaves, which is written before
  \<open>errno\<close> is saved, and not surely that of the call that failed. With a longer name and a socket
  obtained, \<open>setupListenSocket\<close> writes behind \<open>sun_path\<close>.\<close>

theorem unix_setup_acquires:
  assumes "fresh_fds os" and "\<And>h. os_ret os (h @ [CGetpid]) < 2 ^ 31"
  shows "if length (c_str name) < sun_path_size
    then finishes (good_setup os s) (setupListenSocket_un os name m s) \<and>
         finishes (good_setup os s) (setupConnectionSocket_un os name s)
    else fst (sys_call os (CSocket True) s) < 0 \<or>
         (\<exists>s'. setupListenSocket_un os name m s = UB s')"
proof (cases "length (c_str name) < sun_path_size")
  case True
  then show ?thesis using listen_un_good connect_un_good assms by simp
next
  case False
  then show ?thesis using strcpy_overflows[of name]
    by (simp add: setupListenSocket_un_def Let_def case_prod_beta)
qed

theorem unix_setup_acquires_witness:
  "finishes (good_setup (demo_kernel 3) \<lparr>calls = [], errno = 0\<rparr>)
     (setupListenSocket_un (demo_kernel 3) ''/var/tmp/s'' 5 \<lparr>calls = [], errno = 0\<rparr>)"
  using unix_setup_acquires[OF demo_kernel_fresh[of 3], of "''/var/tmp/s''" "\<lparr>calls = [], errno = 0\<rparr>" 5]
  by (simp add: c_str_def sun_path_size_def demo_kernel_def)

lemma peer_path_cases:
  "peer_path reported = (if length reported < sun_path_size then Some (c_str reported) else None)"
proof (cases "length reported < sun_path_size")
  case True
  then have "take sun_path_size (reported @ zeroed_path) = reported @ replicate (sun_path_size - length reported) NUL"
    by (simp add: zeroed_path_def)
  moreover have "replicate (sun_path_size - length reported) NUL =
      NUL # replicate (sun_path_size - Suc (length reported)) NUL"
    using True by (cases "sun_path_size - length reported") (auto simp: diff_Suc split: nat.splits)
  ultimately show ?thesis using True
    by (simp add: peer_path_def array_set_def list_update_append)
      (auto simp: c_str_def takeWhile_append intro!: takeWhile_eq_all_conv[THEN iffD2, symmetric])
next
  case False
  then show ?thesis by (simp add: peer_path_def array_set_def)
qed

definition good_accept :: "os \<Rightarrow> sys \<Rightarrow> int \<times> int option \<Rightarrow> sys \<Rightarrow> bool" where
  "good_accept os s r s' \<longleftrightarrow> acquires os s (fst r, s') \<and> keeps_errno os (fst r) s' \<and>
     (0 \<le> fst r \<longleftrightarrow> snd r \<noteq> None) \<and>
     (0 \<le> fst r \<longrightarrow> (\<exists>h p. calls s' = h @ [CUnlink p] \<and> os_is_sock os h))"

text \<open>\<open>acceptConnectSocket\<close> for Unix sockets. When the kernel reports a peer path of at most
  107 bytes it always returns: with a negative code and the accepted descriptor closed again, or
  with the new descriptor, the owner's uid, and the path of the peer, checked to be a socket,
  unlinked. A longer path (the address is up to 108 bytes) makes \<open>sun_path[len] = 0\<close> write behind
  the array.\<close>

theorem unix_accept_acquires:
  assumes "fresh_fds os"
  shows "if fst (sys_call os (CAccept fd) s) < 0 \<or>
            length (os_peer os (calls s @ [CAccept fd])) < sun_path_size
    then finishes (good_accept os s) (acceptConnectSocket_un os fd s)
    else \<exists>s'. acceptConnectSocket_un os fd s = UB s'"
proof (cases "fst (sys_call os (CAccept fd) s) < 0")
  case True
  then show ?thesis
    by (simp add: acceptConnectSocket_un_def Let_def case_prod_beta good_accept_def acquires_pair
        keeps_errno_def sys_fds_create)
next
  case False
  note new = fresh_socket[OF assms(1), of "CAccept fd" s]
  show ?thesis
  proof (cases "length (os_peer os (calls s @ [CAccept fd])) < sun_path_size")
    case True
    then show ?thesis using False new
      by (simp add: acceptConnectSocket_un_def Let_def case_prod_beta good_accept_def acquires_pair
          peer_path_cases finishes_if errout_eq keeps_errno_errout sys_call_errno insert_minus
          split del: if_split cong: if_cong)
        (simp add: keeps_errno_def)
  next
    case long: False
    then show ?thesis using False
      by (simp add: acceptConnectSocket_un_def Let_def case_prod_beta peer_path_cases)
  qed
qed

theorem unix_accept_acquires_witness:
  "finishes (good_accept (demo_kernel 3) \<lparr>calls = [], errno = 0\<rparr>)
     (acceptConnectSocket_un (demo_kernel 3) 2 \<lparr>calls = [], errno = 0\<rparr>)"
  using unix_accept_acquires[OF demo_kernel_fresh[of 3], of 2 "\<lparr>calls = [], errno = 0\<rparr>"]
  by (simp add: sun_path_size_def demo_kernel_def)

text \<open>\<open>acceptConnectSocket\<close> for Internet sockets never fills the structure of its caller: the
  address of the peer goes over the bytes of the pointer variable, cut to the size of a
  pointer, and the variable then holds those bytes instead of the caller's pointer.\<close>

theorem tcp_accept_ignores_struct:
  assumes "0 \<le> fst (sys_call os (CAccept fd) s)"
    and "length pointer = sizeof_pointer" and "sizeof_pointer \<le> length peer"
  shows "acceptConnectSocket_in os fd peer (Some (pointer, pointee)) s =
    ((fst (sys_call os (CAccept fd) s), Some (take sizeof_pointer peer, pointee)),
     snd (sys_call os (CAccept fd) s))"
  using assms by (simp add: acceptConnectSocket_in_def overwrite_def Let_def case_prod_beta)

theorem tcp_accept_ignores_struct_witness:
  "snd (fst (acceptConnectSocket_in (demo_kernel 3) 2 (replicate 16 1) (Some (replicate 8 9, replicate 16 0))
     \<lparr>calls = [], errno = 0\<rparr>)) = Some (replicate 8 1, replicate 16 0)"
  using tcp_accept_ignores_struct[of "demo_kernel 3" 2 "\<lparr>calls = [], errno = 0\<rparr>" "replicate 8 9"
      "replicate 16 1" "replicate 16 0"]
  by (simp add: sizeof_pointer_def sys_call_def demo_kernel_def Let_def numeral_eq_Suc)

section \<open>Passing descriptors\<close>

text \<open>
  \<open>sendmsg\<close> of one message with one descriptor, and \<open>recvmsg\<close>: the end of the stream, an error,
  or a message with the descriptor it carried, if it carried one. The first argument of the
  receiving call says whether \<open>msg_controllen\<close> still offers room for a control message; the
  kernel sets it to what it stored.
\<close>

datatype send_res = SentMsg | SendErr int
datatype recv_res = RecvEof | RecvErr int | RecvMsg "int option"

partial_function (option) send_fds_loop ::
  "(int \<Rightarrow> 'k \<Rightarrow> send_res \<times> 'k) \<Rightarrow> int list \<Rightarrow> nat \<Rightarrow> nat \<Rightarrow> 'k \<Rightarrow> (int \<times> 'k) option" where
  "send_fds_loop sm fds fdNum cnt k =
     (if cnt < fdNum then
        (case sm (fds ! cnt) k of
           (SendErr e, k1) \<Rightarrow>
             if \<not> transient e then Some (-1, k1) else send_fds_loop sm fds fdNum cnt k1
         | (SentMsg, k1) \<Rightarrow> send_fds_loop sm fds fdNum (Suc cnt) k1)
      else Some (int cnt, k))"

definition sendFdsThroughSocket ::
  "(int \<Rightarrow> 'k \<Rightarrow> send_res \<times> 'k) \<Rightarrow> int \<Rightarrow> int \<Rightarrow> int list option \<Rightarrow> 'k \<Rightarrow> (int \<times> 'k) option" where
  "sendFdsThroughSocket sm sock fdNum fds k =
     (if sock \<le> 0 \<or> fdNum \<le> 0 \<or> fds = None then Some (-1, k)
      else send_fds_loop sm (the fds) (nat fdNum) 0 k)"

text \<open>\<open>cur\<close> is the descriptor field of the control buffer, \<open>ctl\<close> the room in \<open>msg_controllen\<close>.\<close>

partial_function (option) receive_fds_loop ::
  "(bool \<Rightarrow> 'k \<Rightarrow> recv_res \<times> 'k) \<Rightarrow> nat \<Rightarrow> int list \<Rightarrow> nat \<Rightarrow> bool \<Rightarrow> int \<Rightarrow> 'k \<Rightarrow>
   (int \<times> int list \<times> 'k) option" where
  "receive_fds_loop rm fdNum fds cnt ctl cur k =
     (if cnt < fdNum then
        (case rm ctl k of
           (RecvEof, k1) \<Rightarrow> Some (0, fds, k1)
         | (RecvErr e, k1) \<Rightarrow>
             if \<not> transient e then Some (-1, fds, k1)
             else receive_fds_loop rm fdNum fds cnt ctl cur k1
         | (RecvMsg c, k1) \<Rightarrow>
             let rfd = (case c of Some f \<Rightarrow> f | None \<Rightarrow> cur)
             in if rfd < 0 then Some (-1, fds, k1)
                else receive_fds_loop rm fdNum (fds[cnt := rfd]) (Suc cnt) (c \<noteq> None) rfd k1)
      else Some (int cnt, fds, k))"

text \<open>\<open>junk\<close> is what the control buffer, an uninitialised local array, holds at the start.\<close>

definition receiveFdsThroughSocket ::
  "(bool \<Rightarrow> 'k \<Rightarrow> recv_res \<times> 'k) \<Rightarrow> int \<Rightarrow> int \<Rightarrow> int \<Rightarrow> int list option \<Rightarrow> 'k \<Rightarrow>
   (int \<times> int list \<times> 'k) option" where
  "receiveFdsThroughSocket rm junk sock fdNum fds k =
     (if sock \<le> 0 \<or> fdNum \<le> 0 \<or> fds = None
      then Some (-1, (case fds of None \<Rightarrow> [] | Some xs \<Rightarrow> xs), k)
      else receive_fds_loop rm (nat fdNum) (the fds) 0 True junk k)"

text \<open>
  What the two calls promise on a connected socket whose peer sends descriptors only. \<open>table\<close>
  is the descriptor table of the process, from numbers to open files, and \<open>sent\<close> and \<open>queue\<close>
  the files in flight: a control message of type \<open>SCM_RIGHTS\<close> carries open files, and the kernel
  of the receiver installs each of them under a number that was free. The receiver has room for
  the descriptors it is sent.
\<close>

definition fd_sink ::
  "(int \<Rightarrow> 'k \<Rightarrow> send_res \<times> 'k) \<Rightarrow> ('k \<Rightarrow> int \<Rightarrow> 'f option) \<Rightarrow> ('k \<Rightarrow> 'f list) \<Rightarrow> ('k \<Rightarrow> nat) \<Rightarrow> bool" where
  "fd_sink sm table sent stalls \<longleftrightarrow>
     (\<forall>f k k'. sm f k = (SentMsg, k') \<longrightarrow>
        table k' = table k \<and> (\<exists>x. table k f = Some x \<and> sent k' = sent k @ [x])) \<and>
     (\<forall>f k e k'. sm f k = (SendErr e, k') \<longrightarrow> table k f \<noteq> None \<longrightarrow>
        transient e \<and> table k' = table k \<and> sent k' = sent k \<and> stalls k' < stalls k)"

definition fd_source ::
  "(bool \<Rightarrow> 'k \<Rightarrow> recv_res \<times> 'k) \<Rightarrow> ('k \<Rightarrow> int \<Rightarrow> 'f option) \<Rightarrow> ('k \<Rightarrow> 'f list) \<Rightarrow> ('k \<Rightarrow> nat) \<Rightarrow> bool" where
  "fd_source rm table queue stalls \<longleftrightarrow>
     (\<forall>k k'. rm True k = (RecvEof, k') \<longrightarrow> queue k = []) \<and>
     (\<forall>k c k'. rm True k = (RecvMsg c, k') \<longrightarrow>
        (\<exists>f x. c = Some f \<and> 0 \<le> f \<and> table k f = None \<and> queue k = x # queue k' \<and>
           table k' = (table k)(f \<mapsto> x))) \<and>
     (\<forall>k e k'. rm True k = (RecvErr e, k') \<longrightarrow>
        transient e \<and> table k' = table k \<and> queue k' = queue k \<and> stalls k' < stalls k)"

text \<open>The files a list of descriptors stands for.\<close>

definition files :: "('k \<Rightarrow> int \<Rightarrow> 'f option) \<Rightarrow> 'k \<Rightarrow> int list \<Rightarrow> 'f list" where
  "files table k fds = map (\<lambda>f. the (table k f)) fds"

lemma fd_sink_sent:
  "fd_sink sm table sent stalls \<Longrightarrow> sm f k = (SentMsg, k') \<Longrightarrow>
   table k' = table k \<and> sent k' = sent k @ [the (table k f)]"
  unfolding fd_sink_def by fastforce

lemma fd_sink_err:
  "fd_sink sm table sent stalls \<Longrightarrow> sm f k = (SendErr e, k') \<Longrightarrow> table k f \<noteq> None \<Longrightarrow>
   transient e \<and> table k' = table k \<and> sent k' = sent k \<and> stalls k' < stalls k"
  unfolding fd_sink_def by blast

lemma send_fds_loop_sink:
  assumes snk: "fd_sink sm table sent stalls"
  shows "cnt \<le> n \<Longrightarrow> n \<le> length fds \<Longrightarrow> \<forall>f\<in>set fds. table k f \<noteq> None \<Longrightarrow>
    \<exists>k'. send_fds_loop sm fds n cnt k = Some (int n, k') \<and> table k' = table k \<and>
      sent k' = sent k @ files table k (take (n - cnt) (drop cnt fds))"
proof (induction "(n - cnt, stalls k)" arbitrary: cnt k rule: transfer_induct)
  case less: (1 cnt k)
  show ?case
  proof (cases "cnt < n")
    case False
    then show ?thesis using less.prems by (subst send_fds_loop.simps) (simp add: files_def)
  next
    case True
    obtain r k1 where sm: "sm (fds ! cnt) k = (r, k1)" by (cases "sm (fds ! cnt) k")
    show ?thesis
    proof (cases r)
      case SentMsg
      note s = fd_sink_sent[OF snk sm[unfolded SentMsg]]
      have "\<exists>k'. send_fds_loop sm fds n (Suc cnt) k1 = Some (int n, k') \<and> table k' = table k1 \<and>
          sent k' = sent k1 @ files table k1 (take (n - Suc cnt) (drop (Suc cnt) fds))"
        by (rule less.hyps) (use True less.prems s in auto)
      moreover have "take (n - cnt) (drop cnt fds) = fds ! cnt # take (n - Suc cnt) (drop (Suc cnt) fds)"
        using True less.prems by (simp add: Cons_nth_drop_Suc[symmetric] take_Cons' Suc_diff_Suc)
      ultimately show ?thesis using True sm SentMsg s
        by (subst send_fds_loop.simps) (auto simp: files_def)
    next
      case (SendErr e)
      have "table k (fds ! cnt) \<noteq> None" using less.prems(2,3) True by simp
      note s = fd_sink_err[OF snk sm[unfolded SendErr] this]
      have "\<exists>k'. send_fds_loop sm fds n cnt k1 = Some (int n, k') \<and> table k' = table k1 \<and>
          sent k' = sent k1 @ files table k1 (take (n - cnt) (drop cnt fds))"
        by (rule less.hyps) (use s less.prems in auto)
      then show ?thesis using True sm SendErr s
        by (subst send_fds_loop.simps) (auto simp: files_def)
    qed
  qed
qed

text \<open>
  What the receiver gets for the files \<open>xs\<close>: as many numbers, all different and all free before,
  which afterwards stand for these files in order; nothing else has changed in its table.
\<close>

definition installs :: "(int \<Rightarrow> 'f option) \<Rightarrow> 'f list \<Rightarrow> int list \<Rightarrow> (int \<Rightarrow> 'f option) \<Rightarrow> bool" where
  "installs T xs fds T' \<longleftrightarrow>
     length fds = length xs \<and> distinct fds \<and> (\<forall>f\<in>set fds. 0 \<le> f \<and> T f = None) \<and>
     map T' fds = map Some xs \<and> (\<forall>g. g \<in> set fds \<or> T' g = T g)"

lemma installs_Cons:
  assumes "installs (T(f \<mapsto> x)) xs fds T'" "0 \<le> f" "T f = None"
  shows "installs T (x # xs) (f # fds) T'"
proof -
  have free: "\<forall>g\<in>set fds. 0 \<le> g \<and> (T(f \<mapsto> x)) g = None" using assms(1) by (simp add: installs_def)
  then have new: "f \<notin> set fds" by force
  have out: "g \<in> set fds \<or> T' g = (T(f \<mapsto> x)) g" for g using assms(1) by (simp add: installs_def)
  have "T' f = Some x" using out[of f] new by simp
  moreover have "\<forall>g\<in>set fds. 0 \<le> g \<and> T g = None"
  proof
    fix g assume g: "g \<in> set fds"
    then have "g \<noteq> f" using new by blast
    then show "0 \<le> g \<and> T g = None" using free g by force
  qed
  moreover have "g \<in> set (f # fds) \<or> T' g = T g" for g using out[of g] by auto
  ultimately show ?thesis using assms new by (auto simp: installs_def)
qed

lemma fd_source_msg:
  "fd_source rm table queue stalls \<Longrightarrow> rm True k = (RecvMsg c, k') \<Longrightarrow>
   \<exists>f x. c = Some f \<and> 0 \<le> f \<and> table k f = None \<and> queue k = x # queue k' \<and> table k' = (table k)(f \<mapsto> x)"
  unfolding fd_source_def by blast

lemma fd_source_err:
  "fd_source rm table queue stalls \<Longrightarrow> rm True k = (RecvErr e, k') \<Longrightarrow>
   transient e \<and> table k' = table k \<and> queue k' = queue k \<and> stalls k' < stalls k"
  unfolding fd_source_def by blast

lemma receive_fds_loop_source:
  assumes src: "fd_source rm table queue stalls"
  shows "cnt \<le> n \<Longrightarrow> n \<le> length buf \<Longrightarrow> queue k = xs @ rest \<Longrightarrow> length xs = n - cnt \<Longrightarrow>
    \<exists>fds k'. receive_fds_loop rm n buf cnt True cur k = Some (int n, take cnt buf @ fds @ drop n buf, k') \<and>
         queue k' = rest \<and> installs (table k) xs fds (table k')"
proof (induction "(n - cnt, stalls k)" arbitrary: cnt k xs buf cur rule: transfer_induct)
  case less: (1 cnt k xs buf cur)
  show ?case
  proof (cases "cnt < n")
    case False
    then show ?thesis using less.prems
      by (subst receive_fds_loop.simps) (simp add: installs_def)
  next
    case True
    then obtain x ys where xs: "xs = x # ys" using less.prems by (cases xs) auto
    obtain r k1 where rm: "rm True k = (r, k1)" by (cases "rm True k")
    show ?thesis
    proof (cases r)
      case RecvEof
      then have "queue k = []" using src rm unfolding fd_source_def by blast
      then show ?thesis using less.prems xs by simp
    next
      case (RecvErr e)
      note s = fd_source_err[OF src rm[unfolded RecvErr]]
      have "\<exists>fds k'. receive_fds_loop rm n buf cnt True cur k1 =
          Some (int n, take cnt buf @ fds @ drop n buf, k') \<and> queue k' = rest \<and>
          installs (table k1) xs fds (table k')"
        by (rule less.hyps) (use s less.prems in auto)
      then show ?thesis using True rm RecvErr s by (subst receive_fds_loop.simps) simp
    next
      case (RecvMsg c)
      obtain f where c: "c = Some f" "0 \<le> f" "table k f = None" "queue k1 = ys @ rest"
        "table k1 = (table k)(f \<mapsto> x)"
        using fd_source_msg[OF src rm[unfolded RecvMsg]] less.prems xs by auto
      have "\<exists>fds k'. receive_fds_loop rm n (buf[cnt := f]) (Suc cnt) True f k1 =
          Some (int n, take (Suc cnt) (buf[cnt := f]) @ fds @ drop n (buf[cnt := f]), k') \<and> queue k' = rest \<and>
          installs (table k1) ys fds (table k')"
        by (rule less.hyps) (use True c xs less.prems in auto)
      then obtain fds k' where ih: "receive_fds_loop rm n (buf[cnt := f]) (Suc cnt) True f k1 =
          Some (int n, take (Suc cnt) (buf[cnt := f]) @ fds @ drop n (buf[cnt := f]), k')" "queue k' = rest"
          "installs (table k1) ys fds (table k')" by blast
      have "take (Suc cnt) (buf[cnt := f]) @ fds @ drop n (buf[cnt := f]) =
          take cnt buf @ (f # fds) @ drop n buf"
        using True less.prems by (simp add: take_Suc_conv_app_nth)
      moreover have "installs (table k) xs (f # fds) (table k')"
        using installs_Cons[OF ih(3)[unfolded c(5)] c(2,3)] xs by simp
      ultimately show ?thesis using True rm RecvMsg c ih(1,2)
        by (intro exI[of _ "f # fds"] exI[of _ k']) (subst receive_fds_loop.simps, simp)
    qed
  qed
qed

text \<open>C36: descriptors sent with \<open>sendFdsThroughSocket\<close> and received with
  \<open>receiveFdsThroughSocket\<close> arrive complete and in order, whatever transient errors both sides
  meet: the sender returns the count, and a receiver of the same count to whose kernel the open
  files behind the sent descriptors have come returns it too. Its array then holds numbers that
  were free in its own process, all different, and that stand for the same open files in the
  same order; no other descriptor of it has changed.\<close>

theorem fd_passing_roundtrip:
  assumes "fd_sink sm table sent stalls" and "fd_source rm table' queue waits"
    and "0 < sock" and "0 < sock'" and "fds \<noteq> []" and "\<forall>f\<in>set fds. table k f \<noteq> None"
    and "length buf = length fds"
  shows "\<exists>k'. sendFdsThroughSocket sm sock (int (length fds)) (Some fds) k = Some (int (length fds), k') \<and>
    table k' = table k \<and> sent k' = sent k @ files table k fds \<and>
    (\<forall>r rest. queue r = files table k fds @ rest \<longrightarrow>
      (\<exists>rfds r'. receiveFdsThroughSocket rm junk sock' (int (length fds)) (Some buf) r =
               Some (int (length fds), rfds, r') \<and> queue r' = rest \<and>
             length rfds = length fds \<and> distinct rfds \<and> (\<forall>f\<in>set rfds. 0 \<le> f \<and> table' r f = None) \<and>
             map (table' r') rfds = map (table k) fds \<and> (\<forall>g. g \<in> set rfds \<or> table' r' g = table' r g)))"
proof -
  obtain k' where "send_fds_loop sm fds (length fds) 0 k = Some (int (length fds), k')"
    "table k' = table k" "sent k' = sent k @ files table k fds"
    using send_fds_loop_sink[OF assms(1), of 0 "length fds" fds k] assms(6) by auto
  moreover have "\<exists>rfds r'. receive_fds_loop rm (length fds) buf 0 True junk r =
      Some (int (length fds), rfds, r') \<and> queue r' = rest \<and>
      installs (table' r) (files table k fds) rfds (table' r')"
    if "queue r = files table k fds @ rest" for r rest
    using receive_fds_loop_source[OF assms(2), of 0 "length fds" buf r "files table k fds" rest junk] that assms(7)
    by (simp add: files_def)
  moreover have "map Some (files table k fds) = map (table k) fds" "length (files table k fds) = length fds"
    using assms(6) by (auto simp: files_def)
  ultimately show ?thesis
    using assms(3-5) unfolding installs_def
    by (intro exI[of _ k']) (simp add: sendFdsThroughSocket_def receiveFdsThroughSocket_def)
qed

text \<open>A process: the files in flight, those it has open, by number, and the interruptions to come.\<close>

record demo_process =
  dp_flight :: "string list"
  dp_files :: "string list"
  dp_waits :: nat

definition dp_table :: "demo_process \<Rightarrow> int \<Rightarrow> string option" where
  "dp_table p f = (if 0 \<le> f \<and> nat f < length (dp_files p) then Some (dp_files p ! nat f) else None)"

definition demo_send :: "int \<Rightarrow> demo_process \<Rightarrow> send_res \<times> demo_process" where
  "demo_send f p = (case dp_table p f of
     None \<Rightarrow> (SendErr 9, p)
   | Some x \<Rightarrow> if dp_waits p = 0 then (SentMsg, p\<lparr>dp_flight := dp_flight p @ [x]\<rparr>)
               else (SendErr EAGAIN, p\<lparr>dp_waits := dp_waits p - 1\<rparr>))"

definition demo_recv :: "bool \<Rightarrow> demo_process \<Rightarrow> recv_res \<times> demo_process" where
  "demo_recv ctl p =
     (if dp_waits p \<noteq> 0 then (RecvErr EINTR, p\<lparr>dp_waits := dp_waits p - 1\<rparr>)
      else case dp_flight p of
        [] \<Rightarrow> (RecvEof, p)
      | x # q \<Rightarrow> (RecvMsg (Some (int (length (dp_files p)))), p\<lparr>dp_flight := q, dp_files := dp_files p @ [x]\<rparr>))"

lemma demo_send_sink: "fd_sink demo_send dp_table dp_flight dp_waits"
  by (auto simp: fd_sink_def demo_send_def transient_def dp_table_def fun_eq_iff split: if_splits)

lemma demo_recv_source: "fd_source demo_recv dp_table dp_flight dp_waits"
proof -
  have "dp_table (p\<lparr>dp_flight := q, dp_files := dp_files p @ [x]\<rparr>) =
      (dp_table p)(int (length (dp_files p)) \<mapsto> x)" for p q x
    by (auto simp: dp_table_def fun_eq_iff nth_append)
  moreover have "dp_table (p\<lparr>dp_waits := w\<rparr>) = dp_table p" for p w by (simp add: dp_table_def fun_eq_iff)
  moreover have "dp_table p (int (length (dp_files p))) = None" for p by (simp add: dp_table_def)
  ultimately show ?thesis
    by (auto simp: fd_source_def demo_recv_def transient_def split: if_splits list.splits)
qed

definition demo_sender :: demo_process where
  "demo_sender = \<lparr>dp_flight = [], dp_files = [''in'', ''log''], dp_waits = 1\<rparr>"

definition demo_receiver :: demo_process where
  "demo_receiver = \<lparr>dp_flight = [''log'', ''in''], dp_files = [''x'', ''y'', ''z''], dp_waits = 3\<rparr>"

theorem fd_passing_roundtrip_witness:
  "\<exists>k' fds r'. sendFdsThroughSocket demo_send 4 2 (Some [1, 0]) demo_sender = Some (2, k') \<and>
     receiveFdsThroughSocket demo_recv 77 5 2 (Some [0, 0]) demo_receiver = Some (2, fds, r') \<and>
     map (dp_table r') fds = [Some ''log'', Some ''in'']"
proof -
  have t: "\<forall>f\<in>set [1, 0]. dp_table demo_sender f \<noteq> None"
    "map (dp_table demo_sender) [1, 0] = [Some ''log'', Some ''in'']"
    and q: "dp_flight demo_receiver = files dp_table demo_sender [1, 0] @ []"
    by (simp_all add: dp_table_def files_def demo_sender_def demo_receiver_def)
  have c: "(0 :: int) < 4" "(0 :: int) < 5" "[1, 0] \<noteq> ([] :: int list)" "length [0, 0 :: int] = length [1, 0 :: int]"
    by simp_all
  have n: "int (length [1, 0 :: int]) = 2" by simp
  from fd_passing_roundtrip[OF demo_send_sink demo_recv_source c(1-3) t(1) c(4), of 77, unfolded n t(2)]
  obtain k' where k: "sendFdsThroughSocket demo_send 4 2 (Some [1, 0]) demo_sender = Some (2, k')"
    and r: "\<And>r rest. dp_flight r = files dp_table demo_sender [1, 0] @ rest \<Longrightarrow>
      \<exists>rfds r'. receiveFdsThroughSocket demo_recv 77 5 2 (Some [0, 0]) r = Some (2, rfds, r') \<and>
        map (dp_table r') rfds = [Some ''log'', Some ''in'']"
    by meson
  show ?thesis using k r[OF q] by meson
qed

text \<open>\<open>receiveFdsThroughSocket\<close> does not look whether a message carried a descriptor. After a
  message with descriptor \<open>f\<close>, a message without one is reported as \<open>f\<close> again, so two entries of
  the result name the same descriptor; a first message without one is reported as whatever the
  uninitialised buffer held.\<close>

theorem receive_fds_stale:
  assumes "rm True k = (RecvMsg (Some f), k1)" and "rm True k1 = (RecvMsg None, k2)"
    and "0 \<le> f" and "0 < sock" and "0 \<le> junk"
  shows "receiveFdsThroughSocket rm junk' sock 2 (Some [a, b]) k = Some (2, [f, f], k2) \<and>
    receiveFdsThroughSocket rm junk sock 1 (Some [a]) k1 = Some (1, [junk], k2)"
proof -
  have "receive_fds_loop rm 2 [a, b] 0 True junk' k = Some (2, [f, f], k2)"
    using assms by (simp add: receive_fds_loop.simps[of _ _ _ 0] receive_fds_loop.simps[of _ _ _ "Suc 0"]
        receive_fds_loop.simps[of _ _ _ 2] numeral_2_eq_2 receive_fds_loop.simps[of _ _ _ "Suc (Suc 0)"])
  moreover have "receive_fds_loop rm 1 [a] 0 True junk k1 = Some (1, [junk], k2)"
    using assms by (simp add: receive_fds_loop.simps[of _ _ _ 0] receive_fds_loop.simps[of _ _ _ "Suc 0"])
  ultimately show ?thesis using assms(4) by (simp add: receiveFdsThroughSocket_def)
qed

theorem receive_fds_stale_witness:
  "receiveFdsThroughSocket
     (\<lambda>ctl k. (RecvMsg (if k = (0::nat) then Some 9 else None), Suc k)) 0 4 2 (Some [0, 0]) 0 = Some (2, [9, 9], 2)"
  using receive_fds_stale[of "\<lambda>ctl k. (RecvMsg (if k = (0::nat) then Some 9 else None), Suc k)" 0 9 1 2 4 0 0 0 0]
  by simp

end
