(* ===== verification/Uds.thy ===== *)
theory Uds
  imports SocketHelper
begin

text \<open>
  \<open>tipc.cpp\<close>: the connections over Unix domain sockets (\<open>ipc_connection_linux_UDS\<close>) with the
  service that dispatches their events (\<open>ipc_io_service::run\<close>), and the handlers that the
  server in \<open>main\<close> registers. Connection objects live in \<open>w_conns\<close>, a map from addresses to
  objects; \<open>w_open\<close> holds the open descriptors. What the kernel answers is a parameter of
  each operation.
\<close>

section \<open>Objects and world\<close>

type_synonym address = nat

record uds_conn =
  m_fd :: handle
  m_listening :: bool
  on_read :: bool      \<comment> \<open>whether a handler is registered\<close>
  on_accept :: bool
  on_close :: bool

record world =
  w_svc :: "address io_service"
  w_conns :: "address \<Rightarrow> uds_conn option"
  w_next :: address
  w_open :: "handle set"
  w_bound :: "(handle \<times> string \<times> nat) list"

definition native_handle :: "uds_conn \<Rightarrow> handle" where
  "native_handle c = m_fd c"

definition new_conn :: "handle \<Rightarrow> uds_conn" where
  "new_conn fd = \<lparr>m_fd = fd, m_listening = False, on_read = False, on_accept = False, on_close = False\<rparr>"

definition svc_update :: "(address io_service \<Rightarrow> address io_service) \<Rightarrow> world \<Rightarrow> world" where
  "svc_update f w = w\<lparr>w_svc := f (w_svc w)\<rparr>"

definition conn_update :: "address \<Rightarrow> (uds_conn \<Rightarrow> uds_conn) \<Rightarrow> world \<Rightarrow> world" where
  "conn_update p f w = w\<lparr>w_conns := (w_conns w)(p := map_option f (w_conns w p))\<rparr>"

text \<open>\<open>::close(fd)\<close>, which also takes the descriptor out of the epoll set.\<close>

definition os_close :: "handle \<Rightarrow> world \<Rightarrow> world" where
  "os_close fd w = svc_update (ep_call (FdClose fd)) (w\<lparr>w_open := w_open w - {fd}\<rparr>)"

section \<open>Constructors, destructor, close\<close>

text \<open>The constructor for an accepted descriptor: it associates the new object.\<close>

definition uds_adopt :: "handle \<Rightarrow> world \<Rightarrow> address \<times> world" where
  "uds_adopt fd w =
     (let p = w_next w;
          w1 = w\<lparr>w_conns := (w_conns w)(p := Some (new_conn fd)), w_next := Suc p\<rparr>
      in (p, svc_update (associate fd p) w1))"

definition uds_path :: "string \<Rightarrow> int \<Rightarrow> string" where
  "uds_path serverName pid = (if serverName = [] then client_path pid else serverName)"

text \<open>The address a name gives: the array \<open>sun_path\<close> and the length for \<open>bind\<close> or \<open>connect\<close>.\<close>

definition uds_address :: "string \<Rightarrow> string \<times> nat" where
  "uds_address name =
     (case string_copy zeroed_path name 0 of
        Inl e \<Rightarrow> (zeroed_path, 0)
      | Inr (path, cnt) \<Rightarrow> (path, sun_path_offset + cnt + 1))"

datatype uds_error = SocketFailed | BindFailed

text \<open>
  The constructor for a name: \<open>fd\<close> is what \<open>socket\<close> returned, \<open>bind_ok\<close> whether \<open>bind\<close>
  succeeded on that descriptor and address. A throwing constructor leaves no object, and its
  destructor does not run.
\<close>

definition uds_ctor ::
  "handle \<Rightarrow> (handle \<Rightarrow> string \<Rightarrow> nat \<Rightarrow> bool) \<Rightarrow> int \<Rightarrow> string \<Rightarrow> world \<Rightarrow> (uds_error + address) \<times> world" where
  "uds_ctor fd bind_ok pid serverName w =
     (if sint fd < 0 then (Inl SocketFailed, w)
      else let w1 = w\<lparr>w_open := insert fd (w_open w)\<rparr>;
               (path, len) = uds_address (uds_path serverName pid)
           in if \<not> bind_ok fd path len then (Inl BindFailed, w1)
              else let w2 = w1\<lparr>w_bound := w_bound w1 @ [(fd, path, len)]\<rparr>;
                       (p, w3) = uds_adopt fd w2
                   in (Inr p, w3))"

definition uds_close :: "address \<Rightarrow> world \<Rightarrow> world" where
  "uds_close p w =
     (case w_conns w p of
        None \<Rightarrow> w
      | Some c \<Rightarrow>
          if 0 \<le> sint (m_fd c)
          then conn_update p (\<lambda>c. c\<lparr>m_fd := -1\<rparr>) (os_close (m_fd c) w)
          else w)"

text \<open>\<open>delete\<close>: the destructor, then the storage.\<close>

definition uds_delete :: "address \<Rightarrow> world \<Rightarrow> world" where
  "uds_delete p w =
     (case w_conns w p of
        None \<Rightarrow> w
      | Some c \<Rightarrow>
          let w1 = uds_close p (svc_update (unassociate (native_handle c)) w)
          in w1\<lparr>w_conns := (w_conns w1)(p := None)\<rparr>)"

definition uds_listen :: "int \<Rightarrow> int \<Rightarrow> address \<Rightarrow> world \<Rightarrow> int \<times> world" where
  "uds_listen ret err p w =
     (case w_conns w p of
        None \<Rightarrow> (0, w)
      | Some c \<Rightarrow>
          if \<not> m_listening c
          then if ret < 0 then (err, w) else (0, conn_update p (\<lambda>c. c\<lparr>m_listening := True\<rparr>) w)
          else (0, w))"

text \<open>\<open>connect\<close>: the address is passed to the kernel, whose answer is \<open>ret\<close>, or its \<open>errno\<close>.\<close>

definition uds_connect :: "(handle \<Rightarrow> string \<Rightarrow> nat \<Rightarrow> int) \<Rightarrow> int \<Rightarrow> string \<Rightarrow> uds_conn \<Rightarrow> int" where
  "uds_connect sys_connect err serverName c =
     (let (path, len) = uds_address serverName
      in if sys_connect (m_fd c) path len < 0 then err else 0)"

text \<open>\<open>create(s, ipc_type, server_name)\<close>; None is the NULL it returns for an unknown type.\<close>

definition ipc_create ::
  "handle \<Rightarrow> (handle \<Rightarrow> string \<Rightarrow> nat \<Rightarrow> bool) \<Rightarrow> int \<Rightarrow> string \<Rightarrow> string \<Rightarrow> world \<Rightarrow>
   (uds_error + address option) \<times> world" where
  "ipc_create fd bind_ok pid ipc_type server_name w =
     (if c_str ipc_type = [] \<or> c_str ipc_type = ''linux_UDS''
      then (case uds_ctor fd bind_ok pid server_name w of
              (Inl e, w1) \<Rightarrow> (Inl e, w1) | (Inr p, w1) \<Rightarrow> (Inr (Some p), w1))
      else (Inr None, w))"

section \<open>Events\<close>

text \<open>What the kernel answers while a connection request is accepted.\<close>

record accept_env =
  a_fd :: handle
  a_peer :: string
  a_stat_ok :: bool
  a_is_sock :: bool

datatype callback = NoCallback | CbAccept address | CbClose address | CbRead address

text \<open>
  \<open>notify\<close>: the handler it calls at the end, if any, and the world before that call. None is
  the write behind \<open>sun_path\<close>.
\<close>

definition uds_notify :: "accept_env \<Rightarrow> address \<Rightarrow> uds_conn \<Rightarrow> 32 word \<Rightarrow> world \<Rightarrow> (callback \<times> world) option" where
  "uds_notify env p c hint w =
     (if m_listening c \<and> hint AND EPOLLIN \<noteq> 0 then
        (if sint (a_fd env) < 0 then Some (NoCallback, w)
         else let w1 = w\<lparr>w_open := insert (a_fd env) (w_open w)\<rparr> in
           if on_accept c then
             (case peer_path (a_peer env) of
                None \<Rightarrow> None
              | Some path \<Rightarrow>
                  if \<not> a_stat_ok env then Some (NoCallback, os_close (a_fd env) w1)
                  else if \<not> a_is_sock env then Some (NoCallback, os_close (a_fd env) w1)
                  else let (q, w2) = uds_adopt (a_fd env) w1 in Some (CbAccept q, w2))
           else Some (NoCallback, w1))
      else if hint AND EPOLLRDHUP \<noteq> 0 then
        Some (if on_close c then CbClose p else NoCallback, w)
      else if hint AND EPOLLIN \<noteq> 0 then
        Some (if on_read c then CbRead p else NoCallback, w)
      else Some (NoCallback, w))"

section \<open>The server\<close>

text \<open>\<open>connections\<close> of \<open>main\<close> beside the world; \<open>srv_reads\<close> lists the calls of \<open>on_read\<close>.\<close>

record server =
  srv_world :: world
  connections :: "address list"
  srv_reads :: "address list"

definition server_on_accept :: "address \<Rightarrow> server \<Rightarrow> server" where
  "server_on_accept p s =
     s\<lparr>connections := connections s @ [p],
       srv_world := conn_update p (\<lambda>c. c\<lparr>on_close := True, on_read := True\<rparr>) (srv_world s)\<rparr>"

definition server_on_close :: "address \<Rightarrow> server \<Rightarrow> server" where
  "server_on_close p s =
     (if p \<notin> set (connections s) then s
      else s\<lparr>connections := remove1 p (connections s), srv_world := uds_delete p (srv_world s)\<rparr>)"

fun serve :: "callback \<Rightarrow> server \<Rightarrow> server" where
  "serve NoCallback s = s"
| "serve (CbAccept p) s = server_on_accept p s"
| "serve (CbClose p) s = server_on_close p s"
| "serve (CbRead p) s = s\<lparr>srv_reads := srv_reads s @ [p]\<rparr>"

text \<open>
  One round of the inner loop of \<open>run\<close>: look the descriptor up, assert, notify. The failing
  outcomes are told apart; \<open>WritesOutside\<close> names the path of the peer whose terminator is written
  behind \<open>sun_path\<close>.
\<close>

datatype run_result = Running server | AssertFails | DanglingPointer | WritesOutside string

definition run_event :: "handle \<Rightarrow> 32 word \<Rightarrow> accept_env \<Rightarrow> server \<Rightarrow> run_result" where
  "run_event fd events env s =
     (let (pconn, svc) = svc_get fd (w_svc (srv_world s));
          w = (srv_world s)\<lparr>w_svc := svc\<rparr>
      in case pconn of
           None \<Rightarrow> AssertFails
         | Some p \<Rightarrow>
             (case w_conns w p of
                None \<Rightarrow> DanglingPointer
              | Some c \<Rightarrow>
                  (case uds_notify env p c events w of
                     None \<Rightarrow> WritesOutside (a_peer env)
                   | Some (cb, w1) \<Rightarrow> Running (serve cb (s\<lparr>srv_world := w1\<rparr>)))))"

text \<open>
  The set-up of server mode: the service, the acceptor, its handler, \<open>listen\<close>. \<open>memory\<close> is what
  the uninitialised array of the service holds, whatever that is.
\<close>

definition empty_world :: "(nat \<Rightarrow> address option) \<Rightarrow> world" where
  "empty_world memory = \<lparr>w_svc = io_service_new memory, w_conns = (\<lambda>_. None), w_next = 1,
                  w_open = {}, w_bound = []\<rparr>"

definition server_name :: string where "server_name = ''/var/tmp/hddl_service.sock''"

definition server_start :: "(nat \<Rightarrow> address option) \<Rightarrow> handle \<Rightarrow> int \<Rightarrow> server option" where
  "server_start memory fd pid =
     (case ipc_create fd (\<lambda>_ _ _. True) pid [] server_name (empty_world memory) of
        (Inr (Some p), w) \<Rightarrow>
          Some \<lparr>srv_world = snd (uds_listen 0 0 p (conn_update p (\<lambda>c. c\<lparr>on_accept := True\<rparr>) w)),
                connections = [], srv_reads = []\<rparr>
      | _ \<Rightarrow> None)"

section \<open>Consistency of objects, table and epoll set\<close>

text \<open>
  \<open>J\<close> is a set of descriptors whose cell may hold a stray pointer. Every live object is found in
  the table under its descriptor, which is open; epoll watches only descriptors of live objects,
  and all of them outside \<open>J\<close>; every entry outside \<open>J\<close> belongs to a live object; no object has
  been allocated from \<open>w_next\<close> on; no cell outside the array has been touched.
\<close>

definition owned :: "world \<Rightarrow> handle \<Rightarrow> bool" where
  "owned w h \<longleftrightarrow> (\<exists>p c. w_conns w p = Some c \<and> m_fd c = h)"

definition world_sound :: "handle set \<Rightarrow> world \<Rightarrow> bool" where
  "world_sound J w \<longleftrightarrow>
     (\<forall>p c. w_conns w p = Some c \<longrightarrow>
        svc_lookup (w_svc w) (m_fd c) = Some p \<and> m_fd c \<in> w_open w \<and>
        (m_fd c \<in> interest (w_svc w) \<or> m_fd c \<in> J)) \<and>
     (\<forall>h\<in>interest (w_svc w). owned w h) \<and>
     (\<forall>h. svc_lookup (w_svc w) h \<noteq> None \<longrightarrow> h \<in> J \<or> owned w h) \<and>
     (\<forall>h\<in>w_open w. 0 \<le> sint h) \<and>
     (\<forall>p. w_next w \<le> p \<longrightarrow> w_conns w p = None) \<and>
     \<not> overrun (w_svc w)"

text \<open>
  With a table that started empty: the table maps a descriptor exactly to the live object that
  owns it, and epoll watches exactly the descriptors of the table.
\<close>

abbreviation world_ok :: "world \<Rightarrow> bool" where
  "world_ok w \<equiv> world_sound {} w"

lemma world_soundD:
  assumes "world_sound J w"
  shows "w_conns w p = Some c \<Longrightarrow> svc_lookup (w_svc w) (m_fd c) = Some p"
    "w_conns w p = Some c \<Longrightarrow> m_fd c \<in> w_open w"
    "w_conns w p = Some c \<Longrightarrow> m_fd c \<in> interest (w_svc w) \<or> m_fd c \<in> J"
    "h \<in> interest (w_svc w) \<Longrightarrow> owned w h"
    "svc_lookup (w_svc w) h \<noteq> None \<Longrightarrow> h \<in> J \<or> owned w h"
    "h \<in> w_open w \<Longrightarrow> 0 \<le> sint h"
    "w_next w \<le> p \<Longrightarrow> w_conns w p = None"
    "\<not> overrun (w_svc w)"
  using assms unfolding world_sound_def by blast+

lemma world_soundI:
  assumes "\<And>p c. w_conns w p = Some c \<Longrightarrow> svc_lookup (w_svc w) (m_fd c) = Some p \<and>
      m_fd c \<in> w_open w \<and> (m_fd c \<in> interest (w_svc w) \<or> m_fd c \<in> J)"
    and "\<And>h. h \<in> interest (w_svc w) \<Longrightarrow> owned w h"
    and "\<And>h. svc_lookup (w_svc w) h \<noteq> None \<Longrightarrow> h \<in> J \<or> owned w h"
    and "\<And>h. h \<in> w_open w \<Longrightarrow> 0 \<le> sint h"
    and "\<And>p. w_next w \<le> p \<Longrightarrow> w_conns w p = None"
    and "\<not> overrun (w_svc w)"
  shows "world_sound J w"
  unfolding world_sound_def using assms by blast

lemma ownedI: "w_conns w p = Some c \<Longrightarrow> owned w (m_fd c)"
  unfolding owned_def by blast

lemma ownedE:
  assumes "owned w h" obtains p c where "w_conns w p = Some c" "m_fd c = h"
  using assms unfolding owned_def by blast

lemma owned_lookup:
  assumes "world_sound J w" "owned w h"
  shows "\<exists>p c. svc_lookup (w_svc w) h = Some p \<and> w_conns w p = Some c \<and> m_fd c = h \<and> h \<in> w_open w"
  using assms(2) world_soundD(1,2)[OF assms(1)] by (elim ownedE) blast

lemma owned_open: "world_sound J w \<Longrightarrow> owned w h \<Longrightarrow> h \<in> w_open w"
  using owned_lookup by blast

lemma world_okD:
  assumes "world_ok w"
  shows "svc_lookup (w_svc w) h = Some p \<longleftrightarrow> (\<exists>c. w_conns w p = Some c \<and> m_fd c = h)"
    "h \<in> interest (w_svc w) \<longleftrightarrow> svc_lookup (w_svc w) h \<noteq> None"
    "svc_lookup (w_svc w) h \<noteq> None \<Longrightarrow> h \<in> w_open w"
proof -
  note D = world_soundD[OF assms]
  show eq: "svc_lookup (w_svc w) h = Some p \<longleftrightarrow> (\<exists>c. w_conns w p = Some c \<and> m_fd c = h)"
    using D(1,5) by (fastforce elim: ownedE)
  show op: "svc_lookup (w_svc w) h \<noteq> None \<Longrightarrow> h \<in> w_open w"
    using D(5) owned_open[OF assms] by blast
  show "h \<in> interest (w_svc w) \<longleftrightarrow> svc_lookup (w_svc w) h \<noteq> None"
    using D(3,4,5) owned_lookup[OF assms] by (fastforce elim: ownedE)
qed

lemma invalid_negative: "sint INVALID_OS_HANDLE < 0"
  by (simp add: INVALID_OS_HANDLE_def)

lemma nonneg_valid: "0 \<le> sint h \<Longrightarrow> h \<noteq> INVALID_OS_HANDLE"
  using invalid_negative by auto

lemma world_ok_conn_fd:
  assumes "world_sound J w" "w_conns w p = Some c"
  shows "svc_lookup (w_svc w) (m_fd c) = Some p" "m_fd c \<in> w_open w" "0 \<le> sint (m_fd c)"
  using world_soundD(1,2)[OF assms(1) assms(2)] world_soundD(6)[OF assms(1)] by blast+

lemma svc_update_simps [simp]:
  "w_svc (svc_update f w) = f (w_svc w)"
  "w_conns (svc_update f w) = w_conns w"
  "w_next (svc_update f w) = w_next w"
  "w_open (svc_update f w) = w_open w"
  by (simp_all add: svc_update_def)

lemma os_close_simps [simp]:
  "w_svc (os_close fd w) = ep_call (FdClose fd) (w_svc w)"
  "w_conns (os_close fd w) = w_conns w"
  "w_next (os_close fd w) = w_next w"
  "w_open (os_close fd w) = w_open w - {fd}"
  by (simp_all add: os_close_def)

lemma conn_update_simps [simp]:
  "w_svc (conn_update p f w) = w_svc w"
  "w_conns (conn_update p f w) q = (if q = p then map_option f (w_conns w p) else w_conns w q)"
  "w_next (conn_update p f w) = w_next w"
  "w_open (conn_update p f w) = w_open w"
  by (simp_all add: conn_update_def)

lemma owned_simps [simp]:
  "owned (svc_update f w) h = owned w h"
  "owned (os_close fd w) h = owned w h"
  "owned (w\<lparr>w_svc := v\<rparr>) h = owned w h"
  "owned (w\<lparr>w_open := o'\<rparr>) h = owned w h"
  "owned (w\<lparr>w_bound := b\<rparr>) h = owned w h"
  by (simp_all add: owned_def)

lemma world_ok_get:
  "world_sound J (w\<lparr>w_svc := snd (svc_get h (w_svc w))\<rparr>) = world_sound J w"
  by (simp add: world_sound_def svc_lookup_get)

lemma owned_conn_update:
  assumes "\<And>c. m_fd (f c) = m_fd c"
  shows "owned (conn_update p f w) h = owned w h"
  using assms unfolding owned_def conn_update_simps by (auto split: if_splits) (metis option.simps(9))+

lemma world_ok_conn_update:
  assumes "world_sound J w" "\<And>c. m_fd (f c) = m_fd c"
  shows "world_sound J (conn_update p f w)"
proof (rule world_soundI, unfold owned_conn_update[of f, OF assms(2)], goal_cases)
  case (1 q c)
  then obtain c' where "w_conns w q = Some c'" "m_fd c' = m_fd c"
    using assms(2) by (auto split: if_splits)
  then show ?case using world_soundD(1-3)[OF assms(1), of q c'] by simp
qed (use world_soundD(4-8)[OF assms(1)] in simp_all)

lemma world_ok_open:
  "world_sound J w \<Longrightarrow> 0 \<le> sint fd \<Longrightarrow> world_sound J (w\<lparr>w_open := insert fd (w_open w)\<rparr>)"
  unfolding world_sound_def by simp

lemma world_ok_bound [simp]: "world_sound J (w\<lparr>w_bound := b\<rparr>) = world_sound J w"
  by (simp add: world_sound_def)

lemma world_ok_close_unused:
  assumes "world_sound J w" "\<not> owned w fd"
  shows "world_sound J (os_close fd w)"
proof (rule world_soundI, unfold owned_simps, goal_cases)
  case (1 p c)
  then have "w_conns w p = Some c" "m_fd c \<noteq> fd" using ownedI[of w p c] assms(2) by auto
  then show ?case using world_soundD(1-3)[OF assms(1), of p c] by simp
qed (use world_soundD(4-8)[OF assms(1)] in simp_all)

lemma uds_adopt_simps:
  "fst (uds_adopt fd w) = w_next w"
  "w_conns (snd (uds_adopt fd w)) = (w_conns w)(w_next w := Some (new_conn fd))"
  "w_open (snd (uds_adopt fd w)) = w_open w"
  "w_next (snd (uds_adopt fd w)) = Suc (w_next w)"
  "w_svc (snd (uds_adopt fd w)) = associate fd (w_next w) (w_svc w)"
  by (simp_all add: uds_adopt_def Let_def)

lemma owned_adopt: "\<not> owned w fd \<Longrightarrow> w_conns w (w_next w) = None \<Longrightarrow>
    owned (snd (uds_adopt fd w)) h \<longleftrightarrow> h = fd \<or> owned w h"
proof -
  assume new: "\<not> owned w fd" and n: "w_conns w (w_next w) = None"
  have "owned (snd (uds_adopt fd w)) fd"
    unfolding owned_def uds_adopt_simps
    by (intro exI[of _ "w_next w"] exI[of _ "new_conn fd"]) (simp add: new_conn_def)
  moreover have "owned (snd (uds_adopt fd w)) h" if "owned w h"
    using that n unfolding owned_def uds_adopt_simps by (metis fun_upd_other option.distinct(1))
  moreover have "h = fd \<or> owned w h" if "owned (snd (uds_adopt fd w)) h"
    using that unfolding owned_def uds_adopt_simps by (auto simp: new_conn_def split: if_splits)
  ultimately show ?thesis by blast
qed

lemma uds_adopt_ok:
  assumes ok: "world_sound J w" and fd: "fd \<in> w_open w" and new: "\<not> owned w fd"
  shows "world_sound J (snd (uds_adopt fd w))"
proof -
  have v: "fd \<noteq> INVALID_OS_HANDLE" using world_soundD(6)[OF ok fd] nonneg_valid by blast
  have n: "w_conns w (w_next w) = None" using world_soundD(7)[OF ok] by simp
  have l: "svc_lookup (associate fd (w_next w) (w_svc w)) = (svc_lookup (w_svc w))(fd := Some (w_next w))"
    using v by (simp add: associate_lookup)
  have i: "interest (associate fd (w_next w) (w_svc w)) =
      (if svc_lookup (w_svc w) fd \<noteq> None then interest (w_svc w) else insert fd (interest (w_svc w)))"
    using v by (simp add: associate_interest)
  have junk: "fd \<in> J" if "svc_lookup (w_svc w) fd \<noteq> None"
    using world_soundD(5)[OF ok that] new by blast
  show ?thesis
  proof (rule world_soundI, unfold owned_adopt[OF new n] uds_adopt_simps l i, goal_cases)
    case (1 p c)
    show ?case
    proof (cases "p = w_next w")
      case True
      then show ?thesis using 1 fd junk by (auto simp: new_conn_def)
    next
      case False
      then have c: "w_conns w p = Some c" using 1 by simp
      then have "m_fd c \<noteq> fd" using ownedI[OF c] new by auto
      then show ?thesis using world_soundD(1-3)[OF ok c] by simp
    qed
  next
    case (2 h)
    then show ?case using world_soundD(4)[OF ok, of h] by (auto split: if_splits)
  next
    case (3 h)
    then show ?case using world_soundD(5)[OF ok, of h] by (auto split: if_splits)
  qed (use world_soundD(6-8)[OF ok] in simp_all)
qed

lemma uds_delete_simps:
  assumes "world_sound J w" "w_conns w p = Some c"
  shows "w_conns (uds_delete p w) = (w_conns w)(p := None)"
    "w_open (uds_delete p w) = w_open w - {m_fd c}"
    "w_next (uds_delete p w) = w_next w"
    "w_svc (uds_delete p w) = ep_call (FdClose (m_fd c)) (unassociate (m_fd c) (w_svc w))"
  using world_ok_conn_fd[OF assms] assms(2)
  by (auto simp: uds_delete_def uds_close_def native_handle_def Let_def)

lemma uds_delete_ok:
  assumes ok: "world_sound J w"
  shows "world_sound J (uds_delete p w)"
proof (cases "w_conns w p")
  case None
  then show ?thesis using ok by (simp add: uds_delete_def)
next
  case (Some c)
  note d = uds_delete_simps[OF ok Some] and fd = world_ok_conn_fd[OF ok Some]
  have v: "m_fd c \<noteq> INVALID_OS_HANDLE" using fd(3) nonneg_valid by blast
  have other: "m_fd c' \<noteq> m_fd c" if "w_conns w q = Some c'" "q \<noteq> p" for q c'
    using world_soundD(1)[OF ok that(1)] fd(1) that(2) by auto
  have keep: "owned (uds_delete p w) h" if "owned w h" "h \<noteq> m_fd c" for h
    using that(1)
  proof (rule ownedE)
    fix q c' assume q: "w_conns w q = Some c'" "m_fd c' = h"
    then have "q \<noteq> p" using that(2) Some by auto
    then show "owned (uds_delete p w) h"
      unfolding owned_def d using q by (intro exI[of _ q] exI[of _ c']) simp
  qed
  show ?thesis
  proof (rule world_soundI, goal_cases)
    case (1 q c')
    then have "q \<noteq> p" "w_conns w q = Some c'" by (auto simp: d split: if_splits)
    then show ?case using other[of q c'] world_soundD(1-3)[OF ok, of q c'] v
      by (simp add: d unassociate_lookup unassociate_interest)
  next
    case (2 h)
    then show ?case using keep world_soundD(4)[OF ok, of h] v by (simp add: d unassociate_interest)
  next
    case (3 h)
    then show ?case using keep world_soundD(5)[OF ok, of h] v
      by (auto simp: d unassociate_lookup split: if_splits)
  qed (use world_soundD(6-8)[OF ok] in \<open>simp_all add: d\<close>)
qed

section \<open>The server as a state machine\<close>

definition server_sound :: "handle set \<Rightarrow> server \<Rightarrow> bool" where
  "server_sound J s \<longleftrightarrow>
     world_sound J (srv_world s) \<and> distinct (connections s) \<and>
     (\<forall>p\<in>set (connections s). w_conns (srv_world s) p \<noteq> None) \<and>
     (\<forall>p c. w_conns (srv_world s) p = Some c \<longrightarrow> on_close c \<longrightarrow> p \<in> set (connections s))"

abbreviation server_ok :: "server \<Rightarrow> bool" where
  "server_ok s \<equiv> server_sound {} s"

text \<open>The descriptors epoll watches for the server.\<close>

definition watched :: "server \<Rightarrow> handle set" where
  "watched s = interest (w_svc (srv_world s))"

text \<open>What the kernel promises of an accepted connection: its descriptor was not open.\<close>

definition env_fair :: "accept_env \<Rightarrow> world \<Rightarrow> bool" where
  "env_fair env w \<longleftrightarrow> a_fd env \<notin> w_open w"

text \<open>
  A state is the result so far and the events of the current \<open>epoll_wait\<close> still to handle.
  Each descriptor is reported at most once per call, and only when it is watched.
\<close>

inductive srv_step :: "run_result \<times> (handle \<times> 32 word) list \<Rightarrow> run_result \<times> (handle \<times> 32 word) list \<Rightarrow> bool" where
  poll: "distinct (map fst batch) \<Longrightarrow> fst ` set batch \<subseteq> watched s \<Longrightarrow>
         srv_step (Running s, []) (Running s, batch)"
| event: "env_fair env (srv_world s) \<Longrightarrow>
         srv_step (Running s, (fd, ev) # es) (run_event fd ev env s, es)"

inductive_cases srv_stepE: "srv_step (r, es) t"

text \<open>The descriptors whose cell holds a stray pointer in the memory the service was built in.\<close>

definition stray :: "(nat \<Rightarrow> address option) \<Rightarrow> handle set" where
  "stray memory = {h. as_ulong h < fast_size \<and> memory (as_ulong h) \<noteq> None}"

definition srv_init ::
  "(nat \<Rightarrow> address option) \<Rightarrow> run_result \<times> (handle \<times> 32 word) list \<Rightarrow> bool" where
  "srv_init memory t \<longleftrightarrow>
     (\<exists>fd pid s. 0 \<le> sint fd \<and> server_start memory fd pid = Some s \<and> t = (Running s, []))"

definition srv_inv :: "handle set \<Rightarrow> run_result \<times> (handle \<times> 32 word) list \<Rightarrow> bool" where
  "srv_inv J t \<longleftrightarrow>
     (\<exists>s. fst t = Running s \<and> server_sound J s \<and> distinct (map fst (snd t)) \<and>
          fst ` set (snd t) \<subseteq> watched s) \<or>
     (\<exists>path. fst t = WritesOutside path \<and> sun_path_size \<le> length path)"

text \<open>What a notification leaves behind, for an object \<open>c\<close> at \<open>p\<close>.\<close>

definition notify_post ::
  "handle set \<Rightarrow> world \<Rightarrow> address \<Rightarrow> uds_conn \<Rightarrow> callback \<times> world \<Rightarrow> bool" where
  "notify_post J w p c r \<longleftrightarrow> world_sound J (snd r) \<and> interest (w_svc w) \<subseteq> interest (w_svc (snd r)) \<and>
     (case fst r of
        CbAccept q \<Rightarrow> w_conns w q = None \<and>
          (\<exists>fd. w_conns (snd r) = (w_conns w)(q := Some (new_conn fd)))
      | cb \<Rightarrow> w_conns (snd r) = w_conns w \<and>
          cb \<in> {NoCallback, CbRead p} \<union> (if on_close c then {CbClose p} else {}))"

lemma uds_notify_post:
  assumes ok: "world_sound J w" and p: "w_conns w p = Some c" and env: "env_fair env w"
  shows "(uds_notify env p c hint w = None \<and> sun_path_size \<le> length (a_peer env)) \<or>
    (\<exists>r. uds_notify env p c hint w = Some r \<and> notify_post J w p c r)"
proof -
  define w1 where "w1 = w\<lparr>w_open := insert (a_fd env) (w_open w)\<rparr>"
  have new: "\<not> owned w (a_fd env)" using owned_open[OF ok, of "a_fd env"] env unfolding env_fair_def by blast
  have new1: "\<not> owned w1 (a_fd env)" using new by (simp add: w1_def)
  have i: "a_fd env \<notin> interest (w_svc w)" using world_soundD(4)[OF ok] new by blast
  have ok1: "world_sound J w1" if "0 \<le> sint (a_fd env)"
    using world_ok_open[OF ok that] by (simp add: w1_def)
  have path: "peer_path (a_peer env) = None \<and> sun_path_size \<le> length (a_peer env) \<or>
      (\<exists>path. peer_path (a_peer env) = Some path)"
    by (simp add: peer_path_cases)
  have accept: "world_sound J (snd (uds_adopt (a_fd env) w1))" if "0 \<le> sint (a_fd env)"
    by (rule uds_adopt_ok[OF ok1[OF that] _ new1]) (simp add: w1_def)
  have adopt_i: "interest (w_svc w) \<subseteq> interest (w_svc (snd (uds_adopt (a_fd env) w1)))"
    by (auto simp: uds_adopt_simps associate_interest w1_def)
  have post_accept: "notify_post J w p c (CbAccept (fst (uds_adopt (a_fd env) w1)), snd (uds_adopt (a_fd env) w1))"
    if "0 \<le> sint (a_fd env)"
    using accept[OF that] adopt_i world_soundD(7)[OF ok, of "w_next w"]
    by (auto simp: notify_post_def uds_adopt_simps w1_def)
  have post_closed: "notify_post J w p c (NoCallback, os_close (a_fd env) w1)" if "0 \<le> sint (a_fd env)"
    using world_ok_close_unused[OF ok1[OF that] new1] i
    by (auto simp: notify_post_def w1_def)
  have post_open: "notify_post J w p c (NoCallback, w1)" if "0 \<le> sint (a_fd env)"
    using ok1[OF that] by (simp add: notify_post_def w1_def)
  have post_same: "notify_post J w p c (cb, w)"
    if "cb \<in> {NoCallback, CbRead p} \<union> (if on_close c then {CbClose p} else {})" for cb
    using ok that by (auto simp: notify_post_def split: if_splits)
  show ?thesis
  proof (cases "m_listening c \<and> hint AND EPOLLIN \<noteq> 0 \<and> 0 \<le> sint (a_fd env)")
    case True
    then show ?thesis
      using path post_accept post_closed post_open
      by (auto simp: uds_notify_def Let_def case_prod_beta w1_def[symmetric])
  next
    case False
    then show ?thesis
      using post_same by (auto simp: uds_notify_def)
  qed
qed

lemma server_okD:
  assumes "server_sound J s"
  shows "world_sound J (srv_world s)" "distinct (connections s)"
    "p \<in> set (connections s) \<Longrightarrow> w_conns (srv_world s) p \<noteq> None"
    "w_conns (srv_world s) p = Some c \<Longrightarrow> on_close c \<Longrightarrow> p \<in> set (connections s)"
  using assms unfolding server_sound_def by blast+

lemma serve_accept_ok:
  assumes s: "server_sound J s" and w: "world_sound J w"
    and conns: "w_conns w = (w_conns (srv_world s))(q := Some (new_conn fd))"
    and q: "w_conns (srv_world s) q = None"
  shows "server_sound J (server_on_accept q (s\<lparr>srv_world := w\<rparr>))"
    "watched (server_on_accept q (s\<lparr>srv_world := w\<rparr>)) = interest (w_svc w)"
proof -
  have "q \<notin> set (connections s)" using server_okD(3)[OF s, of q] q by auto
  then show "server_sound J (server_on_accept q (s\<lparr>srv_world := w\<rparr>))"
    using server_okD[OF s] w conns
    by (auto simp: server_sound_def server_on_accept_def world_ok_conn_update)
  show "watched (server_on_accept q (s\<lparr>srv_world := w\<rparr>)) = interest (w_svc w)"
    by (simp add: watched_def server_on_accept_def)
qed

lemma serve_close_ok:
  assumes s: "server_sound J s" and p: "w_conns (srv_world s) p = Some c" "on_close c"
  shows "server_sound J (server_on_close p s)"
    "watched (server_on_close p s) = watched s - {m_fd c}"
    "w_conns (srv_world (server_on_close p s)) p = None"
    "m_fd c \<notin> w_open (srv_world (server_on_close p s))"
proof -
  note ok = server_okD(1)[OF s]
  note d = uds_delete_simps[OF ok p(1)]
  have in_list: "p \<in> set (connections s)" by (rule server_okD(4)[OF s p])
  show "server_sound J (server_on_close p s)"
    using server_okD[OF s] in_list uds_delete_ok[OF ok]
    by (auto simp: server_sound_def server_on_close_def d)
  have "m_fd c \<noteq> INVALID_OS_HANDLE"
    using world_ok_conn_fd(3)[OF ok p(1)] nonneg_valid by blast
  then show "watched (server_on_close p s) = watched s - {m_fd c}"
    using in_list by (simp add: watched_def server_on_close_def d unassociate_interest)
  show "w_conns (srv_world (server_on_close p s)) p = None"
    "m_fd c \<notin> w_open (srv_world (server_on_close p s))"
    using in_list by (simp_all add: server_on_close_def d)
qed

lemma run_event_ok:
  assumes s: "server_sound J s" and fd: "fd \<in> watched s" and env: "env_fair env (srv_world s)"
  shows "(run_event fd ev env s = WritesOutside (a_peer env) \<and> sun_path_size \<le> length (a_peer env)) \<or>
    (\<exists>s'. run_event fd ev env s = Running s' \<and> server_sound J s' \<and> watched s - {fd} \<subseteq> watched s')"
proof -
  define w where "w = (srv_world s)\<lparr>w_svc := snd (svc_get fd (w_svc (srv_world s)))\<rparr>"
  note ok = server_okD(1)[OF s]
  have "owned (srv_world s) fd" using world_soundD(4)[OF ok] fd by (simp add: watched_def)
  then obtain p c where p: "svc_lookup (w_svc (srv_world s)) fd = Some p"
      and c: "w_conns (srv_world s) p = Some c" "m_fd c = fd"
    using owned_lookup[OF ok] by blast
  have w: "world_sound J w" using ok by (simp add: w_def world_ok_get)
  have wc: "w_conns w = w_conns (srv_world s)" "w_open w = w_open (srv_world s)"
    "interest (w_svc w) = watched s"
    by (simp_all add: w_def watched_def)
  have sw: "server_sound J (s\<lparr>srv_world := w1\<rparr>)"
    if "world_sound J w1" "w_conns w1 = w_conns (srv_world s)" for w1
    using s that by (simp add: server_sound_def)
  have fair: "env_fair env w" using env wc by (simp add: env_fair_def)
  consider (outside) "uds_notify env p c ev w = None" "sun_path_size \<le> length (a_peer env)"
    | (runs) cb w1 where "uds_notify env p c ev w = Some (cb, w1)" "notify_post J w p c (cb, w1)"
    using uds_notify_post[OF w, of p c env ev] c wc fair by fastforce
  then show ?thesis
  proof cases
    case outside
    then show ?thesis using p c by (simp add: run_event_def case_prod_beta Let_def w_def svc.get_value)
  next
    case (runs cb w1)
    have run: "run_event fd ev env s = Running (serve cb (s\<lparr>srv_world := w1\<rparr>))"
      using p c runs(1) by (simp add: run_event_def case_prod_beta Let_def w_def svc.get_value)
    have ok1: "world_sound J w1" and i1: "watched s \<subseteq> interest (w_svc w1)"
      using runs(2) wc by (simp_all add: notify_post_def)
    show ?thesis
    proof (cases cb)
      case (CbAccept q)
      then obtain fd' where q: "w_conns (srv_world s) q = None"
          "w_conns w1 = (w_conns (srv_world s))(q := Some (new_conn fd'))"
        using runs(2) wc by (auto simp: notify_post_def)
      show ?thesis
        using run CbAccept serve_accept_ok[OF s ok1 q(2,1)] i1 by auto
    next
      case (CbClose q)
      then have q: "q = p" "on_close c" "w_conns w1 = w_conns (srv_world s)"
        using runs(2) wc by (auto simp: notify_post_def split: if_splits)
      have "server_sound J (server_on_close p (s\<lparr>srv_world := w1\<rparr>))"
        "watched (server_on_close p (s\<lparr>srv_world := w1\<rparr>)) = interest (w_svc w1) - {fd}"
        using serve_close_ok[OF sw[OF ok1 q(3)], of p c] q c by (simp_all add: watched_def)
      then show ?thesis using run CbClose q(1) i1 by auto
    next
      case (CbRead q)
      then have "w_conns w1 = w_conns (srv_world s)" using runs(2) wc by (auto simp: notify_post_def)
      then show ?thesis using run CbRead sw[OF ok1] i1 by (auto simp: server_sound_def watched_def)
    next
      case NoCallback
      then have "w_conns w1 = w_conns (srv_world s)" using runs(2) wc by (auto simp: notify_post_def)
      then show ?thesis using run NoCallback sw[OF ok1] i1 by (auto simp: watched_def)
    qed
  qed
qed

lemma empty_world_sound: "world_sound (stray memory) (empty_world memory)"
  by (auto simp: world_sound_def empty_world_def io_service_new_def svc_lookup_def interest_def stray_def)

lemma empty_world_ok: "world_ok (empty_world (\<lambda>_. None))"
  using empty_world_sound[of "\<lambda>_. None"] by (simp add: stray_def)

lemma uds_ctor_ok:
  assumes "world_sound J w" "0 \<le> sint fd" "fd \<notin> w_open w" "uds_ctor fd b pid name w = (Inr p, w')"
  shows "world_sound J w'" "p = w_next w" "w_conns w' = (w_conns w)(p := Some (new_conn fd))"
proof -
  define path len where "path = fst (uds_address (uds_path name pid))"
    and "len = snd (uds_address (uds_path name pid))"
  define w2 where "w2 = w\<lparr>w_open := insert fd (w_open w), w_bound := w_bound w @ [(fd, path, len)]\<rparr>"
  have new: "\<not> owned w fd" using owned_open[OF assms(1)] assms(3) by blast
  have "world_sound J ((w\<lparr>w_open := insert fd (w_open w)\<rparr>)\<lparr>w_bound := w_bound w @ [(fd, path, len)]\<rparr>)"
    using world_ok_open[OF assms(1,2)] unfolding world_ok_bound .
  then have ok2: "world_sound J w2" by (simp add: w2_def)
  have r: "p = fst (uds_adopt fd w2)" "w' = snd (uds_adopt fd w2)"
    using assms(2,4)
    by (auto simp: uds_ctor_def Let_def case_prod_beta w2_def path_def len_def split: if_splits)
  have "\<not> owned w2 fd" using new by (simp add: w2_def owned_def)
  then show "world_sound J w'" unfolding r by (intro uds_adopt_ok[OF ok2]) (simp_all add: w2_def)
  show "p = w_next w" "w_conns w' = (w_conns w)(p := Some (new_conn fd))"
    by (simp_all add: r uds_adopt_simps w2_def)
qed

lemma server_start_ok:
  assumes "server_start memory fd pid = Some s" "0 \<le> sint fd"
  shows "server_sound (stray memory) s"
proof -
  obtain p w where c: "uds_ctor fd (\<lambda>_ _ _. True) pid server_name (empty_world memory) = (Inr p, w)"
    and s: "s = \<lparr>srv_world = snd (uds_listen 0 0 p (conn_update p (\<lambda>c. c\<lparr>on_accept := True\<rparr>) w)),
                connections = [], srv_reads = []\<rparr>"
    using assms(1)
    by (auto simp: server_start_def ipc_create_def c_str_def split: sum.splits prod.splits option.splits)
  note ok = uds_ctor_ok[OF empty_world_sound assms(2) _ c]
  have e: "fd \<notin> w_open (empty_world memory)" "w_conns (empty_world memory) = (\<lambda>_. None)"
    by (simp_all add: empty_world_def)
  show ?thesis using ok[OF e(1)] e(2)
    by (auto simp: s server_sound_def uds_listen_def new_conn_def world_ok_conn_update split: if_splits)
qed

interpretation serving: invariant_system "srv_init memory" srv_step "srv_inv (stray memory)"
proof (unfold_locales, goal_cases)
  case (1 t)
  then show ?case using server_start_ok by (auto simp: srv_init_def srv_inv_def)
next
  case (2 t u)
  from 2(1) show ?case
  proof cases
    case (poll batch s)
    then show ?thesis using 2(2) by (auto simp: srv_inv_def)
  next
    case (event env s fd ev es)
    then have s: "server_sound (stray memory) s" "fd \<in> watched s" "distinct (map fst es)"
        "fd \<notin> fst ` set es" "fst ` set es \<subseteq> watched s"
      using 2(2) by (auto simp: srv_inv_def)
    from run_event_ok[OF s(1,2) event(3), of ev] show ?thesis
    proof (elim disjE exE conjE)
      fix s'
      assume r: "run_event fd ev env s = Running s'" "server_sound (stray memory) s'"
        "watched s - {fd} \<subseteq> watched s'"
      have "fst ` set es \<subseteq> watched s'" using r(3) s(4,5) by blast
      then show ?thesis using event r s(3) by (auto simp: srv_inv_def)
    qed (use event in \<open>auto simp: srv_inv_def\<close>)
  qed
qed

text \<open>C3: the server never reaches an event it cannot attribute, whatever the memory of the
  uninitialised table held. In every state that the event loop reaches from the start of server
  mode, for any interleaving of connection requests, data, hang-ups and refused peers, any
  paths of the peers and any order of the events within one \<open>epoll_wait\<close>: the assertion on the
  looked-up connection has not failed and no deleted connection has been used. The one fault
  there is names a peer whose path fills \<open>sun_path\<close> (108 bytes or more), for which \<open>notify\<close>
  writes behind the array. Otherwise every event still to handle belongs to a live connection
  whose descriptor is open; the table has not been read or written outside its array; epoll
  watches only descriptors of live connections, and all of them but those whose table cell held
  a stray pointer; and every entry of \<open>connections\<close> is a live object listed once.\<close>

theorem server_events_attributed:
  assumes "server_start memory fd pid = Some s0" and "0 \<le> sint fd"
    and "srv_step\<^sup>*\<^sup>* (Running s0, []) (r, batch)"
  shows "(\<exists>path. r = WritesOutside path \<and> 108 \<le> length path) \<or>
    (\<exists>s. r = Running s \<and> server_sound {h. as_ulong h < 1024 \<and> memory (as_ulong h) \<noteq> None} s \<and>
      (\<forall>(h, ev)\<in>set batch. \<exists>p c. svc_lookup (w_svc (srv_world s)) h = Some p \<and>
         w_conns (srv_world s) p = Some c \<and> m_fd c = h \<and> h \<in> w_open (srv_world s)))"
proof -
  have "srv_inv (stray memory) (r, batch)"
    by (rule serving.reach_inv[OF assms(3)]) (use assms(1,2) in \<open>auto simp: srv_init_def\<close>)
  then consider (outside) path where "r = WritesOutside path" "108 \<le> length path"
    | (runs) s where "r = Running s" "server_sound (stray memory) s" "fst ` set batch \<subseteq> watched s"
    by (auto simp: srv_inv_def sun_path_size_def)
  then show ?thesis
  proof cases
    case outside
    then show ?thesis by blast
  next
    case (runs s)
    note ok = server_okD(1)[OF runs(2)]
    have "\<exists>p c. svc_lookup (w_svc (srv_world s)) h = Some p \<and>
         w_conns (srv_world s) p = Some c \<and> m_fd c = h \<and> h \<in> w_open (srv_world s)"
      if "(h, ev) \<in> set batch" for h ev
    proof -
      have "h \<in> watched s" using that runs(3) by force
      then show ?thesis
        using world_soundD(4)[OF ok] owned_lookup[OF ok] by (simp add: watched_def)
    qed
    then show ?thesis using runs(1,2) by (auto simp: stray_def fast_size_def)
  qed
qed

lemma server_start_example:
  "server_start (\<lambda>n. if n = 9 then Some 77 else None) 4 99 =
     Some \<lparr>srv_world = snd (uds_listen 0 0 1 (conn_update 1 (\<lambda>c. c\<lparr>on_accept := True\<rparr>)
        (snd (uds_ctor 4 (\<lambda>_ _ _. True) 99 server_name
           (empty_world (\<lambda>n. if n = 9 then Some 77 else None)))))), connections = [], srv_reads = []\<rparr>"
  by (simp add: server_start_def ipc_create_def uds_ctor_def uds_adopt_def empty_world_def Let_def
      case_prod_beta c_str_def)

theorem server_events_attributed_witness:
  "\<exists>s0 s. server_start (\<lambda>n. if n = 9 then Some 77 else None) 4 99 = Some s0 \<and>
     server_sound {h. as_ulong h < 1024 \<and> (if as_ulong h = 9 then Some 77 else None) \<noteq> (None :: nat option)} s \<and>
     Running s0 = Running s"
  using server_events_attributed[OF server_start_example, of "Running _" "[]"]
    server_start_example by fastforce

section \<open>Where the lifecycle goes wrong\<close>

text \<open>Calling \<open>close()\<close> on a connection before deleting it breaks the table. The descriptor is
  gone when the destructor runs, so \<open>unassociate\<close> returns at once: the entry stays and points to
  a deleted object. When the kernel gives the same descriptor to a new connection, \<open>associate\<close>
  finds the stale entry and does not add it to the epoll set: no event of it is ever seen.\<close>

theorem close_leaves_stale_entry:
  assumes "world_ok w" and "w_conns w p = Some c"
  shows "svc_lookup (w_svc (uds_delete p (uds_close p w))) (m_fd c) = Some p \<and>
    w_conns (uds_delete p (uds_close p w)) p = None \<and>
    m_fd c \<notin> w_open (uds_delete p (uds_close p w)) \<and>
    m_fd c \<notin> interest (w_svc (snd (uds_adopt (m_fd c) (uds_delete p (uds_close p w)))))"
proof -
  note fd = world_ok_conn_fd[OF assms]
  define w1 where "w1 = uds_close p w"
  have w1: "w_conns w1 p = Some (c\<lparr>m_fd := -1\<rparr>)" "w_svc w1 = ep_call (FdClose (m_fd c)) (w_svc w)"
    "w_open w1 = w_open w - {m_fd c}"
    using fd(3) assms(2) by (simp_all add: w1_def uds_close_def)
  have un: "unassociate (-1) s = s" for s :: "address io_service"
    by (simp add: unassociate_def INVALID_OS_HANDLE_def)
  have d: "uds_delete p w1 = (svc_update (\<lambda>s. s) w1)\<lparr>w_conns := (w_conns w1)(p := None)\<rparr>"
    using w1(1) by (simp add: uds_delete_def uds_close_def native_handle_def Let_def un svc_update_def)
  have "svc_lookup (w_svc (uds_delete p w1)) (m_fd c) = Some p" using fd(1) by (simp add: d w1)
  moreover have "m_fd c \<notin> interest (w_svc (uds_delete p w1))" by (simp add: d w1)
  ultimately show ?thesis
    by (simp add: w1_def[symmetric] uds_adopt_simps associate_interest) (simp add: d w1)
qed

definition demo_world :: world where
  "demo_world = snd (uds_adopt 7 ((empty_world (\<lambda>_. None))\<lparr>w_open := {7}\<rparr>))"

lemma demo_world_ok: "world_ok demo_world" "w_conns demo_world 1 = Some (new_conn 7)"
proof -
  have "world_ok ((empty_world (\<lambda>_. None))\<lparr>w_open := {7}\<rparr>)"
    using world_ok_open[OF empty_world_ok, of 7] by (simp add: empty_world_def)
  then show "world_ok demo_world" unfolding demo_world_def
    by (rule uds_adopt_ok) (simp_all add: empty_world_def owned_def)
  show "w_conns demo_world 1 = Some (new_conn 7)"
    by (simp add: demo_world_def uds_adopt_simps empty_world_def)
qed

theorem close_leaves_stale_entry_witness:
  "svc_lookup (w_svc (uds_delete 1 (uds_close 1 demo_world))) 7 = Some 1 \<and>
   w_conns (uds_delete 1 (uds_close 1 demo_world)) 1 = None"
  using close_leaves_stale_entry[OF demo_world_ok] by (simp add: new_conn_def)

text \<open>Hang-up wins over data. When a client sends a message and closes, epoll reports
  \<open>EPOLLIN\<close> and \<open>EPOLLRDHUP\<close> together; the server then only calls \<open>on_close\<close>, which deletes the
  connection and closes its descriptor, so the pending bytes are never read.\<close>

theorem hangup_discards_data:
  assumes "server_ok s" and "w_conns (srv_world s) p = Some c" and "on_close c" and "\<not> m_listening c"
    and "ev AND EPOLLRDHUP \<noteq> 0"
  shows "\<exists>s'. run_event (m_fd c) ev env s = Running s' \<and> srv_reads s' = srv_reads s \<and>
    w_conns (srv_world s') p = None \<and> m_fd c \<notin> w_open (srv_world s')"
proof -
  note ok = server_okD(1)[OF assms(1)]
  define w where "w = (srv_world s)\<lparr>w_svc := snd (svc_get (m_fd c) (w_svc (srv_world s)))\<rparr>"
  have l: "svc_lookup (w_svc (srv_world s)) (m_fd c) = Some p" by (rule world_ok_conn_fd(1)[OF ok assms(2)])
  have r: "run_event (m_fd c) ev env s = Running (server_on_close p (s\<lparr>srv_world := w\<rparr>))"
    using l assms(2-5)
    by (simp add: run_event_def case_prod_beta Let_def svc.get_value uds_notify_def w_def)
  have sw: "server_ok (s\<lparr>srv_world := w\<rparr>)"
    using assms(1) by (simp add: server_sound_def w_def world_ok_get)
  have "w_conns (srv_world (s\<lparr>srv_world := w\<rparr>)) p = Some c" using assms(2) by (simp add: w_def)
  note closed = serve_close_ok(3,4)[OF sw this assms(3)]
  have "srv_reads (server_on_close p (s\<lparr>srv_world := w\<rparr>)) = srv_reads s"
    by (simp add: server_on_close_def)
  then show ?thesis using r closed by blast
qed

definition demo_server :: server where
  "demo_server = server_on_accept 1 \<lparr>srv_world = demo_world, connections = [], srv_reads = []\<rparr>"

lemma demo_server_ok: "server_ok demo_server"
  "w_conns (srv_world demo_server) 1 =
     Some ((new_conn 7)\<lparr>on_close := True, on_read := True\<rparr>)"
proof -
  define s where "s = \<lparr>srv_world = empty_world (\<lambda>_. None), connections = [], srv_reads = []\<rparr>"
  have s: "server_ok s" using empty_world_ok by (simp add: server_sound_def s_def empty_world_def)
  have conns: "w_conns demo_world = (w_conns (srv_world s))(1 := Some (new_conn 7))"
    by (simp add: demo_world_def uds_adopt_simps empty_world_def s_def)
  have "w_conns (srv_world s) 1 = None" by (simp add: s_def empty_world_def)
  from serve_accept_ok(1)[OF s demo_world_ok(1) conns this]
  show "server_ok demo_server" by (simp add: demo_server_def s_def)
  show "w_conns (srv_world demo_server) 1 = Some ((new_conn 7)\<lparr>on_close := True, on_read := True\<rparr>)"
    by (simp add: demo_server_def server_on_accept_def demo_world_ok[simplified])
qed

theorem hangup_discards_data_witness:
  "\<exists>s'. run_event 7 (EPOLLIN OR EPOLLRDHUP) \<lparr>a_fd = 9, a_peer = [], a_stat_ok = True, a_is_sock = True\<rparr>
      demo_server = Running s' \<and> srv_reads s' = srv_reads demo_server \<and> 7 \<notin> w_open (srv_world s')"
proof -
  have "EPOLLRDHUP \<noteq> 0" by (simp add: EPOLLRDHUP_def)
  then have "(EPOLLIN OR EPOLLRDHUP) AND EPOLLRDHUP \<noteq> 0" by (simp add: word_ao_absorbs)
  note h = hangup_discards_data[OF demo_server_ok _ _ this]
  have c: "on_close ((new_conn 7)\<lparr>on_close := True, on_read := True\<rparr>)"
    "\<not> m_listening ((new_conn 7)\<lparr>on_close := True, on_read := True\<rparr>)"
    "m_fd ((new_conn 7)\<lparr>on_close := True, on_read := True\<rparr>) = 7"
    by (simp_all add: new_conn_def)
  show ?thesis using h[OF c(1,2), unfolded c(3)] by blast
qed

text \<open>Two ways to leak a descriptor. A listening connection without \<open>on_accept\<close> handler
  accepts the client and drops the descriptor; a constructor whose \<open>bind\<close> fails throws
  with the socket open. In both cases the descriptor stays open, no object owns it and the
  service does not know it.\<close>

theorem descriptors_leak:
  assumes "world_ok w" and "0 \<le> sint fd" and "fd \<notin> w_open w"
  shows "(\<forall>p c env. w_conns w p = Some c \<longrightarrow> m_listening c \<longrightarrow> \<not> on_accept c \<longrightarrow> a_fd env = fd \<longrightarrow>
            (\<exists>w'. uds_notify env p c EPOLLIN w = Some (NoCallback, w') \<and> fd \<in> w_open w' \<and>
                  svc_lookup (w_svc w') fd = None \<and> (\<forall>q d. w_conns w' q = Some d \<longrightarrow> m_fd d \<noteq> fd))) \<and>
         (\<exists>w'. uds_ctor fd (\<lambda>_ _ _. False) pid name w = (Inl BindFailed, w') \<and> fd \<in> w_open w' \<and>
               svc_lookup (w_svc w') fd = None \<and> (\<forall>q d. w_conns w' q = Some d \<longrightarrow> m_fd d \<noteq> fd))"
proof -
  define w1 where "w1 = w\<lparr>w_open := insert fd (w_open w)\<rparr>"
  have l: "svc_lookup (w_svc w) fd = None" using world_okD(3)[OF assms(1), of fd] assms(3) by fastforce
  have leak: "fd \<in> w_open w1 \<and> svc_lookup (w_svc w1) fd = None \<and> (\<forall>q d. w_conns w1 q = Some d \<longrightarrow> m_fd d \<noteq> fd)"
    using l world_okD(1)[OF assms(1), of fd] by (auto simp: w1_def)
  have "uds_notify env p c EPOLLIN w = Some (NoCallback, w1)"
    if "m_listening c" "\<not> on_accept c" "a_fd env = fd" for p c env
    using that assms(2) by (simp add: uds_notify_def w1_def EPOLLIN_def)
  moreover have "uds_ctor fd (\<lambda>_ _ _. False) pid name w = (Inl BindFailed, w1)"
    using assms(2) by (simp add: uds_ctor_def w1_def Let_def case_prod_beta)
  ultimately show ?thesis using leak by blast
qed

theorem descriptors_leak_witness:
  "\<exists>w'. uds_ctor 5 (\<lambda>_ _ _. False) 1 ''s'' (empty_world (\<lambda>_. None)) = (Inl BindFailed, w') \<and> 5 \<in> w_open w'"
  using descriptors_leak[OF empty_world_ok, of 5 1 "''s''"] by (auto simp: empty_world_def)

end
