(* ===== verification/IpcApp.thy ===== *)
theory IpcApp
  imports StreamIO
begin

text \<open>
  \<open>tipc.cpp\<close>: the transfer test of the program. The client of \<open>main\<close> sends a count and then
  that many bytes in packets of random length; \<open>server_tst1\<close> reads them back in chunks of 1024
  and compares. The server works on the interface of a connection, of which it uses the
  blocking \<open>read\<close>; the locale \<open>ipc_channel\<close> states what it needs of it, and the Unix domain
  socket connection provides it.
\<close>

section \<open>Integers in memory\<close>

definition le_bytes :: "cint \<Rightarrow> byte list" where
  "le_bytes w = map (\<lambda>i. ucast (drop_bit (8 * i) w)) [0, 1, 2, 3]"

definition le_int :: "byte list \<Rightarrow> cint" where
  "le_int bs = foldr (\<lambda>b a. ucast b OR push_bit 8 a) bs 0"

text \<open>The conversion \<open>(char)id\<close>.\<close>

definition char_of_id :: "int \<Rightarrow> byte" where
  "char_of_id i = word_of_int i"

section \<open>The client\<close>

text \<open>The inner loop of the client: what it puts into \<open>buff_tx\<close> for a packet of at most \<open>len\<close>.\<close>

definition tst1_fill :: "nat \<Rightarrow> int \<Rightarrow> int \<Rightarrow> byte list" where
  "tst1_fill len i tot = map (\<lambda>k. char_of_id (i + int k)) [0..<min len (nat (tot - i))]"

text \<open>
  The packets from byte \<open>i\<close> on; \<open>rnd\<close> gives the results of \<open>rand()\<close> and \<open>n\<close> counts the calls. The
  buffer has 1024 characters.
\<close>

definition buffer_size :: nat where "buffer_size = 1024"

function client_packets :: "(nat \<Rightarrow> nat) \<Rightarrow> nat \<Rightarrow> int \<Rightarrow> int \<Rightarrow> byte list list" where
  "client_packets rnd n i tot =
     (if i < tot
      then let len = rnd n mod buffer_size + 1; p = tst1_fill len i tot
           in p # client_packets rnd (Suc n) (i + int (length p)) tot
      else [])"
  by pat_completeness auto
termination
  by (relation "measure (\<lambda>(rnd, n, i, tot). nat (tot - i))")
    (auto simp: tst1_fill_def Let_def)

declare client_packets.simps [simp del]

definition client_total :: int where "client_total = 1024 * 1024 * 100"

text \<open>All that the client writes for the command \<open>tst1\<close>, after the command itself.\<close>

definition client_stream :: "(nat \<Rightarrow> nat) \<Rightarrow> int \<Rightarrow> byte list" where
  "client_stream rnd tot = le_bytes (word_of_int tot) @ concat (client_packets rnd 0 0 tot)"

section \<open>The server\<close>

datatype tst1_result =
    Tst1Done
  | Tst1Aborted int    \<comment> \<open>\<open>read\<close> returned this error\<close>
  | Tst1Failed         \<comment> \<open>throws "tst1 failed"\<close>
  | Tst1Undefined      \<comment> \<open>the rate divides by zero or overflows an \<open>int\<close>\<close>

text \<open>The comparison loop: None when it throws, the new \<open>id\<close> otherwise.\<close>

function tst1_check :: "byte list \<Rightarrow> nat \<Rightarrow> nat \<Rightarrow> int \<Rightarrow> int \<Rightarrow> int option" where
  "tst1_check buf k len i tot =
     (if k < len \<and> i < tot
      then if buf ! k \<noteq> char_of_id i then None else tst1_check buf (Suc k) len (i + 1) tot
      else Some i)"
  by pat_completeness auto
termination
  by (relation "measure (\<lambda>(buf, k, len, i, tot). len - k)") auto

declare tst1_check.simps [simp del]

text \<open>Whether \<open>id / (ms0 * 1024 * 1024 / 1000)\<close> has a value in 32-bit \<open>int\<close> arithmetic.\<close>

definition rate_defined :: "int \<Rightarrow> bool" where
  "rate_defined ms0 \<longleftrightarrow> ms0 * 1024 * 1024 < 2 ^ 31 \<and> ms0 * 1024 * 1024 div 1000 \<noteq> 0"

text \<open>
  \<open>rd\<close> is \<open>pconn->read(buf, len)\<close>: its result, the buffer and the state after it. \<open>clock n\<close> is
  the elapsed time in milliseconds at the end of round \<open>n\<close>.
\<close>

type_synonym 's reader = "byte list \<Rightarrow> nat \<Rightarrow> 's \<Rightarrow> (int \<times> byte list \<times> 's) option"

partial_function (option) tst1_loop ::
  "'s reader \<Rightarrow> (nat \<Rightarrow> int) \<Rightarrow> nat \<Rightarrow> byte list \<Rightarrow> int \<Rightarrow> int \<Rightarrow> int \<Rightarrow> 's \<Rightarrow> (tst1_result \<times> 's) option" where
  "tst1_loop rd clock n buf i tot ms0 s =
     (if i < tot then
        let len = min buffer_size (nat (tot - i)) in
        (case rd buf len s of
           None \<Rightarrow> None
         | Some (err, buf', s') \<Rightarrow>
             if err \<noteq> 0 then Some (Tst1Aborted err, s')
             else (case tst1_check buf' 0 len i tot of
                     None \<Rightarrow> Some (Tst1Failed, s')
                   | Some i' \<Rightarrow>
                       if clock n > ms0 + 1000 \<or> i' \<ge> tot
                       then if rate_defined (clock n)
                            then tst1_loop rd clock (Suc n) buf' i' tot (clock n) s'
                            else Some (Tst1Undefined, s')
                       else tst1_loop rd clock (Suc n) buf' i' tot ms0 s'))
      else Some (Tst1Done, s))"

text \<open>\<open>junk\<close> is the uninitialised buffer of 1024 characters.\<close>

definition server_tst1 ::
  "'s reader \<Rightarrow> (nat \<Rightarrow> int) \<Rightarrow> byte list \<Rightarrow> 's \<Rightarrow> (tst1_result \<times> 's) option" where
  "server_tst1 rd clock junk s =
     (case rd (le_bytes 0) 4 s of
        None \<Rightarrow> None
      | Some (err, b, s1) \<Rightarrow> tst1_loop rd clock 0 junk 0 (sint (le_int b)) 0 s1)"

section \<open>Facts on the data\<close>

lemma le_roundtrip: "le_int (le_bytes w) = w"
proof (rule bit_word_eqI)
  fix n assume "n < LENGTH(32)"
  then consider "n < 8" | "8 \<le> n" "n < 16" | "16 \<le> n" "n < 24" | "24 \<le> n" "n < 32" by fastforce
  then show "bit (le_int (le_bytes w)) n = bit w n"
    by cases (auto simp: le_int_def le_bytes_def bit_or_iff bit_push_bit_iff bit_ucast_iff
        bit_drop_bit_eq dest: bit_imp_le_length)
qed

lemma length_le_bytes [simp]: "length (le_bytes w) = 4"
  by (simp add: le_bytes_def)

definition expected :: "nat \<Rightarrow> nat \<Rightarrow> byte list" where
  "expected a b = map (\<lambda>k. char_of_id (int k)) [a..<b]"

lemma length_expected [simp]: "length (expected a b) = b - a"
  by (simp add: expected_def)

lemma nth_expected [simp]: "k < b - a \<Longrightarrow> expected a b ! k = char_of_id (int (a + k))"
  by (simp add: expected_def)

lemma expected_append: "a \<le> b \<Longrightarrow> b \<le> c \<Longrightarrow> expected a b @ expected b c = expected a c"
  by (simp add: expected_def flip: map_append) (metis le_add_diff_inverse upt_add_eq_append)

lemma tst1_fill_expected:
  "i \<le> tot \<Longrightarrow> tst1_fill len (int i) (int tot) = expected i (min (i + len) tot)"
proof -
  have d: "nat (int tot - int i) = tot - i" by simp
  have m: "min (i + len) tot - i = min len (tot - i)" by simp
  show ?thesis
    by (rule nth_equalityI) (auto simp: tst1_fill_def d m)
qed

lemma client_packets_concat:
  "i \<le> tot \<Longrightarrow> concat (client_packets rnd n (int i) (int tot)) = expected i tot"
proof (induction "tot - i" arbitrary: i n rule: less_induct)
  case less
  show ?case
  proof (cases "i < tot")
    case False
    then show ?thesis using less.prems by (subst client_packets.simps) (simp add: expected_def)
  next
    case True
    define j where "j = min (i + (rnd n mod buffer_size + 1)) tot"
    have j: "i < j" "j \<le> tot" using True by (auto simp: j_def)
    have p: "tst1_fill (rnd n mod buffer_size + 1) (int i) (int tot) = expected i j"
      using tst1_fill_expected[OF less.prems] by (simp add: j_def)
    have "client_packets rnd n (int i) (int tot) =
        expected i j # client_packets rnd (Suc n) (int j) (int tot)"
      using True p j by (subst client_packets.simps) (simp add: Let_def of_nat_diff)
    moreover have "concat (client_packets rnd (Suc n) (int j) (int tot)) = expected j tot"
      using less.hyps[of j "Suc n"] j by simp
    ultimately show ?thesis using expected_append[of i j tot] j by simp
  qed
qed

lemma tst1_check_ok:
  "\<forall>q<len - k. buf ! (k + q) = char_of_id (i + int q) \<Longrightarrow> int (len - k) \<le> tot - i \<Longrightarrow>
   tst1_check buf k len i tot = Some (i + int (len - k))"
proof (induction "len - k" arbitrary: k i)
  case 0
  then show ?case by (subst tst1_check.simps) simp
next
  case (Suc m)
  have "tst1_check buf (Suc k) len (i + 1) tot = Some (i + 1 + int (len - Suc k))"
  proof (rule Suc.hyps(1))
    show "m = len - Suc k" using Suc.hyps(2) by simp
    show "\<forall>q<len - Suc k. buf ! (Suc k + q) = char_of_id (i + 1 + int q)"
    proof (intro allI impI)
      fix q assume "q < len - Suc k"
      then have "Suc q < len - k" by simp
      with Suc.prems(1) have "buf ! (k + Suc q) = char_of_id (i + int (Suc q))" by blast
      then show "buf ! (Suc k + q) = char_of_id (i + 1 + int q)" by (simp add: algebra_simps)
    qed
    show "int (len - Suc k) \<le> tot - (i + 1)" using Suc.prems(2) Suc.hyps(2) by simp
  qed
  moreover have "buf ! k = char_of_id i" using Suc.prems(1)[rule_format, of 0] Suc.hyps(2) by simp
  moreover have "k < len" "i < tot" "1 + int (len - Suc k) = int (len - k)"
    using Suc.hyps(2) Suc.prems(2) by simp_all
  ultimately show ?case by (subst tst1_check.simps) simp
qed

text \<open>The test pattern repeats with the chunk size.\<close>

lemma char_of_id_chunk: "buffer_size dvd i \<Longrightarrow> char_of_id (int i + int k) = char_of_id (int k)"
proof -
  assume "buffer_size dvd i"
  then obtain j where "i = 1024 * j" by (auto simp: buffer_size_def)
  then have "int i + int k = int k + 256 * (4 * int j)" by simp
  then have "(int i + int k) mod 256 = int k mod 256" by (metis mod_mult_self2)
  then show ?thesis unfolding char_of_id_def word_of_int_eq_iff take_bit_eq_mod by simp
qed

section \<open>What the server needs of a connection\<close>

text \<open>
  A blocking \<open>read\<close> of a connection in good order returns; with result 0 the buffer starts with
  the next bytes of the stream, or with all that is left of it.
\<close>

locale ipc_channel =
  fixes rd :: "'s reader" and pending :: "'s \<Rightarrow> byte list" and ok :: "'s \<Rightarrow> bool"
  assumes read_law: "ok s \<Longrightarrow> 0 < n \<Longrightarrow> n \<le> length buf \<Longrightarrow>
    \<exists>err got s'. rd buf n s = Some (err, got @ drop (length got) buf, s') \<and> ok s' \<and>
      pending s = got @ pending s' \<and> length got \<le> n \<and> (err = 0 \<longrightarrow> got = take n (pending s))"

text \<open>A connection whose descriptor reports no hard error.\<close>

locale reliable_channel = ipc_channel +
  assumes no_error: "ok s \<Longrightarrow> 0 < n \<Longrightarrow> n \<le> length buf \<Longrightarrow> rd buf n s = Some (err, b, s') \<Longrightarrow> err = 0"
begin

lemma read_ok:
  assumes "ok s" "0 < n" "n \<le> length buf"
  obtains s' where "rd buf n s = Some (0, take n (pending s) @ drop (min n (length (pending s))) buf, s')"
    "ok s'" "pending s' = drop n (pending s)"
proof -
  obtain err got s' where r: "rd buf n s = Some (err, got @ drop (length got) buf, s')" "ok s'"
      "pending s = got @ pending s'" "length got \<le> n" "err = 0 \<longrightarrow> got = take n (pending s)"
    using read_law[OF assms] by blast
  have e: "err = 0" using no_error[OF assms r(1)] .
  then have g: "got = take n (pending s)" using r(5) by simp
  have "pending s' = drop n (pending s)"
    using r(3,4) g by (metis append_take_drop_id same_append_eq)
  moreover have "rd buf n s = Some (0, take n (pending s) @ drop (min n (length (pending s))) buf, s')"
    using r(1) unfolding e g by (simp add: min.commute)
  ultimately show thesis using that r(2) by blast
qed

text \<open>
  The loop at a chunk boundary \<open>i\<close>, for a stream of \<open>m\<close> correct bytes: what is left of them is
  pending, and unless it is the first round the buffer holds a full chunk. The only way not to
  finish is a progress line whose rate is not defined.
\<close>

definition accepted :: "(nat \<Rightarrow> int) \<Rightarrow> byte list \<Rightarrow> tst1_result \<times> 'a \<Rightarrow> bool" where
  "accepted clock rest x \<longleftrightarrow> ok (snd x) \<and>
     (fst x = Tst1Done \<and> pending (snd x) = rest \<or>
      fst x = Tst1Undefined \<and> (\<exists>k. \<not> rate_defined (clock k)))"

lemma tst1_loop_accepts:
  assumes m: "min tot buffer_size \<le> m" "m \<le> tot"
  shows "buffer_size dvd i \<or> i = tot \<Longrightarrow> i \<le> tot \<Longrightarrow> ok s \<Longrightarrow> length buf = buffer_size \<Longrightarrow>
    pending s = expected i m @ rest \<Longrightarrow> (m < tot \<longrightarrow> rest = []) \<Longrightarrow>
    (0 < i \<longrightarrow> i < tot \<longrightarrow> buf = expected 0 buffer_size) \<Longrightarrow>
    \<exists>x. tst1_loop rd clock n buf (int i) (int tot) ms0 s = Some x \<and> accepted clock rest x"
proof (induction "tot - i" arbitrary: i n buf ms0 s rule: less_induct)
  case less
  show ?case
  proof (cases "i < tot")
    case False
    then have "i = tot" using less.prems by simp
    then show ?thesis using less.prems m
      by (subst tst1_loop.simps) (simp add: expected_def accepted_def)
  next
    case True
    define len where "len = min buffer_size (tot - i)"
    have len: "0 < len" "len \<le> length buf" "i + len \<le> tot" and dvd: "buffer_size dvd i"
      using True less.prems by (auto simp: len_def buffer_size_def)
    obtain s' where r: "rd buf len s = Some (0, take len (pending s) @ drop (min len (length (pending s))) buf, s')"
      "ok s'" "pending s' = drop len (pending s)"
      using read_ok[OF less.prems(3) len(1,2)] by blast
    define buf' where "buf' = take len (pending s) @ drop (min len (length (pending s))) buf"
    have lb: "length buf' = buffer_size" using len(2) less.prems(4) by (simp add: buf'_def)
    have content: "buf' ! q = char_of_id (int i + int q)" if q: "q < len" for q
    proof (cases "i + q < m")
      case True
      then have qm: "q < m - i" by simp
      then have "buf' ! q = pending s ! q"
        using q less.prems(5) by (simp add: buf'_def nth_append)
      then show ?thesis using qm less.prems(5) by (simp add: nth_append)
    next
      case False
      have small: "m < tot" using False q len(3) by linarith
      then have pend: "pending s = expected i m" using less.prems(5,6) by simp
      have "0 < i" using False q m(1) small by (auto simp: len_def)
      then have canon: "buf = expected 0 buffer_size" using less.prems(7) \<open>i < tot\<close> by blast
      have "\<not> q < m - i" using False by simp
      then have "buf' ! q = buf ! q"
        using False q len(2) unfolding buf'_def pend by (simp add: nth_append min_def)
      then show ?thesis using canon q char_of_id_chunk[OF dvd] by (simp add: len_def)
    qed
    have check: "tst1_check buf' 0 len (int i) (int tot) = Some (int (i + len))"
      using tst1_check_ok[of len 0 buf' "int i" "int tot"] content len(3) by simp
    have pend: "pending s' = expected (i + len) m @ rest"
    proof (cases "m < tot")
      case True
      then show ?thesis using r(3) less.prems(5,6)
        by (simp add: expected_def drop_map)
    next
      case False
      then have "len \<le> m - i" using m(2) len(3) by simp
      then show ?thesis using r(3) less.prems(5)
        by (simp add: expected_def drop_map)
    qed
    have "\<exists>x. tst1_loop rd clock (Suc n) buf' (int (i + len)) (int tot) ms s' = Some x \<and>
        accepted clock rest x" for ms
    proof (rule less.hyps)
      show "tot - (i + len) < tot - i" using len True by simp
      show "buffer_size dvd i + len \<or> i + len = tot" using dvd True by (auto simp: len_def min_def)
      show "0 < i + len \<longrightarrow> i + len < tot \<longrightarrow> buf' = expected 0 buffer_size"
      proof (intro impI)
        assume "i + len < tot"
        then have "len = buffer_size" by (auto simp: len_def)
        then show "buf' = expected 0 buffer_size"
          using content char_of_id_chunk[OF dvd] lb by (intro nth_equalityI) simp_all
      qed
    qed (use len pend lb r(2) less.prems(6) in auto)
    moreover have "tst1_loop rd clock n buf (int i) (int tot) ms0 s =
        (if (clock n > ms0 + 1000 \<or> int (i + len) \<ge> int tot) \<and> \<not> rate_defined (clock n)
         then Some (Tst1Undefined, s')
         else tst1_loop rd clock (Suc n) buf' (int (i + len)) (int tot)
           (if clock n > ms0 + 1000 \<or> int (i + len) \<ge> int tot then clock n else ms0) s')"
    proof -
      have d: "min buffer_size (nat (int tot - int i)) = len" by (simp add: len_def)
      show ?thesis
        using True r(1) check
        by (subst tst1_loop.simps) (simp add: d Let_def buf'_def[symmetric])
    qed
    moreover have "accepted clock rest (Tst1Undefined, s')" if "\<not> rate_defined (clock n)"
      using that r(2) by (auto simp: accepted_def)
    ultimately show ?thesis by (simp split: if_splits)
  qed
qed

lemma server_tst1_any_clock:
  assumes "ok s" "min tot buffer_size \<le> m" "m \<le> tot" "int tot < 2 ^ 31"
    and "pending s = le_bytes (word_of_nat tot) @ expected 0 m @ rest" "m < tot \<longrightarrow> rest = []"
    and "length junk = buffer_size"
  shows "\<exists>x. server_tst1 rd clock junk s = Some x \<and> accepted clock rest x"
proof -
  obtain s1 where r: "rd (le_bytes 0) 4 s = Some (0, le_bytes (word_of_nat tot), s1)" "ok s1"
    "pending s1 = expected 0 m @ rest"
    using read_ok[OF assms(1), of 4 "le_bytes 0"] assms(5) by auto
  have "sint (word_of_int (int tot) :: cint) = int tot"
    using assms(4) by (simp add: sint_sbintrunc' signed_take_bit_int_eq_self del: of_int_of_nat_eq)
  then have tot: "sint (le_int (le_bytes (word_of_nat tot))) = int tot"
    by (simp add: le_roundtrip)
  show ?thesis
    using tst1_loop_accepts[OF assms(2,3), where i = 0 and s = s1 and buf = junk and rest = rest] r assms(6,7)
    by (simp add: server_tst1_def tot)
qed

lemma server_tst1_accepts:
  assumes "ok s" "\<And>n. rate_defined (clock n)" "min tot buffer_size \<le> m" "m \<le> tot" "int tot < 2 ^ 31"
    and "pending s = le_bytes (word_of_nat tot) @ expected 0 m @ rest" "m < tot \<longrightarrow> rest = []"
    and "length junk = buffer_size"
  shows "\<exists>s'. server_tst1 rd clock junk s = Some (Tst1Done, s') \<and> ok s' \<and> pending s' = rest"
  using server_tst1_any_clock[OF assms(1,3-8), of clock] assms(2) by (auto simp: accepted_def)

end

lemma tst1_check_value:
  "int (len - k) \<le> tot - i \<Longrightarrow> tst1_check buf k len i tot = Some i' \<Longrightarrow> i' = i + int (len - k)"
proof (induction "len - k" arbitrary: k i)
  case 0
  then show ?case by (subst (asm) tst1_check.simps) simp
next
  case (Suc m)
  have a: "k < len" "i < tot" using Suc.hyps(2) Suc.prems(1) by simp_all
  then have "tst1_check buf (Suc k) len (i + 1) tot = Some i'"
    using Suc.prems(2) by (subst (asm) tst1_check.simps) (simp split: if_splits)
  then have "i' = i + 1 + int (len - Suc k)"
    using Suc.hyps(1)[of "Suc k" "i + 1"] Suc.hyps(2) Suc.prems(1) by simp
  then show ?case using a by simp
qed

context ipc_channel
begin

lemma tst1_loop_returns:
  "ok s \<Longrightarrow> length buf = buffer_size \<Longrightarrow>
   \<exists>r s'. tst1_loop rd clock n buf i tot ms0 s = Some (r, s') \<and> ok s'"
proof (induction "nat (tot - i)" arbitrary: i n buf ms0 s rule: less_induct)
  case less
  show ?case
  proof (cases "i < tot")
    case False
    then show ?thesis using less.prems by (subst tst1_loop.simps) simp
  next
    case True
    define len where "len = min buffer_size (nat (tot - i))"
    have len: "0 < len" "len \<le> length buf" "int len \<le> tot - i"
      using True less.prems by (auto simp: len_def buffer_size_def)
    obtain err got s' where r: "rd buf len s = Some (err, got @ drop (length got) buf, s')" "ok s'"
        "length got \<le> len"
      using read_law[OF less.prems(1) len(1,2)] by blast
    define buf' where "buf' = got @ drop (length got) buf"
    have lb: "length buf' = buffer_size" using r(3) len(2) less.prems(2) by (simp add: buf'_def)
    have step: "\<exists>r s''. tst1_loop rd clock (Suc n) buf' i' tot ms s' = Some (r, s'') \<and> ok s''"
      if "tst1_check buf' 0 len i tot = Some i'" for i' ms
    proof (rule less.hyps)
      have "i' = i + int len" using tst1_check_value[OF _ that] len(3) by simp
      then show "nat (tot - i') < nat (tot - i)" using True len by simp
    qed (use r(2) lb in auto)
    show ?thesis
    proof (cases "err = 0")
      case False
      then show ?thesis using True r
        by (subst tst1_loop.simps) (simp add: len_def[symmetric])
    next
      case ok: True
      show ?thesis
      proof (cases "tst1_check buf' 0 len i tot")
        case None
        then show ?thesis using True r ok
          by (subst tst1_loop.simps) (simp add: len_def[symmetric] buf'_def[symmetric])
      next
        case (Some i')
        then show ?thesis using True r ok step[OF Some]
          by (subst tst1_loop.simps) (auto simp: len_def[symmetric] buf'_def[symmetric])
      qed
    qed
  qed
qed

lemma server_tst1_returns:
  assumes "ok s" "length junk = buffer_size"
  shows "\<exists>r s'. server_tst1 rd clock junk s = Some (r, s') \<and> ok s'"
proof -
  obtain err got s1 where "rd (le_bytes 0) 4 s = Some (err, got @ drop (length got) (le_bytes 0), s1)" "ok s1"
    using read_law[OF assms(1), of 4 "le_bytes 0"] by auto
  then show ?thesis using tst1_loop_returns[OF _ assms(2), of s1] by (simp add: server_tst1_def)
qed

end

section \<open>The Unix domain socket connection as a channel\<close>

text \<open>
  The state of a channel carries the descriptor, the kernel and, for the specification only,
  what POSIX promises of them.
\<close>

record 'k channel =
  ch_os :: "'k os_io"
  ch_fd :: handle
  ch_kernel :: 'k
  ch_pending :: "'k \<Rightarrow> byte list"
  ch_stalls :: "'k \<Rightarrow> nat"

definition channel_read :: "'k channel reader" where
  "channel_read buf n ch =
     map_option (\<lambda>r. (rr_ret r, rr_buf r, ch\<lparr>ch_kernel := rr_kernel r\<rparr>))
       (uds_read (ch_os ch) (ch_fd ch) (Some buf) (int n) False (ch_kernel ch))"

definition channel_pending :: "'k channel \<Rightarrow> byte list" where
  "channel_pending ch = ch_pending ch (ch_kernel ch)"

definition channel_ok :: "'k channel \<Rightarrow> bool" where
  "channel_ok ch \<longleftrightarrow> byte_source (os_read (ch_os ch) (ch_fd ch)) (ch_pending ch) (ch_stalls ch) \<and>
     keeps_flags (ch_os ch) (ch_pending ch) \<and> 0 < sint (ch_fd ch)"

definition channel_reliable :: "'k channel \<Rightarrow> bool" where
  "channel_reliable ch \<longleftrightarrow> channel_ok ch \<and> never_fails (os_read (ch_os ch) (ch_fd ch))"

lemma channel_read_law:
  assumes "channel_ok ch" "0 < n" "n \<le> length buf"
  shows "\<exists>err got ch'. channel_read buf n ch = Some (err, got @ drop (length got) buf, ch') \<and>
    channel_ok ch' \<and> never_fails (os_read (ch_os ch') (ch_fd ch')) = never_fails (os_read (ch_os ch) (ch_fd ch)) \<and>
    channel_pending ch = got @ channel_pending ch' \<and> length got \<le> n \<and>
    (err = 0 \<longrightarrow> got = take n (channel_pending ch))"
proof -
  have c: "byte_source (os_read (ch_os ch) (ch_fd ch)) (ch_pending ch) (ch_stalls ch)"
    "keeps_flags (ch_os ch) (ch_pending ch)" "0 < sint (ch_fd ch)" "0 < int n" "nat (int n) \<le> length buf"
    using assms by (simp_all add: channel_ok_def)
  obtain err got k' where u: "uds_read (ch_os ch) (ch_fd ch) (Some buf) (int n) False (ch_kernel ch) =
      Some \<lparr>rr_ret = err, rr_cnt = None, rr_buf = got @ drop (length got) buf, rr_kernel = k'\<rparr>"
    and o: "read_outcome (ch_pending ch) n False err got (ch_kernel ch) k'"
    using uds_read_source[OF c, of False "ch_kernel ch"] by auto
  have "err = 0 \<Longrightarrow> got = take n (channel_pending ch)"
    using o by (auto simp: read_outcome_def channel_pending_def)
  then show ?thesis
    using u o assms(1)
    by (intro exI[of _ err] exI[of _ got] exI[of _ "ch\<lparr>ch_kernel := k'\<rparr>"])
      (auto simp: channel_read_def channel_ok_def channel_pending_def read_outcome_def)
qed

lemma channel_no_error:
  assumes "channel_reliable ch" "0 < n" "channel_read buf n ch = Some (err, b, ch')"
  shows "err = 0"
proof -
  obtain r where r: "uds_read (ch_os ch) (ch_fd ch) (Some buf) (int n) False (ch_kernel ch) = Some r" "err = rr_ret r"
    using assms(3) by (auto simp: channel_read_def)
  then show ?thesis
    using assms never_fails_loop[of "os_read (ch_os ch) (ch_fd ch)"]
    by (fastforce simp: uds_read_def channel_reliable_def channel_ok_def Let_def split: option.splits)
qed

interpretation uds: ipc_channel channel_read channel_pending channel_ok
  by unfold_locales (use channel_read_law in blast)

interpretation uds_reliable: reliable_channel channel_read channel_pending channel_reliable
proof (unfold_locales, goal_cases)
  case (1 ch n buf)
  then show ?case
    using channel_read_law[of ch n buf] unfolding channel_reliable_def by metis
next
  case (2 ch n buf err b ch')
  then show ?case using channel_no_error by blast
qed

section \<open>What the test shows\<close>

lemma rate_defined_iff: "0 \<le> ms \<Longrightarrow> rate_defined ms \<longleftrightarrow> 1 \<le> ms \<and> ms < 2048"
proof -
  assume "0 \<le> ms"
  moreover have "ms * 1024 * 1024 div 1000 \<noteq> 0" if "1 \<le> ms"
  proof -
    have "1000 \<le> ms * 1024 * 1024" using that by linarith
    then have "1000 div 1000 \<le> ms * 1024 * 1024 div 1000" by (rule zdiv_mono1) simp
    then show ?thesis by simp
  qed
  ultimately show ?thesis by (cases "ms = 0") (auto simp: rate_defined_def)
qed

lemma rate_undefinedD: "\<not> rate_defined ms \<Longrightarrow> ms = 0 \<or> 2048 \<le> ms"
proof -
  assume u: "\<not> rate_defined ms"
  show ?thesis
  proof (cases "0 \<le> ms")
    case True
    then show ?thesis using u rate_defined_iff[of ms] by auto
  next
    case False
    then have "ms * 1024 * 1024 div 1000 < 0" by (simp add: pos_imp_zdiv_neg_iff)
    then show ?thesis using u False by (auto simp: rate_defined_def)
  qed
qed

text \<open>\<open>server_tst1\<close> always returns on a Unix domain socket connection in good order, for any
  bytes the client sends, any count, even a negative or a wrong one, any errors of the
  descriptor and any clock: no stream can keep the service thread in the loop for ever.\<close>

theorem tst1_terminates:
  assumes "channel_ok ch" and "length junk = buffer_size"
  shows "\<exists>r ch'. server_tst1 channel_read clock junk ch = Some (r, ch') \<and> channel_ok ch'"
  using uds.server_tst1_returns[OF assms] .

text \<open>What the client of \<open>main\<close> sends is what the server accepts. For every count that fits an
  \<open>int\<close> and every sequence of random packet lengths, and however the socket cuts the bytes and
  interrupts the calls, the server consumes exactly the client's stream and finishes the test
  without a mismatch, leaving later bytes unread.\<close>

theorem tst1_roundtrip:
  assumes "channel_reliable ch" and "channel_pending ch = client_stream rnd (int tot) @ rest"
    and "int tot < 2 ^ 31" and "\<forall>n. 1 \<le> clock n \<and> clock n < 2048" and "length junk = buffer_size"
  shows "\<exists>ch'. server_tst1 channel_read clock junk ch = Some (Tst1Done, ch') \<and> channel_pending ch' = rest"
proof -
  have "rate_defined (clock n)" for n using spec[OF assms(4), of n] rate_defined_iff[of "clock n"] by simp
  moreover have "channel_pending ch = le_bytes (word_of_nat tot) @ expected 0 tot @ rest"
    using client_packets_concat[of 0 tot rnd 0] assms(2) by (simp add: client_stream_def)
  ultimately show ?thesis
    using uds_reliable.server_tst1_accepts[OF assms(1), of clock tot tot rest junk] assms(3,5) by auto
qed

text \<open>The test accepts truncated streams. Because a read at the end of the stream returns 0
  with the buffer as it was, and because the pattern repeats with the chunk size, a client that
  announces \<open>tot\<close> bytes but closes after \<open>m\<close> of them is answered with "Done" for every
  \<open>m\<close> from one chunk on.\<close>

theorem tst1_accepts_truncated:
  assumes "channel_reliable ch" and "channel_pending ch = le_bytes (word_of_nat tot) @ expected 0 m"
    and "buffer_size \<le> m" and "m \<le> tot" and "int tot < 2 ^ 31"
    and "\<forall>n. 1 \<le> clock n \<and> clock n < 2048" and "length junk = buffer_size"
  shows "\<exists>ch'. server_tst1 channel_read clock junk ch = Some (Tst1Done, ch')"
proof -
  have "rate_defined (clock n)" for n using spec[OF assms(6), of n] rate_defined_iff[of "clock n"] by simp
  then show ?thesis
    using uds_reliable.server_tst1_accepts[OF assms(1), of clock tot m "[]" junk] assms(2-5,7) by auto
qed

text \<open>The printed rate is not always defined. When a correct stream of at most one chunk
  arrives within the first millisecond the program divides by zero, and from 2048 milliseconds
  on the product overflows an \<open>int\<close>.\<close>

theorem tst1_rate_undefined:
  assumes "channel_reliable ch" and "channel_pending ch = le_bytes (word_of_nat tot) @ expected 0 tot @ rest"
    and "0 < tot" and "tot \<le> buffer_size" and "clock 0 = 0 \<or> 2048 \<le> clock 0" and "length junk = buffer_size"
  shows "\<exists>ch'. server_tst1 channel_read clock junk ch = Some (Tst1Undefined, ch')"
proof -
  obtain s1 where r: "channel_read (le_bytes 0) 4 ch = Some (0, le_bytes (word_of_nat tot), s1)"
    "channel_reliable s1" "channel_pending s1 = expected 0 tot @ rest"
    using uds_reliable.read_ok[OF assms(1), of 4 "le_bytes 0"] assms(2) by auto
  have "sint (word_of_int (int tot) :: cint) = int tot"
    using assms(4) by (simp add: sint_sbintrunc' signed_take_bit_int_eq_self buffer_size_def
        del: of_int_of_nat_eq)
  then have tot: "sint (le_int (le_bytes (word_of_nat tot))) = int tot" by (simp add: le_roundtrip)
  obtain s2 where r2: "channel_read junk tot s1 = Some (0, expected 0 tot @ drop tot junk, s2)"
    using uds_reliable.read_ok[OF r(2), of tot junk] r(3) assms(3,4,6) by (auto simp: min_def)
  have check: "tst1_check (expected 0 tot @ drop tot junk) 0 tot 0 (int tot) = Some (int tot)"
    using tst1_check_ok[of tot 0 "expected 0 tot @ drop tot junk" 0 "int tot"]
    by (simp add: nth_append)
  have "\<not> rate_defined (clock 0)" using assms(5) rate_defined_iff[of "clock 0"] by auto
  moreover have "min buffer_size tot = tot" using assms(4) by simp
  ultimately have "tst1_loop channel_read clock 0 junk 0 (int tot) 0 s1 = Some (Tst1Undefined, s2)"
    using assms(3) r2 check by (subst tst1_loop.simps) (simp add: Let_def)
  then show ?thesis using r(1) tot by (simp add: server_tst1_def)
qed

text \<open>A channel on the kernel of \<open>StreamIO\<close> holding the given bytes.\<close>

definition demo_channel :: "byte list \<Rightarrow> nat \<Rightarrow> (byte list \<times> nat) channel" where
  "demo_channel bs n = \<lparr>ch_os = demo_os, ch_fd = 5, ch_kernel = (bs, n), ch_pending = fst, ch_stalls = snd\<rparr>"

lemma demo_channel_reliable: "channel_reliable (demo_channel bs n)" "channel_ok (demo_channel bs n)"
  using demo_source demo_flags demo_never_fails
  by (simp_all add: channel_reliable_def channel_ok_def demo_channel_def)

lemma demo_channel_pending [simp]: "channel_pending (demo_channel bs n) = bs"
  by (simp add: channel_pending_def demo_channel_def)

theorem tst1_terminates_witness:
  "\<exists>r ch'. server_tst1 channel_read (\<lambda>_. 0) (replicate 1024 7) (demo_channel [1, 2] 3) = Some (r, ch')"
  using tst1_terminates[OF demo_channel_reliable(2), of "replicate 1024 7" "\<lambda>_. 0" "[1, 2]" 3]
  by (auto simp: buffer_size_def)

theorem tst1_roundtrip_witness:
  "\<exists>ch'. server_tst1 channel_read (\<lambda>_. 5) (replicate 1024 7)
      (demo_channel (client_stream (\<lambda>n. 3 * n + 1) 5000 @ [9]) 3) = Some (Tst1Done, ch') \<and>
    channel_pending ch' = [9]"
  using tst1_roundtrip[OF demo_channel_reliable(1), of "client_stream (\<lambda>n. 3 * n + 1) 5000 @ [9]" 3
      "\<lambda>n. 3 * n + 1" 5000 "[9]" "\<lambda>_. 5" "replicate 1024 7"]
  by (simp add: buffer_size_def)

theorem tst1_accepts_truncated_witness:
  "\<exists>ch'. server_tst1 channel_read (\<lambda>_. 5) (replicate 1024 7)
      (demo_channel (le_bytes (word_of_nat 5000) @ expected 0 1024) 0) = Some (Tst1Done, ch')"
  using tst1_accepts_truncated[OF demo_channel_reliable(1),
      of "le_bytes (word_of_nat 5000) @ expected 0 1024" 0 5000 1024 "\<lambda>_. 5" "replicate 1024 7"]
  by (simp add: buffer_size_def)

theorem tst1_rate_undefined_witness:
  "\<exists>ch'. server_tst1 channel_read (\<lambda>_. 0) (replicate 1024 7)
      (demo_channel (le_bytes (word_of_nat 3) @ expected 0 3 @ []) 0) = Some (Tst1Undefined, ch')"
  using tst1_rate_undefined[OF demo_channel_reliable(1),
      of "le_bytes (word_of_nat 3) @ expected 0 3 @ []" 0 3 "[]" "\<lambda>_. 0" "replicate 1024 7"]
  by (simp add: buffer_size_def)

end
