(* ===== verification/IpcHandlers.thy ===== *)
theory IpcHandlers
  imports IpcApp IpcService
begin

text \<open>
  \<open>tipc.cpp\<close>: what the two sides of the program do with a connection. \<open>server_on_read\<close> is the
  handler the server installs in \<open>on_accept\<close>, with its test for the command \<open>tst1\<close>, the polling
  reads and the answer; \<open>client_inputs\<close> and \<open>client_writes\<close> are the input loop of the client. The
  handler works on the interface of a connection, the record \<open>conn_ops\<close>; the locale
  \<open>app_channel\<close> states what it needs, and the Unix domain socket connection provides it.
\<close>

section \<open>The interface of a connection\<close>

text \<open>
  \<open>read(buf, n)\<close>, \<open>read(buf, n, &cnt)\<close> with the count, and \<open>write\<close>; None is not returning.
\<close>

record 's conn_ops =
  co_read :: "'s reader"
  co_poll :: "byte list \<Rightarrow> nat \<Rightarrow> 's \<Rightarrow> (int \<times> nat \<times> byte list \<times> 's) option"
  co_write :: "byte list \<Rightarrow> 's \<Rightarrow> (int \<times> 's) option"

definition bytes_of :: "string \<Rightarrow> byte list" where
  "bytes_of = map of_char"

section \<open>The handler of the server\<close>

definition ECONNABORTED :: int where "ECONNABORTED = 103"

definition tst1_command :: "byte list" where
  "tst1_command = bytes_of ''tst1''"

text \<open>How the handler ends; an answer carries what was printed: at most 32 bytes, and one more.\<close>

datatype handled =
    HAborted
  | HThrown int
  | HOutOfRange
  | HReadError "byte list"
  | HTst1 tst1_result
  | HAnswered "byte list" byte

text \<open>
  \<open>rx\<close> and \<open>tx\<close> are the uninitialised buffers of the handler, \<open>junk\<close> that of \<open>server_tst1\<close>. The
  second poll stores behind the first; \<open>strncmp\<close> of four characters without NUL compares them all.
\<close>

definition server_on_read ::
  "'s conn_ops \<Rightarrow> (nat \<Rightarrow> int) \<Rightarrow> byte list \<Rightarrow> byte list \<Rightarrow> string \<Rightarrow> int \<Rightarrow> 's \<Rightarrow> (handled \<times> 's) option" where
  "server_on_read ops clock rx junk tx ec s =
     (if ec = ECONNABORTED then Some (HAborted, s)
      else if ec \<noteq> 0 then Some (HThrown ec, s)
      else case co_poll ops rx 4 s of
        None \<Rightarrow> None
      | Some (err, len, rx1, s1) \<Rightarrow>
          if err \<noteq> 0 then Some (HReadError [], s1)
          else if len = 4 \<and> take 4 rx1 = tst1_command
          then map_option (\<lambda>(r, s'). (HTst1 r, s')) (server_tst1 (co_read ops) clock junk s1)
          else (case co_poll ops (drop len rx1) (length rx - len) s1 of
              None \<Rightarrow> None
            | Some (err, len2, tail, s2) \<Rightarrow>
                if err \<noteq> 0 then Some (HReadError [], s2)
                else let rx2 = take len rx1 @ tail; printed = take (min 32 (len + len2)) rx2 in
                  (case co_read ops rx2 1 s2 of
                     None \<Rightarrow> None
                   | Some (err, rx3, s3) \<Rightarrow>
                       if err \<noteq> 0 then Some (HReadError printed, s3)
                       else (case string_copy tx ''GOT IT'' 0 of
                               Inl _ \<Rightarrow> Some (HOutOfRange, s3)
                             | Inr (tx', _) \<Rightarrow>
                                 (case co_write ops (bytes_of (c_str tx')) s3 of
                                    None \<Rightarrow> None
                                  | Some (_, s4) \<Rightarrow> Some (HAnswered printed (rx3 ! 0), s4))))))"

section \<open>The client\<close>

text \<open>The state of \<open>std::cin\<close>: the text to come and whether \<open>good()\<close> holds.\<close>

record istream =
  is_text :: string
  is_good :: bool

abbreviation "NL \<equiv> CHR 0x0A"

text \<open>
  \<open>getline(buf, n)\<close>: at most \<open>n - 1\<close> characters up to a line feed, which is dropped. The end of the
  text, and a line that does not fit, make the stream bad; a bad stream gives the empty string.
\<close>

definition cin_getline :: "nat \<Rightarrow> istream \<Rightarrow> string \<times> istream" where
  "cin_getline n i =
     (if \<not> is_good i then ([], i)
      else let l = takeWhile (\<lambda>c. c \<noteq> NL) (is_text i); r = drop (length l) (is_text i) in
        if n - 1 < length l then (take (n - 1) l, i\<lparr>is_text := drop (n - 1) (is_text i), is_good := False\<rparr>)
        else if r = [] then (l, i\<lparr>is_text := [], is_good := False\<rparr>)
        else (l, i\<lparr>is_text := tl r\<rparr>))"

text \<open>What the first \<open>k\<close> rounds of the loop \<open>while (1)\<close> read.\<close>

fun client_inputs :: "nat \<Rightarrow> istream \<Rightarrow> string list" where
  "client_inputs 0 i = []"
| "client_inputs (Suc k) i = (case cin_getline buffer_size i of (l, i') \<Rightarrow> c_str l # client_inputs k i')"

text \<open>The calls of \<open>write\<close> for one input; \<open>n\<close> counts the calls of \<open>rand()\<close>.\<close>

definition client_writes :: "(nat \<Rightarrow> nat) \<Rightarrow> nat \<Rightarrow> string \<Rightarrow> byte list list" where
  "client_writes rnd n l =
     (if l = ''tst1''
      then bytes_of l # le_bytes (word_of_int client_total) # client_packets rnd n 0 client_total
      else [bytes_of l])"

text \<open>The calls, whose results the client ignores.\<close>

fun do_writes :: "'s conn_ops \<Rightarrow> byte list list \<Rightarrow> 's \<Rightarrow> 's option" where
  "do_writes ops [] s = Some s"
| "do_writes ops (w # ws) s =
     (case co_write ops w s of None \<Rightarrow> None | Some (_, s') \<Rightarrow> do_writes ops ws s')"

section \<open>What the handler needs of a connection\<close>

text \<open>
  A poll takes what is there, if anything; a write appends a prefix to what the peer gets, all of
  it when it succeeds; neither direction disturbs the other.
\<close>

locale app_channel = reliable_channel "co_read ops" pending ok
  for ops :: "'s conn_ops" and pending :: "'s \<Rightarrow> byte list" and ok :: "'s \<Rightarrow> bool" +
  fixes sent :: "'s \<Rightarrow> byte list"
  assumes read_sent: "ok s \<Longrightarrow> 0 < n \<Longrightarrow> n \<le> length buf \<Longrightarrow> co_read ops buf n s = Some (e, b, s') \<Longrightarrow> sent s' = sent s"
    and poll_law: "ok s \<Longrightarrow> 0 < n \<Longrightarrow> n \<le> length buf \<Longrightarrow>
      \<exists>got s'. co_poll ops buf n s = Some (0, length got, got @ drop (length got) buf, s') \<and> ok s' \<and>
        pending s = got @ pending s' \<and> length got \<le> n \<and> sent s' = sent s"
    and write_law: "ok s \<Longrightarrow> bs \<noteq> [] \<Longrightarrow>
      \<exists>err m s'. co_write ops bs s = Some (err, s') \<and> ok s' \<and> pending s' = pending s \<and>
        m \<le> length bs \<and> sent s' = sent s @ take m bs \<and> (err = 0 \<longleftrightarrow> m = length bs)"
begin

lemma read_one:
  assumes "ok s" "buf \<noteq> []"
  obtains s' where "co_read ops buf 1 s = Some (0, take 1 (pending s) @ drop (min 1 (length (pending s))) buf, s')"
    "ok s'" "pending s' = drop 1 (pending s)" "sent s' = sent s"
proof -
  have l: "0 < (1 :: nat)" "1 \<le> length buf" using assms(2) by (cases buf; simp)+
  from read_ok[OF assms(1) l] obtain s' where
    r: "co_read ops buf 1 s = Some (0, take 1 (pending s) @ drop (min 1 (length (pending s))) buf, s')"
      "ok s'" "pending s' = drop 1 (pending s)" by blast
  with read_sent[OF assms(1) l r(1)] that show thesis by blast
qed

lemma answer_copied: "length tx = buffer_size \<Longrightarrow> \<exists>tx'. string_copy tx ''GOT IT'' 0 = Inr (tx', 6) \<and> c_str tx' = ''GOT IT''"
proof -
  assume l: "length tx = buffer_size"
  then have "string_copy tx ''GOT IT'' 0 = Inr (''GOT IT'' @ NUL # drop 7 tx, 6)"
    using string_copy_shape[of tx 0 "''GOT IT''" 6] by (cases tx) (auto simp: buffer_size_def)
  then show ?thesis using c_str_terminated[of "''GOT IT''"] by simp
qed

text \<open>With the write of the answer, for connections of which more is known.\<close>

lemma on_read_traced:
  assumes "ok s" "length rx = buffer_size" "length junk = buffer_size" "length tx = buffer_size"
  shows "\<exists>h s'. server_on_read ops clock rx junk tx 0 s = Some (h, s') \<and> ok s' \<and>
    (case h of
       HTst1 r \<Rightarrow> take 4 (pending s) = tst1_command
     | HAnswered printed b \<Rightarrow>
         \<exists>msg eaten m. pending s = msg @ eaten @ pending s' \<and> length msg \<le> buffer_size \<and> printed = take 32 msg \<and>
           eaten = take 1 (eaten @ pending s') \<and> (eaten \<noteq> [] \<longrightarrow> b = hd eaten) \<and>
           sent s' = sent s @ take m (bytes_of ''GOT IT'') \<and>
           (\<exists>s3 err. ok s3 \<and> sent s3 = sent s \<and> co_write ops (bytes_of ''GOT IT'') s3 = Some (err, s'))
     | _ \<Rightarrow> False)"
proof -
  have "0 < (4 :: nat)" "4 \<le> length rx" using assms(2) by (simp_all add: buffer_size_def)
  from poll_law[OF assms(1) this] obtain got s1 where
    p1: "co_poll ops rx 4 s = Some (0, length got, got @ drop (length got) rx, s1)" "ok s1"
      "pending s = got @ pending s1" "length got \<le> 4" "sent s1 = sent s" by blast
  define rx1 where "rx1 = got @ drop (length got) rx"
  show ?thesis
  proof (cases "length got = 4 \<and> take 4 rx1 = tst1_command")
    case True
    then have "take 4 (pending s) = tst1_command" using p1(3) by (auto simp: rx1_def)
    moreover obtain r s' where "server_tst1 (co_read ops) clock junk s1 = Some (r, s')" "ok s'"
      using server_tst1_returns[OF p1(2) assms(3)] by blast
    moreover have "length got = 4" "got = tst1_command" using True by (auto simp: rx1_def)
    ultimately show ?thesis using p1(1)
      by (intro exI[of _ "HTst1 r"] exI[of _ s']) (simp add: server_on_read_def rx1_def ECONNABORTED_def)
  next
    case False
    have l1: "length rx1 = buffer_size" "drop (length got) rx1 = drop (length got) rx"
      using p1(4) assms(2) by (simp_all add: rx1_def buffer_size_def)
    have "0 < length rx1 - length got" "length rx1 - length got \<le> length (drop (length got) rx1)"
      using l1 p1(4) assms(2) by (simp_all add: buffer_size_def)
    from poll_law[OF p1(2) this] obtain got2 s2 where
      p2: "co_poll ops (drop (length got) rx1) (length rx1 - length got) s1 =
          Some (0, length got2, got2 @ drop (length got2) (drop (length got) rx1), s2)" "ok s2"
        "pending s1 = got2 @ pending s2" "length got2 \<le> length rx1 - length got" "sent s2 = sent s1" by blast
    define msg where "msg = got @ got2"
    define tail where "tail = got2 @ drop (length got2) (drop (length got) rx1)"
    define rx2 where "rx2 = take (length got) rx1 @ tail"
    have rx2: "rx2 = msg @ drop (length msg) rx" using p1(4) assms(2)
      by (simp add: rx2_def tail_def msg_def rx1_def drop_drop add.commute)
    have msg: "length msg \<le> buffer_size" using p2(4) p1(4) l1(1) by (simp add: msg_def buffer_size_def)
    then have "length rx2 = buffer_size" using rx2 assms(2) by simp
    then have "rx2 \<noteq> []" by (auto simp: buffer_size_def)
    from read_one[OF p2(2) this] obtain s3 where
      p3: "co_read ops rx2 1 s2 = Some (0, take 1 (pending s2) @ drop (min 1 (length (pending s2))) rx2, s3)"
        "ok s3" "pending s3 = drop 1 (pending s2)" "sent s3 = sent s2" by blast
    define b where "b = (take 1 (pending s2) @ drop (min 1 (length (pending s2))) rx2) ! 0"
    obtain tx' where tx: "string_copy tx ''GOT IT'' 0 = Inr (tx', 6)" "c_str tx' = ''GOT IT''"
      using answer_copied[OF assms(4)] by blast
    have "bytes_of ''GOT IT'' \<noteq> []" by (simp add: bytes_of_def)
    from write_law[OF p3(2) this] obtain err m s4 where
      p4: "co_write ops (bytes_of ''GOT IT'') s3 = Some (err, s4)" "ok s4" "pending s4 = pending s3"
        "sent s4 = sent s3 @ take m (bytes_of ''GOT IT'')" by blast
    have printed: "take (min 32 (length got + length got2)) rx2 = take 32 msg"
      using rx2 by (simp add: msg_def min_def)
    have "server_on_read ops clock rx junk tx 0 s = Some (HAnswered (take 32 msg) b, s4)"
      using False p1(1) p2(1)[folded tail_def] p3(1) tx p4(1) l1(1) assms(2)
      by (simp add: server_on_read_def ECONNABORTED_def rx1_def[symmetric] rx2_def[symmetric] Let_def b_def printed del: One_nat_def)
    moreover define eaten where "eaten = take 1 (pending s2)"
    moreover have "pending s = msg @ eaten @ pending s4"
      using p1(3) p2(3) p3(3) p4(3) by (simp add: msg_def eaten_def)
    moreover have "eaten = take 1 (eaten @ pending s4)"
      using p3(3) p4(3) unfolding eaten_def by simp
    moreover have "eaten \<noteq> [] \<longrightarrow> b = hd eaten"
      unfolding eaten_def by (cases "pending s2") (simp_all add: b_def)
    moreover have "sent s4 = sent s @ take m (bytes_of ''GOT IT'')" using p1(5) p2(5) p3(4) p4(4) by simp
    moreover have "\<exists>s3 err. ok s3 \<and> sent s3 = sent s \<and> co_write ops (bytes_of ''GOT IT'') s3 = Some (err, s4)"
      using p1(5) p2(5) p3(2,4) p4(1) by (intro exI[of _ s3] exI[of _ err]) simp
    ultimately have "server_on_read ops clock rx junk tx 0 s = Some (HAnswered (take 32 msg) b, s4) \<and> ok s4 \<and>
        pending s = msg @ eaten @ pending s4 \<and> length msg \<le> buffer_size \<and> take 32 msg = take 32 msg \<and>
        eaten = take 1 (eaten @ pending s4) \<and> (eaten \<noteq> [] \<longrightarrow> b = hd eaten) \<and>
        sent s4 = sent s @ take m (bytes_of ''GOT IT'') \<and>
        (\<exists>s3 err. ok s3 \<and> sent s3 = sent s \<and> co_write ops (bytes_of ''GOT IT'') s3 = Some (err, s4))"
      using p4(2) msg by blast
    then show ?thesis
      by (intro exI[of _ "HAnswered (take 32 msg) b"] exI[of _ s4]) (simp only: handled.case; blast)
  qed
qed

text \<open>How the answer ends: the one write of \<open>GOT IT\<close>, after which a prefix of it is on the wire, the
  whole of it exactly when the write reports success.\<close>

definition answered :: "'s \<Rightarrow> 's \<Rightarrow> bool" where
  "answered s s' \<longleftrightarrow>
     (\<exists>s3 err m. ok s3 \<and> sent s3 = sent s \<and> co_write ops (bytes_of ''GOT IT'') s3 = Some (err, s') \<and>
        m \<le> 6 \<and> sent s' = sent s @ take m (bytes_of ''GOT IT'') \<and> (err = 0 \<longleftrightarrow> m = 6))"

lemma on_read_in_order:
  assumes "ok s" "length rx = buffer_size" "length junk = buffer_size" "length tx = buffer_size"
  shows "\<exists>h s'. server_on_read ops clock rx junk tx 0 s = Some (h, s') \<and> ok s' \<and>
    (case h of
       HTst1 r \<Rightarrow> take 4 (pending s) = tst1_command
     | HAnswered printed b \<Rightarrow>
         answered s s' \<and>
         (\<exists>msg eaten. pending s = msg @ eaten @ pending s' \<and> length msg \<le> buffer_size \<and> printed = take 32 msg \<and>
           eaten = take 1 (eaten @ pending s') \<and> (eaten \<noteq> [] \<longrightarrow> b = hd eaten))
     | _ \<Rightarrow> False)"
proof -
  from on_read_traced[OF assms, of clock] obtain h s' where h:
    "server_on_read ops clock rx junk tx 0 s = Some (h, s')" "ok s'"
    "case h of
       HTst1 r \<Rightarrow> take 4 (pending s) = tst1_command
     | HAnswered printed b \<Rightarrow>
         \<exists>msg eaten m. pending s = msg @ eaten @ pending s' \<and> length msg \<le> buffer_size \<and> printed = take 32 msg \<and>
           eaten = take 1 (eaten @ pending s') \<and> (eaten \<noteq> [] \<longrightarrow> b = hd eaten) \<and>
           sent s' = sent s @ take m (bytes_of ''GOT IT'') \<and>
           (\<exists>s3 err. ok s3 \<and> sent s3 = sent s \<and> co_write ops (bytes_of ''GOT IT'') s3 = Some (err, s'))
     | _ \<Rightarrow> False"
    by blast
  have ne: "bytes_of ''GOT IT'' \<noteq> []" "length (bytes_of ''GOT IT'') = 6" by (simp_all add: bytes_of_def)
  have "answered s s'" if "ok s3" "sent s3 = sent s" "co_write ops (bytes_of ''GOT IT'') s3 = Some (err, s')" for s3 err
    using write_law[OF that(1) ne(1)] that ne(2) unfolding answered_def by fastforce
  with h show ?thesis by (intro exI[of _ h] exI[of _ s']) (cases h; simp; blast)
qed

lemma on_read_tst1:
  assumes "ok s" "length rx = buffer_size" "length junk = buffer_size"
    and "pending s = tst1_command @ le_bytes (word_of_nat tot) @ expected 0 tot @ rest" "int tot < 2 ^ 31"
    and "co_poll ops rx 4 s = Some (0, 4, rx1, s1)"
  shows "\<exists>x. server_on_read ops clock rx junk tx 0 s = Some (HTst1 (fst x), snd x) \<and> accepted clock rest x"
proof -
  have "0 < (4 :: nat)" "4 \<le> length rx" using assms(2) by (simp_all add: buffer_size_def)
  from poll_law[OF assms(1) this] assms(6) obtain got where
    p: "length got = 4" "rx1 = got @ drop 4 rx" "ok s1" "pending s = got @ pending s1" by auto
  have l: "length tst1_command = 4" by (simp add: tst1_command_def bytes_of_def)
  have g: "got = tst1_command" "pending s1 = le_bytes (word_of_nat tot) @ expected 0 tot @ rest"
    using p(1,4) assms(4) l by (metis append_eq_append_conv)+
  obtain x where "server_tst1 (co_read ops) clock junk s1 = Some x" "accepted clock rest x"
    using server_tst1_any_clock[OF p(3), of tot tot rest junk clock] assms(3,5) g(2) by auto
  then show ?thesis using assms(6) p(1,2) g(1)
    by (intro exI[of _ x]) (simp add: server_on_read_def ECONNABORTED_def case_prod_beta)
qed

end

text \<open>A connection whose peer stays: no write fails.\<close>

locale sure_channel = app_channel +
  assumes write_ok: "ok s \<Longrightarrow> bs \<noteq> [] \<Longrightarrow> co_write ops bs s = Some (err, s') \<Longrightarrow> err = 0"
begin

lemma do_writes_all:
  "ok s \<Longrightarrow> [] \<notin> set ws \<Longrightarrow>
    \<exists>s'. do_writes ops ws s = Some s' \<and> ok s' \<and> pending s' = pending s \<and> sent s' = sent s @ concat ws"
proof (induction ws arbitrary: s)
  case (Cons w ws)
  then have w: "w \<noteq> []" by auto
  from write_law[OF Cons.prems(1) w] obtain err m s1 where
    s1: "co_write ops w s = Some (err, s1)" "ok s1" "pending s1 = pending s" "sent s1 = sent s @ take m w"
      "err = 0 \<longleftrightarrow> m = length w" by blast
  then have "m = length w" using write_ok[OF Cons.prems(1) w] by blast
  then show ?case using Cons.IH[of s1] Cons.prems(2) s1 by auto
qed simp

text \<open>Every answer reaches the peer whole.\<close>

lemma on_read_answers:
  assumes "ok s" "length rx = buffer_size" "length junk = buffer_size" "length tx = buffer_size"
    and "take 4 (pending s) \<noteq> tst1_command"
  shows "\<exists>msg eaten b s'. server_on_read ops clock rx junk tx 0 s = Some (HAnswered (take 32 msg) b, s') \<and> ok s' \<and>
    pending s = msg @ eaten @ pending s' \<and> length msg \<le> buffer_size \<and> length eaten \<le> 1 \<and>
    sent s' = sent s @ bytes_of ''GOT IT''"
proof -
  obtain h s' where h: "server_on_read ops clock rx junk tx 0 s = Some (h, s')" "ok s'"
    "case h of
       HTst1 r \<Rightarrow> take 4 (pending s) = tst1_command
     | HAnswered printed b \<Rightarrow>
         \<exists>msg eaten m. pending s = msg @ eaten @ pending s' \<and> length msg \<le> buffer_size \<and> printed = take 32 msg \<and>
           eaten = take 1 (eaten @ pending s') \<and> (eaten \<noteq> [] \<longrightarrow> b = hd eaten) \<and>
           sent s' = sent s @ take m (bytes_of ''GOT IT'') \<and>
           (\<exists>s3 err. ok s3 \<and> sent s3 = sent s \<and> co_write ops (bytes_of ''GOT IT'') s3 = Some (err, s'))
     | _ \<Rightarrow> False"
    using on_read_traced[OF assms(1-4), of clock] by blast
  then obtain printed b where hh: "h = HAnswered printed b" using assms(5) by (cases h) simp_all
  with h(3) obtain msg eaten s3 err where m: "pending s = msg @ eaten @ pending s'" "length msg \<le> buffer_size"
    "printed = take 32 msg" "eaten = take 1 (eaten @ pending s')" "ok s3" "sent s3 = sent s"
    "co_write ops (bytes_of ''GOT IT'') s3 = Some (err, s')"
    by (simp only: handled.case) blast
  have ne: "bytes_of ''GOT IT'' \<noteq> []" by (simp add: bytes_of_def)
  have "sent s' = sent s @ bytes_of ''GOT IT''"
    using write_law[OF m(5) ne] write_ok[OF m(5) ne m(7)] m(6,7) by auto
  moreover have "length eaten \<le> 1" using arg_cong[OF m(4), of length] by simp
  ultimately show ?thesis using h(1,2) hh m(1-3) by blast
qed

end

section \<open>The Unix domain socket connection\<close>

text \<open>
  A channel with its outgoing side: for the specification, what the peer has got and the
  interruptions of writes to come.
\<close>

record 'k duplex =
  dx_chan :: "'k channel"
  dx_out :: "'k \<Rightarrow> byte list"
  dx_stalls :: "'k \<Rightarrow> nat"

definition channel_poll :: "byte list \<Rightarrow> nat \<Rightarrow> 'k channel \<Rightarrow> (int \<times> nat \<times> byte list \<times> 'k channel) option" where
  "channel_poll buf n ch =
     map_option (\<lambda>r. (rr_ret r, (case rr_cnt r of None \<Rightarrow> 0 | Some c \<Rightarrow> nat c), rr_buf r, ch\<lparr>ch_kernel := rr_kernel r\<rparr>))
       (uds_read (ch_os ch) (ch_fd ch) (Some buf) (int n) True (ch_kernel ch))"

definition channel_write :: "byte list \<Rightarrow> 'k channel \<Rightarrow> (int \<times> 'k channel) option" where
  "channel_write bs ch =
     map_option (\<lambda>(err, k). (err, ch\<lparr>ch_kernel := k\<rparr>))
       (uds_write (ch_os ch) (ch_fd ch) (Some bs) (int (length bs)) (ch_kernel ch))"

definition dx_ops :: "'k duplex conn_ops" where
  "dx_ops =
     \<lparr>co_read = (\<lambda>buf n d. map_option (\<lambda>(e, b, ch). (e, b, d\<lparr>dx_chan := ch\<rparr>)) (channel_read buf n (dx_chan d))),
      co_poll = (\<lambda>buf n d. map_option (\<lambda>(e, c, b, ch). (e, c, b, d\<lparr>dx_chan := ch\<rparr>)) (channel_poll buf n (dx_chan d))),
      co_write = (\<lambda>bs d. map_option (\<lambda>(e, ch). (e, d\<lparr>dx_chan := ch\<rparr>)) (channel_write bs (dx_chan d)))\<rparr>"

definition dx_pending :: "'k duplex \<Rightarrow> byte list" where
  "dx_pending d = channel_pending (dx_chan d)"

definition dx_sent :: "'k duplex \<Rightarrow> byte list" where
  "dx_sent d = dx_out d (ch_kernel (dx_chan d))"

text \<open>What POSIX promises of the two directions.\<close>

definition directions_apart :: "'k os_io \<Rightarrow> handle \<Rightarrow> ('k \<Rightarrow> byte list) \<Rightarrow> ('k \<Rightarrow> byte list) \<Rightarrow> bool" where
  "directions_apart os fd pending sent \<longleftrightarrow> keeps_flags os sent \<and>
     (\<forall>n k. sent (snd (os_read os fd n k)) = sent k) \<and> (\<forall>bs k. pending (snd (os_write os fd bs k)) = pending k)"

definition write_never_fails :: "(byte list \<Rightarrow> 'k \<Rightarrow> write_res \<times> 'k) \<Rightarrow> bool" where
  "write_never_fails wr \<longleftrightarrow> (\<forall>bs k e k'. wr bs k = (WrErr e, k') \<longrightarrow> transient e)"

definition duplex_ok :: "'k duplex \<Rightarrow> bool" where
  "duplex_ok d \<longleftrightarrow> (case dx_chan d of ch \<Rightarrow>
     channel_reliable ch \<and> byte_sink (os_write (ch_os ch) (ch_fd ch)) (dx_out d) (dx_stalls d) \<and>
     directions_apart (ch_os ch) (ch_fd ch) (ch_pending ch) (dx_out d))"

definition duplex_sure :: "'k duplex \<Rightarrow> bool" where
  "duplex_sure d \<longleftrightarrow> duplex_ok d \<and> write_never_fails (os_write (ch_os (dx_chan d)) (ch_fd (dx_chan d)))"

lemma read_loop_keeps:
  assumes "read_loop rd once buf ptr left k = Some x" "\<And>n k. f (snd (rd n k)) = f k"
  shows "f (snd (snd (snd x))) = f k"
proof -
  define P where "P = (\<lambda>rd (once :: bool) (buf :: byte list) (ptr :: nat) (left :: int) (k :: 'a) x.
    (\<forall>n k. f (snd ((rd :: nat \<Rightarrow> 'a \<Rightarrow> read_res \<times> 'a) n k)) = f k) \<longrightarrow>
    f (snd (snd (snd (x :: int \<times> int \<times> byte list \<times> 'a)))) = f k)"
  have "P rd once buf ptr left k x"
    using assms(1)
    by (rule read_loop.raw_induct[where P = P, rotated])
      (auto simp: P_def split: if_splits prod.splits read_res.splits; metis snd_conv)
  then show ?thesis using assms(2) by (simp add: P_def)
qed

lemma write_loop_keeps:
  assumes "write_loop wr buf ptr left k = Some x" "\<And>bs k. f (snd (wr bs k)) = f k"
  shows "f (snd (snd x)) = f k"
proof -
  define P where "P = (\<lambda>wr (buf :: byte list) (ptr :: nat) (left :: int) (k :: 'a) x.
    (\<forall>bs k. f (snd ((wr :: byte list \<Rightarrow> 'a \<Rightarrow> write_res \<times> 'a) bs k)) = f k) \<longrightarrow>
    f (snd (snd (x :: int \<times> int \<times> 'a))) = f k)"
  have "P wr buf ptr left k x"
    using assms(1)
    by (rule write_loop.raw_induct[where P = P, rotated])
      (auto simp: P_def split: if_splits prod.splits write_res.splits; metis snd_conv)
  then show ?thesis using assms(2) by (simp add: P_def)
qed

lemma uds_read_keeps:
  assumes "uds_read os fd buf n want k = Some r" "keeps_flags os f" "\<And>n k. f (snd (os_read os fd n k)) = f k"
  shows "f (rr_kernel r) = f k"
proof -
  have "f (snd (set_block_mode os fd b k)) = f k" for b using keeps_flags_block[OF assms(2)] .
  then show ?thesis using assms(1) read_loop_keeps[of "os_read os fd" _ _ _ _ _ _ f, OF _ assms(3)]
    by (fastforce simp: uds_read_def Let_def split: if_splits option.splits)
qed

lemma uds_write_keeps:
  assumes "uds_write os fd buf n k = Some (err, k')" "\<And>bs k. f (snd (os_write os fd bs k)) = f k"
  shows "f k' = f k"
  using assms(1) write_loop_keeps[of "os_write os fd" _ _ _ _ _ f, OF _ assms(2)]
  by (fastforce simp: uds_write_def split: if_splits option.splits)

lemma write_never_failsD: "write_never_fails wr \<Longrightarrow> wr bs k = (WrErr e, k') \<Longrightarrow> transient e"
  unfolding write_never_fails_def by blast

lemma write_loop_never_fails:
  assumes "write_loop wr buf ptr left k = Some x" "write_never_fails wr"
  shows "fst x = 0"
proof -
  define P where "P = (\<lambda>wr (buf :: byte list) (ptr :: nat) (left :: int) (k :: 'a) x.
    write_never_fails (wr :: byte list \<Rightarrow> 'a \<Rightarrow> write_res \<times> 'a) \<longrightarrow> fst (x :: int \<times> int \<times> 'a) = 0)"
  have "P wr buf ptr left k x"
    using assms(1)
    by (rule write_loop.raw_induct[where P = P, rotated])
      (auto simp: P_def split: if_splits prod.splits write_res.splits dest: write_never_failsD)
  then show ?thesis using assms(2) by (simp add: P_def)
qed

lemma dx_simps [simp]:
  "co_read dx_ops buf n d = map_option (\<lambda>(e, b, ch). (e, b, d\<lparr>dx_chan := ch\<rparr>)) (channel_read buf n (dx_chan d))"
  "co_poll dx_ops buf n d = map_option (\<lambda>(e, c, b, ch). (e, c, b, d\<lparr>dx_chan := ch\<rparr>)) (channel_poll buf n (dx_chan d))"
  "co_write dx_ops bs d = map_option (\<lambda>(e, ch). (e, d\<lparr>dx_chan := ch\<rparr>)) (channel_write bs (dx_chan d))"
  by (simp_all add: dx_ops_def)

lemma uds_read_no_error:
  assumes "uds_read os fd (Some buf) n w k = Some r" "0 < sint fd" "0 < n" "never_fails (os_read os fd)"
  shows "rr_ret r = 0"
proof -
  obtain x where "read_loop (os_read os fd) w buf 0 n (snd (set_block_mode os fd (\<not> w) k)) = Some x" "rr_ret r = fst x"
    using assms(1-3) by (auto simp: uds_read_def Let_def split: option.splits)
  then show ?thesis using never_fails_loop[OF _ assms(4)] by metis
qed

lemma uds_write_sink:
  assumes "byte_sink (os_write os fd) sent stalls" "0 < sint fd" "bs \<noteq> []"
  shows "\<exists>err m k'. uds_write os fd (Some bs) (int (length bs)) k = Some (err, k') \<and>
    m \<le> length bs \<and> sent k' = sent k @ take m bs \<and> (err = 0 \<longleftrightarrow> m = length bs)"
proof -
  obtain err m k' where "write_loop (os_write os fd) bs 0 (int (length bs)) k = Some (err, int (length bs) - int m, k')"
    and "write_outcome sent bs err m k k'"
    using write_loop_sink[OF assms(1), of "int (length bs)" 0 bs k] by auto
  then show ?thesis using assms(2,3) by (auto simp: uds_write_def write_outcome_def split: if_splits)
qed

text \<open>A connection is as good after a call as before: only the state of the kernel changes.\<close>

lemma duplex_ok_kernel [simp]:
  "duplex_ok (d\<lparr>dx_chan := dx_chan d\<lparr>ch_kernel := k\<rparr>\<rparr>) = duplex_ok d"
  "duplex_sure (d\<lparr>dx_chan := dx_chan d\<lparr>ch_kernel := k\<rparr>\<rparr>) = duplex_sure d"
  by (simp_all add: duplex_ok_def duplex_sure_def channel_reliable_def channel_ok_def)

lemma duplex_okD:
  assumes "duplex_ok d"
  shows "channel_reliable (dx_chan d)" "byte_sink (os_write (ch_os (dx_chan d)) (ch_fd (dx_chan d))) (dx_out d) (dx_stalls d)"
    "keeps_flags (ch_os (dx_chan d)) (dx_out d)"
    "dx_out d (snd (os_read (ch_os (dx_chan d)) (ch_fd (dx_chan d)) n k)) = dx_out d k"
    "ch_pending (dx_chan d) (snd (os_write (ch_os (dx_chan d)) (ch_fd (dx_chan d)) bs k)) = ch_pending (dx_chan d) k"
  using assms by (auto simp: duplex_ok_def directions_apart_def)

lemma channel_read_kernel:
  assumes "channel_read buf n ch = Some (e, b, ch')"
  obtains r where "uds_read (ch_os ch) (ch_fd ch) (Some buf) (int n) False (ch_kernel ch) = Some r"
    "ch' = ch\<lparr>ch_kernel := rr_kernel r\<rparr>" "e = rr_ret r" "b = rr_buf r"
  using assms by (auto simp: channel_read_def)

lemma dx_read_law:
  assumes "duplex_ok d" "0 < n" "n \<le> length buf"
  shows "\<exists>err got d'. co_read dx_ops buf n d = Some (err, got @ drop (length got) buf, d') \<and>
    (\<exists>k. d' = d\<lparr>dx_chan := dx_chan d\<lparr>ch_kernel := k\<rparr>\<rparr>) \<and>
    dx_pending d = got @ dx_pending d' \<and> length got \<le> n \<and> err = 0 \<and> got = take n (dx_pending d) \<and>
    dx_sent d' = dx_sent d"
proof -
  have r: "channel_reliable (dx_chan d)" and o: "channel_ok (dx_chan d)"
    using duplex_okD(1)[OF assms(1)] by (simp_all add: channel_reliable_def)
  from channel_read_law[OF o assms(2,3)] obtain err got ch' where
    c: "channel_read buf n (dx_chan d) = Some (err, got @ drop (length got) buf, ch')"
      "channel_pending (dx_chan d) = got @ channel_pending ch'" "length got \<le> n"
      "err = 0 \<longrightarrow> got = take n (channel_pending (dx_chan d))" by blast
  have e: "err = 0" using channel_no_error[OF r assms(2) c(1)] .
  from channel_read_kernel[OF c(1)] obtain rp where
    rp: "uds_read (ch_os (dx_chan d)) (ch_fd (dx_chan d)) (Some buf) (int n) False (ch_kernel (dx_chan d)) = Some rp"
      "ch' = dx_chan d\<lparr>ch_kernel := rr_kernel rp\<rparr>" by blast
  have "dx_out d (rr_kernel rp) = dx_out d (ch_kernel (dx_chan d))"
    using uds_read_keeps[OF rp(1) duplex_okD(3)[OF assms(1)] duplex_okD(4)[OF assms(1)]] .
  then have "dx_sent (d\<lparr>dx_chan := ch'\<rparr>) = dx_sent d" using rp(2) by (simp add: dx_sent_def)
  moreover have "co_read dx_ops buf n d = Some (0, got @ drop (length got) buf, d\<lparr>dx_chan := ch'\<rparr>)"
    using c(1) e by simp
  moreover have "dx_pending d = got @ dx_pending (d\<lparr>dx_chan := ch'\<rparr>)" using c(2) by (simp add: dx_pending_def)
  moreover have "got = take n (dx_pending d)" using c(4) e unfolding dx_pending_def by blast
  ultimately show ?thesis using c(3) rp(2) by blast
qed

lemma dx_poll_law:
  assumes "duplex_ok d" "0 < n" "n \<le> length buf"
  shows "\<exists>got d'. co_poll dx_ops buf n d = Some (0, length got, got @ drop (length got) buf, d') \<and>
    (\<exists>k. d' = d\<lparr>dx_chan := dx_chan d\<lparr>ch_kernel := k\<rparr>\<rparr>) \<and>
    dx_pending d = got @ dx_pending d' \<and> length got \<le> n \<and> dx_sent d' = dx_sent d"
proof -
  let ?ch = "dx_chan d"
  have r: "channel_reliable ?ch" using duplex_okD(1)[OF assms(1)] .
  then have c: "byte_source (os_read (ch_os ?ch) (ch_fd ?ch)) (ch_pending ?ch) (ch_stalls ?ch)"
    "keeps_flags (ch_os ?ch) (ch_pending ?ch)" "0 < sint (ch_fd ?ch)" "0 < int n" "nat (int n) \<le> length buf"
    "never_fails (os_read (ch_os ?ch) (ch_fd ?ch))"
    using assms(2,3) by (simp_all add: channel_ok_def channel_reliable_def)
  obtain err got k' where u: "uds_read (ch_os ?ch) (ch_fd ?ch) (Some buf) (int n) True (ch_kernel ?ch) =
      Some \<lparr>rr_ret = err, rr_cnt = Some (int (length got)), rr_buf = got @ drop (length got) buf, rr_kernel = k'\<rparr>"
    and o: "read_outcome (ch_pending ?ch) n True err got (ch_kernel ?ch) k'"
    using uds_read_source[OF c(1-5), of True "ch_kernel ?ch"] by auto
  have "err = 0" using uds_read_no_error[OF u c(3,4,6)] by simp
  moreover have "dx_out d k' = dx_out d (ch_kernel ?ch)"
    using uds_read_keeps[OF u duplex_okD(3)[OF assms(1)] duplex_okD(4)[OF assms(1)]] by simp
  ultimately show ?thesis using u o
    by (intro exI[of _ got] exI[of _ "d\<lparr>dx_chan := dx_chan d\<lparr>ch_kernel := k'\<rparr>\<rparr>"])
      (auto simp: channel_poll_def dx_pending_def dx_sent_def channel_pending_def read_outcome_def)
qed

lemma dx_write_law:
  assumes "duplex_ok d" "bs \<noteq> []"
  shows "\<exists>err m d'. co_write dx_ops bs d = Some (err, d') \<and>
    (\<exists>k. d' = d\<lparr>dx_chan := dx_chan d\<lparr>ch_kernel := k\<rparr>\<rparr>) \<and> dx_pending d' = dx_pending d \<and>
    m \<le> length bs \<and> dx_sent d' = dx_sent d @ take m bs \<and> (err = 0 \<longleftrightarrow> m = length bs)"
proof -
  let ?ch = "dx_chan d"
  have fd: "0 < sint (ch_fd ?ch)" using duplex_okD(1)[OF assms(1)] by (simp add: channel_reliable_def channel_ok_def)
  from uds_write_sink[OF duplex_okD(2)[OF assms(1)] fd assms(2)] obtain err m k' where
    w: "uds_write (ch_os ?ch) (ch_fd ?ch) (Some bs) (int (length bs)) (ch_kernel ?ch) = Some (err, k')"
      "dx_out d k' = dx_out d (ch_kernel ?ch) @ take m bs" "m \<le> length bs" "err = 0 \<longleftrightarrow> m = length bs"
    by blast
  have "ch_pending ?ch k' = ch_pending ?ch (ch_kernel ?ch)"
    using uds_write_keeps[OF w(1) duplex_okD(5)[OF assms(1)]] .
  then show ?thesis using w
    by (intro exI[of _ err] exI[of _ m] exI[of _ "d\<lparr>dx_chan := dx_chan d\<lparr>ch_kernel := k'\<rparr>\<rparr>"])
      (auto simp: channel_write_def dx_pending_def dx_sent_def channel_pending_def)
qed

interpretation dx: app_channel dx_ops dx_pending duplex_ok dx_sent
proof (unfold_locales, goal_cases)
  case (1 d n buf)
  from dx_read_law[OF this] show ?case using 1(1) by (metis duplex_ok_kernel(1))
next
  case (2 d n buf err b d')
  from dx_read_law[OF 2(1-3)] show ?case using 2(4) by (metis option.inject prod.inject)
next
  case (3 d n buf e b d')
  from dx_read_law[OF 3(1-3)] show ?case using 3(4) by (metis option.inject prod.inject)
next
  case (4 d n buf)
  from dx_poll_law[OF this] show ?case using 4(1) by (metis duplex_ok_kernel(1))
next
  case (5 d bs)
  from dx_write_law[OF this] show ?case using 5(1) by (metis duplex_ok_kernel(1))
qed

lemma dx_write_no_error:
  assumes "duplex_sure d" "bs \<noteq> []" "co_write dx_ops bs d = Some (err, d')"
  shows "err = 0"
proof -
  let ?ch = "dx_chan d"
  have "0 < sint (ch_fd ?ch)" "write_never_fails (os_write (ch_os ?ch) (ch_fd ?ch))"
    using assms(1) by (simp_all add: duplex_sure_def duplex_ok_def channel_reliable_def channel_ok_def)
  then show ?thesis
    using assms(2,3) write_loop_never_fails[of "os_write (ch_os ?ch) (ch_fd ?ch)"]
    by (fastforce simp: channel_write_def uds_write_def split: option.splits if_splits)
qed

interpretation dx_sure: sure_channel dx_ops dx_pending duplex_sure dx_sent
proof (unfold_locales, goal_cases)
  case (1 d n buf)
  then have "duplex_ok d" by (simp add: duplex_sure_def)
  from dx_read_law[OF this 1(2,3)] show ?case using 1(1) by (metis duplex_ok_kernel(2))
next
  case (2 d n buf err b d')
  then have "duplex_ok d" by (simp add: duplex_sure_def)
  from dx_read_law[OF this 2(2,3)] show ?case using 2(4) by (metis option.inject prod.inject)
next
  case (3 d n buf e b d')
  then have "duplex_ok d" by (simp add: duplex_sure_def)
  from dx_read_law[OF this 3(2,3)] show ?case using 3(4) by (metis option.inject prod.inject)
next
  case (4 d n buf)
  then have "duplex_ok d" by (simp add: duplex_sure_def)
  from dx_poll_law[OF this 4(2,3)] show ?case using 4(1) by (metis duplex_ok_kernel(2))
next
  case (5 d bs)
  then have "duplex_ok d" by (simp add: duplex_sure_def)
  from dx_write_law[OF this 5(2)] show ?case using 5(1) by (metis duplex_ok_kernel(2))
next
  case (6 d bs err d')
  then show ?case using dx_write_no_error by blast
qed

section \<open>What the handlers do\<close>

text \<open>C28: \<open>on_read\<close> of the server, for any stream and any sizes the polls get: it returns, runs the
  transfer test only after the four bytes of the command, and otherwise answers with exactly one
  write of \<open>GOT IT\<close>, made on the untouched outgoing stream; the whole answer is on the wire exactly
  when that write reports success, and a proper prefix of it when it fails. It consumes a message
  of at most 1024 bytes in order, prints its first 32, and then takes one byte more of the
  stream, which is the first byte of the next message, waiting for it if need be.\<close>

theorem on_read_consumes:
  assumes "duplex_ok d" "length rx = buffer_size" "length junk = buffer_size" "length tx = buffer_size"
  shows "\<exists>h d'. server_on_read dx_ops clock rx junk tx 0 d = Some (h, d') \<and> duplex_ok d' \<and>
    (case h of
       HTst1 r \<Rightarrow> take 4 (dx_pending d) = tst1_command
     | HAnswered printed b \<Rightarrow>
         (\<exists>d3 err m. duplex_ok d3 \<and> dx_sent d3 = dx_sent d \<and>
            co_write dx_ops (bytes_of ''GOT IT'') d3 = Some (err, d') \<and> m \<le> 6 \<and>
            dx_sent d' = dx_sent d @ take m (bytes_of ''GOT IT'') \<and> (err = 0 \<longleftrightarrow> m = 6)) \<and>
         (\<exists>msg eaten. dx_pending d = msg @ eaten @ dx_pending d' \<and> length msg \<le> buffer_size \<and>
            printed = take 32 msg \<and> eaten = take 1 (eaten @ dx_pending d') \<and> (eaten = [] \<or> b = hd eaten))
     | _ \<Rightarrow> False)"
  using dx.on_read_in_order[OF assms, of clock] unfolding dx.answered_def imp_conv_disj not_not .

text \<open>The command that arrives in pieces is taken for a message.\<close>

lemma on_read_split_command:
  assumes "co_poll ops rx 4 s = Some (0, len, rx1, s1)" "len < 4"
    and "server_on_read ops clock rx junk tx ec s = Some (HTst1 r, s')"
  shows False
  using assms by (auto simp: server_on_read_def Let_def split: if_splits option.splits prod.splits sum.splits)

lemma client_packets_nonempty: "i \<le> tot \<Longrightarrow> [] \<notin> set (client_packets rnd n i tot)"
proof (induction "nat (tot - i)" arbitrary: i n rule: less_induct)
  case less
  show ?case
  proof (cases "i < tot")
    case True
    define p where "p = tst1_fill (Suc (rnd n mod buffer_size)) i tot"
    have "length p = min (Suc (rnd n mod buffer_size)) (nat (tot - i))" by (simp add: p_def tst1_fill_def)
    then have p: "0 < length p" "i + int (length p) \<le> tot" using True by simp_all
    then have "[] \<notin> set (client_packets rnd (Suc n) (i + int (length p)) tot)"
      by (intro less.hyps) (use True in auto)
    then show ?thesis using True p(1)
      by (subst client_packets.simps) (auto simp: p_def[symmetric] Let_def)
  qed (subst client_packets.simps, simp)
qed

text \<open>C4: a session of the command \<open>tst1\<close> when none of the client's writes fails and the first poll
  of the server gets the four bytes of the command. Whatever the client sends for the input, in
  packets of any random lengths, is taken apart by the server's \<open>on_read\<close>, however the sockets cut
  it, and for any clock: either its transfer test accepts it, and what was sent later stays
  unread, or a progress line meets a time for which the printed rate is undefined in C, which is
  no millisecond at all or 2048 of them or more. In particular the test accepts when every
  measured time is between 1 and 2047 milliseconds.\<close>

theorem tst1_session:
  assumes "duplex_sure c" "do_writes dx_ops (client_writes rnd n ''tst1'') c = Some c'" "dx_sent c' = dx_sent c @ bytes"
    and "duplex_ok d" "dx_pending d = bytes @ rest" "co_poll dx_ops rx 4 d = Some (0, 4, rx1, d1)"
    and "length rx = buffer_size" "length junk = buffer_size"
  shows "\<exists>r d'. server_on_read dx_ops clock rx junk tx 0 d = Some (HTst1 r, d') \<and>
    (r = Tst1Done \<and> dx_pending d' = rest \<or>
     r = Tst1Undefined \<and> (\<exists>k. clock k = 0 \<or> 2048 \<le> clock k))"
proof -
  define tot where "tot = nat client_total"
  have tot: "int tot = client_total" "int tot < 2 ^ 31" by (simp_all add: tot_def client_total_def)
  have w: "(word_of_nat tot :: cint) = word_of_int client_total" using tot(1) by (metis of_int_of_nat_eq)
  have "[] \<notin> set (client_writes rnd n ''tst1'')"
    using client_packets_nonempty[of 0 client_total rnd n]
    by (auto simp: client_writes_def bytes_of_def le_bytes_def client_total_def)
  from dx_sure.do_writes_all[OF assms(1) this] obtain s' where
    "do_writes dx_ops (client_writes rnd n ''tst1'') c = Some s'"
    "dx_sent s' = dx_sent c @ concat (client_writes rnd n ''tst1'')" by blast
  with assms(2,3) have "bytes = concat (client_writes rnd n ''tst1'')"
    by (metis option.inject same_append_eq)
  also have "\<dots> = tst1_command @ le_bytes (word_of_nat tot) @ expected 0 tot"
    using client_packets_concat[of 0 tot rnd n] w tot(1) by (simp add: client_writes_def tst1_command_def)
  finally have p: "dx_pending d = tst1_command @ le_bytes (word_of_nat tot) @ expected 0 tot @ rest"
    using assms(5) by simp
  from dx.on_read_tst1[OF assms(4,7,8) p tot(2) assms(6), of clock] show ?thesis
    unfolding dx.accepted_def using rate_undefinedD by fastforce
qed

section \<open>The input of the client\<close>

lemma getline_bad [simp]: "\<not> is_good i \<Longrightarrow> client_inputs k i = replicate k []"
  by (induction k) (simp_all add: cin_getline_def c_str_def)

lemma takeWhile_line: "NL \<notin> set l \<Longrightarrow> takeWhile (\<lambda>c. c \<noteq> NL) (l @ NL # r) = l"
  by (simp add: takeWhile_append)

lemma c_str_id: "NUL \<notin> set l \<Longrightarrow> c_str l = l"
  by (auto simp: c_str_def takeWhile_eq_all_conv)

lemma getline_line:
  "NL \<notin> set l \<Longrightarrow> length l < n \<Longrightarrow> cin_getline n \<lparr>is_text = l @ NL # r, is_good = True\<rparr> = (l, \<lparr>is_text = r, is_good = True\<rparr>)"
  by (auto simp: cin_getline_def takeWhile_line Let_def)

text \<open>The client takes its input line by line as long as every line has less than 1024 characters.
  But it never looks at the state of \<open>std::cin\<close>: after the end of the input, and after one line that
  is longer, every further round of its endless loop gets the empty string, for which \<open>write\<close> does
  nothing, and the rest of the input is never read.\<close>

theorem client_input_lines:
  assumes "\<forall>l\<in>set ls. NL \<notin> set l \<and> NUL \<notin> set l \<and> length l < buffer_size"
    and "NL \<notin> set long" "NUL \<notin> set long" "buffer_size \<le> length long"
  shows "client_inputs (length ls + k) \<lparr>is_text = concat (map (\<lambda>l. l @ [NL]) ls), is_good = True\<rparr> = ls @ replicate k [] \<and>
    client_inputs (length ls + Suc k) \<lparr>is_text = concat (map (\<lambda>l. l @ [NL]) ls) @ long @ NL # more_text, is_good = True\<rparr> =
      ls @ take (buffer_size - 1) long # replicate k []"
  using assms(1)
proof (induction ls)
  case Nil
  have "0 < buffer_size" "buffer_size - Suc 0 < length long" using assms(4) by (simp_all add: buffer_size_def)
  moreover have "NUL \<notin> set (take (buffer_size - 1) long)" using assms(3) by (meson in_set_takeD)
  ultimately have "client_inputs (Suc k) \<lparr>is_text = long @ NL # more_text, is_good = True\<rparr> =
      take (buffer_size - 1) long # replicate k []"
    using assms(2,4) by (simp add: cin_getline_def takeWhile_line c_str_id Let_def)
  moreover have "client_inputs k \<lparr>is_text = [], is_good = True\<rparr> = replicate k []"
    by (cases k) (simp_all add: cin_getline_def c_str_def)
  ultimately show ?case by simp
next
  case (Cons l ls)
  then have "NL \<notin> set l" "length l < buffer_size" "c_str l = l" by (simp_all add: c_str_id)
  then show ?case using Cons by (simp add: getline_line)
qed

text \<open>The calls of \<open>write\<close> for the empty string.\<close>

lemma empty_write_refused: "channel_write [] ch = Some (- 1, ch)"
  by (simp add: channel_write_def uds_write_def)

section \<open>The properties at concrete inputs\<close>

text \<open>A socket whose state is what is still to be read and what was written; a call moves all it can.\<close>

definition demo_duplex_os :: "(byte list \<times> byte list) os_io" where
  "demo_duplex_os = \<lparr>os_getfl = (\<lambda>fd k. (2, k)), os_setfl = (\<lambda>fd f k. (0, k)),
     os_read = (\<lambda>fd n k. (RdBytes (take n (fst k)), (drop n (fst k), snd k))),
     os_write = (\<lambda>fd bs k. (WrCount (length bs), (fst k, snd k @ bs)))\<rparr>"

definition demo_duplex :: "byte list \<Rightarrow> (byte list \<times> byte list) duplex" where
  "demo_duplex bs = \<lparr>dx_chan = \<lparr>ch_os = demo_duplex_os, ch_fd = 5, ch_kernel = (bs, []), ch_pending = fst, ch_stalls = (\<lambda>_. 0)\<rparr>,
     dx_out = snd, dx_stalls = (\<lambda>_. 0)\<rparr>"

lemma demo_duplex_sure: "duplex_sure (demo_duplex bs)" "duplex_ok (demo_duplex bs)"
  by (auto simp: duplex_sure_def duplex_ok_def channel_reliable_def channel_ok_def demo_duplex_def
      demo_duplex_os_def byte_source_def byte_sink_def keeps_flags_def directions_apart_def
      write_never_fails_def never_fails_def)

lemma demo_duplex_pending [simp]: "dx_pending (demo_duplex bs) = bs"
  by (simp add: dx_pending_def channel_pending_def demo_duplex_def)

lemma demo_duplex_poll:
  assumes "length bs = 4" "4 \<le> length rx"
  shows "\<exists>d. co_poll dx_ops rx 4 (demo_duplex (bs @ r)) = Some (0, 4, bs @ drop 4 rx, d)"
  using assms
  by (auto simp: channel_poll_def uds_read_def demo_duplex_def demo_duplex_os_def set_block_mode_def
      read_loop.simps store_def Let_def)

theorem on_read_consumes_witness:
  "\<exists>h d'. server_on_read dx_ops (\<lambda>_. 5) (replicate 1024 0) (replicate 1024 7) (replicate 1024 NUL) 0 (demo_duplex [104, 105]) = Some (h, d') \<and>
    duplex_ok d'"
  using on_read_consumes[OF demo_duplex_sure(2), of "replicate 1024 0" "replicate 1024 7" "replicate 1024 NUL" "\<lambda>_. 5" "[104, 105]"]
  unfolding buffer_size_def length_replicate by blast

theorem tst1_session_witness:
  "\<exists>c' d d'. do_writes dx_ops (client_writes (\<lambda>n. 3 * n) 0 ''tst1'') (demo_duplex []) = Some c' \<and>
    server_on_read dx_ops (\<lambda>_. 5) (replicate 1024 0) (replicate 1024 7) [] 0 (d :: (byte list \<times> byte list) duplex) =
      Some (HTst1 Tst1Done, d') \<and> dx_pending d' = [42]"
proof -
  let ?ws = "client_writes (\<lambda>n. 3 * n) 0 ''tst1''"
  have "[] \<notin> set ?ws"
    using client_packets_nonempty[of 0 client_total "\<lambda>n. 3 * n" 0]
    by (auto simp: client_writes_def bytes_of_def le_bytes_def client_total_def)
  from dx_sure.do_writes_all[OF demo_duplex_sure(1) this] obtain c' where
    c: "do_writes dx_ops ?ws (demo_duplex []) = Some c'" "dx_sent c' = dx_sent (demo_duplex []) @ concat ?ws"
    by blast
  define r where "r = concat (tl ?ws) @ [42]"
  have b: "concat ?ws @ [42] = bytes_of ''tst1'' @ r" by (simp add: client_writes_def r_def)
  have "length (bytes_of ''tst1'') = 4" "4 \<le> length (replicate 1024 (0 :: byte))" by (simp_all add: bytes_of_def)
  from demo_duplex_poll[OF this] obtain rx1 d1 where
    "co_poll dx_ops (replicate 1024 0) 4 (demo_duplex (concat ?ws @ [42])) = Some (0, 4, rx1, d1)"
    unfolding b by blast
  from tst1_session[OF demo_duplex_sure(1) c demo_duplex_sure(2) demo_duplex_pending this, of "replicate 1024 7" "\<lambda>_. 5" "[]"]
  obtain d' where "server_on_read dx_ops (\<lambda>_. 5) (replicate 1024 0) (replicate 1024 7) [] 0 (demo_duplex (concat ?ws @ [42])) =
      Some (HTst1 Tst1Done, d')" "dx_pending d' = [42]"
    unfolding buffer_size_def length_replicate by auto
  then show ?thesis using c(1) by blast
qed

theorem client_input_lines_witness:
  "client_inputs 4 \<lparr>is_text = ''ab'' @ [NL] @ ''tst1'' @ [NL], is_good = True\<rparr> = [''ab'', ''tst1'', [], []]"
  using client_input_lines[of "[''ab'', ''tst1'']" "replicate 1024 CHR ''x''" 2 "[]"]
  by (simp add: buffer_size_def numeral_eq_Suc)

end
