(* ===== verification/PipeIO.thy ===== *)
theory PipeIO
  imports IpcApp
begin

text \<open>
  \<open>tipc.cpp\<close>, the part for Windows: the blocking \<open>read\<close> and \<open>write\<close> of a connection over a
  named pipe (\<open>ipc_connection_win_namedpipe\<close>). The object keeps at most one byte that an
  asynchronous read has already taken from the pipe; \<open>read\<close> hands it out first. The functions
  of the Windows API are parameters, the fields of \<open>win_io\<close>; what is documented of them is
  the hypothesis \<open>pipe_source\<close> or \<open>pipe_sink\<close>.
\<close>

section \<open>The object\<close>

text \<open>
  A \<open>HANDLE\<close> has 32 significant bits. \<open>m_waitconn_overlapped\<close> is the one \<open>OVERLAPPED\<close> that the
  constructors leave as the memory was; of it the service looks at \<open>hEvent\<close>.
\<close>

record np_conn =
  m_oshd :: handle
  m_cache_byte0 :: byte
  m_cache_empty :: bool
  m_error_Offset :: int
  m_waitconn_hEvent :: "64 word"
  m_name :: string
  np_on_read :: bool      \<comment> \<open>whether a handler is registered\<close>
  np_on_accept :: bool
  np_on_close :: bool

section \<open>The Windows API\<close>

text \<open>
  An overlapped call completes on the spot, is pending, or fails with the value of
  \<open>GetLastError\<close>; \<open>GetOverlappedResult\<close> waits for a pending one.
\<close>

datatype 'a io_start = IoDone 'a | IoPending | IoRefused int

record 'k win_io =
  ReadFile :: "handle \<Rightarrow> nat \<Rightarrow> 'k \<Rightarrow> byte list io_start \<times> 'k"
  ReadResult :: "handle \<Rightarrow> 'k \<Rightarrow> (int + byte list) \<times> 'k"
  WriteFile :: "handle \<Rightarrow> byte list \<Rightarrow> 'k \<Rightarrow> nat io_start \<times> 'k"
  WriteResult :: "handle \<Rightarrow> 'k \<Rightarrow> (int + nat) \<times> 'k"
  PeekNamedPipe :: "handle \<Rightarrow> 'k \<Rightarrow> 32 word option \<times> 'k"

text \<open>One round of the call, the test for \<open>ERROR_IO_PENDING\<close> and the wait.\<close>

definition overlapped_call ::
  "('k \<Rightarrow> 'a io_start \<times> 'k) \<Rightarrow> ('k \<Rightarrow> (int + 'a) \<times> 'k) \<Rightarrow> 'k \<Rightarrow> (int + 'a) \<times> 'k" where
  "overlapped_call start wait k =
     (case start k of
        (IoDone x, k1) \<Rightarrow> (Inr x, k1)
      | (IoPending, k1) \<Rightarrow> wait k1
      | (IoRefused e, k1) \<Rightarrow> (Inl e, k1))"

section \<open>\<open>read\<close>\<close>

text \<open>
  The loop: \<open>lp\<close> is \<open>*lp_cnt\<close>, None when no pointer was given. The result is the error, the count,
  \<open>*lp_cnt\<close>, the buffer and the system's state.
\<close>

partial_function (option) np_read_loop ::
  "(nat \<Rightarrow> 'k \<Rightarrow> (int + byte list) \<times> 'k) \<Rightarrow> int \<Rightarrow> int \<Rightarrow> byte list \<Rightarrow> nat \<Rightarrow> int option \<Rightarrow> 'k \<Rightarrow>
   (int \<times> nat \<times> int option \<times> byte list \<times> 'k) option" where
  "np_read_loop rd bytes_avail size0 buf cnt lp k =
     (if int cnt < size0 then
        let left = size0 - int cnt;
            io_cnt = (if bytes_avail > 0 then min bytes_avail left else left)
        in (case rd (nat io_cnt) k of
              (Inr bs, k1) \<Rightarrow>
                if lp \<noteq> None \<and> cnt + length bs > 0
                then Some (0, cnt + length bs, Some (int (cnt + length bs)), store buf cnt bs, k1)
                else np_read_loop rd bytes_avail size0 (store buf cnt bs) (cnt + length bs) lp k1
            | (Inl e, k1) \<Rightarrow>
                if lp \<noteq> None \<and> cnt > 0 then Some (e, cnt, Some (int cnt), buf, k1)
                else if e = 0 then np_read_loop rd bytes_avail size0 buf cnt lp k1
                else Some (e, cnt, lp, buf, k1))
      else Some (0, cnt, lp, buf, k))"

text \<open>\<open>nr_outside\<close>: the cached byte was stored past the end of the caller's \<open>len\<close> bytes.\<close>

record 'k np_report =
  nr_ret :: int
  nr_cnt :: "int option"
  nr_buf :: "byte list"
  nr_conn :: np_conn
  nr_os :: 'k
  nr_outside :: bool

definition np_rd :: "('k, 'm) win_io_scheme \<Rightarrow> handle \<Rightarrow> nat \<Rightarrow> 'k \<Rightarrow> (int + byte list) \<times> 'k" where
  "np_rd os h n = overlapped_call (ReadFile os h n) (ReadResult os h)"

definition np_read ::
  "('k, 'm) win_io_scheme \<Rightarrow> np_conn \<Rightarrow> byte list \<Rightarrow> int \<Rightarrow> bool \<Rightarrow> 'k \<Rightarrow> 'k np_report option" where
  "np_read os c pbuff len want_cnt k =
     (let cached = \<not> m_cache_empty c;
          buf = (if cached then pbuff[0 := m_cache_byte0 c] else pbuff);
          cnt = (if cached then 1 else 0);
          c1 = c\<lparr>m_cache_empty := True\<rparr>;
          outside = (cached \<and> len \<le> 0);
          (peek, k1) = (if want_cnt then PeekNamedPipe os (m_oshd c) k else (None, k));
          bytes_avail = (case peek of None \<Rightarrow> -1 | Some n \<Rightarrow> sint n);
          lp = (if want_cnt then Some (int cnt) else None)
      in if want_cnt \<and> bytes_avail = 0
         then Some \<lparr>nr_ret = 0, nr_cnt = lp, nr_buf = buf, nr_conn = c1, nr_os = k1, nr_outside = outside\<rparr>
         else case np_read_loop (np_rd os (m_oshd c)) bytes_avail len buf cnt lp k1 of
                None \<Rightarrow> None
              | Some (err, n, lp', buf', k2) \<Rightarrow>
                  Some \<lparr>nr_ret = err, nr_cnt = lp', nr_buf = buf', nr_conn = c1, nr_os = k2,
                        nr_outside = outside\<rparr>)"

section \<open>\<open>write\<close>\<close>

partial_function (option) np_write_loop ::
  "(byte list \<Rightarrow> 'k \<Rightarrow> (int + nat) \<times> 'k) \<Rightarrow> int \<Rightarrow> byte list \<Rightarrow> nat \<Rightarrow> 'k \<Rightarrow> (int \<times> nat \<times> 'k) option" where
  "np_write_loop wr size0 buf cnt k =
     (if int cnt < size0 then
        (case wr (take (nat (size0 - int cnt)) (drop cnt buf)) k of
           (Inr m, k1) \<Rightarrow> np_write_loop wr size0 buf (cnt + m) k1
         | (Inl e, k1) \<Rightarrow>
             if e = 0 then np_write_loop wr size0 buf cnt k1 else Some (e, cnt, k1))
      else Some (0, cnt, k))"

definition np_wr :: "('k, 'm) win_io_scheme \<Rightarrow> handle \<Rightarrow> byte list \<Rightarrow> 'k \<Rightarrow> (int + nat) \<times> 'k" where
  "np_wr os h bs = overlapped_call (WriteFile os h bs) (WriteResult os h)"

definition np_write ::
  "('k, 'm) win_io_scheme \<Rightarrow> np_conn \<Rightarrow> byte list \<Rightarrow> int \<Rightarrow> 'k \<Rightarrow> (int \<times> 'k) option" where
  "np_write os c pbuff len k =
     (case np_write_loop (np_wr os (m_oshd c)) len pbuff 0 k of
        None \<Rightarrow> None
      | Some (err, cnt, k1) \<Rightarrow> Some (err, k1))"

section \<open>What Windows promises of the calls\<close>

text \<open>
  A byte-mode pipe: a read takes at most as many bytes as asked from the front of what the
  peer sends, and an empty one takes a write of no bytes off the pipe (\<open>blanks\<close> counts these);
  an error has a nonzero code and takes nothing. A write sends a prefix.
\<close>

definition pipe_source ::
  "(nat \<Rightarrow> 'k \<Rightarrow> (int + byte list) \<times> 'k) \<Rightarrow> ('k \<Rightarrow> byte list) \<Rightarrow> ('k \<Rightarrow> nat) \<Rightarrow> bool" where
  "pipe_source rd pending blanks \<longleftrightarrow>
     (\<forall>n k bs k'. 0 < n \<longrightarrow> rd n k = (Inr bs, k') \<longrightarrow>
        length bs \<le> n \<and> pending k = bs @ pending k' \<and> (bs = [] \<longrightarrow> blanks k' < blanks k)) \<and>
     (\<forall>n k e k'. 0 < n \<longrightarrow> rd n k = (Inl e, k') \<longrightarrow> e \<noteq> 0 \<and> pending k' = pending k)"

definition pipe_sink ::
  "(byte list \<Rightarrow> 'k \<Rightarrow> (int + nat) \<times> 'k) \<Rightarrow> ('k \<Rightarrow> byte list) \<Rightarrow> bool" where
  "pipe_sink wr sent \<longleftrightarrow>
     (\<forall>bs k m k'. bs \<noteq> [] \<longrightarrow> wr bs k = (Inr m, k') \<longrightarrow>
        0 < m \<and> m \<le> length bs \<and> sent k' = sent k @ take m bs) \<and>
     (\<forall>bs k e k'. wr bs k = (Inl e, k') \<longrightarrow> e \<noteq> 0 \<and> sent k' = sent k)"

definition peek_only :: "('k, 'm) win_io_scheme \<Rightarrow> ('k \<Rightarrow> byte list) \<Rightarrow> bool" where
  "peek_only os pending \<longleftrightarrow> (\<forall>h k. pending (snd (PeekNamedPipe os h k)) = pending k)"

lemma pipe_source_bytes:
  assumes "pipe_source rd pending blanks" "0 < n" "rd n k = (Inr bs, k')"
  shows "length bs \<le> n" "pending k = bs @ pending k'" "bs = [] \<Longrightarrow> blanks k' < blanks k"
  using assms unfolding pipe_source_def by metis+

lemma pipe_source_err:
  assumes "pipe_source rd pending blanks" "0 < n" "rd n k = (Inl e, k')"
  shows "e \<noteq> 0" "pending k' = pending k"
  using assms unfolding pipe_source_def by metis+

section \<open>The loops under these promises\<close>

text \<open>What the stream a connection still has to hand out is: the cached byte first.\<close>

definition np_cached :: "np_conn \<Rightarrow> byte list" where
  "np_cached c = (if m_cache_empty c then [] else [m_cache_byte0 c])"

lemma np_read_loop_source:
  assumes src: "pipe_source rd pending blanks" and pos: "0 < size0"
  shows "int cnt \<le> size0 \<Longrightarrow> nat size0 \<le> length buf \<Longrightarrow> lp = None \<or> lp = Some (int cnt) \<Longrightarrow>
    \<exists>err got k'. np_read_loop rd avail size0 buf cnt lp k =
        Some (err, cnt + length got, map_option (\<lambda>_. int (cnt + length got)) lp, store buf cnt got, k') \<and>
      pending k = got @ pending k' \<and> int (cnt + length got) \<le> size0 \<and>
      (err = 0 \<longrightarrow> (if lp = None then int (cnt + length got) = size0 else 0 < cnt + length got))"
proof (induction "(nat size0 - cnt, blanks k)" arbitrary: cnt k buf lp rule: transfer_induct)
  case less: (1 cnt k buf lp)
  show ?case
  proof (cases "int cnt < size0")
    case False
    then have full: "int cnt = size0" using less.prems(1) by simp
    have "np_read_loop rd avail size0 buf cnt lp k = Some (0, cnt, lp, buf, k)"
      using False by (subst np_read_loop.simps) simp
    moreover have "map_option (\<lambda>_. int (cnt + length [])) lp = lp" using less.prems(3) by auto
    ultimately show ?thesis using full pos less.prems(3) by (intro exI[of _ 0] exI[of _ "[]"]) auto
  next
    case True
    define n where "n = nat (if avail > 0 then min avail (size0 - int cnt) else size0 - int cnt)"
    have n: "0 < n" "int cnt + int n \<le> size0" using True by (auto simp: n_def)
    obtain r k1 where rd: "rd n k = (r, k1)" by (cases "rd n k")
    show ?thesis
    proof (cases r)
      case (Inl e)
      note e = pipe_source_err[OF src n(1) rd[unfolded Inl]]
      have "np_read_loop rd avail size0 buf cnt lp k =
          Some (e, cnt, map_option (\<lambda>_. int cnt) lp, buf, k1)"
        using True rd Inl e(1) less.prems(3)
        by (subst np_read_loop.simps) (auto simp: Let_def n_def[symmetric])
      then show ?thesis using e n less.prems(3) by (intro exI[of _ e] exI[of _ "[]"]) auto
    next
      case (Inr bs)
      note b = pipe_source_bytes[OF src n(1) rd[unfolded Inr]]
      have le: "int (cnt + length bs) \<le> size0" using b(1) n(2) by linarith
      have unf: "np_read_loop rd avail size0 buf cnt lp k =
          (if lp \<noteq> None \<and> cnt + length bs > 0
           then Some (0, cnt + length bs, Some (int (cnt + length bs)), store buf cnt bs, k1)
           else np_read_loop rd avail size0 (store buf cnt bs) (cnt + length bs) lp k1)"
        using True rd Inr by (subst np_read_loop.simps) (simp add: Let_def n_def[symmetric])
      show ?thesis
      proof (cases "lp \<noteq> None \<and> cnt + length bs > 0")
        case True
        then show ?thesis using unf b le by (intro exI[of _ 0] exI[of _ bs]) auto
      next
        case again: False
        have dec: "(((nat size0 - (cnt + length bs)), blanks k1), nat size0 - cnt, blanks k)
            \<in> less_than <*lex*> less_than"
        proof (cases "bs = []")
          case False
          then have "0 < length bs" by simp
          then have "nat size0 - (cnt + length bs) < nat size0 - cnt" using le True by linarith
          then show ?thesis by simp
        qed (use b(3) in simp)
        have lb: "cnt + length bs \<le> length buf" using le less.prems(2) by simp
        have lp: "lp = None \<or> lp = Some (int (cnt + length bs))" using again less.prems(3) by auto
        obtain err got k' where ih:
          "np_read_loop rd avail size0 (store buf cnt bs) (cnt + length bs) lp k1 =
             Some (err, cnt + length bs + length got, map_option (\<lambda>_. int (cnt + length bs + length got)) lp,
                   store (store buf cnt bs) (cnt + length bs) got, k')"
          "pending k1 = got @ pending k'" "int (cnt + length bs + length got) \<le> size0"
          "err = 0 \<longrightarrow> (if lp = None then int (cnt + length bs + length got) = size0
                       else 0 < cnt + length bs + length got)"
          using less.hyps[OF dec, of "store buf cnt bs" lp] le lp less.prems(2) lb by auto
        have st: "store (store buf cnt bs) (cnt + length bs) got = store buf cnt (bs @ got)"
          using lb by (intro store_store) simp
        have lg: "cnt + length (bs @ got) = cnt + length bs + length got" by simp
        show ?thesis
          using unf again ih b(2) unfolding st lg[symmetric]
          by (intro exI[of _ err] exI[of _ "bs @ got"] exI[of _ k']) (simp only: if_False append_assoc simp_thms)
      qed
    qed
  qed
qed

lemma np_read_stream:
  assumes src: "pipe_source (np_rd os (m_oshd c)) pending blanks" and peek: "peek_only os pending"
    and len: "0 < len" "nat len \<le> length pbuff"
  shows "\<exists>r got. np_read os c pbuff len want_cnt k = Some r \<and>
    nr_buf r = got @ drop (length got) pbuff \<and> int (length got) \<le> len \<and>
    np_cached c @ pending k = got @ pending (nr_os r) \<and>
    m_cache_empty (nr_conn r) \<and> \<not> nr_outside r \<and>
    nr_cnt r = (if want_cnt then Some (int (length got)) else None) \<and>
    (nr_ret r = 0 \<longrightarrow> (if \<not> want_cnt then int (length got) = len
        else got \<noteq> [] \<or> fst (PeekNamedPipe os (m_oshd c) k) = Some 0))"
proof -
  define cnt where "cnt = length (np_cached c)"
  define buf where "buf = store pbuff 0 (np_cached c)"
  define lp where "lp = (if want_cnt then Some (int cnt) else None)"
  obtain pk k1 where pk: "(if want_cnt then PeekNamedPipe os (m_oshd c) k else (None, k)) = (pk, k1)"
    by fastforce
  define avail where "avail = (case pk of None \<Rightarrow> -1 | Some n \<Rightarrow> sint n)"
  have pend: "pending k1 = pending k"
    using pk peek unfolding peek_only_def by (metis prod.inject snd_conv)
  have cached: "(if \<not> m_cache_empty c then pbuff[0 := m_cache_byte0 c] else pbuff) = buf"
    "(if \<not> m_cache_empty c then 1 else 0) = cnt" "cnt \<le> 1" "cnt \<le> length pbuff"
    using len by (cases pbuff; simp add: buf_def cnt_def np_cached_def store_def)+
  have take: "buf = np_cached c @ drop cnt pbuff"
    by (simp add: buf_def cnt_def store_def)
  have out: "(\<not> m_cache_empty c \<and> len \<le> 0) = False" using len by simp
  have unf: "np_read os c pbuff len want_cnt k =
      (if want_cnt \<and> avail = 0
       then Some \<lparr>nr_ret = 0, nr_cnt = lp, nr_buf = buf, nr_conn = c\<lparr>m_cache_empty := True\<rparr>,
                  nr_os = k1, nr_outside = False\<rparr>
       else case np_read_loop (np_rd os (m_oshd c)) avail len buf cnt lp k1 of
              None \<Rightarrow> None
            | Some (err, n, lp', buf', k2) \<Rightarrow>
                Some \<lparr>nr_ret = err, nr_cnt = lp', nr_buf = buf', nr_conn = c\<lparr>m_cache_empty := True\<rparr>,
                      nr_os = k2, nr_outside = False\<rparr>)"
    unfolding np_read_def Let_def pk cached(1,2) lp_def avail_def out by simp
  show ?thesis
  proof (cases "want_cnt \<and> avail = 0")
    case True
    then have "fst (PeekNamedPipe os (m_oshd c) k) = Some 0"
      using pk unfolding avail_def by (cases pk) (auto simp: signed_eq_0_iff)
    then show ?thesis
      using True unf pend take cached(3) len cnt_def lp_def
      by (intro exI[of _ "\<lparr>nr_ret = 0, nr_cnt = lp, nr_buf = buf, nr_conn = c\<lparr>m_cache_empty := True\<rparr>,
          nr_os = k1, nr_outside = False\<rparr>"] exI[of _ "np_cached c"]) simp
  next
    case False
    have pre: "int cnt \<le> len" "nat len \<le> length buf" "lp = None \<or> lp = Some (int cnt)"
      using len cached(3,4) by (auto simp: lp_def take cnt_def)
    obtain err got k2 where l:
      "np_read_loop (np_rd os (m_oshd c)) avail len buf cnt lp k1 =
         Some (err, cnt + length got, map_option (\<lambda>_. int (cnt + length got)) lp, store buf cnt got, k2)"
      "pending k1 = got @ pending k2" "int (cnt + length got) \<le> len"
      "err = 0 \<longrightarrow> (if lp = None then int (cnt + length got) = len else 0 < cnt + length got)"
      using np_read_loop_source[OF src len(1) pre, of avail k1] by blast
    have bufeq: "store buf cnt got = (np_cached c @ got) @ drop (length (np_cached c @ got)) pbuff"
      unfolding take by (simp add: store_def cnt_def add.commute)
    define r where "r = \<lparr>nr_ret = err, nr_cnt = map_option (\<lambda>_. int (cnt + length got)) lp,
        nr_buf = store buf cnt got, nr_conn = c\<lparr>m_cache_empty := True\<rparr>, nr_os = k2, nr_outside = False\<rparr>"
    have "np_read os c pbuff len want_cnt k = Some r"
      using unf False l(1) by (simp add: r_def)
    then show ?thesis
      using l(2-4) pend by (intro exI[of _ r] exI[of _ "np_cached c @ got"])
        (auto simp: r_def bufeq[unfolded cnt_def] lp_def cnt_def)
  qed
qed

text \<open>C13: whatever the sizes the system transfers in, a successful or failing \<open>read\<close> of a named pipe
  hands out the bytes of the peer in order, starting with the byte an earlier asynchronous read
  cached: the bytes it stored and those still to come are the stream. It stays inside the buffer,
  leaves the cache empty, and with result 0 it has filled the buffer, or, when a count was asked
  for, it reports exactly what it stored, and that is at least one byte unless the pipe was seen
  empty.\<close>

theorem np_read_in_order:
  assumes src: "pipe_source (np_rd os (m_oshd c)) pending blanks" and peek: "peek_only os pending"
    and len: "0 < len" "nat len \<le> length pbuff"
  shows "\<exists>r got. np_read os c pbuff len want_cnt k = Some r \<and>
    nr_buf r = got @ drop (length got) pbuff \<and> int (length got) \<le> len \<and>
    np_cached c @ pending k = got @ pending (nr_os r) \<and>
    m_cache_empty (nr_conn r) \<and> \<not> nr_outside r \<and>
    nr_cnt r = (if want_cnt then Some (int (length got)) else None) \<and>
    (nr_ret r = 0 \<longrightarrow> (if \<not> want_cnt then int (length got) = len
        else got \<noteq> [] \<or> fst (PeekNamedPipe os (m_oshd c) k) = Some 0))"
  by (rule np_read_stream[OF assms])

text \<open>A pipe whose state is what is still to be read and what has been written.\<close>

definition demo_pipe :: "(byte list \<times> byte list) win_io" where
  "demo_pipe = \<lparr>ReadFile = (\<lambda>h n k. if fst k = [] then (IoPending, k) else (IoDone (take n (fst k)), (drop n (fst k), snd k))),
     ReadResult = (\<lambda>h k. (Inl 109, k)),
     WriteFile = (\<lambda>h bs k. (IoDone (length bs), (fst k, snd k @ bs))),
     WriteResult = (\<lambda>h k. (Inl 109, k)),
     PeekNamedPipe = (\<lambda>h k. (Some (word_of_nat (length (fst k))), k))\<rparr>"

definition demo_np :: np_conn where
  "demo_np = \<lparr>m_oshd = 7, m_cache_byte0 = 65, m_cache_empty = False, m_error_Offset = 0,
     m_waitconn_hEvent = 0, m_name = [], np_on_read = True, np_on_accept = False, np_on_close = True\<rparr>"

lemma demo_pipe_source: "pipe_source (np_rd demo_pipe h) fst (\<lambda>_. 0)"
  by (auto simp: pipe_source_def np_rd_def overlapped_call_def demo_pipe_def split: if_splits)

lemma demo_pipe_peek: "peek_only demo_pipe fst"
  by (simp add: peek_only_def demo_pipe_def)

lemma demo_pipe_sink: "pipe_sink (np_wr demo_pipe h) snd"
  by (auto simp: pipe_sink_def np_wr_def overlapped_call_def demo_pipe_def)

theorem np_read_in_order_witness:
  "\<exists>r got. np_read demo_pipe demo_np [0, 0, 0] 3 False ([66, 67, 68], []) = Some r \<and>
    nr_buf r = got @ drop (length got) [0, 0, 0] \<and> int (length got) \<le> 3 \<and>
    np_cached demo_np @ fst ([66, 67, 68], [] :: byte list) = got @ fst (nr_os r) \<and>
    m_cache_empty (nr_conn r) \<and> \<not> nr_outside r \<and> nr_cnt r = None"
  using np_read_in_order[OF demo_pipe_source demo_pipe_peek, of 3 "[0, 0, 0]" demo_np False "([66, 67, 68], [])"]
  by simp blast

text \<open>The store of the cached byte has no test of \<open>len\<close>: a read of no bytes writes one.\<close>

lemma np_read_zero_outside:
  assumes "\<not> m_cache_empty c"
  shows "map_option nr_outside (np_read os c [] 0 False k) = Some True"
  using assms by (simp add: np_read_def Let_def np_read_loop.simps)

section \<open>\<open>write\<close> sends everything or reports an error\<close>

lemma np_write_loop_sink:
  assumes sink: "pipe_sink wr sent"
  shows "int cnt \<le> size0 \<Longrightarrow> nat size0 \<le> length buf \<Longrightarrow>
    \<exists>err n k'. np_write_loop wr size0 buf cnt k = Some (err, cnt + n, k') \<and>
      sent k' = sent k @ take n (drop cnt buf) \<and> int (cnt + n) \<le> size0 \<and>
      (err = 0 \<longrightarrow> int (cnt + n) = size0)"
proof (induction "nat size0 - cnt" arbitrary: cnt k rule: less_induct)
  case less
  show ?case
  proof (cases "int cnt < size0")
    case False
    then show ?thesis using less.prems
      by (subst np_write_loop.simps) (auto intro!: exI[of _ 0])
  next
    case True
    define bs where "bs = take (nat (size0 - int cnt)) (drop cnt buf)"
    have bs: "bs \<noteq> []" "length bs = nat size0 - cnt" using True less.prems by (auto simp: bs_def)
    obtain r k1 where wr: "wr bs k = (r, k1)" by (cases "wr bs k")
    show ?thesis
    proof (cases r)
      case (Inl e)
      then have "e \<noteq> 0" "sent k1 = sent k" using sink wr unfolding pipe_sink_def by metis+
      moreover from this have "np_write_loop wr size0 buf cnt k = Some (e, cnt, k1)"
        using True wr Inl by (subst np_write_loop.simps) (simp add: bs_def[symmetric])
      ultimately show ?thesis using less.prems by (intro exI[of _ e] exI[of _ 0]) simp
    next
      case (Inr m)
      then have m: "0 < m" "m \<le> length bs" "sent k1 = sent k @ take m bs"
        using sink wr bs(1) unfolding pipe_sink_def by metis+
      have le: "int (cnt + m) \<le> size0" using m(2) bs(2) True by linarith
      have "nat size0 - (cnt + m) < nat size0 - cnt" using m(1) True by linarith
      then obtain err n k' where ih: "np_write_loop wr size0 buf (cnt + m) k1 = Some (err, cnt + m + n, k')"
        "sent k' = sent k1 @ take n (drop (cnt + m) buf)" "int (cnt + m + n) \<le> size0"
        "err = 0 \<longrightarrow> int (cnt + m + n) = size0"
        using less.hyps[of "cnt + m" k1] le less.prems(2) by blast
      have "np_write_loop wr size0 buf cnt k = np_write_loop wr size0 buf (cnt + m) k1"
        using True wr Inr by (subst np_write_loop.simps) (simp add: bs_def[symmetric])
      moreover have "take m bs = take m (drop cnt buf)" using m(2) bs(2) by (simp add: bs_def min_def)
      moreover have "take (m + n) (drop cnt buf) = take m (drop cnt buf) @ take n (drop (cnt + m) buf)"
        by (simp add: take_add add.commute)
      ultimately show ?thesis using ih m(3)
        by (intro exI[of _ err] exI[of _ "m + n"] exI[of _ k']) (simp add: add.assoc)
    qed
  qed
qed

text \<open>\<open>write\<close> over a named pipe always returns; what it sent is a prefix of the data, and all of it
  when the result is 0.\<close>

theorem np_write_all:
  assumes "pipe_sink (np_wr os (m_oshd c)) sent" and "0 \<le> len" "nat len \<le> length pbuff"
  shows "\<exists>err n k'. np_write os c pbuff len k = Some (err, k') \<and>
    sent k' = sent k @ take n pbuff \<and> int n \<le> len \<and> (err = 0 \<longrightarrow> int n = len)"
  using np_write_loop_sink[OF assms(1), of 0 len pbuff k] assms(2,3)
  by (fastforce simp: np_write_def)

theorem np_write_all_witness:
  "\<exists>err n k'. np_write demo_pipe demo_np [66, 67] 2 ([], [65]) = Some (err, k') \<and>
    snd k' = snd ([] :: byte list, [65]) @ take n [66, 67] \<and> int n \<le> 2"
  using np_write_all[OF demo_pipe_sink, of 2 "[66, 67]" demo_np "([], [65])"] by simp blast

section \<open>The transfer test over a pipe\<close>

text \<open>
  A pipe has no end of stream with result 0: a read that succeeds has filled its buffer. Over
  such a channel the server's verdict is exact.
\<close>

locale exact_channel = ipc_channel +
  assumes full: "ok s \<Longrightarrow> 0 < n \<Longrightarrow> n \<le> length buf \<Longrightarrow> rd buf n s = Some (0, b, s') \<Longrightarrow> n \<le> length (pending s)"
begin

lemma read_exact:
  assumes "ok s" "0 < n" "n \<le> length buf" "rd buf n s = Some (0, b, s')"
  shows "b = take n (pending s) @ drop n buf \<and> pending s = take n (pending s) @ pending s' \<and> ok s'"
proof -
  obtain err got s1 where r: "rd buf n s = Some (err, got @ drop (length got) buf, s1)" "ok s1"
    "pending s = got @ pending s1" "err = 0 \<longrightarrow> got = take n (pending s)"
    using read_law[OF assms(1-3)] by blast
  have "err = 0" "b = got @ drop (length got) buf" "s' = s1" using r(1) assms(4) by simp_all
  then have g: "b = got @ drop (length got) buf" "ok s'" "pending s = got @ pending s'"
    "got = take n (pending s)"
    using r(2-4) by blast+
  have l: "length got = n" using full[OF assms] g(4) by simp
  have "b = got @ drop n buf" using g(1) unfolding l .
  then have "b = take n (pending s) @ drop n buf" by (simp only: g(4))
  moreover have "pending s = take n (pending s) @ pending s'" 
    by (subst g(4)[symmetric]) (rule g(3))
  ultimately show ?thesis using g(2) by blast
qed

end

lemma tst1_check_sound:
  "tst1_check buf k len i tot = Some i' \<Longrightarrow> int (len - k) \<le> tot - i \<Longrightarrow> q < len - k \<Longrightarrow>
   buf ! (k + q) = char_of_id (i + int q)"
proof (induction "len - k" arbitrary: k i q)
  case (Suc m)
  have a: "k < len" "i < tot" using Suc.hyps(2) Suc.prems(2) by simp_all
  then have h: "buf ! k = char_of_id i" and r: "tst1_check buf (Suc k) len (i + 1) tot = Some i'"
    using Suc.prems(1) by (subst (asm) tst1_check.simps; simp split: if_splits)+
  show ?case
  proof (cases q)
    case (Suc q')
    have "buf ! (Suc k + q') = char_of_id (i + 1 + int q')"
      using Suc.hyps(1)[OF _ r, of q'] Suc.hyps(2) Suc.prems(2,3) Suc by simp
    then show ?thesis using Suc by (simp add: algebra_simps)
  qed (simp add: h)
qed simp

context exact_channel
begin

lemma tst1_loop_sound:
  "tst1_loop rd clock n buf (int i) (int tot) ms0 s = Some (Tst1Done, s') \<Longrightarrow> ok s \<Longrightarrow>
   length buf = buffer_size \<Longrightarrow> i \<le> tot \<Longrightarrow> pending s = expected i tot @ pending s'"
proof (induction "tot - i" arbitrary: i n buf ms0 s rule: less_induct)
  case less
  show ?case
  proof (cases "i < tot")
    case False
    then show ?thesis using less.prems by (subst (asm) tst1_loop.simps) (simp add: expected_def)
  next
    case True
    define len where "len = min buffer_size (tot - i)"
    have len: "0 < len" "len \<le> length buf" "i + len \<le> tot" "nat (int tot - int i) = tot - i"
      using True less.prems(3) by (auto simp: len_def buffer_size_def)
    obtain err b s1 where r: "rd buf len s = Some (err, b, s1)"
      using read_law[OF less.prems(2) len(1,2)] by blast
    have loop: "(if err \<noteq> 0 then Some (Tst1Aborted err, s1)
        else (case tst1_check b 0 len (int i) (int tot) of
                None \<Rightarrow> Some (Tst1Failed, s1)
              | Some i' \<Rightarrow>
                  if clock n > ms0 + 1000 \<or> i' \<ge> int tot
                  then if rate_defined (clock n)
                       then tst1_loop rd clock (Suc n) b i' (int tot) (clock n) s1
                       else Some (Tst1Undefined, s1)
                  else tst1_loop rd clock (Suc n) b i' (int tot) ms0 s1)) = Some (Tst1Done, s')"
      using less.prems(1) True r
      by (subst (asm) tst1_loop.simps) (simp add: len(4) len_def[symmetric] Let_def)
    have e: "err = 0" using loop by (simp split: if_splits)
    then obtain i' where ck: "tst1_check b 0 len (int i) (int tot) = Some i'"
      using loop by (simp split: option.splits)
    have i': "i' = int (i + len)" using tst1_check_value[OF _ ck] len(3) by simp
    obtain m ms1 where rest: "tst1_loop rd clock m b (int (i + len)) (int tot) ms1 s1 = Some (Tst1Done, s')"
      using loop e ck i' by (simp split: if_splits)
    note x = read_exact[OF less.prems(2) len(1,2) r[unfolded e]]
    have fl: "len \<le> length (pending s)" using full[OF less.prems(2) len(1,2) r[unfolded e]] .
    have "take len (pending s) = expected i (i + len)"
    proof (rule nth_equalityI)
      fix q assume "q < length (take len (pending s))"
      then have q: "q < len" by simp
      have "b ! q = char_of_id (int i + int q)"
        using tst1_check_sound[OF ck, of q] len(3) q by simp
      then show "take len (pending s) ! q = expected i (i + len) ! q"
        using q fl x by (simp add: nth_append)
    qed (use fl in simp)
    moreover have "length b = buffer_size" using x fl len(2) less.prems(3) by (simp add: min_def)
    then have "pending s1 = expected (i + len) tot @ pending s'"
      using less.hyps[OF _ rest] x len(1,3) True by simp
    ultimately show ?thesis using x expected_append[of i "i + len" tot] len(3)
      by (metis append.assoc le_add1)
  qed
qed

lemma server_tst1_sound:
  assumes "server_tst1 rd clock junk s = Some (Tst1Done, s')" "ok s" "length junk = buffer_size"
    and "rd (le_bytes 0) 4 s = Some (0, hdr, s1)"
  shows "hdr = take 4 (pending s) \<and>
    pending s = hdr @ expected 0 (nat (sint (le_int hdr))) @ pending s'"
proof -
  have h: "hdr = take 4 (pending s) \<and> pending s = take 4 (pending s) @ pending s1 \<and> ok s1"
    using read_exact[OF assms(2) _ _ assms(4)] by simp
  define tot where "tot = sint (le_int hdr)"
  have l: "tst1_loop rd clock 0 junk 0 tot 0 s1 = Some (Tst1Done, s')"
    using assms(1,4) by (simp add: server_tst1_def tot_def)
  have "pending s1 = expected 0 (nat tot) @ pending s'"
  proof (cases "0 \<le> tot")
    case True
    then show ?thesis using tst1_loop_sound[of clock 0 junk 0 "nat tot" 0 s1 s'] l h assms(3) by simp
  next
    case False
    then have "s' = s1" using l by (subst (asm) tst1_loop.simps) simp
    then show ?thesis using False by (simp add: expected_def)
  qed
  then show ?thesis using h unfolding tot_def[symmetric] by metis
qed

end

text \<open>One end of a pipe with what the system does, and the reader that \<open>server_tst1\<close> gets of it.\<close>

record 'k pipe_end =
  pe_os :: "'k win_io"
  pe_conn :: np_conn
  pe_pending :: "'k \<Rightarrow> byte list"
  pe_blanks :: "'k \<Rightarrow> nat"
  pe_k :: 'k

definition pipe_read :: "'k pipe_end reader" where
  "pipe_read buf n ch =
     (case np_read (pe_os ch) (pe_conn ch) buf (int n) False (pe_k ch) of
        None \<Rightarrow> None
      | Some r \<Rightarrow> Some (nr_ret r, nr_buf r, ch\<lparr>pe_conn := nr_conn r, pe_k := nr_os r\<rparr>))"

definition pipe_pending :: "'k pipe_end \<Rightarrow> byte list" where
  "pipe_pending ch = np_cached (pe_conn ch) @ pe_pending ch (pe_k ch)"

definition pipe_ok :: "'k pipe_end \<Rightarrow> bool" where
  "pipe_ok ch \<longleftrightarrow> (\<forall>h. pipe_source (np_rd (pe_os ch) h) (pe_pending ch) (pe_blanks ch)) \<and>
     peek_only (pe_os ch) (pe_pending ch)"

lemma pipe_read_law:
  assumes "pipe_ok ch" "0 < n" "n \<le> length buf"
  shows "\<exists>err got ch'. pipe_read buf n ch = Some (err, got @ drop (length got) buf, ch') \<and> pipe_ok ch' \<and>
    pipe_pending ch = got @ pipe_pending ch' \<and> length got \<le> n \<and> (err = 0 \<longrightarrow> length got = n)"
proof -
  obtain r got where r: "np_read (pe_os ch) (pe_conn ch) buf (int n) False (pe_k ch) = Some r"
    "nr_buf r = got @ drop (length got) buf" "int (length got) \<le> int n"
    "np_cached (pe_conn ch) @ pe_pending ch (pe_k ch) = got @ pe_pending ch (nr_os r)"
    "m_cache_empty (nr_conn r)" "nr_ret r = 0 \<longrightarrow> int (length got) = int n"
    using np_read_stream[of "pe_os ch" "pe_conn ch" "pe_pending ch" "pe_blanks ch" "int n" buf False "pe_k ch"]
      assms unfolding pipe_ok_def by auto
  then show ?thesis
    using assms(1) unfolding pipe_ok_def
    by (intro exI[of _ "nr_ret r"] exI[of _ got] exI[of _ "ch\<lparr>pe_conn := nr_conn r, pe_k := nr_os r\<rparr>"])
      (simp add: pipe_read_def pipe_pending_def np_cached_def)
qed

interpretation pipe: exact_channel pipe_read pipe_pending pipe_ok
proof (unfold_locales, goal_cases)
  case (1 ch n buf)
  obtain err got ch' where r: "pipe_read buf n ch = Some (err, got @ drop (length got) buf, ch')" "pipe_ok ch'"
    "pipe_pending ch = got @ pipe_pending ch'" "length got \<le> n" "err = 0 \<longrightarrow> length got = n"
    using pipe_read_law[OF 1] by blast
  then have "err = 0 \<longrightarrow> got = take n (pipe_pending ch)" by auto
  then show ?case using r(1-4) by blast
next
  case (2 ch n buf b ch')
  then show ?case using pipe_read_law[OF 2(1-3)] by auto
qed

text \<open>Over a named pipe the transfer test is exact: when \<open>server_tst1\<close> ends without an error, and its
  first read had none, the client had sent a count and after it every byte of the pattern of
  that length, in order; a stream cut short is never accepted.\<close>

theorem np_tst1_sound:
  assumes "server_tst1 pipe_read clock junk ch = Some (Tst1Done, ch')" "pipe_ok ch"
    and "length junk = buffer_size" "pipe_read (le_bytes 0) 4 ch = Some (0, hdr, ch1)"
  shows "hdr = take 4 (pipe_pending ch) \<and>
    pipe_pending ch = hdr @ expected 0 (nat (sint (le_int hdr))) @ pipe_pending ch'"
  by (rule pipe.server_tst1_sound[OF assms])

text \<open>A client that sent the count 2 and two bytes; the first byte of the count is in the cache.\<close>

definition demo_end :: "byte list \<Rightarrow> np_conn \<Rightarrow> (byte list \<times> byte list) pipe_end" where
  "demo_end bs c = \<lparr>pe_os = demo_pipe, pe_conn = c, pe_pending = fst, pe_blanks = (\<lambda>_. 0), pe_k = (bs, [])\<rparr>"

lemma demo_end_ok: "pipe_ok (demo_end bs c)"
  by (simp add: pipe_ok_def demo_end_def demo_pipe_source demo_pipe_peek)

definition demo_first :: np_conn where
  "demo_first = demo_np\<lparr>m_cache_byte0 := 2\<rparr>"

lemma demo_first_read:
  "pipe_read (le_bytes 0) 4 (demo_end [0, 0, 0, 0, 1] demo_first) =
     Some (0, [2, 0, 0, 0], demo_end [0, 1] (demo_first\<lparr>m_cache_empty := True\<rparr>))"
  by (simp add: pipe_read_def np_read_def demo_end_def demo_first_def demo_np_def demo_pipe_def Let_def
      np_read_loop.simps np_rd_def overlapped_call_def store_def le_bytes_def)

lemma demo_second_read:
  "pipe_read junk 2 (demo_end [0, 1] (demo_first\<lparr>m_cache_empty := True\<rparr>)) =
     Some (0, [0, 1] @ drop 2 junk, demo_end [] (demo_first\<lparr>m_cache_empty := True\<rparr>))"
  by (simp add: pipe_read_def np_read_def demo_end_def demo_first_def demo_np_def demo_pipe_def Let_def
      np_read_loop.simps np_rd_def overlapped_call_def store_def flip: numeral_2_eq_2)

lemma demo_server:
  "server_tst1 pipe_read (\<lambda>_. 1) junk (demo_end [0, 0, 0, 0, 1] demo_first) =
     Some (Tst1Done, demo_end [] (demo_first\<lparr>m_cache_empty := True\<rparr>))"
proof -
  have tot: "sint (le_int [2, 0, 0, 0]) = 2" by code_simp
  have chk: "tst1_check ([0, 1] @ drop 2 junk) 0 2 0 2 = Some 2"
    by (simp add: tst1_check.simps char_of_id_def)
  have rate: "rate_defined 1" by (simp add: rate_defined_def)
  show ?thesis
    by (simp add: server_tst1_def demo_first_read tot tst1_loop.simps[where i = 0]
        tst1_loop.simps[where i = 2] demo_second_read chk[simplified] rate buffer_size_def)
qed

theorem np_tst1_sound_witness:
  "[2, 0, 0, 0] = take 4 (pipe_pending (demo_end [0, 0, 0, 0, 1] demo_first)) \<and>
    pipe_pending (demo_end [0, 0, 0, 0, 1] demo_first) =
      [2, 0, 0, 0] @ expected 0 (nat (sint (le_int [2, 0, 0, 0]))) @
        pipe_pending (demo_end [] (demo_first\<lparr>m_cache_empty := True\<rparr>))"
proof -
  have "length (replicate buffer_size 0 :: byte list) = buffer_size" by simp
  from np_tst1_sound[OF demo_server demo_end_ok this demo_first_read] show ?thesis .
qed

end
