(* ===== verification/PipeService.thy ===== *)
theory PipeService
  imports PipeIO
begin

text \<open>
  \<open>tipc.cpp\<close>, the part for Windows: the life of a named pipe connection and the service that
  dispatches completions to it (\<open>ipc_io_service::run\<close> over a completion port). An operation
  handed to the system is an entry of \<open>npw_async\<close> until its completion is delivered;
  \<open>npw_posted\<close> is what \<open>PostQueuedCompletionStatus\<close> queued. What the system answers is a
  parameter (\<open>np_env\<close>), and so are the handlers the user registered (\<open>user\<close>), which are called
  with the whole world.
\<close>

section \<open>The world\<close>

text \<open>The four \<open>OVERLAPPED\<close> members, named by the object that holds them.\<close>

datatype ov_kind = OvCache | OvError | OvWaitConn | OvSync

type_synonym np_address = nat
type_synonym overlapped = "np_address \<times> ov_kind"

text \<open>What \<open>GetQueuedCompletionStatus\<close> delivers; a failed operation has an error code.\<close>

record completion =
  g_success :: bool
  g_error :: int
  g_count :: nat
  g_key :: handle
  g_ov :: "overlapped option"

record np_world =
  npw_svc :: "np_address io_service"
  npw_conns :: "np_address \<Rightarrow> np_conn option"
  npw_next :: np_address
  npw_async :: "(handle \<times> overlapped) list"
  npw_posted :: "completion list"
  npw_port :: "handle list"     \<comment> \<open>calls of \<open>CreateIoCompletionPort\<close> for a handle\<close>
  npw_closed :: "handle list"   \<comment> \<open>calls of \<open>CloseHandle\<close>\<close>

text \<open>
  What stops the program: an assertion that fails, an exception out of \<open>run\<close>, the use of an
  object that is gone.
\<close>

datatype np_fault =
    HandleAssert | CountAssert | UnreadAssert | CacheAssert | NullAssert
  | PortThrows | PipeThrows int | FileThrows int | DeadObject

text \<open>
  The answers while one event is handled: \<open>CreateNamedPipe\<close>, the two registrations with the
  port, the two \<open>ConnectNamedPipe\<close>, the \<open>ReadFile\<close> of the cache byte (None is success, Some the
  value of \<open>GetLastError\<close>), and the memory a new object is built on.
\<close>

record np_env =
  e_pipe :: "int + handle"
  e_port_adopt :: bool
  e_port_listen :: bool
  e_wait_listen :: "int option"
  e_wait_again :: "int option"
  e_read :: "int option"
  e_memory :: "64 word"

definition ERROR_IO_PENDING :: int where "ERROR_IO_PENDING = 997"
definition ERROR_PIPE_CONNECTED :: int where "ERROR_PIPE_CONNECTED = 535"
definition ERROR_BROKEN_PIPE :: int where "ERROR_BROKEN_PIPE = 109"
definition ERROR_ABANDONED_WAIT_0 :: int where "ERROR_ABANDONED_WAIT_0 = 735"

definition npc_update :: "np_address \<Rightarrow> (np_conn \<Rightarrow> np_conn) \<Rightarrow> np_world \<Rightarrow> np_world" where
  "npc_update p f w = w\<lparr>npw_conns := (npw_conns w)(p := map_option f (npw_conns w p))\<rparr>"

definition start_async :: "handle \<Rightarrow> overlapped \<Rightarrow> np_world \<Rightarrow> np_world" where
  "start_async h ov w = w\<lparr>npw_async := npw_async w @ [(h, ov)]\<rparr>"

text \<open>\<open>PostQueuedCompletionStatus(port, count, key, ov)\<close>.\<close>

definition post :: "nat \<Rightarrow> handle \<Rightarrow> overlapped \<Rightarrow> np_world \<Rightarrow> np_world" where
  "post cnt h ov w = w\<lparr>npw_posted := npw_posted w @
     [\<lparr>g_success = True, g_error = 0, g_count = cnt, g_key = h, g_ov = Some ov\<rparr>]\<rparr>"

section \<open>Operations of a connection\<close>

text \<open>\<open>associate\<close> as compiled for Windows; \<open>ok\<close> is the answer of \<open>CreateIoCompletionPort\<close>.\<close>

definition np_associate :: "bool \<Rightarrow> handle \<Rightarrow> np_address \<Rightarrow> np_world \<Rightarrow> np_fault + np_world" where
  "np_associate ok h p w =
     (if h = INVALID_OS_HANDLE then Inr w
      else let (q, svc) = svc_get h (npw_svc w);
               w1 = w\<lparr>npw_svc := svc\<rparr>;
               set_entry = (\<lambda>w. w\<lparr>npw_svc := svc_set h (Some p) (npw_svc w)\<rparr>)
           in if q = None
              then if ok then Inr (set_entry (w1\<lparr>npw_port := npw_port w1 @ [h]\<rparr>)) else Inl PortThrows
              else Inr (set_entry w1))"

text \<open>\<open>unassociate\<close> as compiled for Windows: the handle stays with the port.\<close>

definition np_unassociate :: "handle \<Rightarrow> np_world \<Rightarrow> np_world" where
  "np_unassociate h w =
     (if h = INVALID_OS_HANDLE then w else w\<lparr>npw_svc := svc_erase h (npw_svc w)\<rparr>)"

text \<open>
  The constructor for a name leaves \<open>m_oshd\<close> and \<open>m_waitconn_overlapped\<close> as the memory was; the
  one for a handle associates the new object.
\<close>

definition np_fresh :: "handle \<Rightarrow> 64 word \<Rightarrow> string \<Rightarrow> np_conn" where
  "np_fresh h ev name = \<lparr>m_oshd = h, m_cache_byte0 = 0, m_cache_empty = True, m_error_Offset = 0,
     m_waitconn_hEvent = ev, m_name = name, np_on_read = False, np_on_accept = False, np_on_close = False\<rparr>"

definition np_ctor_name :: "handle \<Rightarrow> 64 word \<Rightarrow> string \<Rightarrow> np_world \<Rightarrow> np_address \<times> np_world" where
  "np_ctor_name memory_h memory_ev servername w =
     (npw_next w, w\<lparr>npw_conns := (npw_conns w)(npw_next w := Some (np_fresh memory_h memory_ev servername)),
                    npw_next := Suc (npw_next w)\<rparr>)"

definition np_ctor_handle :: "bool \<Rightarrow> handle \<Rightarrow> 64 word \<Rightarrow> np_world \<Rightarrow> np_fault + np_address \<times> np_world" where
  "np_ctor_handle ok h memory_ev w =
     (let p = npw_next w;
          w1 = w\<lparr>npw_conns := (npw_conns w)(p := Some (np_fresh h memory_ev [])), npw_next := Suc p\<rparr>
      in case np_associate ok h p w1 of Inl f \<Rightarrow> Inl f | Inr w2 \<Rightarrow> Inr (p, w2))"

definition np_close :: "np_address \<Rightarrow> np_world \<Rightarrow> np_world" where
  "np_close p w =
     (case npw_conns w p of
        None \<Rightarrow> w
      | Some c \<Rightarrow>
          if m_oshd c \<noteq> INVALID_OS_HANDLE
          then let w1 = np_unassociate (m_oshd c) w;
                   w2 = w1\<lparr>npw_closed := npw_closed w1 @ [m_oshd c]\<rparr>
               in npc_update p (\<lambda>c. c\<lparr>m_oshd := INVALID_OS_HANDLE\<rparr>) w2
          else w)"

text \<open>\<open>delete\<close>: the destructor closes the connection, then the storage goes.\<close>

definition np_delete :: "np_address \<Rightarrow> np_world \<Rightarrow> np_world" where
  "np_delete p w = (let w1 = np_close p w in w1\<lparr>npw_conns := (npw_conns w1)(p := None)\<rparr>)"

definition wait_for_connection :: "int option \<Rightarrow> np_address \<Rightarrow> np_world \<Rightarrow> np_fault + int \<times> np_world" where
  "wait_for_connection ans p w =
     (case npw_conns w p of
        None \<Rightarrow> Inl DeadObject
      | Some c \<Rightarrow>
          if m_oshd c = INVALID_OS_HANDLE then Inl HandleAssert
          else (case ans of
                  None \<Rightarrow> Inr (0, start_async (m_oshd c) (p, OvWaitConn) w)
                | Some dwErr \<Rightarrow>
                    if dwErr = ERROR_PIPE_CONNECTED then Inr (0, post 1 (m_oshd c) (p, OvWaitConn) w)
                    else if dwErr \<noteq> ERROR_IO_PENDING then Inr (dwErr, w)
                    else Inr (0, start_async (m_oshd c) (p, OvWaitConn) w)))"

definition trigger_async_cache_read :: "int option \<Rightarrow> np_address \<Rightarrow> np_world \<Rightarrow> np_fault + np_world" where
  "trigger_async_cache_read ans p w =
     (case npw_conns w p of
        None \<Rightarrow> Inl DeadObject
      | Some c \<Rightarrow>
          if \<not> m_cache_empty c then Inl CacheAssert
          else let w1 = npc_update p (\<lambda>c. c\<lparr>m_cache_empty := True\<rparr>) w in
            (case ans of
               None \<Rightarrow> Inr (start_async (m_oshd c) (p, OvCache) w1)
             | Some dwErr \<Rightarrow>
                 if dwErr \<noteq> ERROR_IO_PENDING
                 then Inr (post 0 (m_oshd c) (p, OvError) (npc_update p (\<lambda>c. c\<lparr>m_error_Offset := dwErr\<rparr>) w1))
                 else Inr (start_async (m_oshd c) (p, OvCache) w1)))"

text \<open>\<open>connect(dest)\<close>: \<open>file\<close> is the answer of \<open>CreateFile\<close>.\<close>

definition np_connect ::
  "int + handle \<Rightarrow> bool \<Rightarrow> int option \<Rightarrow> np_address \<Rightarrow> np_world \<Rightarrow> np_fault + int \<times> np_world" where
  "np_connect file port_ok ans p w =
     (case file of
        Inl e \<Rightarrow> Inl (FileThrows e)
      | Inr h \<Rightarrow>
          (case np_associate port_ok h p (npc_update p (\<lambda>c. c\<lparr>m_oshd := h\<rparr>) w) of
             Inl f \<Rightarrow> Inl f
           | Inr w1 \<Rightarrow>
               (case trigger_async_cache_read ans p w1 of
                  Inl f \<Rightarrow> Inl f
                | Inr w2 \<Rightarrow> Inr (0, w2))))"

text \<open>\<open>listen()\<close>, which drops the result of \<open>wait_for_connection\<close>.\<close>

definition np_listen :: "np_env \<Rightarrow> np_address \<Rightarrow> np_world \<Rightarrow> np_fault + int \<times> np_world" where
  "np_listen env p w =
     (case e_pipe env of
        Inl e \<Rightarrow> Inl (PipeThrows e)
      | Inr h \<Rightarrow>
          (case np_associate (e_port_listen env) h p (npc_update p (\<lambda>c. c\<lparr>m_oshd := h\<rparr>) w) of
             Inl f \<Rightarrow> Inl f
           | Inr w1 \<Rightarrow>
               (case wait_for_connection (e_wait_listen env) p w1 of
                  Inl f \<Rightarrow> Inl f
                | Inr (e, w2) \<Rightarrow> Inr (0, w2))))"

section \<open>Completions\<close>

datatype np_call = NpRead np_address int | NpAccept np_address | NpClose np_address

type_synonym np_user = "np_call \<Rightarrow> np_world \<Rightarrow> np_world"

text \<open>The first branch of \<open>notify\<close>, for \<open>m_cache_overlapped\<close> and \<open>m_error_overlapped\<close>.\<close>

definition notify_cache ::
  "np_user \<Rightarrow> np_env \<Rightarrow> np_address \<Rightarrow> np_conn \<Rightarrow> int \<Rightarrow> nat \<Rightarrow> ov_kind \<Rightarrow> np_world \<Rightarrow> np_fault + np_world" where
  "notify_cache user env p c error_code transferred_cnt kind w =
     (let ec2 = (if kind = OvError then m_error_Offset c else error_code);
          w1 = (if transferred_cnt = 1 then npc_update p (\<lambda>c. c\<lparr>m_cache_empty := False\<rparr>) w else w)
      in if \<not> (transferred_cnt = 1 \<or> transferred_cnt = 0) then Inl CountAssert
         else if np_on_close c \<and> ec2 = ERROR_BROKEN_PIPE then Inr (user (NpClose p) w1)
         else let b_new_data_arrived = (transferred_cnt = 1 \<or> \<not> m_cache_empty c);
                  w2 = (if np_on_read c then user (NpRead p ec2) w1 else w1)
              in (case npw_conns w2 p of
                    None \<Rightarrow> Inl DeadObject
                  | Some c2 \<Rightarrow>
                      if b_new_data_arrived \<and> \<not> m_cache_empty c2 then Inl UnreadAssert
                      else trigger_async_cache_read (e_read env) p w2))"

text \<open>
  The second branch, for \<open>m_waitconn_overlapped\<close>: the handle moves to a new object, the listener
  gets another instance of the pipe.
\<close>

definition notify_accept :: "np_user \<Rightarrow> np_env \<Rightarrow> np_address \<Rightarrow> np_conn \<Rightarrow> np_world \<Rightarrow> np_fault + np_world" where
  "notify_accept user env p c w =
     (if \<not> np_on_accept c then Inr w
      else (case np_ctor_handle (e_port_adopt env) (m_oshd c) (e_memory env) w of
              Inl f \<Rightarrow> Inl f
            | Inr (q, w1) \<Rightarrow>
                (case np_listen env p w1 of
                   Inl f \<Rightarrow> Inl f
                 | Inr (r, w2) \<Rightarrow>
                     (case wait_for_connection (e_wait_again env) p (user (NpAccept q) w2) of
                        Inl f \<Rightarrow> Inl f
                      | Inr (r', w3) \<Rightarrow> trigger_async_cache_read (e_read env) q w3))))"

definition np_notify ::
  "np_user \<Rightarrow> np_env \<Rightarrow> np_address \<Rightarrow> int \<Rightarrow> nat \<Rightarrow> overlapped \<Rightarrow> np_world \<Rightarrow> np_fault + np_world" where
  "np_notify user env p error_code transferred_cnt ov w =
     (case npw_conns w p of
        None \<Rightarrow> Inl DeadObject
      | Some c \<Rightarrow>
          if ov = (p, OvSync) then Inr w
          else if ov = (p, OvCache) \<or> ov = (p, OvError)
          then notify_cache user env p c error_code transferred_cnt (snd ov) w
          else if ov = (p, OvWaitConn) then notify_accept user env p c w
          else Inr w)"

section \<open>The service\<close>

text \<open>
  \<open>lpOverlapped->hEvent\<close>, None when the object is gone. The constructors create the event of
  \<open>m_sync_overlapped\<close> and clear the other two members they initialise.
\<close>

definition ov_hEvent :: "np_world \<Rightarrow> overlapped \<Rightarrow> 64 word option" where
  "ov_hEvent w ov =
     map_option (\<lambda>c. case snd ov of OvSync \<Rightarrow> 1 | OvCache \<Rightarrow> 0 | OvError \<Rightarrow> 0 | OvWaitConn \<Rightarrow> m_waitconn_hEvent c)
       (npw_conns w (fst ov))"

datatype round = RoundBreak | RoundNext np_world | RoundFault np_fault

text \<open>The body of the loop of \<open>run\<close> for one result of \<open>GetQueuedCompletionStatus\<close>.\<close>

definition np_round :: "np_user \<Rightarrow> np_env \<Rightarrow> completion \<Rightarrow> np_world \<Rightarrow> round" where
  "np_round user env g w =
     (let dwErr = (if g_success g then 0 else g_error g) in
      if \<not> g_success g \<and> dwErr = ERROR_ABANDONED_WAIT_0 then RoundBreak
      else (case g_ov g of
              None \<Rightarrow> RoundNext w
            | Some ov \<Rightarrow>
                (case ov_hEvent w ov of
                   None \<Rightarrow> RoundFault DeadObject
                 | Some ev \<Rightarrow>
                     if ev \<noteq> 0 then RoundNext w
                     else let (pio, svc) = svc_get (g_key g) (npw_svc w) in
                       (case pio of
                          None \<Rightarrow> RoundFault NullAssert
                        | Some p \<Rightarrow>
                            (case np_notify user env p dwErr (g_count g) ov (w\<lparr>npw_svc := svc\<rparr>) of
                               Inl f \<Rightarrow> RoundFault f
                             | Inr w1 \<Rightarrow> RoundNext w1)))))"

text \<open>\<open>run\<close> over the rounds it is given, each with the value of \<open>m_exit\<close> the loop test sees.\<close>

fun np_run :: "np_user \<Rightarrow> (bool \<times> np_env \<times> completion) list \<Rightarrow> np_world \<Rightarrow> round" where
  "np_run user [] w = RoundNext w"
| "np_run user ((m_exit, env, g) # gs) w =
     (if m_exit then RoundNext w
      else (case np_round user env g w of
              RoundNext w1 \<Rightarrow> np_run user gs w1
            | r \<Rightarrow> r))"

section \<open>What can happen\<close>

text \<open>
  The deliveries the system can make, each handled by one round of \<open>run\<close>: the byte of a cache
  read, the failure of one, an accepted client, a queued entry. Besides, any thread may call
  \<open>read\<close>, which empties the cache of its connection.
\<close>

definition delivery :: "int \<Rightarrow> nat \<Rightarrow> handle \<Rightarrow> overlapped \<Rightarrow> completion" where
  "delivery e cnt h ov = \<lparr>g_success = (e = 0), g_error = e, g_count = cnt, g_key = h, g_ov = Some ov\<rparr>"

definition end_async :: "handle \<times> overlapped \<Rightarrow> np_world \<Rightarrow> np_world" where
  "end_async x w = w\<lparr>npw_async := remove1 x (npw_async w)\<rparr>"

inductive np_event :: "np_user \<Rightarrow> np_world \<Rightarrow> round \<Rightarrow> bool" for user where
  byte_read: "(h, p, OvCache) \<in> set (npw_async w) \<Longrightarrow>
    np_event user w (np_round user env (delivery 0 1 h (p, OvCache))
      (npc_update p (\<lambda>c. c\<lparr>m_cache_byte0 := b\<rparr>) (end_async (h, p, OvCache) w)))"
| read_fails: "(h, p, OvCache) \<in> set (npw_async w) \<Longrightarrow> e \<noteq> 0 \<Longrightarrow>
    np_event user w (np_round user env (delivery e 0 h (p, OvCache)) (end_async (h, p, OvCache) w))"
| accepted: "(h, p, OvWaitConn) \<in> set (npw_async w) \<Longrightarrow>
    np_event user w (np_round user env (delivery e n h (p, OvWaitConn)) (end_async (h, p, OvWaitConn) w))"
| queued: "npw_posted w = g # gs \<Longrightarrow>
    np_event user w (np_round user env g (w\<lparr>npw_posted := gs\<rparr>))"
| thread_reads: "np_event user w (RoundNext (npc_update p (\<lambda>c. c\<lparr>m_cache_empty := True\<rparr>) w))"

inductive_cases np_eventE: "np_event user w r"

text \<open>
  Of each object, whether its cache is empty and whether \<open>on_read\<close> is registered; and the
  notifications about the cache of \<open>p\<close> still to come.
\<close>

type_synonym cache_state = "bool \<times> bool"

definition cache_state :: "np_conn \<Rightarrow> cache_state" where
  "cache_state c = (m_cache_empty c, np_on_read c)"

definition cache_view :: "np_world \<Rightarrow> np_address \<Rightarrow> cache_state option" where
  "cache_view w p = map_option cache_state (npw_conns w p)"

definition outstanding :: "np_address \<Rightarrow> np_world \<Rightarrow> nat" where
  "outstanding p w =
     length (filter (\<lambda>x. snd x = (p, OvCache)) (npw_async w)) +
     length (filter (\<lambda>g. g_ov g = Some (p, OvCache) \<or> g_ov g = Some (p, OvError)) (npw_posted w))"

text \<open>
  What the user's handlers are asked to do: \<open>on_accept\<close> registers \<open>on_read\<close>, which takes the
  cached byte, \<open>on_close\<close> may delete its connection, and none of them starts operations of its
  own.
\<close>

definition handlers_ok :: "np_user \<Rightarrow> bool" where
  "handlers_ok user \<longleftrightarrow>
     (\<forall>call w. let w' = user call w in
        npw_async w' = npw_async w \<and> npw_posted w' = npw_posted w \<and> npw_next w' = npw_next w \<and>
        (case call of
           NpRead p e \<Rightarrow> cache_view w' = (cache_view w)(p := map_option (\<lambda>(_, r). (True, r)) (cache_view w p))
         | NpAccept p \<Rightarrow> cache_view w' = (cache_view w)(p := map_option (\<lambda>(e, _). (e, True)) (cache_view w p))
         | NpClose p \<Rightarrow> (\<forall>q. q \<noteq> p \<longrightarrow> cache_view w' q = cache_view w q)))"

text \<open>
  The protocol of the cache: at most one notification about it is to come, while one is to come
  the object exists, its cache is empty and \<open>on_read\<close> is registered.
\<close>

definition cache_ok :: "cache_state option \<Rightarrow> nat \<Rightarrow> bool" where
  "cache_ok v n \<longleftrightarrow> n \<le> 1 \<and> (n = 1 \<longrightarrow> v = Some (True, True))"

definition cache_inv :: "np_world \<Rightarrow> bool" where
  "cache_inv w \<longleftrightarrow>
     (\<forall>p. cache_ok (cache_view w p) (outstanding p w)) \<and>
     (\<forall>p. npw_next w \<le> p \<longrightarrow> cache_view w p = None) \<and>
     (\<forall>g\<in>set (npw_posted w). g_count g \<le> 1)"

definition cache_fault :: "np_fault \<Rightarrow> bool" where
  "cache_fault f \<longleftrightarrow> f \<in> {CountAssert, UnreadAssert, CacheAssert}"

text \<open>The invariant seen through an outcome: of an operation, and of a round.\<close>

definition safe :: "np_fault + np_world \<Rightarrow> bool" where
  "safe r \<longleftrightarrow> (case r of Inl f \<Rightarrow> \<not> cache_fault f | Inr w \<Rightarrow> cache_inv w)"

definition safe_round :: "round \<Rightarrow> bool" where
  "safe_round r \<longleftrightarrow> (case r of RoundBreak \<Rightarrow> True | RoundNext w \<Rightarrow> cache_inv w | RoundFault f \<Rightarrow> \<not> cache_fault f)"

section \<open>The operations keep the protocol\<close>

text \<open>Worlds that do not differ in what the protocol is about.\<close>

definition same_cache :: "np_world \<Rightarrow> np_world \<Rightarrow> bool" where
  "same_cache w w' \<longleftrightarrow> cache_view w' = cache_view w \<and> (\<forall>p. outstanding p w' = outstanding p w) \<and>
     npw_next w' = npw_next w \<and>
     ((\<forall>g\<in>set (npw_posted w). g_count g \<le> 1) \<longrightarrow> (\<forall>g\<in>set (npw_posted w'). g_count g \<le> 1))"

lemma same_cache_refl [simp]: "same_cache w w"
  by (simp add: same_cache_def)

lemma same_cache_trans: "same_cache w w1 \<Longrightarrow> same_cache w1 w2 \<Longrightarrow> same_cache w w2"
  unfolding same_cache_def by metis

lemma cache_view_cong: "npw_conns w' = npw_conns w \<Longrightarrow> cache_view w' = cache_view w"
  by (rule ext) (simp add: cache_view_def)

lemma same_cache_inv: "same_cache w w' \<Longrightarrow> cache_inv w \<Longrightarrow> cache_inv w'"
  unfolding same_cache_def cache_inv_def by simp

lemma cache_view_update:
  "(\<And>c. cache_state (f c) = g (cache_state c)) \<Longrightarrow>
   cache_view (npc_update p f w) = (cache_view w)(p := map_option g (cache_view w p))"
  by (auto simp: cache_view_def npc_update_def option.map_comp comp_def)

lemma cache_view_keep:
  "(\<And>c. cache_state (f c) = cache_state c) \<Longrightarrow> cache_view (npc_update p f w) = cache_view w"
  by (auto simp: cache_view_def npc_update_def option.map_comp comp_def)

lemma outstanding_update [simp]: "outstanding p (npc_update q f w) = outstanding p w"
  by (simp add: outstanding_def npc_update_def)

lemma npc_update_fields [simp]:
  "npw_next (npc_update p f w) = npw_next w" "npw_posted (npc_update p f w) = npw_posted w"
  "npw_async (npc_update p f w) = npw_async w" "npw_svc (npc_update p f w) = npw_svc w"
  "npw_conns (npc_update p f w) q = (if q = p then map_option f (npw_conns w p) else npw_conns w q)"
  by (simp_all add: npc_update_def)

lemma same_cache_update:
  "(\<And>c. cache_state (f c) = cache_state c) \<Longrightarrow> same_cache w (npc_update p f w)"
  by (simp add: same_cache_def cache_view_keep)

lemma same_cache_svc [simp]:
  "same_cache w (w\<lparr>npw_svc := s\<rparr>)" "same_cache w (w\<lparr>npw_svc := s, npw_port := t\<rparr>)"
  "same_cache w (w\<lparr>npw_port := t, npw_svc := s\<rparr>)"
  unfolding same_cache_def by (simp_all add: outstanding_def cache_view_def fun_eq_iff)

lemma same_cache_associate:
  "np_associate ok h p w = Inr w' \<Longrightarrow> same_cache w w'"
  by (auto simp: np_associate_def Let_def split: if_splits prod.splits)

lemma associate_conns:
  "np_associate ok h p w = Inr w' \<Longrightarrow> npw_conns w' = npw_conns w \<and> npw_next w' = npw_next w"
  by (auto simp: np_associate_def Let_def split: if_splits prod.splits)

lemma associate_fault: "np_associate ok h p w = Inl f \<Longrightarrow> f = PortThrows"
  by (auto simp: np_associate_def Let_def split: if_splits prod.splits)

lemma wait_conns: "wait_for_connection ans p w = Inr (r, w') \<Longrightarrow> npw_conns w' = npw_conns w"
  by (auto simp: wait_for_connection_def start_async_def post_def split: option.splits if_splits)

lemma same_cache_wait:
  assumes "wait_for_connection ans p w = Inr (r, w')"
  shows "same_cache w w'"
proof -
  have "cache_view w' = cache_view w" by (rule cache_view_cong[OF wait_conns[OF assms]])
  with assms show ?thesis
    by (auto simp: wait_for_connection_def start_async_def post_def same_cache_def
        outstanding_def split: option.splits if_splits)
qed

lemma wait_fault: "wait_for_connection ans p w = Inl f \<Longrightarrow> \<not> cache_fault f"
  by (auto simp: wait_for_connection_def cache_fault_def split: option.splits if_splits)

lemma listen_ok:
  assumes "np_listen env p w = Inr (r, w')"
  shows "same_cache w w'"
proof -
  obtain h w1 e where s: "np_associate (e_port_listen env) h p (npc_update p (\<lambda>c. c\<lparr>m_oshd := h\<rparr>) w) = Inr w1"
    "wait_for_connection (e_wait_listen env) p w1 = Inr (e, w')"
    using assms by (auto simp: np_listen_def split: sum.splits prod.splits)
  have "same_cache w (npc_update p (\<lambda>c. c\<lparr>m_oshd := h\<rparr>) w)" by (rule same_cache_update) (simp add: cache_state_def)
  then show ?thesis
    using same_cache_associate[OF s(1)] same_cache_wait[OF s(2)] same_cache_trans by blast
qed

lemma listen_fault: "np_listen env p w = Inl f \<Longrightarrow> \<not> cache_fault f"
  by (auto simp: np_listen_def cache_fault_def dest: associate_fault wait_fault split: sum.splits prod.splits)

text \<open>One more notification about an empty cache that expects none.\<close>

lemma cache_inv_add:
  assumes "cache_inv w" "cache_view w p = Some (True, True)" "outstanding p w = 0"
    and "cache_view w' = cache_view w" "\<And>q. outstanding q w' = (if q = p then 1 else outstanding q w)"
    and "npw_next w' = npw_next w" "\<And>g. g \<in> set (npw_posted w') \<Longrightarrow> g \<in> set (npw_posted w) \<or> g_count g = 0"
  shows "cache_inv w'"
  unfolding cache_inv_def
proof (intro conjI allI ballI impI)
  fix q
  show "cache_ok (cache_view w' q) (outstanding q w')"
    using assms(1,2,4,5) by (cases "q = p") (simp_all add: cache_inv_def cache_ok_def)
  show "npw_next w' \<le> q \<Longrightarrow> cache_view w' q = None"
    using assms(1,4,6) by (simp add: cache_inv_def)
next
  fix g assume "g \<in> set (npw_posted w')"
  then show "g_count g \<le> 1" using assms(1,7) unfolding cache_inv_def by fastforce
qed

lemma trigger_safe:
  assumes inv: "cache_inv w" and v: "cache_view w p \<noteq> None \<longrightarrow> cache_view w p = Some (True, True)" and out: "outstanding p w = 0"
  shows "safe (trigger_async_cache_read ans p w)"
proof (cases "npw_conns w p")
  case None
  then show ?thesis by (simp add: trigger_async_cache_read_def safe_def cache_fault_def)
next
  case (Some c)
  then have e: "m_cache_empty c" "cache_view w p = Some (True, True)" using v by (auto simp: cache_view_def cache_state_def)
  define w1 where "w1 = npc_update p (\<lambda>c. c\<lparr>m_cache_empty := True\<rparr>) w"
  have w1: "cache_view w1 = cache_view w" using e(2) by (auto simp: w1_def cache_view_def cache_state_def npc_update_def)
  have w2: "cache_view (npc_update p (\<lambda>c. c\<lparr>m_error_Offset := d\<rparr>) w1) = cache_view w" for d
    using w1 by (simp add: cache_view_keep cache_state_def)
  have async: "cache_inv (start_async (m_oshd c) (p, OvCache) w1)"
  proof (rule cache_inv_add[OF inv e(2) out])
    show "cache_view (start_async (m_oshd c) (p, OvCache) w1) = cache_view w"
      unfolding w1[symmetric] by (rule cache_view_cong) (simp add: start_async_def)
  qed (use out in \<open>auto simp: start_async_def w1_def outstanding_def\<close>)
  have posted: "cache_inv (post 0 (m_oshd c) (p, OvError) (npc_update p (\<lambda>c. c\<lparr>m_error_Offset := d\<rparr>) w1))" for d
  proof (rule cache_inv_add[OF inv e(2) out])
    show "cache_view (post 0 (m_oshd c) (p, OvError) (npc_update p (\<lambda>c. c\<lparr>m_error_Offset := d\<rparr>) w1)) = cache_view w"
      unfolding w2[of d, symmetric] by (rule cache_view_cong) (simp add: post_def)
  qed (use out in \<open>auto simp: post_def w1_def outstanding_def\<close>)
  show ?thesis
    using Some e(1) async posted
    by (auto simp: trigger_async_cache_read_def safe_def w1_def[symmetric] Let_def split: option.splits)
qed

text \<open>A change of the state of \<open>p\<close> alone while no notification about its cache is to come.\<close>

lemma cache_inv_quiet:
  assumes "cache_inv w" "outstanding p w = 0" "p < npw_next w'" "npw_next w \<le> npw_next w'"
    and "\<And>q. q \<noteq> p \<Longrightarrow> cache_view w' q = cache_view w q"
    and "npw_async w' = npw_async w" "npw_posted w' = npw_posted w"
  shows "cache_inv w' \<and> outstanding p w' = 0"
proof -
  have out: "outstanding q w' = outstanding q w" for q
    using assms(6,7) by (simp add: outstanding_def)
  have "cache_ok (cache_view w' q) (outstanding q w')" for q
    using assms(1,2) assms(5)[of q] unfolding cache_inv_def out by (cases "q = p") (simp_all add: cache_ok_def)
  moreover have "cache_view w' q = None" if "npw_next w' \<le> q" for q
    using assms(1,3,4) assms(5)[of q] that unfolding cache_inv_def by (cases "q = p") simp_all
  moreover have "\<forall>g\<in>set (npw_posted w'). g_count g \<le> 1"
    using assms(1,7) unfolding cache_inv_def by simp
  ultimately show ?thesis using out assms(2) unfolding cache_inv_def by simp
qed

lemma live_below_next:
  assumes "cache_inv w" "cache_view w p \<noteq> None"
  shows "p < npw_next w"
  using assms unfolding cache_inv_def by (meson not_le)

lemma handlers_okD:
  assumes "handlers_ok user"
  shows "npw_async (user call w) = npw_async w" "npw_posted (user call w) = npw_posted w"
    "npw_next (user call w) = npw_next w"
    "cache_view (user (NpRead p e) w) = (cache_view w)(p := map_option (\<lambda>(_, r). (True, r)) (cache_view w p))"
    "cache_view (user (NpAccept p) w) = (cache_view w)(p := map_option (\<lambda>(e, _). (e, True)) (cache_view w p))"
    "q \<noteq> p \<Longrightarrow> cache_view (user (NpClose p) w) q = cache_view w q"
proof -
  note h = assms[unfolded handlers_ok_def Let_def, rule_format]
  show "npw_async (user call w) = npw_async w" "npw_posted (user call w) = npw_posted w"
    "npw_next (user call w) = npw_next w"
    using h[of call w] by simp_all
  show "cache_view (user (NpRead p e) w) = (cache_view w)(p := map_option (\<lambda>(_, r). (True, r)) (cache_view w p))"
    using h[of "NpRead p e" w] by simp
  show "cache_view (user (NpAccept p) w) = (cache_view w)(p := map_option (\<lambda>(e, _). (e, True)) (cache_view w p))"
    using h[of "NpAccept p" w] by simp
  show "q \<noteq> p \<Longrightarrow> cache_view (user (NpClose p) w) q = cache_view w q"
    using h[of "NpClose p" w] by simp
qed

lemma notify_cache_safe:
  assumes user: "handlers_ok user" and inv: "cache_inv w" and out: "outstanding p w = 0"
    and c: "npw_conns w p = Some c" "cache_state c = (True, True)" and cnt: "cnt \<le> 1"
  shows "safe (notify_cache user env p c e cnt kind w)"
proof -
  note u = handlers_okD[OF user]
  define w1 where "w1 = (if cnt = 1 then npc_update p (\<lambda>c. c\<lparr>m_cache_empty := False\<rparr>) w else w)"
  have v: "cache_view w p = Some (True, True)" using c by (simp add: cache_view_def)
  have lt: "p < npw_next w" using live_below_next[OF inv, of p] v by simp
  have v1: "cache_view w1 p = Some (cnt \<noteq> 1, True)" and f1: "npw_async w1 = npw_async w"
    "npw_posted w1 = npw_posted w" "npw_next w1 = npw_next w" "\<And>q. q \<noteq> p \<Longrightarrow> cache_view w1 q = cache_view w q"
    using c by (simp_all add: w1_def cache_view_def cache_state_def)
  have i1: "cache_inv w1 \<and> outstanding p w1 = 0"
    by (rule cache_inv_quiet[OF inv out]) (use lt f1 in simp_all)
  have rd: "np_on_read c" and ce: "m_cache_empty c" using c(2) by (simp_all add: cache_state_def)
  have close: "cache_inv (user (NpClose p) w1)"
    using cache_inv_quiet[of w1 p "user (NpClose p) w1"] i1 lt f1(3) u by simp
  define ec where "ec = (if kind = OvError then m_error_Offset c else e)"
  define w2 where "w2 = user (NpRead p ec) w1"
  have v2: "cache_view w2 p = Some (True, True)" using u(4)[of p ec w1] v1 by (simp add: w2_def)
  have i2: "cache_inv w2 \<and> outstanding p w2 = 0"
    using cache_inv_quiet[of w1 p w2] i1 lt f1(3) u by (simp add: w2_def)
  obtain c2 where c2: "npw_conns w2 p = Some c2" "m_cache_empty c2"
    using v2 by (auto simp: cache_view_def cache_state_def)
  have t: "safe (trigger_async_cache_read (e_read env) p w2)"
    by (rule trigger_safe) (use i2 v2 in simp_all)
  have unf: "notify_cache user env p c e cnt kind w =
      (if np_on_close c \<and> ec = ERROR_BROKEN_PIPE then Inr (user (NpClose p) w1)
       else trigger_async_cache_read (e_read env) p w2)"
    using cnt rd c2 unfolding notify_cache_def Let_def w1_def[symmetric] ec_def[symmetric] w2_def[symmetric]
    by auto
  show ?thesis using t close unfolding unf by (simp add: safe_def)
qed

lemma ctor_handle_inv:
  assumes inv: "cache_inv w" and r: "np_ctor_handle ok h ev w = Inr (q, w1)"
  shows "cache_inv w1 \<and> outstanding q w1 = 0 \<and> cache_view w1 q = Some (True, False)"
proof -
  define w0 where "w0 = w\<lparr>npw_conns := (npw_conns w)(npw_next w := Some (np_fresh h ev [])), npw_next := Suc (npw_next w)\<rparr>"
  have q: "q = npw_next w" and a: "np_associate ok h q w0 = Inr w1"
    using r by (auto simp: np_ctor_handle_def Let_def w0_def split: sum.splits)
  have "cache_view w q = None" using inv unfolding q cache_inv_def by simp
  then have o: "outstanding q w = 0"
    using inv unfolding cache_inv_def cache_ok_def by (metis le_neq_implies_less less_one option.distinct(1))
  have "cache_inv w0 \<and> outstanding q w0 = 0"
    by (rule cache_inv_quiet[OF inv o]) (auto simp: q w0_def cache_view_def)
  moreover have "cache_view w0 q = Some (True, False)"
    by (simp add: q w0_def cache_view_def cache_state_def np_fresh_def)
  moreover have s: "same_cache w0 w1" by (rule same_cache_associate[OF a])
  ultimately show ?thesis using same_cache_inv[OF s] s unfolding same_cache_def by simp
qed

lemma ctor_handle_fault: "np_ctor_handle ok h ev w = Inl f \<Longrightarrow> f = PortThrows"
  by (auto simp: np_ctor_handle_def Let_def dest: associate_fault split: sum.splits)

lemma notify_accept_safe:
  assumes user: "handlers_ok user" and inv: "cache_inv w"
  shows "safe (notify_accept user env p c w)"
proof (cases "np_on_accept c")
  case False
  then show ?thesis using inv by (simp add: notify_accept_def safe_def)
next
  case acc: True
  show ?thesis
  proof (cases "np_ctor_handle (e_port_adopt env) (m_oshd c) (e_memory env) w")
    case (Inl f)
    then show ?thesis using acc ctor_handle_fault[OF Inl]
      by (simp add: notify_accept_def safe_def cache_fault_def)
  next
    case (Inr r1)
    obtain q w1 where r1: "r1 = (q, w1)" by fastforce
    note i1 = ctor_handle_inv[OF inv Inr[unfolded r1]]
    show ?thesis
    proof (cases "np_listen env p w1")
      case (Inl f)
      then show ?thesis using acc Inr r1 listen_fault[OF Inl]
        by (simp add: notify_accept_def safe_def)
    next
      case r2: (Inr r2)
      obtain r w2 where w2: "r2 = (r, w2)" by fastforce
      note s2 = listen_ok[OF r2[unfolded w2]]
      have i2: "cache_inv w2" "outstanding q w2 = 0" "cache_view w2 q = Some (True, False)"
        using same_cache_inv[OF s2] i1 s2 unfolding same_cache_def by simp_all
      define w3 where "w3 = user (NpAccept q) w2"
      note u = handlers_okD[OF user]
      have v3: "cache_view w3 q = Some (True, True)" using u(5)[of q w2] i2(3) by (simp add: w3_def)
      have "q < npw_next w2" using live_below_next[OF i2(1), of q] i2(3) by simp
      then have i3: "cache_inv w3 \<and> outstanding q w3 = 0"
        using cache_inv_quiet[OF i2(1,2), of w3] u by (simp add: w3_def)
      show ?thesis
      proof (cases "wait_for_connection (e_wait_again env) p w3")
        case (Inl f)
        then show ?thesis using acc Inr r1 r2 w2 wait_fault[OF Inl]
          by (simp add: notify_accept_def safe_def w3_def)
      next
        case r4: (Inr r4)
        obtain r' w4 where w4: "r4 = (r', w4)" by fastforce
        note s4 = same_cache_wait[OF r4[unfolded w4]]
        have "safe (trigger_async_cache_read (e_read env) q w4)"
          by (rule trigger_safe) (use same_cache_inv[OF s4] i3 v3 s4 in \<open>simp_all add: same_cache_def\<close>)
        then show ?thesis using acc Inr r1 r2 w2 r4 w4 by (simp add: notify_accept_def w3_def)
      qed
    qed
  qed
qed

text \<open>A completion that has been taken from where it was waiting.\<close>

definition taken :: "completion \<Rightarrow> np_world \<Rightarrow> bool" where
  "taken g w \<longleftrightarrow> cache_inv w \<and>
     (\<forall>p k. g_ov g = Some (p, k) \<longrightarrow> k = OvCache \<or> k = OvError \<longrightarrow>
        g_count g \<le> 1 \<and> outstanding p w = 0 \<and> cache_view w p = Some (True, True))"

lemma taken_same: "taken g w \<Longrightarrow> same_cache w w' \<Longrightarrow> taken g w'"
  using same_cache_inv[of w w'] unfolding taken_def same_cache_def by metis

lemma np_notify_safe:
  assumes user: "handlers_ok user" and t: "taken g w" and ov: "g_ov g = Some ov"
  shows "safe (np_notify user env p e (g_count g) ov w)"
proof (cases "npw_conns w p")
  case None
  then show ?thesis by (simp add: np_notify_def safe_def cache_fault_def)
next
  case (Some c)
  have inv: "cache_inv w" using t by (simp add: taken_def)
  show ?thesis
  proof (cases "ov = (p, OvCache) \<or> ov = (p, OvError)")
    case True
    then have "g_count g \<le> 1 \<and> outstanding p w = 0 \<and> cache_view w p = Some (True, True)"
      using t ov unfolding taken_def by blast
    then have "safe (notify_cache user env p c e (g_count g) (snd ov) w)"
      using Some by (intro notify_cache_safe[OF user inv]) (simp_all add: cache_view_def)
    then show ?thesis using True Some by (auto simp: np_notify_def)
  next
    case False
    then show ?thesis using Some inv notify_accept_safe[OF user inv]
      by (auto simp: np_notify_def safe_def)
  qed
qed

lemma safe_round_simps:
  "safe_round RoundBreak" "safe_round (RoundNext w) = cache_inv w"
  "safe_round (RoundFault DeadObject)" "safe_round (RoundFault NullAssert)"
  by (simp_all add: safe_round_def cache_fault_def)

lemma safe_round_of: "safe r \<Longrightarrow> safe_round (case r of Inl f \<Rightarrow> RoundFault f | Inr w1 \<Rightarrow> RoundNext w1)"
  by (cases r) (simp_all add: safe_def safe_round_def)

lemma np_round_safe:
  assumes "handlers_ok user" "taken g w"
  shows "safe_round (np_round user env g w)"
proof -
  have inv: "cache_inv w" using assms(2) by (simp add: taken_def)
  have n: "safe (np_notify user env p e (g_count g) ov (w\<lparr>npw_svc := svc\<rparr>))" if "g_ov g = Some ov" for p e ov svc
    by (rule np_notify_safe[OF assms(1) taken_same[OF assms(2)] that]) simp
  show ?thesis
    unfolding np_round_def Let_def
    by (auto simp: inv safe_round_simps intro!: safe_round_of n split: option.splits prod.splits)
qed

lemma length_filter_remove1:
  "x \<in> set xs \<Longrightarrow> length (filter P (remove1 x xs)) = length (filter P xs) - (if P x then 1 else 0)"
  by (simp add: filter_remove1 length_remove1)

lemma end_async_fields [simp]:
  "cache_view (end_async x w) = cache_view w" "npw_next (end_async x w) = npw_next w"
  "npw_posted (end_async x w) = npw_posted w"
  by (simp_all add: end_async_def cache_view_def fun_eq_iff)

lemma async_counted:
  assumes "(h, p, OvCache) \<in> set (npw_async w)"
  shows "filter (\<lambda>x. snd x = (p, OvCache)) (npw_async w) \<noteq> []"
  using assms by (auto simp: filter_empty_conv intro!: bexI[of _ "(h, p, OvCache)"])

lemma outstanding_end_async:
  assumes "(h, p, k) \<in> set (npw_async w)"
  shows "outstanding q (end_async (h, p, k) w) = outstanding q w - (if k = OvCache \<and> q = p then 1 else 0)"
proof -
  have le: "k = OvCache \<and> q = p \<Longrightarrow> 1 \<le> length (filter (\<lambda>x. snd x = (q, OvCache)) (npw_async w))"
    using async_counted[of h p w] assms by (cases "filter (\<lambda>x. snd x = (q, OvCache)) (npw_async w)") auto
  then show ?thesis
    using length_filter_remove1[OF assms, of "\<lambda>x. snd x = (q, OvCache)"]
    unfolding outstanding_def end_async_def by auto
qed

lemma cache_inv_fewer:
  assumes "cache_inv w" "cache_view w' = cache_view w" "npw_next w' = npw_next w"
    and "\<And>q. outstanding q w' \<le> outstanding q w" "set (npw_posted w') \<subseteq> set (npw_posted w)"
  shows "cache_inv w'"
proof -
  have "cache_ok (cache_view w q) (outstanding q w')" for q
    using assms(1) assms(4)[of q] unfolding cache_inv_def cache_ok_def by (metis le_antisym le_trans)
  then show ?thesis using assms(1,2,3,5) unfolding cache_inv_def by auto
qed

lemma taken_async:
  assumes inv: "cache_inv w" and i: "(h, p, k) \<in> set (npw_async w)" and "k = OvCache \<and> n \<le> 1 \<or> k = OvWaitConn"
  shows "taken (delivery e n h (p, k)) (end_async (h, p, k) w)"
proof -
  have "cache_inv (end_async (h, p, k) w)"
    by (rule cache_inv_fewer[OF inv]) (simp_all add: outstanding_end_async[OF i])
  moreover have "outstanding p (end_async (h, p, k) w) = 0 \<and> cache_view w p = Some (True, True)" if "k = OvCache"
  proof -
    have "outstanding p w \<noteq> 0"
      using i that async_counted[of h p w] by (simp add: outstanding_def)
    moreover have "cache_ok (cache_view w p) (outstanding p w)" using inv by (simp add: cache_inv_def)
    ultimately show ?thesis using that outstanding_end_async[OF i, of p] by (auto simp: cache_ok_def le_Suc_eq)
  qed
  ultimately show ?thesis using assms(3) by (auto simp: taken_def delivery_def)
qed

lemma taken_posted:
  assumes inv: "cache_inv w" and p: "npw_posted w = g # gs"
  shows "taken g (w\<lparr>npw_posted := gs\<rparr>)"
proof -
  let ?w = "w\<lparr>npw_posted := gs\<rparr>"
  have o: "outstanding q ?w = outstanding q w - (if g_ov g = Some (q, OvCache) \<or> g_ov g = Some (q, OvError) then 1 else 0)" for q
    using p by (auto simp: outstanding_def)
  have v: "cache_view ?w = cache_view w" by (simp add: cache_view_def fun_eq_iff)
  have "cache_inv ?w"
    by (rule cache_inv_fewer[OF inv v]) (auto simp: o p)
  moreover have "outstanding q ?w = 0 \<and> cache_view w q = Some (True, True)"
    if "g_ov g = Some (q, k)" "k = OvCache \<or> k = OvError" for q k
  proof -
    have "outstanding q w \<noteq> 0" using that p by (auto simp: outstanding_def)
    moreover have "cache_ok (cache_view w q) (outstanding q w)" using inv by (simp add: cache_inv_def)
    ultimately show ?thesis using that by (auto simp: cache_ok_def o le_Suc_eq)
  qed
  moreover have "g_count g \<le> 1" using inv p by (simp add: cache_inv_def)
  ultimately show ?thesis by (auto simp: taken_def v)
qed

lemma np_event_safe:
  assumes "handlers_ok user" "cache_inv w" "np_event user w r"
  shows "safe_round r"
  using assms(3)
proof (cases rule: np_event.cases)
  case (byte_read h p env b)
  have "same_cache (end_async (h, p, OvCache) w)
      (npc_update p (\<lambda>c. c\<lparr>m_cache_byte0 := b\<rparr>) (end_async (h, p, OvCache) w))"
    by (rule same_cache_update) (simp add: cache_state_def)
  then show ?thesis unfolding byte_read(1)
    by (intro np_round_safe[OF assms(1)] taken_same[OF taken_async[OF assms(2) byte_read(2)]]) simp_all
next
  case (read_fails h p e env)
  then show ?thesis
    using np_round_safe[OF assms(1) taken_async[OF assms(2) read_fails(2), of 0]] by simp
next
  case (accepted h p env e n)
  then show ?thesis
    using np_round_safe[OF assms(1) taken_async[OF assms(2) accepted(2)]] by simp
next
  case (queued g gs env)
  then show ?thesis using np_round_safe[OF assms(1) taken_posted[OF assms(2) queued(2)]] by simp
next
  case (thread_reads p)
  have "cache_view (npc_update p (\<lambda>c. c\<lparr>m_cache_empty := True\<rparr>) w) =
      (cache_view w)(p := map_option (\<lambda>(_, r). (True, r)) (cache_view w p))"
    by (rule cache_view_update) (simp add: cache_state_def)
  then have "cache_inv (npc_update p (\<lambda>c. c\<lparr>m_cache_empty := True\<rparr>) w)"
    using assms(2) unfolding cache_inv_def cache_ok_def by auto
  then show ?thesis by (simp add: thread_reads safe_round_def)
qed

section \<open>The server in \<open>main\<close>\<close>

text \<open>Server mode on Windows: the acceptor is created for the name, gets its handler and listens.\<close>

definition npw0 :: np_world where
  "npw0 = \<lparr>npw_svc = io_service_new (\<lambda>_. None), npw_conns = (\<lambda>_. None), npw_next = 1,
           npw_async = [], npw_posted = [], npw_port = [], npw_closed = []\<rparr>"

definition pipe_name :: string where
  "pipe_name = [CHR 0x5C, CHR 0x5C] @ ''.'' @ [CHR 0x5C] @ ''pipe'' @ [CHR 0x5C] @ ''mynamedpipe''"

definition np_server_start :: "handle \<Rightarrow> 64 word \<Rightarrow> np_env \<Rightarrow> np_fault + np_world" where
  "np_server_start memory_h memory_ev env =
     (let (p, w1) = np_ctor_name memory_h memory_ev pipe_name npw0
      in case np_listen env p (npc_update p (\<lambda>c. c\<lparr>np_on_accept := True\<rparr>) w1) of
           Inl f \<Rightarrow> Inl f
         | Inr (r, w2) \<Rightarrow> Inr w2)"

text \<open>The handlers of the server, of what they do the part that concerns the connections: \<open>on_read\<close> reads at least
  the cached byte, unless it is called with an error, with which no byte has come. What it prints and answers, its early
  returns and exception and the server's list of connections are left out.\<close>

fun np_server_handlers :: np_user where
  "np_server_handlers (NpRead p ec) w = npc_update p (\<lambda>c. c\<lparr>m_cache_empty := True\<rparr>) w"
| "np_server_handlers (NpAccept p) w = npc_update p (\<lambda>c. c\<lparr>np_on_close := True, np_on_read := True\<rparr>) w"
| "np_server_handlers (NpClose p) w = np_delete p w"

lemma np_delete_fields:
  "npw_async (np_delete p w) = npw_async w" "npw_posted (np_delete p w) = npw_posted w"
  "npw_next (np_delete p w) = npw_next w"
  "q \<noteq> p \<Longrightarrow> npw_conns (np_delete p w) q = npw_conns w q"
  by (simp_all add: np_delete_def np_close_def np_unassociate_def npc_update_def Let_def split: option.splits)

lemma np_server_handlers_ok: "handlers_ok np_server_handlers"
  unfolding handlers_ok_def Let_def
proof (intro allI)
  fix call :: np_call and w :: np_world
  have "cache_view (npc_update p (\<lambda>c. c\<lparr>m_cache_empty := True\<rparr>) w) =
      (cache_view w)(p := map_option (\<lambda>(_, r). (True, r)) (cache_view w p))" for p
    by (rule cache_view_update) (simp add: cache_state_def)
  moreover have "cache_view (npc_update p (\<lambda>c. c\<lparr>np_on_close := True, np_on_read := True\<rparr>) w) =
      (cache_view w)(p := map_option (\<lambda>(e, _). (e, True)) (cache_view w p))" for p
    by (rule cache_view_update) (simp add: cache_state_def)
  ultimately show "npw_async (np_server_handlers call w) = npw_async w \<and>
      npw_posted (np_server_handlers call w) = npw_posted w \<and>
      npw_next (np_server_handlers call w) = npw_next w \<and>
      (case call of
         NpRead p e \<Rightarrow> cache_view (np_server_handlers call w) =
           (cache_view w)(p := map_option (\<lambda>(_, r). (True, r)) (cache_view w p))
       | NpAccept p \<Rightarrow> cache_view (np_server_handlers call w) =
           (cache_view w)(p := map_option (\<lambda>(e, _). (e, True)) (cache_view w p))
       | NpClose p \<Rightarrow> \<forall>q. q \<noteq> p \<longrightarrow> cache_view (np_server_handlers call w) q = cache_view w q)"
    by (cases call) (simp_all add: np_delete_fields cache_view_def)
qed

lemma np_server_start_inv: "np_server_start h ev env = Inr w \<Longrightarrow> cache_inv w"
proof -
  assume s: "np_server_start h ev env = Inr w"
  define w1 where "w1 = snd (np_ctor_name h ev pipe_name npw0)"
  define w2 where "w2 = npc_update 1 (\<lambda>c. c\<lparr>np_on_accept := True\<rparr>) w1"
  obtain r where l: "np_listen env 1 w2 = Inr (r, w)"
    using s by (auto simp: np_server_start_def np_ctor_name_def npw0_def Let_def w1_def w2_def split: sum.splits prod.splits)
  have "cache_inv w1"
    by (auto simp: w1_def np_ctor_name_def npw0_def cache_inv_def cache_ok_def outstanding_def cache_view_def)
  moreover have "same_cache w1 w2"
    unfolding w2_def by (rule same_cache_update) (simp add: cache_state_def)
  ultimately show ?thesis using same_cache_inv listen_ok[OF l] by blast
qed

text \<open>One step of the system: an event whose round goes on.\<close>

definition np_step :: "np_user \<Rightarrow> np_world \<Rightarrow> np_world \<Rightarrow> bool" where
  "np_step user w w' \<longleftrightarrow> handlers_ok user \<and> np_event user w (RoundNext w')"

interpretation np_protocol: invariant_system "\<lambda>w. \<exists>h ev env. np_server_start h ev env = Inr w"
  "np_step user" cache_inv for user
proof (unfold_locales, goal_cases)
  case (1 s)
  then show ?case using np_server_start_inv by blast
next
  case (2 s t)
  then show ?case using np_event_safe[of user s "RoundNext t"] by (simp add: np_step_def safe_round_def)
qed

text \<open>C12: the cache protocol of the named pipe connections: from the start of the server, for any
  order of completions, queued entries and reads of other threads and any answers of the
  system, no assertion about the cache, the count or unread data ever fails, as long as the
  handlers do their part; and a connection never has two notifications about its cache to come,
  nor one while a byte is in the cache, so that no byte is overwritten.\<close>

theorem np_cache_protocol:
  assumes "np_server_start h ev env = Inr w" "(np_step user)\<^sup>*\<^sup>* w w'"
    and "handlers_ok user" "np_event user w' r"
  shows "r \<notin> RoundFault ` {CountAssert, UnreadAssert, CacheAssert} \<and>
    (\<forall>p. outstanding p w' = 0 \<or>
         (outstanding p w' = 1 \<and> (\<exists>c. npw_conns w' p = Some c \<and> m_cache_empty c)))"
proof -
  have inv: "cache_inv w'" using np_protocol.reach_inv[OF assms(2)] assms(1) by blast
  have "safe_round r" by (rule np_event_safe[OF assms(3) inv assms(4)])
  then have "r \<notin> RoundFault ` {CountAssert, UnreadAssert, CacheAssert}"
    by (auto simp: safe_round_def cache_fault_def)
  moreover have "outstanding p w' = 0 \<or>
      (outstanding p w' = 1 \<and> (\<exists>c. npw_conns w' p = Some c \<and> m_cache_empty c))" for p
  proof -
    have "cache_ok (cache_view w' p) (outstanding p w')" using inv by (simp add: cache_inv_def)
    then show ?thesis by (auto simp: cache_ok_def cache_view_def cache_state_def le_Suc_eq)
  qed
  ultimately show ?thesis by blast
qed

definition demo_np_env :: np_env where
  "demo_np_env = \<lparr>e_pipe = Inr 8, e_port_adopt = True, e_port_listen = True, e_wait_listen = Some 997,
     e_wait_again = Some 535, e_read = None, e_memory = 0\<rparr>"

theorem np_cache_protocol_witness:
  "\<exists>w r. np_event np_server_handlers w r \<and>
    r \<notin> RoundFault ` {CountAssert, UnreadAssert, CacheAssert} \<and>
    (outstanding 1 w = 0 \<or> (outstanding 1 w = 1 \<and> (\<exists>c. npw_conns w 1 = Some c \<and> m_cache_empty c)))"
proof -
  obtain w where w: "np_server_start 0 0 demo_np_env = Inr w"
    by (simp add: np_server_start_def np_ctor_name_def npw0_def np_listen_def demo_np_env_def np_associate_def
        INVALID_OS_HANDLE_def wait_for_connection_def np_fresh_def ERROR_PIPE_CONNECTED_def
        ERROR_IO_PENDING_def npc_update_def
        Let_def case_prod_beta svc_get_def as_ulong_def io_service_new_def fast_size_def)
  note e = thread_reads[of np_server_handlers w 1]
  from np_cache_protocol[OF w rtranclp.rtrancl_refl np_server_handlers_ok e] e show ?thesis by blast
qed

section \<open>Accepting a client\<close>

lemma svc_get_cases:
  obtains svc where "svc_get h s = (svc_lookup s h, svc)" "svc_lookup svc = svc_lookup s"
  using svc_get_pair[of h s] svc_lookup_get[of h s] by blast

lemma associate_ok:
  assumes "h \<noteq> INVALID_OS_HANDLE" "svc_lookup (npw_svc w) h = None \<longrightarrow> ok"
  obtains w' where "np_associate ok h p w = Inr w'" "npw_conns w' = npw_conns w" "npw_next w' = npw_next w"
    "npw_async w' = npw_async w" "npw_posted w' = npw_posted w"
    "svc_lookup (npw_svc w') = (svc_lookup (npw_svc w))(h := Some p)"
proof -
  obtain svc where g: "svc_get h (npw_svc w) = (svc_lookup (npw_svc w) h, svc)"
    "svc_lookup svc = svc_lookup (npw_svc w)"
    by (rule svc_get_cases)
  show thesis
  proof (cases "svc_lookup (npw_svc w) h")
    case None
    with assms g show thesis
      by (intro that[of "w\<lparr>npw_svc := svc_set h (Some p) svc, npw_port := npw_port w @ [h]\<rparr>"])
        (simp_all add: np_associate_def Let_def svc_lookup_set)
  next
    case (Some q)
    with assms g show thesis
      by (intro that[of "w\<lparr>npw_svc := svc_set h (Some p) svc\<rparr>"])
        (simp_all add: np_associate_def Let_def svc_lookup_set)
  qed
qed

lemma wait_ok:
  assumes "npw_conns w p = Some c" "m_oshd c \<noteq> INVALID_OS_HANDLE"
  obtains r w' where "wait_for_connection ans p w = Inr (r, w')" "npw_conns w' = npw_conns w"
    "npw_next w' = npw_next w" "npw_svc w' = npw_svc w"
  using assms
  by (cases "wait_for_connection ans p w")
    (auto simp: wait_for_connection_def start_async_def post_def split: option.splits if_splits)

lemma trigger_ok:
  assumes "npw_conns w p = Some c" "m_cache_empty c"
  obtains w' d where "trigger_async_cache_read ans p w = Inr w'" "npw_svc w' = npw_svc w"
    "\<And>q. q \<noteq> p \<Longrightarrow> npw_conns w' q = npw_conns w q"
    "npw_conns w' p = Some d" "m_oshd d = m_oshd c" "np_on_read d = np_on_read c" "np_on_close d = np_on_close c"
  using assms
  by (cases "trigger_async_cache_read ans p w")
    (auto simp: trigger_async_cache_read_def start_async_def post_def Let_def split: option.splits if_splits)

text \<open>A completion whose entry in the table is an object it does not belong to changes nothing.\<close>

lemma foreign_completion:
  assumes "svc_lookup (npw_svc w) (g_key g) = Some q" "npw_conns w q = Some d"
    and "g_ov g = Some (p, k)" "p \<noteq> q" "npw_conns w p = Some c" "g_success g"
  shows "\<exists>svc. np_round user env g w = RoundNext (w\<lparr>npw_svc := svc\<rparr>) \<and> svc_lookup svc = svc_lookup (npw_svc w)"
proof (cases "ov_hEvent w (p, k) = Some 0")
  case True
  obtain svc where g: "svc_get (g_key g) (npw_svc w) = (svc_lookup (npw_svc w) (g_key g), svc)"
    "svc_lookup svc = svc_lookup (npw_svc w)"
    by (rule svc_get_cases)
  have "np_round user env g w = RoundNext (w\<lparr>npw_svc := svc\<rparr>)"
    using assms True g(1) by (simp add: np_round_def np_notify_def)
  then show ?thesis using g(2) by blast
next
  case False
  then have "np_round user env g w = RoundNext w"
    using assms by (auto simp: np_round_def ov_hEvent_def)
  then show ?thesis by (intro exI[of _ "npw_svc w"]) simp
qed

lemma notify_accept_ok:
  assumes c: "npw_conns w p = Some c" "np_on_accept c" "m_oshd c = h" "p < npw_next w"
    and h: "h \<noteq> INVALID_OS_HANDLE" "svc_lookup (npw_svc w) h = Some p"
    and env: "e_pipe env = Inr h'" "h' \<noteq> INVALID_OS_HANDLE" "h' \<noteq> h" "e_port_listen env"
  shows "\<exists>w' d d'. notify_accept np_server_handlers env p c w = Inr w' \<and>
    npw_conns w' (npw_next w) = Some d \<and> m_oshd d = h \<and> np_on_read d \<and> np_on_close d \<and>
    npw_conns w' p = Some d' \<and> m_oshd d' = h' \<and>
    svc_lookup (npw_svc w') = (svc_lookup (npw_svc w))(h := Some (npw_next w), h' := Some p)"
proof -
  define q where "q = npw_next w"
  define w0 where "w0 = w\<lparr>npw_conns := (npw_conns w)(q := Some (np_fresh h (e_memory env) [])), npw_next := Suc q\<rparr>"
  obtain w1 where w1: "np_associate (e_port_adopt env) h q w0 = Inr w1" "npw_conns w1 = npw_conns w0"
    "svc_lookup (npw_svc w1) = (svc_lookup (npw_svc w0))(h := Some q)"
    using associate_ok[OF h(1), of w0 "e_port_adopt env" q] h(2) by (auto simp: w0_def)
  have ctor: "np_ctor_handle (e_port_adopt env) h (e_memory env) w = Inr (q, w1)"
    using w1(1) by (simp add: np_ctor_handle_def Let_def w0_def q_def)
  define w2 where "w2 = npc_update p (\<lambda>c. c\<lparr>m_oshd := h'\<rparr>) w1"
  obtain w3 where w3: "np_associate (e_port_listen env) h' p w2 = Inr w3" "npw_conns w3 = npw_conns w2"
    "svc_lookup (npw_svc w3) = (svc_lookup (npw_svc w2))(h' := Some p)"
    using associate_ok[OF env(2), of w2 "e_port_listen env" p] env(4) by blast
  have pq: "p \<noteq> q" using c(4) by (simp add: q_def)
  have p3: "npw_conns w3 p = Some (c\<lparr>m_oshd := h'\<rparr>)"
    using c(1) pq w1(2) w3(2) by (simp add: w2_def w0_def)
  have q3: "npw_conns w3 q = Some (np_fresh h (e_memory env) [])"
    using pq w1(2) w3(2) by (simp add: w2_def w0_def)
  have hv: "m_oshd (c\<lparr>m_oshd := h'\<rparr>) \<noteq> INVALID_OS_HANDLE" using env(2) by simp
  obtain r4 w4 where w4: "wait_for_connection (e_wait_listen env) p w3 = Inr (r4, w4)"
    "npw_conns w4 = npw_conns w3" "npw_next w4 = npw_next w3" "npw_svc w4 = npw_svc w3"
    by (rule wait_ok[OF p3 hv])
  have listen: "np_listen env p w1 = Inr (0, w4)"
    using env(1) w3(1) w4(1) by (simp add: np_listen_def w2_def)
  define w5 where "w5 = np_server_handlers (NpAccept q) w4"
  have p5: "npw_conns w5 p = Some (c\<lparr>m_oshd := h'\<rparr>)" using p3 w4(2) pq by (simp add: w5_def)
  have q5: "npw_conns w5 q = Some ((np_fresh h (e_memory env) [])\<lparr>np_on_close := True, np_on_read := True\<rparr>)"
    using q3 w4(2) by (simp add: w5_def)
  obtain r6 w6 where w6: "wait_for_connection (e_wait_again env) p w5 = Inr (r6, w6)"
    "npw_conns w6 = npw_conns w5" "npw_next w6 = npw_next w5" "npw_svc w6 = npw_svc w5"
    by (rule wait_ok[OF p5 hv])
  have q6: "npw_conns w6 q = Some ((np_fresh h (e_memory env) [])\<lparr>np_on_close := True, np_on_read := True\<rparr>)"
    using q5 w6(2) by simp
  define c6 where "c6 = (np_fresh h (e_memory env) [])\<lparr>np_on_close := True, np_on_read := True\<rparr>"
  have c6: "m_cache_empty c6" "m_oshd c6 = h" "np_on_read c6" "np_on_close c6" by (simp_all add: c6_def np_fresh_def)
  obtain w7 d where t7: "trigger_async_cache_read (e_read env) q w6 = Inr w7" "npw_svc w7 = npw_svc w6"
    "\<And>r. r \<noteq> q \<Longrightarrow> npw_conns w7 r = npw_conns w6 r" "npw_conns w7 q = Some d"
    "m_oshd d = m_oshd c6" "np_on_read d = np_on_read c6" "np_on_close d = np_on_close c6"
    by (rule trigger_ok[OF q6[folded c6_def] c6(1), where ans = "e_read env"]) blast
  have w7: "trigger_async_cache_read (e_read env) q w6 = Inr w7" "npw_svc w7 = npw_svc w6"
    "npw_conns w7 p = npw_conns w6 p" "npw_conns w7 q = Some d" "m_oshd d = h" "np_on_read d" "np_on_close d"
    using t7(1,2,4-7) t7(3)[OF pq] c6(2-4) by simp_all
  have "svc_lookup (npw_svc w7) = (svc_lookup (npw_svc w))(h := Some q, h' := Some p)"
    using w7(2) w6(4) w4(4) w3(3) w1(3) by (simp add: w5_def w2_def w0_def)
  moreover have "notify_accept np_server_handlers env p c w = Inr w7"
    using c(2,3) ctor listen w6(1) w7(1) by (simp add: notify_accept_def w5_def)
  ultimately show ?thesis using w7(3-7) p5 w6(2) unfolding q_def by auto
qed

text \<open>Accepting over named pipes: one completion of \<open>ConnectNamedPipe\<close> moves the listener's handle
  to a new connection, which the table then names for it, and gives the listener another
  instance under its own entry; the two calls of \<open>ConnectNamedPipe\<close> that one accept makes, in
  \<open>listen\<close> and again in \<open>notify\<close>, are harmless, because a further completion for the handle that
  was handed over reaches the new connection, which ignores it.\<close>

theorem np_accept_once:
  assumes "npw_conns w p = Some c" "np_on_accept c" "m_oshd c = h" "p < npw_next w"
    and "h \<noteq> INVALID_OS_HANDLE" "svc_lookup (npw_svc w) h = Some p" "m_waitconn_hEvent c = 0"
    and "e_pipe env = Inr h'" "h' \<noteq> INVALID_OS_HANDLE" "h' \<noteq> h" "e_port_listen env"
  shows "\<exists>w' d d'. np_round np_server_handlers env (delivery 0 n h (p, OvWaitConn)) w = RoundNext w' \<and>
    npw_conns w' (npw_next w) = Some d \<and> m_oshd d = h \<and> np_on_read d \<and> np_on_close d \<and>
    npw_conns w' p = Some d' \<and> m_oshd d' = h' \<and>
    svc_lookup (npw_svc w') h = Some (npw_next w) \<and> svc_lookup (npw_svc w') h' = Some p \<and>
    (\<forall>env2 n2. \<exists>svc. np_round np_server_handlers env2 (delivery 0 n2 h (p, OvWaitConn)) w' =
        RoundNext (w'\<lparr>npw_svc := svc\<rparr>) \<and> svc_lookup svc = svc_lookup (npw_svc w'))"
proof -
  obtain svc where g: "svc_get h (npw_svc w) = (svc_lookup (npw_svc w) h, svc)"
    "svc_lookup svc = svc_lookup (npw_svc w)"
    by (rule svc_get_cases)
  define w0 where "w0 = w\<lparr>npw_svc := svc\<rparr>"
  have lk: "svc_lookup (npw_svc w0) = svc_lookup (npw_svc w)" by (simp add: w0_def g(2))
  obtain w' d d' where n: "notify_accept np_server_handlers env p c w0 = Inr w'"
    "npw_conns w' (npw_next w) = Some d" "m_oshd d = h" "np_on_read d" "np_on_close d"
    "npw_conns w' p = Some d'" "m_oshd d' = h'"
    "svc_lookup (npw_svc w') = (svc_lookup (npw_svc w))(h := Some (npw_next w), h' := Some p)"
    using notify_accept_ok[of w0 p c h env h'] assms(1-6,8-11) lk by (auto simp: w0_def)
  have "np_round np_server_handlers env (delivery 0 n h (p, OvWaitConn)) w = RoundNext w'"
    using n(1) assms(1,6,7)
    by (simp add: np_round_def delivery_def ov_hEvent_def g(1) np_notify_def w0_def)
  moreover have "\<exists>svc. np_round np_server_handlers env2 (delivery 0 n2 h (p, OvWaitConn)) w' =
        RoundNext (w'\<lparr>npw_svc := svc\<rparr>) \<and> svc_lookup svc = svc_lookup (npw_svc w')" for env2 n2
    using n(2,6,8) assms(4,10)
    by (intro foreign_completion[where q = "npw_next w" and p = p and k = OvWaitConn]) (auto simp: delivery_def)
  ultimately show ?thesis using n(2-8) assms(10) by auto
qed

definition demo_listener :: np_conn where
  "demo_listener = (np_fresh 5 0 pipe_name)\<lparr>np_on_accept := True\<rparr>"

definition demo_listening :: np_world where
  "demo_listening = npw0\<lparr>npw_conns := [1 \<mapsto> demo_listener], npw_next := 2,
     npw_svc := svc_set 5 (Some 1) (npw_svc npw0)\<rparr>"

theorem np_accept_once_witness:
  "\<exists>w' d d'. np_round np_server_handlers demo_np_env (delivery 0 0 5 (1, OvWaitConn)) demo_listening = RoundNext w' \<and>
    npw_conns w' (npw_next demo_listening) = Some d \<and> m_oshd d = 5 \<and> np_on_read d \<and> np_on_close d \<and>
    npw_conns w' 1 = Some d' \<and> m_oshd d' = 8 \<and>
    svc_lookup (npw_svc w') 5 = Some (npw_next demo_listening) \<and> svc_lookup (npw_svc w') 8 = Some 1 \<and>
    (\<forall>env2 n2. \<exists>svc. np_round np_server_handlers env2 (delivery 0 n2 5 (1, OvWaitConn)) w' =
        RoundNext (w'\<lparr>npw_svc := svc\<rparr>) \<and> svc_lookup svc = svc_lookup (npw_svc w'))"
proof (rule np_accept_once[where c = demo_listener])
  show "svc_lookup (npw_svc demo_listening) 5 = Some 1"
    by (simp add: demo_listening_def svc_lookup_set)
qed (simp_all add: demo_listening_def demo_listener_def np_fresh_def demo_np_env_def INVALID_OS_HANDLE_def)

section \<open>Members that are not initialised\<close>

text \<open>Two members start as the memory was, with these effects: a connection that was created for
  a name and is deleted before it listens or connects closes whatever handle \<open>m_oshd\<close> happened to
  hold, and takes the live connection with that handle out of the table; and a listener whose
  \<open>m_waitconn_overlapped\<close> has a nonzero \<open>hEvent\<close> never sees its clients, because \<open>run\<close> takes the
  completions for synchronous ones.\<close>

theorem np_uninitialised_members:
  assumes "svc_lookup (npw_svc w) h = Some q" "h \<noteq> INVALID_OS_HANDLE"
    and "npw_conns w p = Some c" "m_waitconn_hEvent c \<noteq> 0"
  shows "(let (r, w1) = np_ctor_name h ev name w; w2 = np_delete r w1
          in svc_lookup (npw_svc w2) h = None \<and> h \<in> set (npw_closed w2)) \<and>
    np_round user env (delivery 0 n k (p, OvWaitConn)) w = RoundNext w"
proof
  show "let (r, w1) = np_ctor_name h ev name w; w2 = np_delete r w1
          in svc_lookup (npw_svc w2) h = None \<and> h \<in> set (npw_closed w2)"
    using assms(2)
    by (simp add: np_ctor_name_def np_delete_def np_close_def np_unassociate_def np_fresh_def
        npc_update_def svc_lookup_erase)
  show "np_round user env (delivery 0 n k (p, OvWaitConn)) w = RoundNext w"
    using assms(3,4) by (simp add: np_round_def delivery_def ov_hEvent_def)
qed

theorem np_uninitialised_members_witness:
  "let w = demo_listening\<lparr>npw_conns := [1 \<mapsto> demo_listener\<lparr>m_waitconn_hEvent := 3\<rparr>]\<rparr>
   in (let (r, w1) = np_ctor_name 5 0 [] w; w2 = np_delete r w1
       in svc_lookup (npw_svc w2) 5 = None \<and> 5 \<in> set (npw_closed w2)) \<and>
    np_round np_server_handlers demo_np_env (delivery 0 0 5 (1, OvWaitConn)) w = RoundNext w"
  unfolding Let_def[of "demo_listening\<lparr>npw_conns := [1 \<mapsto> demo_listener\<lparr>m_waitconn_hEvent := 3\<rparr>]\<rparr>"]
  by (rule np_uninitialised_members[where q = 1 and c = "demo_listener\<lparr>m_waitconn_hEvent := 3\<rparr>"])
    (simp_all add: demo_listening_def svc_lookup_set INVALID_OS_HANDLE_def)

end
