(* ===== verification/Pipeline.thy ===== *)
theory Pipeline
  imports Prelude
begin

text \<open>
  Test 4 of \<open>tthreads.cpp\<close>: frames go through a detector, every fourth of them, and a tracker; each
  is a \<open>ThreadPool\<close> with one worker and room for ten tasks. A task of the tracker waits for the
  future of the task before it and for that of its detection. A pool is its queue and its
  worker here: tasks start in order, \<open>enqueue\<close> waits for room, as theory \<open>ThreadPool\<close> shows.
  The model ends when all results are in, before \<open>stop_all\<close> and the destructors of the pools, which theory
  \<open>ThreadPool\<close> covers.
\<close>

section \<open>The state\<close>

definition task_cnt :: nat where "task_cnt = 20"
definition work_limits :: nat where "work_limits = 10"

text \<open>A call \<open>track(fid, prev, det)\<close>; None is a default constructed future, for which \<open>valid()\<close> is false.\<close>

record track_task =
  tk_fid :: nat
  tk_prev :: "nat option"
  tk_det :: "nat option"

text \<open>
  \<open>pp_i\<close> is the loop counter of \<open>test4\<close>, \<open>pp_fdet\<close> the variable \<open>fdet\<close> once it is assigned in a round;
  \<open>pp_detected\<close> and \<open>pp_tracked\<close> are the frames whose futures are ready, in the order in which they
  became so; \<open>pp_id\<close> is the member \<open>id\<close> of the tracker.
\<close>

record pipeline =
  pp_i :: nat
  pp_fdet :: "nat option option"
  pp_got :: bool
  pp_dqueue :: "nat list"
  pp_dworker :: "nat option"
  pp_detected :: "nat list"
  pp_tqueue :: "track_task list"
  pp_tworker :: "track_task option"
  pp_tracked :: "nat list"
  pp_id :: nat

definition pipeline0 :: pipeline where
  "pipeline0 = \<lparr>pp_i = 0, pp_fdet = None, pp_got = False, pp_dqueue = [], pp_dworker = None, pp_detected = [],
     pp_tqueue = [], pp_tworker = None, pp_tracked = [], pp_id = 0\<rparr>"

text \<open>\<open>get()\<close> of a future that may be invalid, in which case it is not called.\<close>

definition ready :: "nat list \<Rightarrow> nat option \<Rightarrow> bool" where
  "ready fs f \<longleftrightarrow> (case f of None \<Rightarrow> True | Some k \<Rightarrow> k \<in> set fs)"

text \<open>\<open>fprev\<close> is the future of the previous round.\<close>

definition fprev :: "nat \<Rightarrow> nat option" where
  "fprev i = (if i = 0 then None else Some (i - 1))"

inductive pipe_step :: "pipeline \<Rightarrow> pipeline \<Rightarrow> bool" where
  enqueue_detect: "pp_i s < task_cnt \<Longrightarrow> pp_fdet s = None \<Longrightarrow> pp_i s mod 4 = 0 \<Longrightarrow> length (pp_dqueue s) < work_limits \<Longrightarrow>
    pipe_step s (s\<lparr>pp_dqueue := pp_dqueue s @ [pp_i s], pp_fdet := Some (Some (pp_i s))\<rparr>)"
| no_detect: "pp_i s < task_cnt \<Longrightarrow> pp_fdet s = None \<Longrightarrow> pp_i s mod 4 \<noteq> 0 \<Longrightarrow>
    pipe_step s (s\<lparr>pp_fdet := Some None\<rparr>)"
| enqueue_track: "pp_i s < task_cnt \<Longrightarrow> pp_fdet s = Some f \<Longrightarrow> length (pp_tqueue s) < work_limits \<Longrightarrow>
    pipe_step s (s\<lparr>pp_tqueue := pp_tqueue s @ [\<lparr>tk_fid = pp_i s, tk_prev = fprev (pp_i s), tk_det = f\<rparr>],
      pp_fdet := None, pp_i := Suc (pp_i s)\<rparr>)"
| get_last: "pp_i s = task_cnt \<Longrightarrow> \<not> pp_got s \<Longrightarrow> ready (pp_tracked s) (fprev (pp_i s)) \<Longrightarrow>
    pipe_step s (s\<lparr>pp_got := True\<rparr>)"
| start_detect: "pp_dworker s = None \<Longrightarrow> pp_dqueue s = d # ds \<Longrightarrow>
    pipe_step s (s\<lparr>pp_dworker := Some d, pp_dqueue := ds\<rparr>)"
| end_detect: "pp_dworker s = Some d \<Longrightarrow>
    pipe_step s (s\<lparr>pp_dworker := None, pp_detected := pp_detected s @ [d]\<rparr>)"
| start_track: "pp_tworker s = None \<Longrightarrow> pp_tqueue s = t # ts \<Longrightarrow>
    pipe_step s (s\<lparr>pp_tworker := Some t, pp_tqueue := ts\<rparr>)"
| end_track: "pp_tworker s = Some t \<Longrightarrow> ready (pp_tracked s) (tk_prev t) \<Longrightarrow> ready (pp_detected s) (tk_det t) \<Longrightarrow>
    pipe_step s (s\<lparr>pp_tworker := None, pp_tracked := pp_tracked s @ [tk_fid t], pp_id := Suc (pp_id s)\<rparr>)"

section \<open>The order of the tasks\<close>

definition task_of :: "nat \<Rightarrow> track_task" where
  "task_of k = \<lparr>tk_fid = k, tk_prev = fprev k, tk_det = (if k mod 4 = 0 then Some k else None)\<rparr>"

definition results_ready :: "nat list \<Rightarrow> nat list \<Rightarrow> bool" where
  "results_ready ts ds \<longleftrightarrow> (\<forall>k\<in>set ts. ready ds (tk_det (task_of k)))"

lemma ready_append: "ready fs f \<Longrightarrow> ready (fs @ gs) f"
  by (auto simp: ready_def split: option.splits)

lemma results_ready_simps [simp]:
  "results_ready [] ds" "results_ready (ts @ [k]) ds \<longleftrightarrow> results_ready ts ds \<and> ready ds (tk_det (task_of k))"
  by (auto simp: results_ready_def)

lemma results_ready_append: "results_ready ts ds \<Longrightarrow> results_ready ts (ds @ [d])"
  by (auto simp: results_ready_def ready_append)

text \<open>
  The tasks in the tracker, done, running and waiting, are those of the frames so far, in order; so
  are the detections, of every fourth frame. Nothing is got before it is there.
\<close>

definition pipe_inv :: "pipeline \<Rightarrow> bool" where
  "pipe_inv s \<longleftrightarrow> pp_i s \<le> task_cnt \<and> (pp_fdet s \<noteq> None \<longrightarrow> pp_i s < task_cnt) \<and>
     (\<forall>f. pp_fdet s = Some f \<longrightarrow> f = tk_det (task_of (pp_i s))) \<and>
     map task_of (pp_tracked s) @ (case pp_tworker s of None \<Rightarrow> [] | Some t \<Rightarrow> [t]) @ pp_tqueue s =
       map task_of [0..<pp_i s] \<and>
     pp_detected s @ (case pp_dworker s of None \<Rightarrow> [] | Some d \<Rightarrow> [d]) @ pp_dqueue s =
       filter (\<lambda>k. k mod 4 = 0) [0..<(if pp_fdet s = None then pp_i s else Suc (pp_i s))] \<and>
     pp_id s = length (pp_tracked s) \<and> results_ready (pp_tracked s) (pp_detected s) \<and>
     (pp_got s \<longrightarrow> pp_i s = task_cnt \<and> ready (pp_tracked s) (fprev task_cnt))"

lemma fid_task_of [simp]: "tk_fid (task_of k) = k" "tk_prev (task_of k) = fprev k"
  "tk_det (task_of k) = (if k mod 4 = 0 then Some k else None)"
  by (simp_all add: task_of_def)

lemma task_of_inject [simp]: "task_of k = task_of l \<longleftrightarrow> k = l"
  by (auto simp: task_of_def)

text \<open>The task that runs is one of the program's.\<close>

lemma running_task: "map task_of fs @ [t] @ ts = map task_of ks \<Longrightarrow> \<exists>k. t = task_of k"
proof -
  assume "map task_of fs @ [t] @ ts = map task_of ks"
  then have "t \<in> set (map task_of ks)" by (metis append_Cons in_set_conv_decomp)
  then show ?thesis by auto
qed

lemma pipe_inv_step: "pipe_step s t \<Longrightarrow> pipe_inv s \<Longrightarrow> pipe_inv t"
proof (induction rule: pipe_step.induct)
  case (enqueue_detect s)
  then show ?case by (auto simp: pipe_inv_def)
next
  case (no_detect s)
  then show ?case by (auto simp: pipe_inv_def)
next
  case (enqueue_track s f)
  then have "\<lparr>tk_fid = pp_i s, tk_prev = fprev (pp_i s), tk_det = f\<rparr> = task_of (pp_i s)"
    by (auto simp: pipe_inv_def task_of_def)
  then show ?case using enqueue_track by (auto simp: pipe_inv_def)
next
  case (end_track s t)
  then obtain k where "t = task_of k"
    using running_task[of "pp_tracked s" t "pp_tqueue s" "[0..<pp_i s]"] by (auto simp: pipe_inv_def)
  then show ?case using end_track by (auto simp: pipe_inv_def ready_append)
next
  case (end_detect s d)
  then show ?case using results_ready_append by (auto simp: pipe_inv_def)
qed (auto simp: pipe_inv_def split: option.splits)

section \<open>The program ends\<close>

text \<open>What is still to be done, in steps.\<close>

definition work_left :: "pipeline \<Rightarrow> nat" where
  "work_left s = 6 * (task_cnt - pp_i s) - (if pp_fdet s = None then 0 else 3) + 2 * length (pp_dqueue s) +
     (if pp_dworker s = None then 0 else 1) + 2 * length (pp_tqueue s) + (if pp_tworker s = None then 0 else 1) +
     (if pp_got s then 0 else 1)"

lemma step_work_left: "pipe_step s t \<Longrightarrow> work_left t < work_left s"
  by (induction rule: pipe_step.induct) (auto simp: work_left_def Suc_diff_Suc)

interpretation pipe: bounded_system "\<lambda>s. s = pipeline0" pipe_step pipe_inv work_left
proof (unfold_locales, goal_cases)
  case 1
  then show ?case by (simp add: pipe_inv_def pipeline0_def)
next
  case 2
  then show ?case using pipe_inv_step by blast
next
  case 3
  then show ?case using step_work_left by blast
qed

definition at_rest :: "pipeline \<Rightarrow> bool" where
  "at_rest s \<longleftrightarrow> pp_got s \<and> pp_dqueue s = [] \<and> pp_dworker s = None \<and> pp_tqueue s = [] \<and> pp_tworker s = None"

text \<open>A task that runs in the tracker has its predecessor behind it.\<close>

lemma running_prefix:
  assumes "map task_of fs @ task_of k # ts = map task_of [0..<n]"
  shows "fs = [0..<k] \<and> k < n"
proof -
  have "length fs < n" using arg_cong[OF assms, of length] by simp
  moreover have "task_of k = task_of ([0..<n] ! length fs)"
    using arg_cong[OF assms, of "\<lambda>xs. xs ! length fs"] \<open>length fs < n\<close> by (simp add: nth_append)
  moreover have "map task_of fs = map task_of (take (length fs) [0..<n])"
    using arg_cong[OF assms, of "take (length fs)"] by (simp add: take_map)
  then have "fs = take (length fs) [0..<n]" by (metis inj_map_eq_map inj_onI task_of_inject)
  ultimately show ?thesis by (simp add: min_def split: if_splits)
qed

lemma detection_scheduled:
  assumes "pipe_inv s" "k < pp_i s" "k mod 4 = 0" "pp_dworker s = None" "pp_dqueue s = []"
  shows "k \<in> set (pp_detected s)"
  using assms by (simp add: pipe_inv_def)

text \<open>Detections never wait; so a tracker that waits has one to wait for, and only until it is done.\<close>

lemma tracker_moves:
  assumes inv: "pipe_inv s" and some: "pp_tqueue s \<noteq> [] \<or> pp_tworker s \<noteq> None"
  shows "\<exists>t. pipe_step s t"
proof (cases "pp_dworker s = None \<and> pp_dqueue s = []")
  case False
  then show ?thesis by (cases "pp_dworker s"; cases "pp_dqueue s") (auto intro: start_detect end_detect)
next
  case idle: True
  show ?thesis
  proof (cases "pp_tworker s")
    case None
    then show ?thesis using some by (cases "pp_tqueue s") (auto intro: start_track)
  next
    case (Some t)
    then have e: "map task_of (pp_tracked s) @ [t] @ pp_tqueue s = map task_of [0..<pp_i s]"
      using inv by (simp add: pipe_inv_def)
    obtain k where t: "t = task_of k" using running_task[OF e] by blast
    from running_prefix[of "pp_tracked s" k] e t have k: "pp_tracked s = [0..<k]" "k < pp_i s" by auto
    have "ready (pp_tracked s) (tk_prev t)" by (simp add: t k(1) ready_def fprev_def)
    moreover have "ready (pp_detected s) (tk_det t)"
      using detection_scheduled[OF inv k(2)] idle by (simp add: t ready_def)
    ultimately show ?thesis using end_track[OF Some] by blast
  qed
qed

lemma pipeline_moves:
  assumes "pipe_inv s" "\<not> at_rest s"
  shows "\<exists>t. pipe_step s t"
proof (rule ccontr)
  assume stuck: "\<nexists>t. pipe_step s t"
  then have t: "pp_tqueue s = []" "pp_tworker s = None" using tracker_moves[OF assms(1)] by blast+
  have d: "pp_dworker s = None" "pp_dqueue s = []"
    using stuck start_detect[of s] end_detect[of s] by (cases "pp_dworker s"; cases "pp_dqueue s"; auto)+
  have "\<not> pp_got s" using assms(2) t d by (simp add: at_rest_def)
  show False
  proof (cases "pp_i s < task_cnt")
    case True
    have "0 < work_limits" by (simp add: work_limits_def)
    then show False using stuck True t(1) d(2) enqueue_detect[of s] no_detect[of s] enqueue_track[of s]
      by (cases "pp_fdet s"; cases "pp_i s mod 4 = 0") auto
  next
    case False
    then have i: "pp_i s = task_cnt" using assms(1) by (simp add: pipe_inv_def)
    then have "map task_of (pp_tracked s) = map task_of [0..<task_cnt]"
      using assms(1) t by (simp add: pipe_inv_def)
    then have "pp_tracked s = [0..<task_cnt]" by (metis inj_map_eq_map inj_onI task_of_inject)
    then have "ready (pp_tracked s) (fprev (pp_i s))" by (simp add: i ready_def fprev_def task_cnt_def)
    then show False using stuck get_last[OF i \<open>\<not> pp_got s\<close>] by blast
  qed
qed

text \<open>C29: test 4 always ends, although tasks of one pool wait for futures of the other and the main
  thread for room in both: no schedule gets stuck or takes more than 121 steps. When the main
  thread has the last result, every frame was tracked once and in order, every fourth one
  detected, nothing is left in either pool, and the tracker counted 20 calls.\<close>

theorem pipeline_terminates:
  assumes "(pipe_step ^^ k) pipeline0 s"
  shows "k \<le> 121 \<and> (at_rest s \<or> (\<exists>t. pipe_step s t)) \<and>
    (pp_got s \<longrightarrow> at_rest s \<and> pp_tracked s = [0..<20] \<and> pp_detected s = [0, 4, 8, 12, 16] \<and> pp_id s = 20)"
proof -
  have inv: "pipe_inv s" and "k + work_left s \<le> work_left pipeline0" using pipe.run_bound[OF assms refl] by blast+
  then have "k \<le> 121" by (simp add: work_left_def pipeline0_def task_cnt_def)
  moreover have "at_rest s \<and> pp_tracked s = [0..<20] \<and> pp_detected s = [0, 4, 8, 12, 16] \<and> pp_id s = 20" if "pp_got s"
  proof -
    have i: "pp_i s = 20" "pp_fdet s = None" "19 \<in> set (pp_tracked s)" "pp_id s = length (pp_tracked s)"
      and det: "results_ready (pp_tracked s) (pp_detected s)"
      using inv that by (auto simp: pipe_inv_def ready_def fprev_def task_cnt_def)
    define trest where "trest = (case pp_tworker s of None \<Rightarrow> [] | Some t \<Rightarrow> [t]) @ pp_tqueue s"
    define drest where "drest = (case pp_dworker s of None \<Rightarrow> [] | Some d \<Rightarrow> [d]) @ pp_dqueue s"
    have e: "map task_of (pp_tracked s) @ trest = map task_of [0..<20]"
      and f: "pp_detected s @ drest = filter (\<lambda>k. k mod 4 = 0) [0..<20]"
      using inv i(1,2) by (simp_all add: pipe_inv_def trest_def drest_def)
    have t: "trest = []"
    proof (rule ccontr)
      assume "trest \<noteq> []"
      then obtain t ts where r: "trest = t # ts" by (cases trest) auto
      obtain k where k: "t = task_of k" using running_task[of "pp_tracked s" t ts "[0..<20]"] e r by auto
      have "pp_tracked s = [0..<k] \<and> k < 20" using e unfolding r k by (rule running_prefix)
      then show False using i(3) by auto
    qed
    then have tracked: "pp_tracked s = [0..<20]" using e by (metis append_Nil2 inj_map_eq_map inj_onI task_of_inject)
    have five: "filter (\<lambda>k. k mod 4 = 0) [0..<20] = [0, 4, 8, 12, 16 :: nat]" by (simp add: upt_rec)
    have "16 \<in> set (pp_detected s)" using det tracked by (auto simp: results_ready_def ready_def dest: bspec[of _ _ 16])
    moreover have "distinct (pp_detected s @ drest)" "drest \<noteq> [] \<Longrightarrow> last drest = 16"
      using f five last_appendR[of drest "pp_detected s"] by simp_all
    ultimately have "drest = []" by (metis IntI distinct_append empty_iff last_in_set)
    then show ?thesis using that f five t tracked i(4)
      by (simp add: at_rest_def trest_def drest_def split: option.splits)
  qed
  ultimately show ?thesis using pipeline_moves[OF inv] by blast
qed

theorem pipeline_terminates_witness:
  "at_rest pipeline0 \<or> (\<exists>t. pipe_step pipeline0 t)"
  using pipeline_terminates[of 0 pipeline0] by simp

end
