(* ===== verification/ReverseDevice.thy ===== *)
theory ReverseDevice
  imports Prelude
begin

text \<open>
  \<open>kernel_module/hello.c\<close>: the character device \<open>reverse\<close>, one buffer that writers fill and
  readers empty, with a mutex and a wait queue. First the critical sections as functions on the
  buffer, then the monitor: any number of threads inside \<open>reverse_read\<close> and \<open>reverse_write\<close>,
  with signals, failing copies and every interleaving of the steps between lock and unlock.
\<close>

section \<open>The buffer\<close>

text \<open>
  \<open>end\<close> and \<open>read_ptr\<close> are offsets into \<open>data\<close>; None is the NULL that \<open>kzalloc\<close> leaves.
\<close>

record buffer =
  b_data :: "byte list"
  b_end :: "nat option"
  b_read_ptr :: "nat option"
  b_size :: nat

text \<open>\<open>buffer_alloc(size)\<close>: the two parameters say whether the calls of \<open>kzalloc\<close> succeed.\<close>

definition buffer_alloc :: "bool \<Rightarrow> bool \<Rightarrow> nat \<Rightarrow> buffer option" where
  "buffer_alloc ok_struct ok_data n =
     (if \<not> ok_struct then None
      else if \<not> ok_data then None
      else Some \<lparr>b_data = replicate n 0, b_end = None, b_read_ptr = None, b_size = n\<rparr>)"

definition dev_buffer_size :: nat where "dev_buffer_size = 8192"

text \<open>\<open>reverse_init\<close> for a module parameter: its result and the device's buffer.\<close>

definition reverse_init :: "bool \<Rightarrow> bool \<Rightarrow> nat \<Rightarrow> int \<times> buffer option" where
  "reverse_init ok_struct ok_data bsize =
     (if bsize = 0 then (- 1, None)
      else case buffer_alloc ok_struct ok_data bsize of
             None \<Rightarrow> (- 1, None)
           | Some b \<Rightarrow> (0, Some b))"

definition ERESTARTSYS :: int where "ERESTARTSYS = 512"
definition EAGAIN_K :: int where "EAGAIN_K = 11"
definition EFAULT :: int where "EFAULT = 14"
definition EFBIG :: int where "EFBIG = 27"

section \<open>The critical sections\<close>

definition buf_empty :: "buffer \<Rightarrow> bool" where
  "buf_empty b \<longleftrightarrow> b_read_ptr b = b_end b"

definition ptr_off :: "nat option \<Rightarrow> nat" where
  "ptr_off p = (case p of None \<Rightarrow> 0 | Some n \<Rightarrow> n)"

text \<open>\<open>min(size, (size_t) (end - read_ptr))\<close>, where the difference is taken modulo 2^64.\<close>

definition avail :: "buffer \<Rightarrow> nat" where
  "avail b = nat ((int (ptr_off (b_end b)) - int (ptr_off (b_read_ptr b))) mod 2 ^ 64)"

text \<open>
  The end of \<open>reverse_read\<close>, with the lock held and data there: \<open>copy_ok\<close> says whether
  \<open>copy_to_user\<close> succeeds. The result is an error or the bytes the caller gets.
\<close>

definition read_section :: "nat \<Rightarrow> bool \<Rightarrow> buffer \<Rightarrow> (int + byte list) \<times> buffer" where
  "read_section size0 copy_ok b =
     (let n = min size0 (avail b); p = ptr_off (b_read_ptr b) in
      if \<not> copy_ok then (Inl (- EFAULT), b)
      else (Inr (take n (drop p (b_data b))), b\<lparr>b_read_ptr := Some (p + n)\<rparr>))"

text \<open>\<open>copy_from_user(data, in, size)\<close> that stops after \<open>k\<close> bytes.\<close>

definition copy_in :: "nat \<Rightarrow> byte list \<Rightarrow> buffer \<Rightarrow> buffer" where
  "copy_in k msg b = b\<lparr>b_data := take k msg @ drop (min k (length msg)) (b_data b)\<rparr>"

definition set_end :: "nat \<Rightarrow> buffer \<Rightarrow> buffer" where
  "set_end n b = b\<lparr>b_end := Some n\<rparr>"

definition reset_ptr :: "buffer \<Rightarrow> buffer" where
  "reset_ptr b = b\<lparr>b_read_ptr := Some 0\<rparr>"

definition write_section :: "byte list \<Rightarrow> nat \<Rightarrow> buffer \<Rightarrow> int \<times> buffer" where
  "write_section msg copied b =
     (let b1 = copy_in copied msg b in
      if copied < length msg then (- EFAULT, b1)
      else (int (length msg), reset_ptr (set_end (length msg) b1)))"

text \<open>\<open>reverse_write\<close> when no signal arrives and nobody else holds the lock.\<close>

definition reverse_write :: "byte list \<Rightarrow> nat \<Rightarrow> buffer \<Rightarrow> int \<times> buffer" where
  "reverse_write msg copied b =
     (if length msg > b_size b then (- EFBIG, b) else write_section msg copied b)"

text \<open>\<open>reverse_read\<close> with \<open>O_NONBLOCK\<close> under the same conditions.\<close>

definition reverse_read_nonblock :: "nat \<Rightarrow> bool \<Rightarrow> buffer \<Rightarrow> (int + byte list) \<times> buffer" where
  "reverse_read_nonblock size0 copy_ok b =
     (if buf_empty b then (Inl (- EAGAIN_K), b) else read_section size0 copy_ok b)"

section \<open>The threads\<close>

text \<open>
  Where a thread is. A reader carries the size it asked for and its \<open>O_NONBLOCK\<close> flag, a writer
  its bytes. \<open>RTest\<close> and all states of a writer from \<open>WCopy\<close> to \<open>WUnlock\<close> hold the mutex.
  \<open>RCheck\<close> is inside \<open>wait_event_interruptible\<close>, on the queue, before the test of the condition.
\<close>

datatype pc =
    Idle
  | RLock nat bool | RTest nat bool | RCheck nat bool | RAsleep nat bool
  | RDone "int + byte list"
  | WLock "byte list" | WCopy "byte list" | WSetEnd nat | WSetPtr nat | WWake nat | WUnlock int
  | WDone int

fun holds :: "pc \<Rightarrow> bool" where
  "holds (RTest n nb) = True"
| "holds (WCopy m) = True"
| "holds (WSetEnd n) = True"
| "holds (WSetPtr n) = True"
| "holds (WWake n) = True"
| "holds (WUnlock r) = True"
| "holds _ = False"

record device =
  d_buf :: buffer
  d_lock :: "nat option"
  d_thr :: "nat \<Rightarrow> pc"

definition go :: "nat \<Rightarrow> pc \<Rightarrow> device \<Rightarrow> device" where
  "go i p s = s\<lparr>d_thr := (d_thr s)(i := p)\<rparr>"

definition unlock :: "device \<Rightarrow> device" where
  "unlock s = s\<lparr>d_lock := None\<rparr>"

definition acquire :: "nat \<Rightarrow> device \<Rightarrow> device" where
  "acquire i s = s\<lparr>d_lock := Some i\<rparr>"

text \<open>\<open>wake_up_interruptible\<close>: every sleeper goes back to the test of its condition.\<close>

fun wake :: "pc \<Rightarrow> pc" where
  "wake (RAsleep n nb) = RCheck n nb"
| "wake p = p"

definition wake_up :: "device \<Rightarrow> device" where
  "wake_up s = s\<lparr>d_thr := wake \<circ> d_thr s\<rparr>"

inductive dev_step :: "device \<Rightarrow> device \<Rightarrow> bool" where
  call_read: "d_thr s i = Idle \<Longrightarrow> dev_step s (go i (RLock n nb) s)"
| call_write: "d_thr s i = Idle \<Longrightarrow>
    dev_step s (go i (if length m > b_size (d_buf s) then WDone (- EFBIG) else WLock m) s)"
| read_lock: "d_thr s i = RLock n nb \<Longrightarrow> d_lock s = None \<Longrightarrow> dev_step s (go i (RTest n nb) (acquire i s))"
| read_signal: "d_thr s i \<in> {RLock n nb, RCheck n nb, RAsleep n nb} \<Longrightarrow>
    dev_step s (go i (RDone (Inl (- ERESTARTSYS))) s)"
| read_empty: "d_thr s i = RTest n nb \<Longrightarrow> buf_empty (d_buf s) \<Longrightarrow>
    dev_step s (go i (if nb then RDone (Inl (- EAGAIN_K)) else RCheck n nb) (unlock s))"
| read_data: "d_thr s i = RTest n nb \<Longrightarrow> \<not> buf_empty (d_buf s) \<Longrightarrow>
    read_section n copy_ok (d_buf s) = (r, b) \<Longrightarrow>
    dev_step s (go i (RDone r) (unlock (s\<lparr>d_buf := b\<rparr>)))"
| wait_check: "d_thr s i = RCheck n nb \<Longrightarrow>
    dev_step s (go i (if buf_empty (d_buf s) then RAsleep n nb else RLock n nb) s)"
| write_lock: "d_thr s i = WLock m \<Longrightarrow> d_lock s = None \<Longrightarrow> dev_step s (go i (WCopy m) (acquire i s))"
| write_signal: "d_thr s i = WLock m \<Longrightarrow> dev_step s (go i (WDone (- ERESTARTSYS)) s)"
| write_copy: "d_thr s i = WCopy m \<Longrightarrow> k \<le> length m \<Longrightarrow>
    dev_step s (go i (if k < length m then WUnlock (- EFAULT) else WSetEnd (length m))
                 (s\<lparr>d_buf := copy_in k m (d_buf s)\<rparr>))"
| write_end: "d_thr s i = WSetEnd n \<Longrightarrow> dev_step s (go i (WSetPtr n) (s\<lparr>d_buf := set_end n (d_buf s)\<rparr>))"
| write_ptr: "d_thr s i = WSetPtr n \<Longrightarrow> dev_step s (go i (WWake n) (s\<lparr>d_buf := reset_ptr (d_buf s)\<rparr>))"
| write_wake: "d_thr s i = WWake n \<Longrightarrow> dev_step s (go i (WUnlock (int n)) (wake_up s))"
| write_unlock: "d_thr s i = WUnlock r \<Longrightarrow> dev_step s (go i (WDone r) (unlock s))"
| return: "d_thr s i \<in> {RDone rr, WDone r} \<Longrightarrow> dev_step s (go i Idle s)"

inductive_cases dev_stepE: "dev_step s t"

definition device0 :: "buffer \<Rightarrow> device" where
  "device0 b = \<lparr>d_buf = b, d_lock = None, d_thr = (\<lambda>_. Idle)\<rparr>"

section \<open>The invariant of the monitor\<close>

lemma device_simps [simp]:
  "d_thr (go i p s) = (d_thr s)(i := p)" "d_buf (go i p s) = d_buf s" "d_lock (go i p s) = d_lock s"
  "d_thr (unlock s) = d_thr s" "d_buf (unlock s) = d_buf s" "d_lock (unlock s) = None"
  "d_thr (acquire i s) = d_thr s" "d_buf (acquire i s) = d_buf s" "d_lock (acquire i s) = Some i"
  "d_thr (wake_up s) j = wake (d_thr s j)" "d_buf (wake_up s) = d_buf s" "d_lock (wake_up s) = d_lock s"
  by (simp_all add: go_def unlock_def acquire_def wake_up_def)

lemma holds_wake [simp]: "holds (wake p) = holds p"
  by (cases p) simp_all

text \<open>The thread in a critical section is the one that has the mutex.\<close>

definition lock_inv :: "device \<Rightarrow> bool" where
  "lock_inv s \<longleftrightarrow> (\<forall>i. holds (d_thr s i) \<longleftrightarrow> d_lock s = Some i)"

lemma lock_inv_step: "dev_step s t \<Longrightarrow> lock_inv s \<Longrightarrow> lock_inv t"
  unfolding lock_inv_def by (induction rule: dev_step.induct) (force split: if_splits)+

text \<open>
  The pointers outside the two assignments of a writer, and what holds between them; the sizes
  of the messages still to be copied.
\<close>

definition ptr_ok :: "buffer \<Rightarrow> bool" where
  "ptr_ok b \<longleftrightarrow> (b_end b = None \<and> b_read_ptr b = None) \<or>
     (\<exists>p e. b_end b = Some e \<and> b_read_ptr b = Some p \<and> p \<le> e \<and> e \<le> b_size b)"

definition setting :: "(nat \<Rightarrow> pc) \<Rightarrow> bool" where
  "setting f \<longleftrightarrow> (\<exists>i n. f i = WSetPtr n)"

lemma setting_upd [simp]:
  "(\<And>n. f i \<noteq> WSetPtr n) \<Longrightarrow> (\<And>n. p \<noteq> WSetPtr n) \<Longrightarrow> setting (f(i := p)) = setting f"
  "setting (f(i := WSetPtr n))"
  unfolding setting_def by (metis fun_upd_apply)+

lemma setting_wake [simp]: "setting (d_thr (wake_up s)) = setting (d_thr s)"
proof -
  have "wake p = WSetPtr n \<longleftrightarrow> p = WSetPtr n" for p n by (cases p) simp_all
  then show ?thesis by (simp add: setting_def)
qed

definition buf_inv :: "device \<Rightarrow> bool" where
  "buf_inv s \<longleftrightarrow> length (b_data (d_buf s)) = b_size (d_buf s) \<and> b_size (d_buf s) < 2 ^ 64 \<and>
     (\<forall>i. case d_thr s i of
            WLock m \<Rightarrow> length m \<le> b_size (d_buf s)
          | WCopy m \<Rightarrow> length m \<le> b_size (d_buf s)
          | WSetEnd n \<Rightarrow> n \<le> b_size (d_buf s)
          | WSetPtr n \<Rightarrow> n \<le> b_size (d_buf s) \<and> b_end (d_buf s) = Some n
          | _ \<Rightarrow> True) \<and>
     (\<not> setting (d_thr s) \<longrightarrow> ptr_ok (d_buf s))"

lemma buf_fields [simp]:
  "b_size (copy_in k m b) = b_size b" "b_end (copy_in k m b) = b_end b" "b_read_ptr (copy_in k m b) = b_read_ptr b"
  "b_size (set_end n b) = b_size b" "b_end (set_end n b) = Some n" "b_read_ptr (set_end n b) = b_read_ptr b"
  "b_data (set_end n b) = b_data b"
  "b_size (reset_ptr b) = b_size b" "b_end (reset_ptr b) = b_end b" "b_read_ptr (reset_ptr b) = Some 0"
  "b_data (reset_ptr b) = b_data b"
  by (simp_all add: copy_in_def set_end_def reset_ptr_def)

lemma copy_in_length: "k \<le> length m \<Longrightarrow> length m \<le> length (b_data b) \<Longrightarrow>
    length (b_data (copy_in k m b)) = length (b_data b)"
  by (simp add: copy_in_def)

lemma avail_ok:
  assumes "ptr_ok b" "b_size b < 2 ^ 64"
  shows "ptr_off (b_read_ptr b) + avail b = ptr_off (b_end b) \<and> ptr_off (b_end b) \<le> b_size b"
  using assms by (auto simp: ptr_ok_def avail_def ptr_off_def)

lemma read_section_ptr_ok:
  assumes "read_section n copy_ok b = (r, b')" "ptr_ok b" "b_size b < 2 ^ 64" "\<not> buf_empty b"
  shows "ptr_ok b' \<and> b_size b' = b_size b \<and> b_data b' = b_data b \<and> b_end b' = b_end b"
proof -
  obtain p e where pe: "b_end b = Some e" "b_read_ptr b = Some p" "p \<le> e" "e \<le> b_size b"
    using assms(2,4) by (auto simp: ptr_ok_def buf_empty_def)
  then have "p + min n (avail b) \<le> e" using avail_ok[OF assms(2,3)] by (simp add: ptr_off_def)
  then show ?thesis using assms(1) pe
    by (auto simp: read_section_def Let_def ptr_ok_def ptr_off_def split: if_splits)
qed

lemma not_setting:
  assumes "lock_inv s" "holds (d_thr s i)" "\<And>n. d_thr s i \<noteq> WSetPtr n"
  shows "\<not> setting (d_thr s)"
  using assms unfolding lock_inv_def setting_def by (metis holds.simps(4) option.inject)

lemma ptr_ok_copy [simp]: "ptr_ok (copy_in k m b) = ptr_ok b"
  by (simp add: ptr_ok_def)

lemma buf_inv_step: "dev_step s t \<Longrightarrow> lock_inv s \<Longrightarrow> buf_inv s \<Longrightarrow> buf_inv t"
proof (induction rule: dev_step.induct)
  case (read_data s i n nb copy_ok r b)
  have "ptr_ok (d_buf s)" using read_data.prems not_setting[of s i] read_data(1) by (simp add: buf_inv_def)
  then have "ptr_ok b \<and> b_size b = b_size (d_buf s) \<and> b_data b = b_data (d_buf s) \<and> b_end b = b_end (d_buf s)"
    using read_section_ptr_ok[OF read_data(3)] read_data(2,5) by (simp add: buf_inv_def)
  then show ?case using read_data.prems by (auto simp: buf_inv_def split: pc.splits)
next
  case (write_end s i n)
  have "d_thr s j \<noteq> WSetPtr m" for j m
    using not_setting[of s i] write_end by (auto simp: setting_def)
  then show ?case using write_end by (auto simp: buf_inv_def split: pc.splits)
next
  case (write_ptr s i n)
  then show ?case by (auto simp: buf_inv_def ptr_ok_def split: pc.splits)
next
  case (write_copy s i m k)
  then have "length (b_data (copy_in k m (d_buf s))) = length (b_data (d_buf s))"
    by (intro copy_in_length) (auto simp: buf_inv_def split: pc.splits)
  then show ?case using write_copy by (auto simp: buf_inv_def split: pc.splits)
next
  case (write_wake s i n)
  then show ?case unfolding buf_inv_def by (auto split: pc.splits elim!: wake.elims)
qed (auto simp: buf_inv_def split: pc.splits if_splits)

text \<open>A sleeping reader of a buffer with data has a wake-up coming.\<close>

definition sleeping :: "(nat \<Rightarrow> pc) \<Rightarrow> bool" where
  "sleeping f \<longleftrightarrow> (\<exists>i n nb. f i = RAsleep n nb)"

definition waking :: "(nat \<Rightarrow> pc) \<Rightarrow> bool" where
  "waking f \<longleftrightarrow> (\<exists>i n. f i = WSetPtr n \<or> f i = WWake n)"

definition sleep_inv :: "device \<Rightarrow> bool" where
  "sleep_inv s \<longleftrightarrow> (sleeping (d_thr s) \<longrightarrow> \<not> buf_empty (d_buf s) \<longrightarrow> waking (d_thr s))"

lemma sleeping_updD: "sleeping (f(i := p)) \<Longrightarrow> (\<And>n nb. p \<noteq> RAsleep n nb) \<Longrightarrow> sleeping f"
  unfolding sleeping_def by (metis fun_upd_apply)

lemma waking_upd [simp]:
  "(\<And>n. f i \<noteq> WSetPtr n) \<Longrightarrow> (\<And>n. f i \<noteq> WWake n) \<Longrightarrow> (\<And>n. p \<noteq> WSetPtr n) \<Longrightarrow>
     (\<And>n. p \<noteq> WWake n) \<Longrightarrow> waking (f(i := p)) = waking f"
  "waking (f(i := WSetPtr n))" "waking (f(i := WWake n))"
  unfolding waking_def by (metis fun_upd_apply)+

lemma not_sleeping_wake: "\<not> sleeping ((d_thr (wake_up s))(i := WUnlock r))"
proof -
  have "wake p \<noteq> RAsleep n nb" for p n nb by (cases p) simp_all
  then show ?thesis by (simp add: sleeping_def)
qed

lemma sleep_inv_step: "dev_step s t \<Longrightarrow> sleep_inv s \<Longrightarrow> sleep_inv t"
proof (induction rule: dev_step.induct)
  case (write_wake s i n)
  then show ?case using not_sleeping_wake by (simp add: sleep_inv_def)
qed (auto simp: sleep_inv_def buf_empty_def dest!: sleeping_updD split: if_splits)

definition dev_inv :: "device \<Rightarrow> bool" where
  "dev_inv s \<longleftrightarrow> lock_inv s \<and> buf_inv s \<and> sleep_inv s"

text \<open>The device after \<open>reverse_init\<close>, for any buffer size that a \<open>size_t\<close> holds.\<close>

definition dev_init :: "device \<Rightarrow> bool" where
  "dev_init s \<longleftrightarrow> (\<exists>n b. n < 2 ^ 64 \<and> reverse_init True True n = (0, Some b) \<and> s = device0 b)"

interpretation dev: invariant_system dev_init dev_step dev_inv
proof (unfold_locales, goal_cases)
  case (1 s)
  then obtain n where n: "n < 2 ^ 64"
    and s: "s = device0 \<lparr>b_data = replicate n 0, b_end = None, b_read_ptr = None, b_size = n\<rparr>"
    by (auto simp: dev_init_def reverse_init_def buffer_alloc_def split: if_splits)
  show ?case using n unfolding s dev_inv_def
    by (simp add: lock_inv_def buf_inv_def sleep_inv_def device0_def ptr_ok_def sleeping_def)
next
  case (2 s t)
  then show ?case using lock_inv_step buf_inv_step sleep_inv_step by (auto simp: dev_inv_def)
qed

text \<open>C14: no wake-up of the device is lost: whatever readers and writers do, and wherever signals
  interrupt them, a reader asleep on the wait queue either faces an empty buffer, or the writer
  that filled it is about to wake the queue.\<close>

theorem dev_no_lost_wakeup:
  assumes "dev_init s" "dev_step\<^sup>*\<^sup>* s t" "d_thr t i = RAsleep n nb"
  shows "buf_empty (d_buf t) \<or> (\<exists>j k. d_thr t j = WSetPtr k \<or> d_thr t j = WWake k)"
  using dev.reach_inv[OF assms(2,1)] assms(3)
  by (auto simp: dev_inv_def sleep_inv_def sleeping_def waking_def)

text \<open>At most one thread is between lock and unlock; a reader there that sees data copies it from
  inside the array, up to the end of the message, and what a writer copies in fits the array.\<close>

theorem dev_sections_in_bounds:
  assumes "dev_init s" "dev_step\<^sup>*\<^sup>* s t"
  shows "(\<forall>i j. holds (d_thr t i) \<longrightarrow> holds (d_thr t j) \<longrightarrow> i = j) \<and>
    (\<forall>i n nb. d_thr t i = RTest n nb \<longrightarrow>
       ptr_off (b_read_ptr (d_buf t)) + min n (avail (d_buf t)) \<le> ptr_off (b_end (d_buf t)) \<and>
       ptr_off (b_end (d_buf t)) \<le> length (b_data (d_buf t))) \<and>
    (\<forall>i m. d_thr t i = WCopy m \<longrightarrow> length m \<le> length (b_data (d_buf t)))"
proof (intro conjI allI impI)
  have inv: "lock_inv t" "buf_inv t" using dev.reach_inv[OF assms(2,1)] by (simp_all add: dev_inv_def)
  show "i = j" if "holds (d_thr t i)" "holds (d_thr t j)" for i j
    using inv(1) that unfolding lock_inv_def by (metis option.inject)
  show "length m \<le> length (b_data (d_buf t))" if "d_thr t i = WCopy m" for i m
    using inv(2) that by (auto simp: buf_inv_def split: pc.splits)
  fix i n nb assume i: "d_thr t i = RTest n nb"
  have ok: "ptr_ok (d_buf t)" "b_size (d_buf t) < 2 ^ 64"
    using inv not_setting[of t i] i by (simp_all add: buf_inv_def)
  show "ptr_off (b_read_ptr (d_buf t)) + min n (avail (d_buf t)) \<le> ptr_off (b_end (d_buf t))"
    using avail_ok[OF ok] by (auto simp: min_def)
  show "ptr_off (b_end (d_buf t)) \<le> length (b_data (d_buf t))"
    using avail_ok[OF ok] inv(2) by (simp add: buf_inv_def)
qed

definition demo_device :: device where
  "demo_device = device0 \<lparr>b_data = replicate 4 0, b_end = None, b_read_ptr = None, b_size = 4\<rparr>"

lemma demo_device_init: "dev_init demo_device"
  unfolding dev_init_def by (rule exI[of _ 4]) (simp add: demo_device_def reverse_init_def buffer_alloc_def)

text \<open>A reader that comes first goes to sleep.\<close>

definition demo_asleep :: device where
  "demo_asleep = go 0 (RAsleep 2 False) (go 0 (RCheck 2 False)
     (unlock (go 0 (RTest 2 False) (acquire 0 (go 0 (RLock 2 False) demo_device)))))"

lemma demo_asleep_reached: "dev_step\<^sup>*\<^sup>* demo_device demo_asleep"
proof -
  let ?s1 = "go 0 (RLock 2 False) demo_device"
  let ?s2 = "go 0 (RTest 2 False) (acquire 0 ?s1)"
  let ?s3 = "go 0 (RCheck 2 False) (unlock ?s2)"
  have e: "buf_empty (d_buf demo_device)" by (simp add: demo_device_def device0_def buf_empty_def)
  have "dev_step demo_device ?s1" by (rule call_read) (simp add: demo_device_def device0_def)
  moreover have "dev_step ?s1 ?s2" by (rule read_lock) (simp_all add: demo_device_def device0_def)
  moreover have "dev_step ?s2 ?s3" using read_empty[of ?s2 0 2 False] e by simp
  moreover have "dev_step ?s3 demo_asleep" using wait_check[of ?s3 0 2 False] e by (simp add: demo_asleep_def)
  ultimately show ?thesis by (rule steps4)
qed

theorem dev_no_lost_wakeup_witness:
  "buf_empty (d_buf demo_asleep) \<or> (\<exists>j k. d_thr demo_asleep j = WSetPtr k \<or> d_thr demo_asleep j = WWake k)"
  by (rule dev_no_lost_wakeup[OF demo_device_init demo_asleep_reached, of 0 2 False]) (simp add: demo_asleep_def)

text \<open>The same reader before the test, with the mutex.\<close>

definition demo_testing :: device where
  "demo_testing = go 0 (RTest 2 False) (acquire 0 (go 0 (RLock 2 False) demo_device))"

lemma demo_testing_reached: "dev_step\<^sup>*\<^sup>* demo_device demo_testing"
proof -
  let ?s1 = "go 0 (RLock 2 False) demo_device"
  have "dev_step demo_device ?s1" by (rule call_read) (simp add: demo_device_def device0_def)
  moreover have "dev_step ?s1 demo_testing"
    unfolding demo_testing_def by (rule read_lock) (simp_all add: demo_device_def device0_def)
  ultimately show ?thesis by (rule converse_rtranclp_into_rtranclp[OF _ r_into_rtranclp])
qed

theorem dev_sections_in_bounds_witness:
  "d_thr demo_testing 0 = RTest 2 False \<and>
    ptr_off (b_read_ptr (d_buf demo_testing)) + min 2 (avail (d_buf demo_testing)) \<le> ptr_off (b_end (d_buf demo_testing)) \<and>
    ptr_off (b_end (d_buf demo_testing)) \<le> length (b_data (d_buf demo_testing))"
proof -
  have "d_thr demo_testing 0 = RTest 2 False" by (simp add: demo_testing_def)
  with dev_sections_in_bounds[OF demo_device_init demo_testing_reached] show ?thesis by blast
qed

section \<open>The device as a message register\<close>

text \<open>
  The abstract device holds what is left of the last message; a write replaces it, a read takes
  from its front.
\<close>

definition content :: "buffer \<Rightarrow> byte list" where
  "content b = drop (ptr_off (b_read_ptr b)) (take (ptr_off (b_end b)) (b_data b))"

definition msg_write :: "nat \<Rightarrow> byte list \<Rightarrow> byte list \<Rightarrow> int \<times> byte list" where
  "msg_write cap msg c = (if length msg > cap then (- EFBIG, c) else (int (length msg), msg))"

definition msg_read :: "nat \<Rightarrow> byte list \<Rightarrow> (int + byte list) \<times> byte list" where
  "msg_read n c = (if c = [] then (Inl (- EAGAIN_K), c) else (Inr (take n c), drop n c))"

datatype dev_op = DWrite "byte list" | DRead nat
datatype dev_result = WroteRes int | ReadRes "int + byte list"

fun dev_run :: "dev_op list \<Rightarrow> buffer \<Rightarrow> dev_result list \<times> buffer" where
  "dev_run [] b = ([], b)"
| "dev_run (DWrite m # ops) b =
     (let (r, b1) = reverse_write m (length m) b; (rs, b2) = dev_run ops b1 in (WroteRes r # rs, b2))"
| "dev_run (DRead n # ops) b =
     (let (r, b1) = reverse_read_nonblock n True b; (rs, b2) = dev_run ops b1 in (ReadRes r # rs, b2))"

fun msg_run :: "nat \<Rightarrow> dev_op list \<Rightarrow> byte list \<Rightarrow> dev_result list \<times> byte list" where
  "msg_run cap [] c = ([], c)"
| "msg_run cap (DWrite m # ops) c =
     (let (r, c1) = msg_write cap m c; (rs, c2) = msg_run cap ops c1 in (WroteRes r # rs, c2))"
| "msg_run cap (DRead n # ops) c =
     (let (r, c1) = msg_read n c; (rs, c2) = msg_run cap ops c1 in (ReadRes r # rs, c2))"

definition buffer_ok :: "buffer \<Rightarrow> bool" where
  "buffer_ok b \<longleftrightarrow> ptr_ok b \<and> length (b_data b) = b_size b \<and> b_size b < 2 ^ 64"

lemma write_refines:
  assumes "buffer_ok b" "reverse_write m (length m) b = (r, b')"
  shows "buffer_ok b' \<and> b_size b' = b_size b \<and> msg_write (b_size b) m (content b) = (r, content b')"
  using assms
  by (auto simp: reverse_write_def write_section_def Let_def msg_write_def content_def buffer_ok_def
      ptr_ok_def ptr_off_def copy_in_length copy_in_def set_end_def reset_ptr_def split: if_splits)

lemma read_refines:
  assumes "buffer_ok b" "reverse_read_nonblock n True b = (r, b')"
  shows "buffer_ok b' \<and> b_size b' = b_size b \<and> msg_read n (content b) = (r, content b')"
proof (cases "buf_empty b")
  case True
  then have "content b = []"
    using assms(1) by (auto simp: buffer_ok_def ptr_ok_def content_def buf_empty_def ptr_off_def)
  then show ?thesis using True assms by (simp add: reverse_read_nonblock_def msg_read_def)
next
  case False
  then obtain p e where pe: "b_end b = Some e" "b_read_ptr b = Some p" "p < e" "e \<le> b_size b"
    "length (b_data b) = b_size b"
    using assms(1) by (auto simp: buffer_ok_def ptr_ok_def buf_empty_def)
  have av: "avail b = e - p" using pe avail_ok[of b] assms(1) by (auto simp: buffer_ok_def ptr_off_def)
  have c: "content b = drop p (take e (b_data b))" "length (content b) = e - p"
    using pe by (simp_all add: content_def ptr_off_def)
  have r: "r = Inr (take (min n (e - p)) (drop p (b_data b)))" "b' = b\<lparr>b_read_ptr := Some (p + min n (e - p))\<rparr>"
    using assms(2) False pe av by (simp_all add: reverse_read_nonblock_def read_section_def Let_def ptr_off_def)
  have "take (min n (e - p)) (drop p (b_data b)) = take n (content b)"
    using pe(3) by (cases "n \<le> e - p") (simp_all add: c(1) take_drop min_def add.commute)
  moreover have "content b' = drop n (content b)"
    unfolding r(2) using pe c by (cases "n \<le> e - p") (simp_all add: content_def ptr_off_def add.commute)
  moreover have "buffer_ok b'"
    unfolding r(2) using pe assms(1) by (auto simp: buffer_ok_def ptr_ok_def)
  ultimately show ?thesis using r c pe(3) by (auto simp: msg_read_def)
qed

text \<open>C18: seen from outside, by callers that do not wait and whose memory can be accessed, the device
  is a register for one message: any sequence of writes and reads gives the results of the
  abstract register. A write drops what was not read; a message above the size of the buffer is
  refused and changes nothing.\<close>

theorem dev_refines_message:
  assumes "buffer_ok b"
  shows "msg_run (b_size b) ops (content b) = (fst (dev_run ops b), content (snd (dev_run ops b)))"
  using assms
proof (induction ops arbitrary: b)
  case Nil
  then show ?case by simp
next
  case (Cons op ops)
  show ?case
  proof (cases op)
    case (DWrite m)
    obtain r b' where w: "reverse_write m (length m) b = (r, b')" by fastforce
    from write_refines[OF Cons.prems w] show ?thesis
      using Cons.IH[of b'] DWrite w by (simp add: case_prod_beta)
  next
    case (DRead n)
    obtain r b' where w: "reverse_read_nonblock n True b = (r, b')" by fastforce
    from read_refines[OF Cons.prems w] show ?thesis
      using Cons.IH[of b'] DRead w by (simp add: case_prod_beta)
  qed
qed

theorem dev_refines_message_witness:
  "msg_run 4 [DWrite [1, 2, 3], DRead 2, DWrite [7], DRead 9] [] =
     (fst (dev_run [DWrite [1, 2, 3], DRead 2, DWrite [7], DRead 9] (d_buf demo_device)),
      content (snd (dev_run [DWrite [1, 2, 3], DRead 2, DWrite [7], DRead 9] (d_buf demo_device))))"
  using dev_refines_message[of "d_buf demo_device" "[DWrite [1, 2, 3], DRead 2, DWrite [7], DRead 9]"]
  by (simp add: demo_device_def device0_def buffer_ok_def ptr_ok_def content_def ptr_off_def)

text \<open>A write whose copy from the caller faults after \<open>k\<close> bytes reports \<open>EFAULT\<close>, but those bytes
  are already in the array: what readers get next is the unread message with its start
  overwritten.\<close>

theorem dev_fault_corrupts:
  assumes "b_read_ptr b = Some 0" "b_end b = Some e" "e \<le> length (b_data b)" "k < length msg" "k \<le> e"
  shows "fst (write_section msg k b) = - EFAULT \<and>
    content (snd (write_section msg k b)) = take k msg @ drop k (content b)"
  using assms
  by (auto simp: write_section_def Let_def content_def ptr_off_def copy_in_def min_def take_drop)

theorem dev_fault_corrupts_witness:
  "let b = \<lparr>b_data = [1, 2, 3, 0], b_end = Some 3, b_read_ptr = Some 0, b_size = 4\<rparr>
   in fst (write_section [8, 9] 1 b) = - EFAULT \<and> content (snd (write_section [8, 9] 1 b)) = [8, 2, 3] \<and>
      content b = [1, 2, 3]"
  using dev_fault_corrupts[of "\<lparr>b_data = [1, 2, 3, 0], b_end = Some 3, b_read_ptr = Some 0, b_size = 4\<rparr>" 3 1 "[8, 9]"]
  by (simp add: content_def ptr_off_def)

end
