(* ===== verification/Drm.thy ===== *)
theory Drm
  imports Prelude
begin

text \<open>
  \<open>tdrm1.c\<close>: mode setting through libdrm. Each connected display gets a device: a CRTC that no
  other device uses, a dumb buffer, a frame buffer and a mapping of it; the devices form
  \<open>modeset_list\<close>, newest first. libdrm and the kernel are a parameter, \<open>drm\<close>, whose answers may
  depend on everything that was called before; the calls that acquire and release something are
  recorded in a log, and \<open>held_from\<close> says what is held after it. \<open>malloc\<close> of a device is taken to succeed.
\<close>

unbundle bit_operations_syntax

section \<open>Resources\<close>

text \<open>\<open>RMem\<close> is the memory of a \<open>modeset_dev\<close>, \<open>RName\<close> the string that one of the three name functions
  of libdrm allocates; an identifier is kept where libdrm gives one.\<close>

datatype dev_name = PrimaryName | RenderName | DeviceName

datatype resource =
    RFd | RName dev_name | RResources | RConnector "32 word" | REncoder "32 word" | RMem
  | RDumb "32 word" | RFb "32 word" | RMap nat | RCrtc "32 word"

datatype drm_event = Acq resource | Rel resource | SetCrtc "32 word" "32 word" "32 word"

type_synonym drm_log = "drm_event list"

text \<open>What is held after a log; None when something is released that is not held.\<close>

fun held_from :: "resource multiset \<Rightarrow> drm_log \<Rightarrow> resource multiset option" where
  "held_from M [] = Some M"
| "held_from M (Acq r # es) = held_from (add_mset r M) es"
| "held_from M (Rel r # es) = (if r \<in># M then held_from (M - {#r#}) es else None)"
| "held_from M (SetCrtc c f n # es) = held_from M es"

section \<open>Data of libdrm that the program reads\<close>

record mode_info =
  hdisplay :: "16 word"
  vdisplay :: "16 word"

record connector =
  cn_id :: "32 word"
  cn_connected :: bool
  cn_modes :: "mode_info list"
  cn_encoder_id :: "32 word"
  cn_encoders :: "32 word list"

record encoder =
  en_crtc_id :: "32 word"
  en_possible_crtcs :: "32 word"

record resources =
  rs_connectors :: "32 word list"
  rs_crtcs :: "32 word list"

record crtc_config =
  cr_crtc_id :: "32 word"
  cr_buffer_id :: "32 word"

record modeset_dev =
  md_width :: "32 word"
  md_height :: "32 word"
  md_stride :: "32 word"
  md_size :: "32 word"
  md_handle :: "32 word"
  md_map :: nat
  md_mode :: mode_info
  md_fb :: "32 word"
  md_conn :: "32 word"
  md_crtc :: "32 word"
  md_saved_crtc :: "crtc_config option"

text \<open>An answer is the \<open>errno\<close> that the program reads after its message, or the result; \<open>d_open\<close>, \<open>d_names\<close> (which
  name functions give a string, and not NULL) and \<open>d_has_dumb\<close> serve \<open>modeset_open\<close>.\<close>

record drm =
  d_open :: "int + unit"
  d_names :: "dev_name \<Rightarrow> bool"
  d_has_dumb :: bool
  d_resources :: "drm_log \<Rightarrow> int + resources"
  d_connector :: "drm_log \<Rightarrow> 32 word \<Rightarrow> connector option"
  d_encoder :: "drm_log \<Rightarrow> 32 word \<Rightarrow> encoder option"
  d_create_dumb :: "drm_log \<Rightarrow> 32 word \<Rightarrow> 32 word \<Rightarrow> int + (32 word \<times> 64 word \<times> 32 word)"
  d_add_fb :: "drm_log \<Rightarrow> 32 word \<Rightarrow> int + 32 word"
  d_map_dumb :: "drm_log \<Rightarrow> 32 word \<Rightarrow> int + 64 word"
  d_mmap :: "drm_log \<Rightarrow> 32 word \<Rightarrow> 64 word \<Rightarrow> int + nat"
  d_get_crtc :: "drm_log \<Rightarrow> 32 word \<Rightarrow> crtc_config option"

definition ENOENT :: int where "ENOENT = 2"
definition EFAULT_D :: int where "EFAULT_D = 14"
definition EOPNOTSUPP :: int where "EOPNOTSUPP = 95"

section \<open>Choosing a CRTC\<close>

text \<open>The loop over \<open>modeset_list\<close>: -1 for a CRTC that a device already uses.\<close>

definition try_crtc :: "modeset_dev list \<Rightarrow> 32 word \<Rightarrow> 32 word" where
  "try_crtc devs c = (if \<exists>d\<in>set devs. md_crtc d = c then - 1 else c)"

text \<open>
  The loop over the CRTCs with the test \<open>possible_crtcs & (1 << j)\<close>; \<open>crtc\<close> is an \<open>int32_t\<close>.
  A mask of 32 bits names at most 32 CRTCs; for a later one, where C leaves the shift undefined, the model's test fails.
\<close>

fun scan_crtcs :: "modeset_dev list \<Rightarrow> 32 word \<Rightarrow> nat \<Rightarrow> 32 word list \<Rightarrow> 32 word option" where
  "scan_crtcs devs possible j [] = None"
| "scan_crtcs devs possible j (c # cs) =
     (if possible AND push_bit j 1 = 0 then scan_crtcs devs possible (Suc j) cs
      else let crtc = try_crtc devs c in
        if 0 \<le> sint crtc then Some crtc else scan_crtcs devs possible (Suc j) cs)"

fun scan_encoders ::
  "drm \<Rightarrow> modeset_dev list \<Rightarrow> 32 word list \<Rightarrow> 32 word list \<Rightarrow> drm_log \<Rightarrow> 32 word option \<times> drm_log" where
  "scan_encoders os devs crtcs [] log = (None, log)"
| "scan_encoders os devs crtcs (e # es) log =
     (case d_encoder os log e of
        None \<Rightarrow> scan_encoders os devs crtcs es log
      | Some enc \<Rightarrow>
          let log1 = log @ [Acq (REncoder e), Rel (REncoder e)] in
          (case scan_crtcs devs (en_possible_crtcs enc) 0 crtcs of
             Some c \<Rightarrow> (Some c, log1)
           | None \<Rightarrow> scan_encoders os devs crtcs es log1))"

definition modeset_find_crtc ::
  "drm \<Rightarrow> modeset_dev list \<Rightarrow> resources \<Rightarrow> connector \<Rightarrow> modeset_dev \<Rightarrow> drm_log \<Rightarrow> int \<times> modeset_dev \<times> drm_log" where
  "modeset_find_crtc os devs res cn dev log =
     (let rest = (\<lambda>log. case scan_encoders os devs (rs_crtcs res) (cn_encoders cn) log of
                    (Some c, log') \<Rightarrow> (0, dev\<lparr>md_crtc := c\<rparr>, log')
                  | (None, log') \<Rightarrow> (- ENOENT, dev, log'))
      in case (if cn_encoder_id cn \<noteq> 0 then d_encoder os log (cn_encoder_id cn) else None) of
           None \<Rightarrow> rest log
         | Some enc \<Rightarrow>
             let log1 = log @ [Acq (REncoder (cn_encoder_id cn)), Rel (REncoder (cn_encoder_id cn))];
                 crtc = try_crtc devs (en_crtc_id enc)
             in if en_crtc_id enc \<noteq> 0 \<and> 0 \<le> sint crtc then (0, dev\<lparr>md_crtc := crtc\<rparr>, log1)
                else rest log1)"

section \<open>The frame buffer\<close>

text \<open>\<open>modeset_create_fb\<close> with its exits \<open>err_fb\<close> and \<open>err_destroy\<close>.\<close>

definition modeset_create_fb :: "drm \<Rightarrow> modeset_dev \<Rightarrow> drm_log \<Rightarrow> int \<times> modeset_dev \<times> drm_log" where
  "modeset_create_fb os dev log =
     (case d_create_dumb os log (md_width dev) (md_height dev) of
        Inl e \<Rightarrow> (- e, dev, log)
      | Inr (pitch, sz, han) \<Rightarrow>
          let dev1 = dev\<lparr>md_stride := pitch, md_size := ucast sz, md_handle := han\<rparr>;
              log1 = log @ [Acq (RDumb han)];
              err_destroy = (\<lambda>ret dev log. (ret, dev, log @ [Rel (RDumb han)]))
          in (case d_add_fb os log1 han of
                Inl e \<Rightarrow> err_destroy (- e) dev1 log1
              | Inr fb \<Rightarrow>
                  let dev2 = dev1\<lparr>md_fb := fb\<rparr>;
                      log2 = log1 @ [Acq (RFb fb)];
                      err_fb = (\<lambda>ret dev log. err_destroy ret dev (log @ [Rel (RFb fb)]))
                  in (case d_map_dumb os log2 han of
                        Inl e \<Rightarrow> err_fb (- e) dev2 log2
                      | Inr off \<Rightarrow>
                          (case d_mmap os log2 (md_size dev2) off of
                             Inl e \<Rightarrow> err_fb (- e) dev2 log2
                           | Inr a \<Rightarrow> (0, dev2\<lparr>md_map := a\<rparr>, log2 @ [Acq (RMap a)])))))"

definition modeset_setup_dev ::
  "drm \<Rightarrow> modeset_dev list \<Rightarrow> resources \<Rightarrow> connector \<Rightarrow> modeset_dev \<Rightarrow> drm_log \<Rightarrow> int \<times> modeset_dev \<times> drm_log" where
  "modeset_setup_dev os devs res cn dev log =
     (if \<not> cn_connected cn then (- ENOENT, dev, log)
      else case cn_modes cn of
             [] \<Rightarrow> (- EFAULT_D, dev, log)
           | m # ms \<Rightarrow>
               let dev1 = dev\<lparr>md_mode := m, md_width := ucast (hdisplay m), md_height := ucast (vdisplay m)\<rparr>;
                   (ret, dev2, log2) = modeset_find_crtc os devs res cn dev1 log
               in if ret \<noteq> 0 then (ret, dev2, log2) else modeset_create_fb os dev2 log2)"

section \<open>All connectors\<close>

text \<open>\<open>memset(dev, 0, sizeof( *dev))\<close>, then the connector's id.\<close>

definition zeroed_dev :: "32 word \<Rightarrow> modeset_dev" where
  "zeroed_dev cn = \<lparr>md_width = 0, md_height = 0, md_stride = 0, md_size = 0, md_handle = 0, md_map = 0,
     md_mode = \<lparr>hdisplay = 0, vdisplay = 0\<rparr>, md_fb = 0, md_conn = cn, md_crtc = 0, md_saved_crtc = None\<rparr>"

text \<open>The loop of \<open>modeset_prepare\<close>; the list is \<open>modeset_list\<close>.\<close>

fun prepare_loop ::
  "drm \<Rightarrow> resources \<Rightarrow> 32 word list \<Rightarrow> modeset_dev list \<Rightarrow> drm_log \<Rightarrow> modeset_dev list \<times> drm_log" where
  "prepare_loop os res [] devs log = (devs, log)"
| "prepare_loop os res (i # is) devs log =
     (case d_connector os log i of
        None \<Rightarrow> prepare_loop os res is devs log
      | Some cn \<Rightarrow>
          let log1 = log @ [Acq (RConnector i), Acq RMem];
              (ret, dev, log2) = modeset_setup_dev os devs res cn (zeroed_dev (cn_id cn)) log1
          in if ret \<noteq> 0
             then prepare_loop os res is devs (log2 @ [Rel RMem, Rel (RConnector i)])
             else prepare_loop os res is (dev # devs) (log2 @ [Rel (RConnector i)]))"

definition modeset_prepare :: "drm \<Rightarrow> modeset_dev list \<Rightarrow> drm_log \<Rightarrow> int \<times> modeset_dev list \<times> drm_log" where
  "modeset_prepare os devs log =
     (case d_resources os log of
        Inl e \<Rightarrow> (- e, devs, log)
      | Inr res \<Rightarrow>
          let (devs', log') = prepare_loop os res (rs_connectors res) devs (log @ [Acq RResources])
          in (0, devs', log' @ [Rel RResources]))"

section \<open>The program\<close>

text \<open>The strings with the three names are only printed, and never freed.\<close>

definition name_strings :: "drm \<Rightarrow> resource list" where
  "name_strings os = map RName (filter (d_names os) [PrimaryName, RenderName, DeviceName])"

definition modeset_open :: "drm \<Rightarrow> drm_log \<Rightarrow> int \<times> drm_log" where
  "modeset_open os log =
     (case d_open os of
        Inl e \<Rightarrow> (- e, log)
      | Inr _ \<Rightarrow>
          let log1 = log @ [Acq RFd] @ map Acq (name_strings os)
          in if \<not> d_has_dumb os then (- EOPNOTSUPP, log1 @ [Rel RFd]) else (0, log1))"

text \<open>The loop of \<open>main\<close> that sets the modes; \<open>drmModeGetCrtc\<close> may fail and give NULL.\<close>

fun set_modes :: "drm \<Rightarrow> modeset_dev list \<Rightarrow> drm_log \<Rightarrow> modeset_dev list \<times> drm_log" where
  "set_modes os [] log = ([], log)"
| "set_modes os (d # ds) log =
     (let saved = d_get_crtc os log (md_crtc d);
          log1 = (if saved = None then log else log @ [Acq (RCrtc (md_crtc d))]);
          (ds', log') = set_modes os ds (log1 @ [SetCrtc (md_crtc d) (md_fb d) (md_conn d)])
      in (d\<lparr>md_saved_crtc := saved\<rparr> # ds', log'))"

text \<open>\<open>modeset_cleanup\<close>: False is the NULL dereference of \<open>saved_crtc\<close>, which ends the program there.\<close>

fun modeset_cleanup :: "modeset_dev list \<Rightarrow> drm_log \<Rightarrow> bool \<times> drm_log" where
  "modeset_cleanup [] log = (True, log)"
| "modeset_cleanup (d # ds) log =
     (case md_saved_crtc d of
        None \<Rightarrow> (False, log)
      | Some c \<Rightarrow>
          modeset_cleanup ds (log @ [SetCrtc (cr_crtc_id c) (cr_buffer_id c) (md_conn d),
            Rel (RCrtc (md_crtc d)), Rel (RMap (md_map d)), Rel (RFb (md_fb d)),
            Rel (RDumb (md_handle d)), Rel RMem]))"

text \<open>\<open>main\<close> without its drawing, which acquires nothing.\<close>

datatype drm_end = Exited int | NullSavedCrtc

definition drm_main :: "drm \<Rightarrow> drm_end \<times> drm_log" where
  "drm_main os =
     (let (ret, log) = modeset_open os [] in
      if ret \<noteq> 0 then (Exited ret, log)
      else let (ret, devs, log) = modeset_prepare os [] log in
        if ret \<noteq> 0 then (Exited ret, log @ [Rel RFd])
        else let (devs', log) = set_modes os devs log;
                 (ok, log) = modeset_cleanup devs' log
          in if ok then (Exited 0, log @ [Rel RFd]) else (NullSavedCrtc, log))"

section \<open>Effects on what is held\<close>

text \<open>
  A part of the program that turns held resources \<open>A\<close> into \<open>B\<close> and leaves everything else alone;
  such parts compose, and frame.
\<close>

definition effect :: "resource multiset \<Rightarrow> resource multiset \<Rightarrow> drm_log \<Rightarrow> drm_log \<Rightarrow> bool" where
  "effect A B log log' \<longleftrightarrow> (\<exists>es. log' = log @ es \<and> (\<forall>M. held_from (A + M) es = Some (B + M)))"

named_theorems effects "effects of the parts of the program"

lemma held_from_append:
  "held_from M (es @ fs) = (case held_from M es of None \<Rightarrow> None | Some M' \<Rightarrow> held_from M' fs)"
  by (induction M es rule: held_from.induct) simp_all

lemma effect_refl [simp, effects]: "effect A A log log"
  by (simp add: effect_def)

lemma effect_trans [trans]: "effect A B l1 l2 \<Longrightarrow> effect B C l2 l3 \<Longrightarrow> effect A C l1 l3"
  unfolding effect_def by (force simp: held_from_append)

lemma effect_frame: "effect A B l1 l2 \<Longrightarrow> effect (A + F) (B + F) l1 l2"
  unfolding effect_def by (metis add.assoc)

lemma effect_events: "(\<And>M. held_from (A + M) es = Some (B + M)) \<Longrightarrow> effect A B log (log @ es)"
  by (auto simp: effect_def)

lemma scan_encoders_effect: "effect {#} {#} log (snd (scan_encoders os devs crtcs es log))"
proof (induction es arbitrary: log)
  case Nil
  then show ?case by simp
next
  case (Cons e es)
  have s: "effect {#} {#} log (log @ [Acq (REncoder e), Rel (REncoder e)])"
    by (rule effect_events) simp
  show ?case
    using Cons.IH effect_trans[OF s Cons.IH] s
    by (auto simp: Let_def split: option.splits)
qed

lemma find_crtc_effect:
  "modeset_find_crtc os devs res cn dev log = (ret, dev', log') \<Longrightarrow> effect {#} {#} log log'"
proof -
  assume f: "modeset_find_crtc os devs res cn dev log = (ret, dev', log')"
  let ?e = "REncoder (cn_encoder_id cn)"
  have s: "effect {#} {#} log (log @ [Acq ?e, Rel ?e])" by (rule effect_events) simp
  have r: "effect {#} {#} l (snd (scan_encoders os devs (rs_crtcs res) (cn_encoders cn) l))" for l
    by (rule scan_encoders_effect)
  show ?thesis
    using f s r[of log] effect_trans[OF s r]
    by (auto simp: modeset_find_crtc_def Let_def split: option.splits prod.splits if_splits)
qed

text \<open>The resources of a device once it has been set up.\<close>

definition owned :: "modeset_dev \<Rightarrow> resource multiset" where
  "owned d = {#RDumb (md_handle d), RFb (md_fb d), RMap (md_map d)#}"

text \<open>Documented of libdrm and the system: a failing call sets a positive \<open>errno\<close>.\<close>

definition errors_positive :: "drm \<Rightarrow> bool" where
  "errors_positive os \<longleftrightarrow>
     (\<forall>l w h e. d_create_dumb os l w h = Inl e \<longrightarrow> 0 < e) \<and> (\<forall>l h e. d_add_fb os l h = Inl e \<longrightarrow> 0 < e) \<and>
     (\<forall>l h e. d_map_dumb os l h = Inl e \<longrightarrow> 0 < e) \<and> (\<forall>l n f e. d_mmap os l n f = Inl e \<longrightarrow> 0 < e) \<and>
     (\<forall>l e. d_resources os l = Inl e \<longrightarrow> 0 < e) \<and> (\<forall>e. d_open os = Inl e \<longrightarrow> 0 < e)"

lemma errors_positiveD:
  assumes "errors_positive os"
  shows "d_create_dumb os l w h = Inl e \<Longrightarrow> e \<noteq> 0" "d_add_fb os l h = Inl e \<Longrightarrow> e \<noteq> 0"
    "d_map_dumb os l h = Inl e \<Longrightarrow> e \<noteq> 0" "d_mmap os l sz off = Inl e \<Longrightarrow> e \<noteq> 0"
    "d_resources os l = Inl e \<Longrightarrow> e \<noteq> 0" "d_open os = Inl e \<Longrightarrow> e \<noteq> 0"
  using assms unfolding errors_positive_def by (metis less_irrefl)+

lemma create_fb_effect:
  assumes "errors_positive os" "modeset_create_fb os dev log = (ret, dev', log')"
  shows "effect {#} (if ret = 0 then owned dev' else {#}) log log'"
proof -
  have err: "\<And>l w h e. d_create_dumb os l w h = Inl e \<Longrightarrow> e \<noteq> 0" "\<And>l h e. d_add_fb os l h = Inl e \<Longrightarrow> e \<noteq> 0"
      "\<And>l h e. d_map_dumb os l h = Inl e \<Longrightarrow> e \<noteq> 0" "\<And>l n f e. d_mmap os l n f = Inl e \<Longrightarrow> e \<noteq> 0"
    by (rule errors_positiveD(1-4)[OF assms(1)], assumption)+
  have ev: "\<exists>es. log' = log @ es \<and> (\<forall>M. held_from M es = Some ((if ret = 0 then owned dev' else {#}) + M))"
    using assms(2) err
    by (auto simp: modeset_create_fb_def Let_def owned_def split: sum.splits prod.splits)
  then show ?thesis by (simp add: effect_def)
qed

lemma setup_dev_effect:
  assumes "errors_positive os" "modeset_setup_dev os devs res cn dev log = (ret, dev', log')"
  shows "effect {#} (if ret = 0 then owned dev' else {#}) log log'"
proof (cases "cn_connected cn \<and> cn_modes cn \<noteq> []")
  case False
  then show ?thesis using assms(2)
    by (auto simp: modeset_setup_dev_def ENOENT_def EFAULT_D_def split: list.splits if_splits)
next
  case True
  then obtain m ms where ms: "cn_modes cn = m # ms" by (cases "cn_modes cn") auto
  define dev1 where "dev1 = dev\<lparr>md_mode := m, md_width := ucast (hdisplay m), md_height := ucast (vdisplay m)\<rparr>"
  obtain r2 dev2 log2 where f: "modeset_find_crtc os devs res cn dev1 log = (r2, dev2, log2)"
    by (metis prod_cases3)
  note e2 = find_crtc_effect[OF f]
  show ?thesis
  proof (cases "r2 = 0")
    case False
    then show ?thesis using assms(2) True ms f e2
      by (simp add: modeset_setup_dev_def dev1_def[symmetric])
  next
    case ok: True
    then have "modeset_create_fb os dev2 log2 = (ret, dev', log')"
      using assms(2) True ms f by (simp add: modeset_setup_dev_def dev1_def[symmetric])
    from effect_trans[OF e2 create_fb_effect[OF assms(1) this]] show ?thesis .
  qed
qed

fun owned_all :: "modeset_dev list \<Rightarrow> resource multiset" where
  "owned_all [] = {#}"
| "owned_all (d # ds) = add_mset RMem (owned d) + owned_all ds"

lemma prepare_loop_effect:
  assumes "errors_positive os"
  shows "prepare_loop os res is devs log = (devs', log') \<Longrightarrow> effect (owned_all devs) (owned_all devs') log log'"
proof (induction "is" arbitrary: devs log)
  case Nil
  then show ?case by simp
next
  case (Cons i "is")
  show ?case
  proof (cases "d_connector os log i")
    case None
    then show ?thesis using Cons by simp
  next
    case (Some cn)
    define log1 where "log1 = log @ [Acq (RConnector i), Acq RMem]"
    obtain ret dev log2 where s: "modeset_setup_dev os devs res cn (zeroed_dev (cn_id cn)) log1 = (ret, dev, log2)"
      by (metis prod_cases3)
    from setup_dev_effect[OF assms s] obtain es where es: "log2 = log1 @ es"
      "\<And>M. held_from M es = Some ((if ret = 0 then owned dev else {#}) + M)"
      by (auto simp: effect_def)
    show ?thesis
    proof (cases "ret = 0")
      case True
      have "effect (owned_all devs) (owned_all (dev # devs)) log
          (log @ [Acq (RConnector i), Acq RMem] @ es @ [Rel (RConnector i)])"
        by (rule effect_events) (simp add: held_from_append es(2) True add_mset_commute)
      moreover have "prepare_loop os res is (dev # devs) (log2 @ [Rel (RConnector i)]) = (devs', log')"
        using Cons.prems Some s True by (simp add: log1_def[symmetric])
      ultimately show ?thesis using Cons.IH[of "dev # devs"] effect_trans by (simp add: es(1) log1_def)
    next
      case False
      have "effect (owned_all devs) (owned_all devs) log
          (log @ [Acq (RConnector i), Acq RMem] @ es @ [Rel RMem, Rel (RConnector i)])"
        by (rule effect_events) (simp add: held_from_append es(2) False)
      moreover have "prepare_loop os res is devs (log2 @ [Rel RMem, Rel (RConnector i)]) = (devs', log')"
        using Cons.prems Some s False by (simp add: log1_def[symmetric])
      ultimately show ?thesis using Cons.IH[of devs] effect_trans by (simp add: es(1) log1_def)
    qed
  qed
qed

lemma prepare_effect:
  assumes "errors_positive os" "modeset_prepare os devs log = (ret, devs', log')"
  shows "effect (owned_all devs) (owned_all devs') log log'"
proof (cases "d_resources os log")
  case (Inl e)
  then show ?thesis using assms(2) by (simp add: modeset_prepare_def)
next
  case (Inr res)
  obtain ds l where p: "prepare_loop os res (rs_connectors res) devs (log @ [Acq RResources]) = (ds, l)"
    by fastforce
  from prepare_loop_effect[OF assms(1) p] obtain es where es: "l = log @ [Acq RResources] @ es"
    "\<And>M. held_from (owned_all devs + M) es = Some (owned_all ds + M)"
    by (auto simp: effect_def)
  have r: "devs' = ds" "log' = log @ [Acq RResources] @ es @ [Rel RResources]"
    using assms(2) Inr p es(1) by (simp_all add: modeset_prepare_def)
  show ?thesis unfolding r
    by (rule effect_events) (use es(2)[of "add_mset RResources M" for M] in \<open>simp add: held_from_append\<close>)
qed

text \<open>With the saved configurations of the CRTCs, which \<open>main\<close> gets before it changes them.\<close>

fun owned_saved :: "modeset_dev list \<Rightarrow> resource multiset" where
  "owned_saved [] = {#}"
| "owned_saved (d # ds) =
     (if md_saved_crtc d = None then {#} else {#RCrtc (md_crtc d)#}) + add_mset RMem (owned d) + owned_saved ds"

lemma set_modes_effect:
  "set_modes os devs log = (devs', log') \<Longrightarrow>
    effect (owned_all devs) (owned_saved devs') log log' \<and>
    (\<forall>d\<in>set devs'. md_saved_crtc d = None \<longrightarrow> (\<exists>l c. d_get_crtc os l c = None))"
proof (induction devs arbitrary: log devs' log')
  case Nil
  then show ?case by simp
next
  case (Cons d ds)
  define saved where "saved = d_get_crtc os log (md_crtc d)"
  define ev where "ev = (if saved = None then [] else [Acq (RCrtc (md_crtc d))]) @ [SetCrtc (md_crtc d) (md_fb d) (md_conn d)]"
  obtain ds' l' where s: "set_modes os ds (log @ ev) = (ds', l')" by fastforce
  from Cons.IH[OF s] obtain es where es: "l' = log @ ev @ es"
    "\<And>M. held_from (owned_all ds + M) es = Some (owned_saved ds' + M)"
    "\<forall>d\<in>set ds'. md_saved_crtc d = None \<longrightarrow> (\<exists>l c. d_get_crtc os l c = None)"
    by (auto simp: effect_def)
  have ev: "(if saved = None then log else log @ [Acq (RCrtc (md_crtc d))]) @ [SetCrtc (md_crtc d) (md_fb d) (md_conn d)] =
      log @ ev" by (simp add: ev_def)
  have r: "devs' = d\<lparr>md_saved_crtc := saved\<rparr> # ds'" "log' = l'"
    using Cons.prems unfolding set_modes.simps Let_def saved_def[symmetric] ev s by simp_all
  have o: "owned (d\<lparr>md_saved_crtc := x\<rparr>) = owned d" for x by (simp add: owned_def)
  have "effect (owned_all (d # ds)) (owned_saved devs') log (log @ ev @ es)"
    using es(2)[of "add_mset (RCrtc (md_crtc d)) (add_mset RMem (owned d)) + M" for M]
      es(2)[of "add_mset RMem (owned d) + M" for M]
    by (intro effect_events) (simp add: r(1) o ac_simps ev_def)
  then show ?case using r es(1,3) by (auto simp: saved_def)
qed

lemma cleanup_effect:
  "modeset_cleanup devs log = (ok, log') \<Longrightarrow>
   \<exists>B. effect (owned_saved devs) B log log' \<and> (if ok then B = {#} else \<exists>d\<in>set devs. md_saved_crtc d = None)"
proof (induction devs arbitrary: log)
  case Nil
  then show ?case by auto
next
  case (Cons d ds)
  show ?case
  proof (cases "md_saved_crtc d")
    case None
    then show ?thesis using Cons.prems by (auto intro: effect_refl)
  next
    case (Some c)
    let ?es = "[SetCrtc (cr_crtc_id c) (cr_buffer_id c) (md_conn d), Rel (RCrtc (md_crtc d)), Rel (RMap (md_map d)),
        Rel (RFb (md_fb d)), Rel (RDumb (md_handle d)), Rel RMem]"
    have "modeset_cleanup ds (log @ ?es) = (ok, log')" using Cons.prems Some by simp
    from Cons.IH[OF this] obtain B where B: "effect (owned_saved ds) B (log @ ?es) log'"
      "if ok then B = {#} else \<exists>d\<in>set ds. md_saved_crtc d = None" by blast
    have "effect (owned_saved (d # ds)) (owned_saved ds) log (log @ ?es)"
      by (rule effect_events) (simp add: owned_def Some)
    from effect_trans[OF this B(1)] B(2) show ?thesis by (auto split: if_splits)
  qed
qed

lemma held_from_acquired: "held_from M (map Acq rs) = Some (mset rs + M)"
  by (induction rs arbitrary: M) simp_all

text \<open>What a run leaves behind: the name strings, once the card could be opened.\<close>

definition names_left :: "drm \<Rightarrow> resource multiset" where
  "names_left os = (case d_open os of Inl _ \<Rightarrow> {#} | Inr _ \<Rightarrow> mset (name_strings os))"

lemma open_held:
  assumes "errors_positive os" "modeset_open os [] = (ret, log)"
  shows "held_from {#} log = Some (if ret = 0 then add_mset RFd (names_left os) else names_left os)"
  using assms(2) errors_positiveD(6)[OF assms(1)]
  by (auto simp: modeset_open_def names_left_def held_from_append held_from_acquired EOPNOTSUPP_def Let_def
      split: sum.splits if_splits)

text \<open>Setting the modes and cleaning up: everything is given back, or some device lacks its configuration.\<close>

lemma modes_cleanup_effect:
  assumes "set_modes os devs log = (devs', log1)" "modeset_cleanup devs' log1 = (ok, log2)"
  shows "\<exists>B. effect (owned_all devs) B log log2 \<and> (if ok then B = {#} else \<exists>l c. d_get_crtc os l c = None)"
proof -
  obtain B where B: "effect (owned_saved devs') B log1 log2"
    "if ok then B = {#} else \<exists>d\<in>set devs'. md_saved_crtc d = None"
    using cleanup_effect[OF assms(2)] by blast
  from set_modes_effect[OF assms(1)] have "effect (owned_all devs) (owned_saved devs') log log1"
    and "\<forall>d\<in>set devs'. md_saved_crtc d = None \<longrightarrow> (\<exists>l c. d_get_crtc os l c = None)" by auto
  with effect_trans[OF this(1) B(1)] B(2) show ?thesis by (metis (no_types, lifting))
qed

text \<open>C15: the program gives back everything but the strings of \<open>modeset_open\<close>: on every path, with any failing
  calls of libdrm and the kernel, nothing is released that is not held, and when the program exits it holds exactly the
  name strings that libdrm allocated. It exits unless \<open>drmModeGetCrtc\<close> gave NULL for some device, which
  \<open>modeset_cleanup\<close> dereferences.\<close>

theorem drm_main_balanced:
  assumes "errors_positive os"
  shows "\<exists>e log M. drm_main os = (e, log) \<and> held_from {#} log = Some M \<and>
    (case e of
       Exited ret \<Rightarrow> M = names_left os
     | NullSavedCrtc \<Rightarrow> (\<exists>l c. d_get_crtc os l c = None))"
proof -
  obtain ret log where o: "modeset_open os [] = (ret, log)" by fastforce
  obtain r2 devs log2 where p: "modeset_prepare os [] log = (r2, devs, log2)" by (metis prod_cases3)
  note h = open_held[OF assms o]
  consider "ret \<noteq> 0" | "ret = 0" "r2 \<noteq> 0" | "ret = 0" "r2 = 0" by blast
  then show ?thesis
  proof cases
    case 1
    then show ?thesis using o h by (simp add: drm_main_def)
  next
    case 2
    then have "log2 = log" using p by (auto simp: modeset_prepare_def split: sum.splits prod.splits)
    then show ?thesis using o 2 p h by (simp add: drm_main_def held_from_append)
  next
    case 3
    obtain devs' log3 where s: "set_modes os devs log2 = (devs', log3)" by fastforce
    obtain k log4 where c: "modeset_cleanup devs' log3 = (k, log4)" by fastforce
    from modes_cleanup_effect[OF s c] obtain B where B: "effect (owned_all devs) B log2 log4"
      "if k then B = {#} else \<exists>l c. d_get_crtc os l c = None" by blast
    have "effect {#} B log log4" using effect_trans[OF prepare_effect[OF assms p] B(1)] by simp
    then have "held_from {#} log4 = Some (B + add_mset RFd (names_left os))"
      using h 3 by (auto simp: effect_def held_from_append)
    moreover have "drm_main os = (if k then (Exited 0, log4 @ [Rel RFd]) else (NullSavedCrtc, log4))"
      using o p s c 3 by (simp add: drm_main_def)
    ultimately show ?thesis using B(2) by (cases k) (simp_all add: held_from_append)
  qed
qed

section \<open>No CRTC is shared\<close>

lemma try_crtc_ok: "0 \<le> sint (try_crtc devs c) \<longleftrightarrow> 0 \<le> sint c \<and> c \<notin> md_crtc ` set devs"
  by (auto simp: try_crtc_def)

lemma try_crtc_value: "0 \<le> sint (try_crtc devs c) \<Longrightarrow> try_crtc devs c = c"
  by (auto simp: try_crtc_def split: if_splits)

text \<open>A CRTC a device may take, and the CRTCs an encoder with a mask can drive.\<close>

definition crtc_free :: "modeset_dev list \<Rightarrow> 32 word \<Rightarrow> bool" where
  "crtc_free devs c \<longleftrightarrow> 0 \<le> sint c \<and> c \<notin> md_crtc ` set devs"

definition drivable :: "32 word \<Rightarrow> nat \<Rightarrow> 32 word list \<Rightarrow> 32 word set" where
  "drivable possible j cs = {cs ! i | i. i < length cs \<and> bit possible (i + j)}"

lemma drivable_Cons:
  "drivable possible j (c # cs) = (if bit possible j then {c} else {}) \<union> drivable possible (Suc j) cs"
proof -
  have "drivable possible j (c # cs) =
      {x. \<exists>i. i < Suc (length cs) \<and> bit possible (i + j) \<and> x = (c # cs) ! i}"
    by (auto simp: drivable_def)
  also have "\<dots> = {x. (bit possible j \<and> x = c) \<or> (\<exists>i. i < length cs \<and> bit possible (Suc i + j) \<and> x = cs ! i)}"
    by (rule Collect_cong) (auto simp: less_Suc_eq_0_disj)
  finally show ?thesis by (auto simp: drivable_def)
qed

lemma scan_crtcs_Some:
  "scan_crtcs devs possible j cs = Some c \<Longrightarrow> c \<in> drivable possible j cs \<and> crtc_free devs c"
proof (induction cs arbitrary: j)
  case (Cons a cs)
  then show ?case using try_crtc_value[of devs a] try_crtc_ok[of devs a]
    by (auto simp: drivable_Cons and_exp_eq_0_iff_not_bit Let_def crtc_free_def split: if_splits)
qed simp

lemma scan_crtcs_None:
  "scan_crtcs devs possible j cs = None \<Longrightarrow> c \<in> drivable possible j cs \<Longrightarrow> \<not> crtc_free devs c"
proof (induction cs arbitrary: j)
  case Nil
  then show ?case by (simp add: drivable_def)
next
  case (Cons a cs)
  then show ?case using try_crtc_ok[of devs a]
    by (auto simp: drivable_Cons and_exp_eq_0_iff_not_bit Let_def crtc_free_def split: if_splits)
qed

lemma scan_encoders_Some:
  "scan_encoders os devs crtcs es log = (Some c, log') \<Longrightarrow>
   crtc_free devs c \<and> (\<exists>e\<in>set es. \<exists>l enc. d_encoder os l e = Some enc \<and> c \<in> drivable (en_possible_crtcs enc) 0 crtcs)"
proof (induction es arbitrary: log)
  case (Cons e es)
  show ?case
  proof (cases "d_encoder os log e")
    case None
    then show ?thesis using Cons by auto
  next
    case (Some enc)
    then show ?thesis using Cons scan_crtcs_Some
      by (auto simp: Let_def split: option.splits) blast+
  qed
qed simp

lemma scan_encoders_None:
  assumes "\<And>l e. d_encoder os l e = enc_of e"
  shows "scan_encoders os devs crtcs es log = (None, log') \<Longrightarrow> e \<in> set es \<Longrightarrow> enc_of e = Some enc \<Longrightarrow>
    c \<in> drivable (en_possible_crtcs enc) 0 crtcs \<Longrightarrow> \<not> crtc_free devs c"
proof (induction es arbitrary: log)
  case (Cons a es)
  then show ?case using scan_crtcs_None
    by (auto simp: Let_def assms split: option.splits)
qed simp

lemma find_crtc_free:
  assumes "modeset_find_crtc os devs res cn dev log = (0, dev', log')"
  shows "crtc_free devs (md_crtc dev')"
proof -
  have t: "0 \<le> sint (try_crtc devs c) \<Longrightarrow> crtc_free devs (try_crtc devs c)" for c
    using try_crtc_value[of devs c] try_crtc_ok[of devs c] by (simp add: crtc_free_def)
  show ?thesis
    using assms t scan_encoders_Some
    by (auto simp: modeset_find_crtc_def Let_def ENOENT_def split: option.splits prod.splits if_splits)
qed

lemma create_fb_crtc: "modeset_create_fb os dev log = (ret, dev', log') \<Longrightarrow> md_crtc dev' = md_crtc dev"
  by (auto simp: modeset_create_fb_def Let_def split: sum.splits prod.splits)

lemma setup_dev_free:
  assumes "modeset_setup_dev os devs res cn dev log = (0, dev', log')"
  shows "crtc_free devs (md_crtc dev')"
  using assms find_crtc_free create_fb_crtc
  by (auto simp: modeset_setup_dev_def Let_def ENOENT_def EFAULT_D_def split: list.splits prod.splits if_splits)

definition crtcs_exclusive :: "modeset_dev list \<Rightarrow> bool" where
  "crtcs_exclusive devs \<longleftrightarrow> distinct (map md_crtc devs) \<and> (\<forall>d\<in>set devs. 0 \<le> sint (md_crtc d))"

lemma prepare_loop_exclusive:
  "prepare_loop os res is devs log = (devs', log') \<Longrightarrow> crtcs_exclusive devs \<Longrightarrow>
   crtcs_exclusive devs' \<and> length devs' \<le> length devs + length is"
proof (induction "is" arbitrary: devs log)
  case (Cons i "is")
  show ?case
  proof (cases "d_connector os log i")
    case None
    then show ?thesis using Cons by force
  next
    case (Some cn)
    define log1 where "log1 = log @ [Acq (RConnector i), Acq RMem]"
    obtain ret dev log2 where s: "modeset_setup_dev os devs res cn (zeroed_dev (cn_id cn)) log1 = (ret, dev, log2)"
      by (metis prod_cases3)
    show ?thesis
    proof (cases "ret = 0")
      case True
      then have "crtc_free devs (md_crtc dev)" using setup_dev_free s by blast
      then have "crtcs_exclusive (dev # devs)" using Cons.prems(2)
        by (auto simp: crtcs_exclusive_def crtc_free_def)
      then show ?thesis
        using Cons.IH[of "dev # devs" "log2 @ [Rel (RConnector i)]"] Cons.prems(1) Some s True
        by (simp add: log1_def)
    next
      case False
      then show ?thesis
        using Cons.IH[of devs "log2 @ [Rel RMem, Rel (RConnector i)]"] Cons.prems Some s
        by (simp add: log1_def)
    qed
  qed
qed simp

text \<open>C16: no two devices that \<open>modeset_prepare\<close> sets up share a CRTC, every CRTC passed the signed test,
  and there are at most as many devices as connectors.\<close>

theorem drm_crtcs_exclusive:
  assumes "modeset_prepare os [] log = (ret, devs, log')"
  shows "distinct (map md_crtc devs) \<and> (\<forall>d\<in>set devs. 0 \<le> sint (md_crtc d)) \<and>
    (\<forall>res. d_resources os log = Inr res \<longrightarrow> length devs \<le> length (rs_connectors res))"
proof (cases "d_resources os log")
  case (Inl e)
  then show ?thesis using assms by (simp add: modeset_prepare_def)
next
  case (Inr res)
  obtain ds l where p: "prepare_loop os res (rs_connectors res) [] (log @ [Acq RResources]) = (ds, l)"
    by fastforce
  have "crtcs_exclusive ([] :: modeset_dev list)" by (simp add: crtcs_exclusive_def)
  from prepare_loop_exclusive[OF p this] show ?thesis
    using assms Inr p by (simp add: modeset_prepare_def crtcs_exclusive_def)
qed

text \<open>The search for a CRTC is complete: when libdrm's answers about encoders do not change, the
  error \<open>ENOENT\<close> means that every CRTC that some encoder of the connector can drive is taken by
  another device (or has an id above the range of \<open>int32_t\<close>), and leaves the device as it was.\<close>

theorem drm_find_crtc_complete:
  assumes "\<And>l e. d_encoder os l e = enc_of e" "modeset_find_crtc os devs res cn dev log = (ret, dev', log')"
    and "ret \<noteq> 0" "e \<in> set (cn_encoders cn)" "enc_of e = Some enc"
    and "i < length (rs_crtcs res)" "bit (en_possible_crtcs enc) i" "0 \<le> sint (rs_crtcs res ! i)"
  shows "ret = - ENOENT \<and> dev' = dev \<and> (\<exists>d\<in>set devs. md_crtc d = rs_crtcs res ! i)"
proof -
  have "\<exists>l. scan_encoders os devs (rs_crtcs res) (cn_encoders cn) l = (None, log') \<and> ret = - ENOENT \<and> dev' = dev"
    using assms(2,3) by (auto simp: modeset_find_crtc_def Let_def split: option.splits prod.splits if_splits)
  then obtain l where s: "scan_encoders os devs (rs_crtcs res) (cn_encoders cn) l = (None, log')"
    "ret = - ENOENT" "dev' = dev" by blast
  have "rs_crtcs res ! i \<in> drivable (en_possible_crtcs enc) 0 (rs_crtcs res)"
    using assms(6,7) by (auto simp: drivable_def)
  from scan_encoders_None[OF assms(1) s(1) assms(4,5) this] assms(8) s(2,3) show ?thesis
    by (auto simp: crtc_free_def)
qed

text \<open>A card with one display of 4 by 2 pixels and one CRTC.\<close>

definition demo_connector :: connector where
  "demo_connector = \<lparr>cn_id = 5, cn_connected = True, cn_modes = [\<lparr>hdisplay = 4, vdisplay = 2\<rparr>],
     cn_encoder_id = 0, cn_encoders = [9]\<rparr>"

definition demo_drm :: drm where
  "demo_drm = \<lparr>d_open = Inr (), d_names = (\<lambda>n. n \<noteq> RenderName), d_has_dumb = True,
     d_resources = (\<lambda>l. Inr \<lparr>rs_connectors = [5, 6], rs_crtcs = [20]\<rparr>),
     d_connector = (\<lambda>l i. Some (demo_connector\<lparr>cn_id := i\<rparr>)),
     d_encoder = (\<lambda>l e. Some \<lparr>en_crtc_id = 0, en_possible_crtcs = 1\<rparr>),
     d_create_dumb = (\<lambda>l w h. Inr (16, 32, 3)), d_add_fb = (\<lambda>l h. Inr 8),
     d_map_dumb = (\<lambda>l h. Inr 0), d_mmap = (\<lambda>l n f. Inr 1),
     d_get_crtc = (\<lambda>l c. Some \<lparr>cr_crtc_id = c, cr_buffer_id = 0\<rparr>)\<rparr>"

theorem drm_main_balanced_witness:
  "\<exists>ret log. drm_main demo_drm = (Exited ret, log) \<and>
    held_from {#} log = Some {#RName PrimaryName, RName DeviceName#}"
proof -
  have "errors_positive demo_drm" by (simp add: errors_positive_def demo_drm_def)
  then obtain e log M where m: "drm_main demo_drm = (e, log)" "held_from {#} log = Some M"
    "case e of Exited ret \<Rightarrow> M = names_left demo_drm | NullSavedCrtc \<Rightarrow> (\<exists>l c. d_get_crtc demo_drm l c = None)"
    using drm_main_balanced by blast
  have "names_left demo_drm = {#RName PrimaryName, RName DeviceName#}"
    by (simp add: names_left_def name_strings_def demo_drm_def)
  moreover have "e \<noteq> NullSavedCrtc" using m(3) by (auto simp: demo_drm_def)
  ultimately show ?thesis using m by (cases e) simp_all
qed

definition demo_dev :: modeset_dev where
  "demo_dev = (zeroed_dev 5)\<lparr>md_width := 4, md_height := 2, md_mode := \<lparr>hdisplay = 4, vdisplay = 2\<rparr>,
     md_crtc := 20, md_stride := 16, md_size := 32, md_handle := 3, md_fb := 8, md_map := 1\<rparr>"

text \<open>The first display gets the CRTC; for the second none is left.\<close>

lemma demo_prepare: "fst (snd (modeset_prepare demo_drm [] [])) = [demo_dev]"
  by (simp add: modeset_prepare_def demo_drm_def modeset_setup_dev_def modeset_find_crtc_def
      modeset_create_fb_def demo_connector_def zeroed_dev_def try_crtc_def demo_dev_def Let_def ENOENT_def
      split: prod.splits)

theorem drm_crtcs_exclusive_witness:
  "fst (snd (modeset_prepare demo_drm [] [])) = [demo_dev] \<and> distinct (map md_crtc [demo_dev]) \<and>
    0 \<le> sint (md_crtc demo_dev) \<and> length [demo_dev] \<le> length [5 :: 32 word, 6]"
proof -
  obtain ret log' where "modeset_prepare demo_drm [] [] = (ret, [demo_dev], log')"
    using demo_prepare by (metis prod.collapse)
  from drm_crtcs_exclusive[OF this] show ?thesis using demo_prepare by (simp add: demo_drm_def)
qed

theorem drm_find_crtc_complete_witness:
  "\<exists>ret dev log. modeset_find_crtc demo_drm [demo_dev] \<lparr>rs_connectors = [5, 6], rs_crtcs = [20]\<rparr> demo_connector (zeroed_dev 6) [] = (ret, dev, log) \<and>
    ret = - ENOENT \<and> dev = zeroed_dev 6 \<and> (\<exists>d\<in>set [demo_dev]. md_crtc d = [20] ! 0)"
proof -
  define r where "r = modeset_find_crtc demo_drm [demo_dev] \<lparr>rs_connectors = [5, 6], rs_crtcs = [20]\<rparr> demo_connector (zeroed_dev 6) []"
  have r: "r = (- ENOENT, zeroed_dev 6, [Acq (REncoder 9), Rel (REncoder 9)])"
    by (simp add: r_def modeset_find_crtc_def demo_drm_def demo_connector_def try_crtc_def demo_dev_def zeroed_dev_def Let_def)
  have e: "\<And>l e. d_encoder demo_drm l e = Some \<lparr>en_crtc_id = 0, en_possible_crtcs = 1\<rparr>"
    by (simp add: demo_drm_def)
  have "- ENOENT = - ENOENT \<and> zeroed_dev 6 = zeroed_dev 6 \<and> (\<exists>d\<in>set [demo_dev]. md_crtc d = [20] ! 0)"
    using drm_find_crtc_complete[OF e r[unfolded r_def], of 9 _ 0] by (simp add: ENOENT_def demo_connector_def)
  then show ?thesis using r[unfolded r_def] by blast
qed

text \<open>Without the saved configuration of some CRTC the clean-up dereferences NULL.\<close>

lemma cleanup_null: "\<exists>d\<in>set devs. md_saved_crtc d = None \<Longrightarrow> \<not> fst (modeset_cleanup devs log)"
  by (induction devs arbitrary: log) (auto split: option.splits)

end
