(* ===== verification/DrmDraw.thy ===== *)
theory DrmDraw
  imports Drm
begin

text \<open>
  \<open>tdrm1.c\<close>: the drawing of \<open>modeset_draw\<close> into the mappings of the devices, and its changing
  colour. \<open>rand()\<close> is a parameter; the memory of a mapping is a function from offsets to bytes.
\<close>

unbundle bit_operations_syntax

section \<open>Drawing\<close>

text \<open>
  \<open>next_color\<close> with the value of \<open>rand()\<close>: the product and the sum are unsigned, the result is cut
  to 8 bits.
\<close>

definition next_color :: "bool \<Rightarrow> byte \<Rightarrow> nat \<Rightarrow> nat \<Rightarrow> bool \<times> byte" where
  "next_color up cur rnd md =
     (let nxt = ucast (ucast cur + (if up then 1 else - 1) * (word_of_nat (rnd mod md) :: 32 word)) :: byte in
      if (up \<and> nxt < cur) \<or> (\<not> up \<and> nxt > cur) then (\<not> up, cur) else (up, nxt))"

text \<open>The four bytes that \<open>*(uint32_t* )&map[off] = colour\<close> stores.\<close>

type_synonym frame = "nat \<Rightarrow> byte"

definition store32 :: "nat \<Rightarrow> 32 word \<Rightarrow> frame \<Rightarrow> frame" where
  "store32 off c m = (\<lambda>a. if off \<le> a \<and> a < off + 4 then ucast (drop_bit (8 * (a - off)) c) else m a)"

definition pixel_off :: "modeset_dev \<Rightarrow> nat \<Rightarrow> nat \<Rightarrow> nat" where
  "pixel_off d j k = unat (md_stride d * word_of_nat j + word_of_nat k * 4)"

definition draw_row :: "modeset_dev \<Rightarrow> 32 word \<Rightarrow> nat \<Rightarrow> frame \<Rightarrow> frame" where
  "draw_row d c j = fold (\<lambda>k. store32 (pixel_off d j k) c) [0..<unat (md_width d)]"

definition draw_dev :: "32 word \<Rightarrow> modeset_dev \<Rightarrow> frame \<Rightarrow> frame" where
  "draw_dev c d = fold (draw_row d c) [0..<unat (md_height d)]"

record painter =
  pt_r :: byte
  pt_g :: byte
  pt_b :: byte
  pt_r_up :: bool
  pt_g_up :: bool
  pt_b_up :: bool

definition colour :: "painter \<Rightarrow> 32 word" where
  "colour p = push_bit 16 (ucast (pt_r p)) OR push_bit 8 (ucast (pt_g p)) OR ucast (pt_b p)"

text \<open>The three colours of a round; \<open>n\<close> counts the calls of \<open>rand()\<close>.\<close>

definition mix :: "(nat \<Rightarrow> nat) \<Rightarrow> nat \<Rightarrow> painter \<Rightarrow> painter" where
  "mix rnd n p =
     (let (ru, r) = next_color (pt_r_up p) (pt_r p) (rnd n) 20;
          (gu, g) = next_color (pt_g_up p) (pt_g p) (rnd (n + 1)) 10;
          (bu, b) = next_color (pt_b_up p) (pt_b p) (rnd (n + 2)) 5
      in \<lparr>pt_r = r, pt_g = g, pt_b = b, pt_r_up = ru, pt_g_up = gu, pt_b_up = bu\<rparr>)"

text \<open>The memory of every mapping; a round draws into the mapping of each device.\<close>

definition paint :: "32 word \<Rightarrow> modeset_dev list \<Rightarrow> (nat \<Rightarrow> frame) \<Rightarrow> (nat \<Rightarrow> frame)" where
  "paint c = fold (\<lambda>d fr. fr(md_map d := draw_dev c d (fr (md_map d))))"

fun draw_rounds ::
  "nat \<Rightarrow> (nat \<Rightarrow> nat) \<Rightarrow> nat \<Rightarrow> painter \<Rightarrow> modeset_dev list \<Rightarrow> (nat \<Rightarrow> frame) \<Rightarrow> painter \<times> (nat \<Rightarrow> frame)" where
  "draw_rounds 0 rnd n p devs fr = (p, fr)"
| "draw_rounds (Suc i) rnd n p devs fr =
     (let p' = mix rnd n p in draw_rounds i rnd (n + 3) p' devs (paint (colour p') devs fr))"

definition modeset_draw :: "(nat \<Rightarrow> nat) \<Rightarrow> modeset_dev list \<Rightarrow> (nat \<Rightarrow> frame) \<Rightarrow> painter \<times> (nat \<Rightarrow> frame)" where
  "modeset_draw rnd devs fr =
     draw_rounds 50 rnd 3
       \<lparr>pt_r = word_of_nat (rnd 0 mod 0xff), pt_g = word_of_nat (rnd 1 mod 0xff), pt_b = word_of_nat (rnd 2 mod 0xff),
        pt_r_up = True, pt_g_up = True, pt_b_up = True\<rparr> devs fr"

subsection \<open>Colours\<close>

lemma mod_256_above: "256 \<le> x \<Longrightarrow> x < 512 \<Longrightarrow> x mod 256 = x - (256 :: int)"
  using mod_pos_pos_trivial[of "x - 256" 256] minus_mod_self2[of x 256] by simp

lemma mod_256_below: "- 256 \<le> x \<Longrightarrow> x < 0 \<Longrightarrow> x mod 256 = x + (256 :: int)"
  using mod_pos_pos_trivial[of "x + 256" 256] mod_add_self2[of x 256] by simp

lemma uint_next:
  fixes cur :: byte
  assumes "d < 256"
  shows "uint (ucast (ucast cur + (word_of_nat d :: 32 word)) :: byte) = (uint cur + int d) mod 256"
    "uint (ucast (ucast cur - (word_of_nat d :: 32 word)) :: byte) = (uint cur - int d) mod 256"
proof -
  have d: "uint (word_of_nat d :: 32 word) = int d"
    using assms by (simp add: unsigned_of_nat take_bit_eq_mod)
  have c: "uint cur mod 4294967296 = uint cur"
    using uint_lt2p[of cur] by (intro mod_pos_pos_trivial) simp_all
  have m: "(x mod 4294967296) mod 256 = x mod (256 :: int)" for x
    by (simp add: mod_mod_cancel)
  show "uint (ucast (ucast cur + (word_of_nat d :: 32 word)) :: byte) = (uint cur + int d) mod 256"
    unfolding unsigned_ucast_eq uint_word_ariths d by (simp add: take_bit_eq_mod m c)
  show "uint (ucast (ucast cur - (word_of_nat d :: 32 word)) :: byte) = (uint cur - int d) mod 256"
    unfolding unsigned_ucast_eq uint_word_ariths d by (simp add: take_bit_eq_mod m c)
qed

text \<open>\<open>next_color\<close> never jumps: with a step limit of at most 256, as all calls have, the colour moves
  by less than the limit in its current direction, or, if it would leave the range of a byte,
  stays as it is and turns round.\<close>

theorem drm_next_color_smooth:
  assumes "0 < md" "md \<le> 256" "next_color up cur rnd md = (up', c)"
  shows "(let d = int (rnd mod md) in
    if up then (if uint cur + d \<le> 255 then up' \<and> uint c = uint cur + d else \<not> up' \<and> c = cur)
    else (if 0 \<le> uint cur - d then \<not> up' \<and> uint c = uint cur - d else up' \<and> c = cur))"
proof -
  define d where "d = rnd mod md"
  have d: "d < 256" using assms(1,2) unfolding d_def by (meson less_le_trans mod_less_divisor)
  have r: "0 \<le> uint cur" "uint cur < 256" using uint_lt2p[of cur] by simp_all
  define nu where "nu = (ucast (ucast cur + (word_of_nat d :: 32 word)) :: byte)"
  define nd where "nd = (ucast (ucast cur - (word_of_nat d :: 32 word)) :: byte)"
  have nu: "uint nu = (if uint cur + int d \<le> 255 then uint cur + int d else uint cur + int d - 256)"
    using uint_next(1)[OF d, of cur] d r mod_256_above[of "uint cur + int d"]
      mod_pos_pos_trivial[of "uint cur + int d" 256] by (simp add: nu_def[symmetric])
  have low: "- 256 \<le> uint cur - int d" using d r by linarith
  have nd: "uint nd = (if 0 \<le> uint cur - int d then uint cur - int d else uint cur - int d + 256)"
    using uint_next(2)[OF d, of cur] d r low mod_256_below[of "uint cur - int d"]
      mod_pos_pos_trivial[of "uint cur - int d" 256] by (simp add: nd_def[symmetric])
  have cmp: "nu < cur \<longleftrightarrow> 255 < uint cur + int d" "cur < nd \<longleftrightarrow> uint cur - int d < 0"
    using nu nd d r unfolding word_less_def by (auto split: if_splits)
  have u: "next_color True cur rnd md = (if nu < cur then (False, cur) else (True, nu))"
    by (simp add: next_color_def Let_def nu_def d_def)
  have dn: "next_color False cur rnd md = (if cur < nd then (True, cur) else (False, nd))"
    by (simp add: next_color_def Let_def nd_def d_def)
  show ?thesis
    using assms(3) u dn nu nd unfolding cmp Let_def d_def[symmetric]
    by (cases up) (auto split: if_splits)
qed

theorem drm_next_color_smooth_witness:
  "(let d = int ((37::nat) mod 20) in
    if True then (if uint (250::byte) + d \<le> 255 then False \<and> uint (250::byte) = uint (250::byte) + d else \<not> False \<and> (250::byte) = 250)
    else (if 0 \<le> uint (250::byte) - d then \<not> False \<and> uint (250::byte) = uint (250::byte) - d else False \<and> (250::byte) = 250))"
  by (rule drm_next_color_smooth[where rnd = 37 and md = 20]) (simp_all add: next_color_def Let_def)

subsection \<open>Pixels\<close>

text \<open>Documented of a dumb buffer: its lines hold the pixels, its size the lines.\<close>

definition dev_fits :: "modeset_dev \<Rightarrow> bool" where
  "dev_fits d \<longleftrightarrow> 4 * unat (md_width d) \<le> unat (md_stride d) \<and>
     unat (md_stride d) * unat (md_height d) \<le> unat (md_size d)"

definition pixel_at :: "modeset_dev \<Rightarrow> nat \<Rightarrow> nat \<Rightarrow> nat" where
  "pixel_at d j k = unat (md_stride d) * j + 4 * k"

lemma pixel_in_size:
  assumes "dev_fits d" "j < unat (md_height d)" "k < unat (md_width d)"
  shows "pixel_at d j k + 4 \<le> unat (md_size d)"
proof -
  have "pixel_at d j k + 4 \<le> unat (md_stride d) * j + 4 * unat (md_width d)"
    using assms(3) by (simp add: pixel_at_def)
  also have "\<dots> \<le> unat (md_stride d) * Suc j" using assms(1) by (simp add: dev_fits_def)
  also have "\<dots> \<le> unat (md_stride d) * unat (md_height d)"
    using assms(2) by (intro mult_le_mono2) simp
  finally show ?thesis using assms(1) by (simp add: dev_fits_def)
qed

lemma pixel_off_eq:
  assumes "dev_fits d" "j < unat (md_height d)" "k < unat (md_width d)"
  shows "pixel_off d j k = pixel_at d j k"
proof -
  have "unat (md_size d) < 2 ^ LENGTH(32)" by (rule unsigned_less)
  then have size_lt: "unat (md_size d) < 2 ^ 32" by simp
  have lt: "unat (md_stride d) * j + 4 * k < 2 ^ 32"
    using pixel_in_size[OF assms] size_lt by (simp add: pixel_at_def)
  have "md_stride d * word_of_nat j + word_of_nat k * 4 = (word_of_nat (unat (md_stride d) * j + 4 * k) :: 32 word)"
    by simp
  also have "unat \<dots> = unat (md_stride d) * j + 4 * k"
    unfolding unat_of_nat by (rule mod_less) (use lt in simp)
  finally show ?thesis by (simp only: pixel_off_def pixel_at_def)
qed

text \<open>Disjoint stores: each is seen in the end, and nothing else changes.\<close>

definition apart :: "nat \<Rightarrow> nat \<Rightarrow> bool" where
  "apart x y \<longleftrightarrow> x + 4 \<le> y \<or> y + 4 \<le> (x :: nat)"

lemma store32_outside: "a < off \<or> off + 4 \<le> a \<Longrightarrow> store32 off c m a = m a"
  by (auto simp: store32_def)

lemma fold_store_outside:
  "(\<And>x. x \<in> set xs \<Longrightarrow> a < x \<or> x + 4 \<le> a) \<Longrightarrow> fold (\<lambda>x. store32 x c) xs m a = m a"
  by (induction xs arbitrary: m) (auto simp: store32_outside)

lemma fold_store_inside:
  assumes "\<And>x y. x \<in> set xs \<Longrightarrow> y \<in> set xs \<Longrightarrow> x = y \<or> apart x y" "x \<in> set xs" "i < 4"
  shows "fold (\<lambda>x. store32 x c) xs m (x + i) = ucast (drop_bit (8 * i) c)"
  using assms(1,2)
proof (induction xs arbitrary: m)
  case (Cons y ys)
  show ?case
  proof (cases "x \<in> set ys")
    case True
    then show ?thesis using Cons.IH Cons.prems(1) by simp
  next
    case False
    then have x: "x = y" using Cons.prems(2) by simp
    have "fold (\<lambda>x. store32 x c) ys (store32 y c m) (x + i) = store32 y c m (x + i)"
    proof (rule fold_store_outside)
      fix z assume "z \<in> set ys"
      then have "apart z x" using False Cons.prems(1)[of z x] x by auto
      then show "x + i < z \<or> z + 4 \<le> x + i" using assms(3) by (auto simp: apart_def)
    qed
    moreover have "store32 y c m (x + i) = ucast (drop_bit (8 * i) c)"
      using assms(3) x by (simp add: store32_def)
    ultimately show ?thesis by simp
  qed
qed simp

definition pixels :: "modeset_dev \<Rightarrow> nat list" where
  "pixels d = concat (map (\<lambda>j. map (pixel_at d j) [0..<unat (md_width d)]) [0..<unat (md_height d)])"

lemma set_pixels: "set (pixels d) = {pixel_at d j k | j k. j < unat (md_height d) \<and> k < unat (md_width d)}"
  by (force simp: pixels_def)

lemma fold_concat_map: "fold (\<lambda>j. fold f (g j)) js m = fold f (concat (map g js)) m"
  by (induction js arbitrary: m) simp_all

lemma draw_dev_pixels:
  assumes "dev_fits d"
  shows "draw_dev c d m = fold (\<lambda>x. store32 x c) (pixels d) m"
proof -
  let ?h = "unat (md_height d)" and ?w = "unat (md_width d)"
  have row: "draw_row d c j m = fold (\<lambda>x. store32 x c) (map (pixel_at d j) [0..<?w]) m" if "j < ?h" for j m
    unfolding draw_row_def fold_map comp_def
    by (rule fold_cong) (simp_all add: pixel_off_eq[OF assms that])
  have "draw_dev c d m = fold (\<lambda>j. fold (\<lambda>x. store32 x c) (map (pixel_at d j) [0..<?w])) [0..<?h] m"
    unfolding draw_dev_def by (rule fold_cong) (simp_all add: row fun_eq_iff)
  then show ?thesis by (simp add: fold_concat_map pixels_def)
qed

lemma pixels_apart:
  assumes "dev_fits d" "x \<in> set (pixels d)" "y \<in> set (pixels d)"
  shows "x = y \<or> apart x y"
proof -
  obtain j k j' k' where x: "x = pixel_at d j k" "k < unat (md_width d)"
    and y: "y = pixel_at d j' k'" "k' < unat (md_width d)"
    using assms(2,3) by (auto simp: set_pixels)
  have line: "pixel_at d a b + 4 \<le> pixel_at d a' b'" if "a < a'" "b < unat (md_width d)" for a a' b b'
  proof -
    have "pixel_at d a b + 4 \<le> unat (md_stride d) * Suc a"
      using that(2) assms(1) by (simp add: pixel_at_def dev_fits_def)
    also have "\<dots> \<le> unat (md_stride d) * a'" using that(1) by (intro mult_le_mono2) simp
    finally show ?thesis by (simp add: pixel_at_def)
  qed
  show ?thesis
  proof (cases "j = j'")
    case True
    then show ?thesis by (cases k k' rule: linorder_cases) (simp_all add: x y pixel_at_def apart_def)
  next
    case False
    then show ?thesis using line[of j j' k k'] line[of j' j k' k] x y
      by (auto simp: apart_def neq_iff)
  qed
qed

lemma draw_dev_inside:
  "dev_fits d \<Longrightarrow> x \<in> set (pixels d) \<Longrightarrow> i < 4 \<Longrightarrow> draw_dev c d m (x + i) = ucast (drop_bit (8 * i) c)"
  using fold_store_inside[of "pixels d" x i] pixels_apart[of d] by (simp add: draw_dev_pixels)

lemma draw_dev_outside:
  "dev_fits d \<Longrightarrow> (\<And>x. x \<in> set (pixels d) \<Longrightarrow> a < x \<or> x + 4 \<le> a) \<Longrightarrow> draw_dev c d m a = m a"
  using fold_store_outside[of "pixels d" a] by (simp add: draw_dev_pixels)

lemma paint_other: "a \<notin> md_map ` set devs \<Longrightarrow> paint c devs fr a = fr a"
  unfolding paint_def by (induction devs arbitrary: fr) auto

lemma paint_dev:
  "distinct (map md_map devs) \<Longrightarrow> d \<in> set devs \<Longrightarrow> paint c devs fr (md_map d) = draw_dev c d (fr (md_map d))"
proof (induction devs arbitrary: fr)
  case (Cons e devs)
  have unf: "paint c (e # devs) fr = paint c devs (fr(md_map e := draw_dev c e (fr (md_map e))))"
    by (simp add: paint_def)
  show ?case
  proof (cases "d = e")
    case True
    then show ?thesis using Cons.prems(1) by (simp add: unf paint_other)
  next
    case False
    then have "d \<in> set devs" using Cons.prems(2) by simp
    moreover from this have "md_map d \<in> md_map ` set devs" by (rule imageI)
    then have "md_map d \<noteq> md_map e" using Cons.prems(1) by auto
    moreover note Cons.prems(1)
    ultimately have "d \<in> set devs" "md_map d \<noteq> md_map e" "distinct (map md_map devs)" by simp_all
    then show ?thesis using Cons.IH by (simp add: unf)
  qed
qed simp

lemma draw_rounds_dev:
  assumes "distinct (map md_map devs)" "d \<in> set devs" "dev_fits d"
  shows "draw_rounds i rnd n p devs fr = (p', fr') \<Longrightarrow>
    (0 < i \<longrightarrow> (\<forall>x\<in>set (pixels d). \<forall>b<4. fr' (md_map d) (x + b) = ucast (drop_bit (8 * b) (colour p')))) \<and>
    (\<forall>a. (\<forall>x\<in>set (pixels d). a < x \<or> x + 4 \<le> a) \<longrightarrow> fr' (md_map d) a = fr (md_map d) a)"
proof (induction i arbitrary: n p fr)
  case (Suc i)
  define p1 where "p1 = mix rnd n p"
  define fr1 where "fr1 = paint (colour p1) devs fr"
  have fr1: "fr1 (md_map d) = draw_dev (colour p1) d (fr (md_map d))"
    unfolding fr1_def by (rule paint_dev[OF assms(1,2)])
  have rest: "draw_rounds i rnd (n + 3) p1 devs fr1 = (p', fr')"
    using Suc.prems by (simp add: Let_def p1_def fr1_def)
  show ?case
  proof (cases "i = 0")
    case True
    then have "p' = p1" "fr' = fr1" using rest by simp_all
    then show ?thesis using fr1 draw_dev_inside[OF assms(3)] draw_dev_outside[OF assms(3)] by simp
  next
    case False
    then show ?thesis using Suc.IH[OF rest] fr1 draw_dev_outside[OF assms(3)] by simp
  qed
qed simp

text \<open>C19: \<open>modeset_draw\<close> stays inside every mapping: with the lines and sizes a dumb buffer has, the
  offsets do not overflow, all four bytes of every pixel of a device hold the last colour when
  it returns, and no byte of the mapping outside the visible pixels is changed.\<close>

theorem drm_draw_in_bounds:
  assumes "distinct (map md_map devs)" "d \<in> set devs" "dev_fits d" "modeset_draw rnd devs fr = (p, fr')"
  shows "(\<forall>j<unat (md_height d). \<forall>k<unat (md_width d). \<forall>b<4.
      pixel_off d j k + b < unat (md_size d) \<and>
      fr' (md_map d) (pixel_off d j k + b) = ucast (drop_bit (8 * b) (colour p))) \<and>
    (\<forall>a. (\<forall>j<unat (md_height d). \<forall>k<unat (md_width d). a < pixel_off d j k \<or> pixel_off d j k + 4 \<le> a) \<longrightarrow>
      fr' (md_map d) a = fr (md_map d) a)"
proof -
  note r = draw_rounds_dev[OF assms(1-3) assms(4)[unfolded modeset_draw_def]]
  have r1: "fr' (md_map d) (x + b) = ucast (drop_bit (8 * b) (colour p))" if "x \<in> set (pixels d)" "b < 4" for x b
    using r[THEN conjunct1] that by simp
  have r2: "fr' (md_map d) a = fr (md_map d) a" if "\<forall>x\<in>set (pixels d). a < x \<or> x + 4 \<le> a" for a
    using r[THEN conjunct2] that by simp
  have x: "x \<in> set (pixels d) \<longleftrightarrow> (\<exists>j<unat (md_height d). \<exists>k<unat (md_width d). x = pixel_off d j k)" for x
    unfolding set_pixels mem_Collect_eq using pixel_off_eq[OF assms(3)] by metis
  show ?thesis
  proof (intro conjI allI impI)
    fix j k b :: nat assume j: "j < unat (md_height d)" "k < unat (md_width d)" "b < 4"
    show "pixel_off d j k + b < unat (md_size d)"
      using pixel_in_size[OF assms(3) j(1,2)] j(3) pixel_off_eq[OF assms(3) j(1,2)] by simp
    have "pixel_off d j k \<in> set (pixels d)" using x j by blast
    then show "fr' (md_map d) (pixel_off d j k + b) = ucast (drop_bit (8 * b) (colour p))" by (rule r1) (rule j(3))
  next
    fix a assume a: "\<forall>j<unat (md_height d). \<forall>k<unat (md_width d). a < pixel_off d j k \<or> pixel_off d j k + 4 \<le> a"
    have "a < y \<or> y + 4 \<le> a" if y: "y \<in> set (pixels d)" for y
    proof -
      obtain j k where "j < unat (md_height d)" "k < unat (md_width d)" "y = pixel_off d j k"
        using iffD1[OF x y] by blast
      then show ?thesis using a by simp
    qed
    then show "fr' (md_map d) a = fr (md_map d) a" by (intro r2 ballI)
  qed
qed

theorem drm_draw_in_bounds_witness:
  "\<exists>p fr'. modeset_draw (\<lambda>n. n) [demo_dev] (\<lambda>_ _. 0) = (p, fr') \<and> pixel_off demo_dev 1 3 + 2 < 32 \<and>
      fr' 1 (pixel_off demo_dev 1 3 + 2) = ucast (drop_bit (8 * 2) (colour p)) \<and> fr' 1 32 = (0 :: byte)"
proof -
  obtain p fr' where d: "modeset_draw (\<lambda>n. n) [demo_dev] (\<lambda>_ _. 0) = (p, fr')" by fastforce
  have f: "dev_fits demo_dev" by (simp add: dev_fits_def demo_dev_def)
  have e: "unat (md_height demo_dev) = 2" "unat (md_width demo_dev) = 4" "unat (md_size demo_dev) = 32"
    "md_map demo_dev = 1" by (simp_all add: demo_dev_def)
  have "distinct (map md_map [demo_dev])" "demo_dev \<in> set [demo_dev]" by simp_all
  note in_bounds = drm_draw_in_bounds[OF this f d, unfolded e]
  have "pixel_off demo_dev 1 3 + 2 < 32" "fr' 1 (pixel_off demo_dev 1 3 + 2) = ucast (drop_bit (8 * 2) (colour p))"
    using in_bounds[THEN conjunct1, rule_format, of 1 3 2] by simp_all
  moreover have "fr' 1 32 = 0"
  proof (rule in_bounds[THEN conjunct2, rule_format])
    fix j k :: nat
    assume "j < 2" "k < 4"
    then show "32 < pixel_off demo_dev j k \<or> pixel_off demo_dev j k + 4 \<le> 32"
      using in_bounds[THEN conjunct1, rule_format, of j k 3] by simp
  qed
  ultimately show ?thesis using d by blast
qed

end
