(* ===== verification/FontDraw.thy ===== *)
theory FontDraw
  imports Prelude
begin

text \<open>
  \<open>ft2wrap.h\<close>: drawing text into an image with FreeType. The glyphs, their metrics and bitmaps
  come from the library, the parameter \<open>font\<close>; modelled are the movement of the pen in
  \<open>printString\<close> and the clipping and blending of \<open>my_draw_bitmap\<close>. Every access to the image or to
  a bitmap is checked; the first one outside ends the drawing with a fault.
\<close>

section \<open>Images and bitmaps\<close>

text \<open>A pixel is a \<open>Vec3b\<close>; an image is addressed by row and column.\<close>

type_synonym pixel = "byte \<times> byte \<times> byte"

record image =
  im_rows :: int
  im_cols :: int
  im_px :: "int \<Rightarrow> int \<Rightarrow> pixel"

record bitmap =
  bm_rows :: int
  bm_width :: int
  bm_pitch :: int
  bm_buffer :: "byte list"

text \<open>The value of an \<open>int\<close> after arithmetic that C converts back from \<open>unsigned\<close>.\<close>

definition to_int :: "int \<Rightarrow> int" where
  "to_int z = sint (word_of_int z :: 32 word)"

text \<open>Division of C, which truncates.\<close>

definition cdiv :: "int \<Rightarrow> int \<Rightarrow> int" where
  "cdiv a b = (if 0 \<le> a then a div b else - ((- a) div b))"

text \<open>\<open>(src * (255 - val) + c * val) / 256\<close>, stored in an \<open>unsigned char\<close>.\<close>

definition blend :: "byte \<Rightarrow> int \<Rightarrow> byte \<Rightarrow> byte" where
  "blend src c val = word_of_int (cdiv (uint src * (255 - uint val) + c * uint val) 256)"

type_synonym colour3 = "int \<times> int \<times> int"

definition blend_pixel :: "colour3 \<Rightarrow> byte \<Rightarrow> pixel \<Rightarrow> pixel" where
  "blend_pixel c val p =
     (case (c, p) of ((c0, c1, c2), (s0, s1, s2)) \<Rightarrow> (blend s0 c0 val, blend s1 c1 val, blend s2 c2 val))"

text \<open>The faults of the component: accesses outside a glyph's bitmap, the image or the text buffer, and a division by 0.\<close>

datatype ft_fault = OutsideBitmap | OutsideImage | OutsideText | DivisionByZero

text \<open>The accesses: \<open>alpha[j]\<close> of row \<open>i\<close>, and the pixel of the image.\<close>

definition alpha_at :: "bitmap \<Rightarrow> int \<Rightarrow> int \<Rightarrow> byte option" where
  "alpha_at bm i j =
     (let o' = i * bm_pitch bm + j in
      if 0 \<le> o' \<and> o' < int (length (bm_buffer bm)) then Some (bm_buffer bm ! nat o') else None)"

definition update_px :: "int \<Rightarrow> int \<Rightarrow> (pixel \<Rightarrow> pixel) \<Rightarrow> image \<Rightarrow> ft_fault + image" where
  "update_px r c f img =
     (if 0 \<le> r \<and> r < im_rows img \<and> 0 \<le> c \<and> c < im_cols img
      then Inr (img\<lparr>im_px := (im_px img)(r := (im_px img r)(c := f (im_px img r c)))\<rparr>)
      else Inl OutsideImage)"

section \<open>\<open>my_draw_bitmap\<close>\<close>

definition draw_one :: "bitmap \<Rightarrow> int \<Rightarrow> int \<Rightarrow> colour3 \<Rightarrow> int \<times> int \<Rightarrow> image \<Rightarrow> ft_fault + image" where
  "draw_one bm x y c ij img =
     (case ij of (i, j) \<Rightarrow>
        (case alpha_at bm i j of
           None \<Rightarrow> Inl OutsideBitmap
         | Some val \<Rightarrow> if val \<noteq> 0 then update_px (i + y) (j + x) (blend_pixel c val) img else Inr img))"

fun draw_all :: "bitmap \<Rightarrow> int \<Rightarrow> int \<Rightarrow> colour3 \<Rightarrow> (int \<times> int) list \<Rightarrow> image \<Rightarrow> ft_fault + image" where
  "draw_all bm x y c [] img = Inr img"
| "draw_all bm x y c (ij # ijs) img =
     (case draw_one bm x y c ij img of Inl f \<Rightarrow> Inl f | Inr img' \<Rightarrow> draw_all bm x y c ijs img')"

text \<open>The clipped ranges of rows and columns, then the two loops.\<close>

definition clip :: "int \<Rightarrow> int \<Rightarrow> int \<Rightarrow> int \<times> int" where
  "clip x w limit =
     (let x0 = x; x1 = to_int (x + w);
          x0 = (if x0 < 0 then 0 else x0);
          x1 = (if x1 > limit then limit else x1)
      in (x0 - x, x1 - x))"

definition my_draw_bitmap :: "bitmap \<Rightarrow> int \<Rightarrow> int \<Rightarrow> colour3 \<Rightarrow> image \<Rightarrow> ft_fault + image" where
  "my_draw_bitmap bm x y c img =
     (let (j0, j1) = clip x (bm_width bm) (im_cols img);
          (i0, i1) = clip y (bm_rows bm) (im_rows img)
      in draw_all bm x y c [(i, j). i \<leftarrow> [i0..i1 - 1], j \<leftarrow> [j0..j1 - 1]] img)"

section \<open>\<open>printString\<close>\<close>

record glyph =
  gl_left :: int
  gl_top :: int
  gl_bitmap :: bitmap

text \<open>
  FreeType: the index of a character (0 when it has none), loading and rendering at a size, and
  kerning. The second part of a load is \<open>slot->advance.x\<close> after it, which a failing one may
  leave as it was.
\<close>

record font =
  ft_index :: "nat \<Rightarrow> nat"
  ft_load :: "int \<Rightarrow> nat \<Rightarrow> int \<Rightarrow> glyph option \<times> int"
  ft_kerned :: bool
  ft_kerning :: "int \<Rightarrow> nat \<Rightarrow> nat \<Rightarrow> int option"

text \<open>
  The pen: \<open>posx\<close>, \<open>dx\<close>, \<open>previous\<close>, \<open>dy_max\<close>, and the advance in the glyph slot, which outlives
  the call. The floats of the code hold integers, exactly up to \<open>2 ^ 24\<close>.
\<close>

record pen =
  pn_x :: int
  pn_dx :: int
  pn_prev :: nat
  pn_dy :: int
  pn_slot :: int

text \<open>One round of the loop for the \<open>k\<close>-th character.\<close>

definition print_char ::
  "font \<Rightarrow> int \<Rightarrow> int \<Rightarrow> colour3 \<Rightarrow> nat \<Rightarrow> nat \<Rightarrow> pen \<times> image \<Rightarrow> ft_fault + pen \<times> image" where
  "print_char ft size0 peny c k ch s =
     (case s of (p, img) \<Rightarrow>
        let gi = ft_index ft ch in
        if gi = 0 then Inr (p, img)
        else
          let p1 = (if k > 0 then p\<lparr>pn_dx := cdiv (pn_slot p) 64\<rparr> else p);
              (r, adv) = ft_load ft size0 gi (pn_slot p1);
              p2 = p1\<lparr>pn_slot := adv\<rparr>
          in case r of
               None \<Rightarrow> Inr (p2, img)
             | Some gl \<Rightarrow>
                 let kern = (if ft_kerned ft \<and> pn_prev p2 \<noteq> 0
                             then (case ft_kerning ft size0 (pn_prev p2) gi of None \<Rightarrow> 0 | Some d \<Rightarrow> cdiv d 64)
                             else 0);
                     posx = pn_x p2 + kern + pn_dx p2
                 in (case my_draw_bitmap (gl_bitmap gl) (posx + gl_left gl) (peny - gl_top gl) c img of
                       Inl f \<Rightarrow> Inl f
                     | Inr img' \<Rightarrow>
                         Inr (p2\<lparr>pn_x := posx, pn_prev := gi,
                                  pn_dy := (if pn_dy p2 < bm_rows (gl_bitmap gl) then bm_rows (gl_bitmap gl) else pn_dy p2)\<rparr>,
                               img')))"

fun print_loop ::
  "font \<Rightarrow> int \<Rightarrow> int \<Rightarrow> colour3 \<Rightarrow> nat \<Rightarrow> nat list \<Rightarrow> pen \<times> image \<Rightarrow> ft_fault + pen \<times> image" where
  "print_loop ft size0 peny c k [] s = Inr s"
| "print_loop ft size0 peny c k (ch # chs) s =
     (case print_char ft size0 peny c k ch s of
        Inl f \<Rightarrow> Inl f
      | Inr s' \<Rightarrow> print_loop ft size0 peny c (Suc k) chs s')"

text \<open>\<open>slot\<close> is the advance the slot holds from the glyph loaded last, by this call or an earlier one.\<close>

definition printString ::
  "font \<Rightarrow> int \<Rightarrow> nat list \<Rightarrow> int \<Rightarrow> int \<Rightarrow> colour3 \<Rightarrow> int \<Rightarrow> image \<Rightarrow> ft_fault + int \<times> pen \<times> image" where
  "printString ft slot str penx peny c size0 img =
     (case print_loop ft size0 peny c 0 str
             (\<lparr>pn_x = penx, pn_dx = 0, pn_prev = 0, pn_dy = 0, pn_slot = slot\<rparr>, img) of
        Inl f \<Rightarrow> Inl f
      | Inr (p, img') \<Rightarrow> Inr (pn_dy p, p, img'))"

section \<open>Drawing stays inside\<close>

definition bitmap_ok :: "bitmap \<Rightarrow> bool" where
  "bitmap_ok bm \<longleftrightarrow> 0 \<le> bm_rows bm \<and> 0 \<le> bm_width bm \<and> bm_width bm \<le> bm_pitch bm \<and>
     int (length (bm_buffer bm)) = bm_rows bm * bm_pitch bm"

definition image_ok :: "image \<Rightarrow> bool" where
  "image_ok img \<longleftrightarrow> 0 \<le> im_rows img \<and> im_rows img < 2 ^ 31 \<and> 0 \<le> im_cols img \<and> im_cols img < 2 ^ 31"

definition alpha :: "bitmap \<Rightarrow> int \<Rightarrow> int \<Rightarrow> byte" where
  "alpha bm i j = bm_buffer bm ! nat (i * bm_pitch bm + j)"

lemma alpha_at_inside:
  assumes "bitmap_ok bm" "0 \<le> i" "i < bm_rows bm" "0 \<le> j" "j < bm_width bm"
  shows "alpha_at bm i j = Some (alpha bm i j)"
proof -
  have "i * bm_pitch bm + j < (i + 1) * bm_pitch bm"
    using assms(1,5) by (simp add: bitmap_ok_def distrib_right)
  also have "\<dots> \<le> bm_rows bm * bm_pitch bm"
    using assms by (intro mult_right_mono) (simp_all add: bitmap_ok_def)
  finally have "i * bm_pitch bm + j < int (length (bm_buffer bm))" using assms(1) by (simp add: bitmap_ok_def)
  moreover have "0 \<le> i * bm_pitch bm + j" using assms by (simp add: bitmap_ok_def)
  ultimately show ?thesis by (simp add: alpha_at_def alpha_def Let_def)
qed

text \<open>A list of positions that are all inside, each at most once: every one is blended.\<close>

definition inside :: "bitmap \<Rightarrow> int \<Rightarrow> int \<Rightarrow> image \<Rightarrow> int \<times> int \<Rightarrow> bool" where
  "inside bm x y img ij \<longleftrightarrow>
     (case ij of (i, j) \<Rightarrow> 0 \<le> i \<and> i < bm_rows bm \<and> 0 \<le> j \<and> j < bm_width bm \<and>
        0 \<le> i + y \<and> i + y < im_rows img \<and> 0 \<le> j + x \<and> j + x < im_cols img)"

definition blended :: "bitmap \<Rightarrow> int \<Rightarrow> int \<Rightarrow> colour3 \<Rightarrow> (int \<times> int) set \<Rightarrow> image \<Rightarrow> int \<Rightarrow> int \<Rightarrow> pixel" where
  "blended bm x y c A img r cl =
     (if (r - y, cl - x) \<in> A \<and> alpha bm (r - y) (cl - x) \<noteq> 0
      then blend_pixel c (alpha bm (r - y) (cl - x)) (im_px img r cl) else im_px img r cl)"

lemma draw_one_inside:
  assumes "bitmap_ok bm" "inside bm x y img (i, j)"
  shows "\<exists>img1. draw_one bm x y c (i, j) img = Inr img1 \<and> im_rows img1 = im_rows img \<and>
    im_cols img1 = im_cols img \<and> im_px img1 = blended bm x y c {(i, j)} img"
proof -
  have a: "alpha_at bm i j = Some (alpha bm i j)"
    using assms by (intro alpha_at_inside) (auto simp: inside_def)
  have pos: "r - y = i \<and> cl - x = j \<longleftrightarrow> r = i + y \<and> cl = j + x" for r cl by auto
  show ?thesis
  proof (cases "alpha bm i j = 0")
    case True
    then show ?thesis using a by (auto simp: draw_one_def blended_def fun_eq_iff)
  next
    case False
    then show ?thesis using a assms(2)
      by (auto simp: draw_one_def update_px_def inside_def blended_def fun_eq_iff)
  qed
qed

lemma draw_all_inside:
  assumes bm: "bitmap_ok bm"
  shows "distinct ijs \<Longrightarrow> (\<forall>ij\<in>set ijs. inside bm x y img ij) \<Longrightarrow>
    \<exists>img'. draw_all bm x y c ijs img = Inr img' \<and> im_rows img' = im_rows img \<and> im_cols img' = im_cols img \<and>
      im_px img' = blended bm x y c (set ijs) img"
proof (induction ijs arbitrary: img)
  case Nil
  then show ?case by (simp add: blended_def fun_eq_iff)
next
  case (Cons ij ijs)
  obtain i j where ij: "ij = (i, j)" by fastforce
  obtain img1 where s: "draw_one bm x y c ij img = Inr img1" "im_rows img1 = im_rows img" "im_cols img1 = im_cols img"
    "im_px img1 = blended bm x y c {ij} img"
    using draw_one_inside[OF bm, of x y img i j c] Cons.prems(2) ij by auto
  have "\<forall>ij\<in>set ijs. inside bm x y img1 ij" using Cons.prems(2) s(2,3) by (auto simp: inside_def)
  then obtain img' where r: "draw_all bm x y c ijs img1 = Inr img'" "im_rows img' = im_rows img1"
    "im_cols img' = im_cols img1" "im_px img' = blended bm x y c (set ijs) img1"
    using Cons.IH[of img1] Cons.prems(1) by auto
  have "blended bm x y c (set ijs) img1 = blended bm x y c (set (ij # ijs)) img"
    using Cons.prems(1) s(4) by (auto simp: blended_def fun_eq_iff)
  then show ?case using s r by simp
qed

lemma to_int_below: "- (2 ^ 31) \<le> z \<Longrightarrow> to_int z \<le> z"
proof -
  assume z: "- (2 ^ 31) \<le> z"
  have "to_int z = (z + 2 ^ 31) mod 2 ^ 32 - 2 ^ 31"
    by (simp add: to_int_def sint_sbintrunc' signed_take_bit_eq_take_bit_shift take_bit_eq_mod)
  also have "\<dots> \<le> z + 2 ^ 31 - 2 ^ 31" using z by (intro diff_right_mono zmod_le_nonneg_dividend) simp
  finally show ?thesis by simp
qed

lemma to_int_exact: "- (2 ^ 31) \<le> z \<Longrightarrow> z < 2 ^ 31 \<Longrightarrow> to_int z = z"
  by (simp add: to_int_def sint_sbintrunc' signed_take_bit_int_eq_self)

lemma clip_range:
  assumes "- (2 ^ 31) \<le> x" "0 \<le> w" "clip x w limit = (j0, j1)" "j0 \<le> j" "j < j1"
  shows "0 \<le> j \<and> j < w \<and> 0 \<le> j + x \<and> j + x < limit"
  using assms to_int_below[of "x + w"] by (auto simp: clip_def Let_def split: if_splits)

lemma clip_exact:
  assumes "- (2 ^ 31) \<le> x" "0 \<le> w" "x + w < 2 ^ 31" "clip x w limit = (j0, j1)"
  shows "j0 \<le> j \<and> j < j1 \<longleftrightarrow> 0 \<le> j \<and> j < w \<and> 0 \<le> j + x \<and> j + x < limit"
  using assms to_int_exact[of "x + w"] by (auto simp: clip_def Let_def split: if_splits)

lemma positions_product:
  "[(i, j). i \<leftarrow> is, j \<leftarrow> js] = List.product is js"
  by (induction "is") simp_all

lemma draw_bitmap_safe:
  assumes "bitmap_ok bm" "- (2 ^ 31) \<le> x" "- (2 ^ 31) \<le> y"
  shows "\<exists>img'. my_draw_bitmap bm x y c img = Inr img' \<and> im_rows img' = im_rows img \<and> im_cols img' = im_cols img \<and>
    (x + bm_width bm < 2 ^ 31 \<longrightarrow> y + bm_rows bm < 2 ^ 31 \<longrightarrow>
      im_px img' = blended bm x y c {ij. inside bm x y img ij} img)"
proof -
  obtain j0 j1 where j: "clip x (bm_width bm) (im_cols img) = (j0, j1)" by fastforce
  obtain i0 i1 where i: "clip y (bm_rows bm) (im_rows img) = (i0, i1)" by fastforce
  have w: "0 \<le> bm_width bm" "0 \<le> bm_rows bm" using assms(1) by (simp_all add: bitmap_ok_def)
  define ps where "ps = List.product [i0..i1 - 1] [j0..j1 - 1]"
  have "distinct ps" by (simp add: ps_def distinct_product)
  moreover have "\<forall>ij\<in>set ps. inside bm x y img ij"
    using clip_range[OF assms(2) w(1) j] clip_range[OF assms(3) w(2) i]
    by (fastforce simp: ps_def inside_def)
  ultimately obtain img' where d: "draw_all bm x y c ps img = Inr img'" "im_rows img' = im_rows img"
    "im_cols img' = im_cols img" "im_px img' = blended bm x y c (set ps) img"
    using draw_all_inside[OF assms(1)] by blast
  have "my_draw_bitmap bm x y c img = Inr img'"
    using d(1) unfolding my_draw_bitmap_def j i Let_def prod.case positions_product ps_def .
  moreover have "set ps = {ij. inside bm x y img ij}" if "x + bm_width bm < 2 ^ 31" "y + bm_rows bm < 2 ^ 31"
  proof -
    have "(a, b) \<in> set ps \<longleftrightarrow> (i0 \<le> a \<and> a < i1) \<and> (j0 \<le> b \<and> b < j1)" for a b
      by (auto simp: ps_def)
    then have "(a, b) \<in> set ps \<longleftrightarrow> inside bm x y img (a, b)" for a b
      unfolding clip_exact[OF assms(2) w(1) that(1) j] clip_exact[OF assms(3) w(2) that(2) i] inside_def by simp blast
    then show ?thesis by auto
  qed
  ultimately show ?thesis using d by simp
qed

text \<open>Bitmaps of another shape, such as the monochrome ones of an embedded strike, may be read outside; the
  image is never left all the same.\<close>

lemma draw_all_confined:
  "(\<forall>(i, j)\<in>set ijs. 0 \<le> i + y \<and> i + y < im_rows img \<and> 0 \<le> j + x \<and> j + x < im_cols img) \<Longrightarrow>
   case draw_all bm x y c ijs img of
     Inl f \<Rightarrow> f = OutsideBitmap | Inr img' \<Rightarrow> im_rows img' = im_rows img \<and> im_cols img' = im_cols img"
proof (induction ijs arbitrary: img)
  case (Cons ij ijs)
  obtain i j where ij: "ij = (i, j)" by fastforce
  have one: "case draw_one bm x y c ij img of
      Inl f \<Rightarrow> f = OutsideBitmap | Inr img' \<Rightarrow> im_rows img' = im_rows img \<and> im_cols img' = im_cols img"
    using Cons.prems by (auto simp: ij draw_one_def update_px_def split: option.splits)
  show ?case
  proof (cases "draw_one bm x y c ij img")
    case (Inl f)
    then show ?thesis using one by simp
  next
    case (Inr img1)
    then have "im_rows img1 = im_rows img" "im_cols img1 = im_cols img" using one by simp_all
    then show ?thesis using Cons.IH[of img1] Cons.prems Inr by (auto split: sum.splits)
  qed
qed simp

lemma draw_bitmap_confined:
  assumes "0 \<le> bm_rows bm" "0 \<le> bm_width bm" "- (2 ^ 31) \<le> x" "- (2 ^ 31) \<le> y"
  shows "case my_draw_bitmap bm x y c img of
     Inl f \<Rightarrow> f = OutsideBitmap \<and> \<not> bitmap_ok bm
   | Inr img' \<Rightarrow> im_rows img' = im_rows img \<and> im_cols img' = im_cols img"
proof -
  obtain j0 j1 where j: "clip x (bm_width bm) (im_cols img) = (j0, j1)" by fastforce
  obtain i0 i1 where i: "clip y (bm_rows bm) (im_rows img) = (i0, i1)" by fastforce
  let ?ps = "List.product [i0..i1 - 1] [j0..j1 - 1]"
  have "\<forall>(a, b)\<in>set ?ps. 0 \<le> a + y \<and> a + y < im_rows img \<and> 0 \<le> b + x \<and> b + x < im_cols img"
    using clip_range[OF assms(3,2) j] clip_range[OF assms(4,1) i] by fastforce
  from draw_all_confined[OF this, of bm c]
  have "case my_draw_bitmap bm x y c img of
      Inl f \<Rightarrow> f = OutsideBitmap | Inr img' \<Rightarrow> im_rows img' = im_rows img \<and> im_cols img' = im_cols img"
    unfolding my_draw_bitmap_def j i Let_def prod.case positions_product .
  moreover have "\<exists>img'. my_draw_bitmap bm x y c img = Inr img'" if "bitmap_ok bm"
    using draw_bitmap_safe[OF that assms(3,4)] by blast
  ultimately show ?thesis by (auto split: sum.splits)
qed

text \<open>C17: \<open>my_draw_bitmap\<close> never reads outside the bitmap nor writes outside the image, wherever the
  bitmap lies; exactly the pixels of the image that a nonzero alpha value covers are blended,
  each once, and all others keep their value.\<close>

theorem ft_draw_clipped:
  assumes "bitmap_ok bm" "- (2 ^ 31) \<le> x" "x + bm_width bm < 2 ^ 31" "- (2 ^ 31) \<le> y" "y + bm_rows bm < 2 ^ 31"
  shows "\<exists>img'. my_draw_bitmap bm x y c img = Inr img' \<and> im_rows img' = im_rows img \<and> im_cols img' = im_cols img \<and>
    (\<forall>r cl. im_px img' r cl =
      (if 0 \<le> r \<and> r < im_rows img \<and> 0 \<le> cl \<and> cl < im_cols img \<and>
          0 \<le> r - y \<and> r - y < bm_rows bm \<and> 0 \<le> cl - x \<and> cl - x < bm_width bm \<and> alpha bm (r - y) (cl - x) \<noteq> 0
       then blend_pixel c (alpha bm (r - y) (cl - x)) (im_px img r cl) else im_px img r cl))"
proof -
  obtain img' where d: "my_draw_bitmap bm x y c img = Inr img'" "im_rows img' = im_rows img" "im_cols img' = im_cols img"
    "im_px img' = blended bm x y c {ij. inside bm x y img ij} img"
    using draw_bitmap_safe[OF assms(1,2,4)] assms(3,5) by blast
  have "inside bm x y img (r - y, cl - x) \<longleftrightarrow> 0 \<le> r \<and> r < im_rows img \<and> 0 \<le> cl \<and> cl < im_cols img \<and>
      0 \<le> r - y \<and> r - y < bm_rows bm \<and> 0 \<le> cl - x \<and> cl - x < bm_width bm" for r cl
    by (auto simp: inside_def)
  then show ?thesis using d by (simp add: blended_def)
qed

definition demo_bitmap :: bitmap where
  "demo_bitmap = \<lparr>bm_rows = 2, bm_width = 2, bm_pitch = 3, bm_buffer = [0, 255, 9, 128, 1, 9]\<rparr>"

lemma demo_bitmap_ok: "bitmap_ok demo_bitmap"
  by (simp add: bitmap_ok_def demo_bitmap_def)

definition blank_image :: "int \<Rightarrow> int \<Rightarrow> image" where
  "blank_image rows cols = \<lparr>im_rows = rows, im_cols = cols, im_px = (\<lambda>_ _. (0, 0, 0))\<rparr>"

definition demo_image :: image where
  "demo_image = \<lparr>im_rows = 2, im_cols = 3, im_px = (\<lambda>_ _. (0, 0, 0))\<rparr>"

theorem ft_draw_clipped_witness:
  "\<exists>img'. my_draw_bitmap demo_bitmap (- 1) 1 (255, 0, 0) demo_image = Inr img' \<and>
    im_px img' 1 0 = blend_pixel (255, 0, 0) 255 (0, 0, 0) \<and> im_px img' 0 0 = (0, 0, 0)"
proof -
  obtain img' where d: "my_draw_bitmap demo_bitmap (- 1) 1 (255, 0, 0) demo_image = Inr img'"
    and px: "\<forall>r cl. im_px img' r cl =
      (if 0 \<le> r \<and> r < im_rows demo_image \<and> 0 \<le> cl \<and> cl < im_cols demo_image \<and>
          0 \<le> r - 1 \<and> r - 1 < bm_rows demo_bitmap \<and> 0 \<le> cl - (- 1) \<and> cl - (- 1) < bm_width demo_bitmap \<and>
          alpha demo_bitmap (r - 1) (cl - (- 1)) \<noteq> 0
       then blend_pixel (255, 0, 0) (alpha demo_bitmap (r - 1) (cl - (- 1))) (im_px demo_image r cl)
       else im_px demo_image r cl)"
    using ft_draw_clipped[OF demo_bitmap_ok, of "- 1" 1 "(255, 0, 0)" demo_image] by (auto simp: demo_bitmap_def)
  have a: "alpha demo_bitmap 0 1 = 255" by (simp add: alpha_def demo_bitmap_def)
  have "im_px img' 1 0 = blend_pixel (255, 0, 0) 255 (0, 0, 0)" "im_px img' 0 0 = (0, 0, 0)"
    using px[rule_format, of 1 0] px[rule_format, of 0 0] a by (simp_all add: demo_image_def demo_bitmap_def)
  then show ?thesis using d by blast
qed

section \<open>Blending\<close>

text \<open>For a colour component in the range of a byte the blended value stays between the old value
  and the colour, except that the truncating division may put it one below the smaller of the
  two; no wrap-around occurs. A fully covered pixel gets \<open>c * 255 / 256\<close>, so that white is
  drawn as 254.\<close>

theorem ft_blend_range:
  assumes "0 \<le> c" "c \<le> 255"
  shows "min (uint src) c - 1 \<le> uint (blend src c val) \<and> uint (blend src c val) \<le> max (uint src) c \<and>
    uint (blend src c 255) = c * 255 div 256"
proof -
  have r: "0 \<le> uint src" "uint src \<le> 255" "0 \<le> uint val" "uint val \<le> 255"
    using uint_lt2p[of src] uint_lt2p[of val] by simp_all
  have byte: "uint (word_of_int z :: byte) = z" if "0 \<le> z" "z \<le> 255" for z
    using that by (simp add: unsigned_of_int take_bit_int_eq_self_iff)
  define s where "s = uint src * (255 - uint val) + c * uint val"
  define hi where "hi = max (uint src) c"
  define lo where "lo = min (uint src) c"
  have up: "s \<le> hi * 255"
  proof -
    have "s \<le> hi * (255 - uint val) + hi * uint val"
      unfolding s_def using r by (intro add_mono mult_right_mono) (simp_all add: hi_def)
    then show ?thesis by (simp add: algebra_simps)
  qed
  have low: "lo * 255 \<le> s"
  proof -
    have "lo * (255 - uint val) + lo * uint val \<le> s"
      unfolding s_def using r by (intro add_mono mult_right_mono) (simp_all add: lo_def)
    then show ?thesis by (simp add: algebra_simps)
  qed
  have pos: "0 \<le> s" unfolding s_def using r assms(1) by simp
  have hi: "0 \<le> hi" "hi \<le> 255" and lo: "0 \<le> lo" "lo \<le> 255" using r assms by (auto simp: hi_def lo_def)
  have d: "s div 256 \<le> hi" "lo - 1 \<le> s div 256" "0 \<le> s div 256"
    using up low hi lo pos by linarith+
  have b: "uint (blend src c val) = s div 256"
    using byte[of "s div 256"] d hi pos by (simp add: blend_def cdiv_def s_def[symmetric])
  have "uint (255 :: byte) = 255" by simp
  then have "uint (blend src c 255) = c * 255 div 256"
    using byte[of "c * 255 div 256"] assms by (simp add: blend_def cdiv_def)
  then show ?thesis using b d by (simp add: hi_def lo_def)
qed

theorem ft_blend_range_witness:
  "min (uint (10 :: byte)) 255 - 1 \<le> uint (blend 10 255 128) \<and> uint (blend 10 255 128) \<le> max (uint (10 :: byte)) 255 \<and>
    uint (blend 10 255 255) = 255 * 255 div 256"
  by (rule ft_blend_range) simp_all

section \<open>Text\<close>

text \<open>A font whose metrics, in pixels, stay within \<open>B\<close>. Nothing is asked of its bitmaps: \<open>gray_font\<close> says that they
  all have the 8-bit format, which the code takes for granted.\<close>

definition font_metrics :: "font \<Rightarrow> int \<Rightarrow> bool" where
  "font_metrics ft B \<longleftrightarrow>
     (\<forall>sz gi slot r adv. \<bar>cdiv slot 64\<bar> \<le> B \<longrightarrow> ft_load ft sz gi slot = (r, adv) \<longrightarrow> \<bar>cdiv adv 64\<bar> \<le> B \<and>
        (\<forall>gl. r = Some gl \<longrightarrow> 0 \<le> bm_rows (gl_bitmap gl) \<and> 0 \<le> bm_width (gl_bitmap gl) \<and>
           \<bar>gl_left gl\<bar> \<le> B \<and> \<bar>gl_top gl\<bar> \<le> B)) \<and>
     (\<forall>sz g g' d. ft_kerning ft sz g g' = Some d \<longrightarrow> \<bar>cdiv d 64\<bar> \<le> B)"

definition gray_font :: "font \<Rightarrow> bool" where
  "gray_font ft \<longleftrightarrow> (\<forall>sz gi slot gl adv. ft_load ft sz gi slot = (Some gl, adv) \<longrightarrow> bitmap_ok (gl_bitmap gl))"

definition pen_ok :: "int \<Rightarrow> int \<Rightarrow> pen \<Rightarrow> bool" where
  "pen_ok B X p \<longleftrightarrow> \<bar>pn_x p\<bar> \<le> X \<and> \<bar>pn_dx p\<bar> \<le> B \<and> \<bar>cdiv (pn_slot p) 64\<bar> \<le> B"

text \<open>What a step of the drawing may give: a read outside a bitmap that is not gray, or a pen within the
  limits and the image in its old size.\<close>

definition drawn :: "font \<Rightarrow> image \<Rightarrow> (pen \<Rightarrow> bool) \<Rightarrow> ft_fault + pen \<times> image \<Rightarrow> bool" where
  "drawn ft img P r \<longleftrightarrow>
     (case r of
        Inl f \<Rightarrow> f = OutsideBitmap \<and> \<not> gray_font ft
      | Inr (p, img') \<Rightarrow> P p \<and> im_rows img' = im_rows img \<and> im_cols img' = im_cols img)"

lemma drawn_simps [simp]:
  "drawn ft img P (Inl f) \<longleftrightarrow> f = OutsideBitmap \<and> \<not> gray_font ft"
  "drawn ft img P (Inr (p, img')) \<longleftrightarrow> P p \<and> im_rows img' = im_rows img \<and> im_cols img' = im_cols img"
  by (simp_all add: drawn_def)

lemma print_char_safe:
  assumes ft: "font_metrics ft B" "0 \<le> B" and p: "pen_ok B X p" and y: "\<bar>peny\<bar> \<le> B"
    and lim: "X + 3 * B < 2 ^ 24" "0 \<le> X"
  shows "drawn ft img (pen_ok B (X + 2 * B)) (print_char ft sz peny c k ch (p, img))"
proof (cases "ft_index ft ch = 0")
  case True
  then show ?thesis using p ft(2) by (auto simp: print_char_def pen_ok_def)
next
  case gi: False
  define p1 where "p1 = (if k > 0 then p\<lparr>pn_dx := cdiv (pn_slot p) 64\<rparr> else p)"
  have p1: "pen_ok B X p1" using p by (simp add: p1_def pen_ok_def)
  obtain r adv where l: "ft_load ft sz (ft_index ft ch) (pn_slot p1) = (r, adv)" by fastforce
  have ld: "\<bar>cdiv adv 64\<bar> \<le> B" "\<And>gl. r = Some gl \<Longrightarrow> 0 \<le> bm_rows (gl_bitmap gl) \<and> 0 \<le> bm_width (gl_bitmap gl) \<and>
      \<bar>gl_left gl\<bar> \<le> B \<and> \<bar>gl_top gl\<bar> \<le> B"
    using ft(1) l p1 unfolding font_metrics_def pen_ok_def by blast+
  define p2 where "p2 = p1\<lparr>pn_slot := adv\<rparr>"
  have p2: "pen_ok B X p2" using p1 ld(1) by (simp add: p2_def pen_ok_def)
  show ?thesis
  proof (cases r)
    case None
    then have "print_char ft sz peny c k ch (p, img) = Inr (p2, img)"
      using gi l by (simp add: print_char_def p1_def[symmetric] p2_def[symmetric] Let_def)
    then show ?thesis using p2 ft(2) by (auto simp: pen_ok_def)
  next
    case (Some gl)
    define kern where "kern = (if ft_kerned ft \<and> pn_prev p2 \<noteq> 0
        then (case ft_kerning ft sz (pn_prev p2) (ft_index ft ch) of None \<Rightarrow> 0 | Some d \<Rightarrow> cdiv d 64) else 0)"
    have kern: "\<bar>kern\<bar> \<le> B"
      using ft unfolding font_metrics_def kern_def by (auto split: option.splits)
    define posx where "posx = pn_x p2 + kern + pn_dx p2"
    have posx: "\<bar>posx\<bar> \<le> X + 2 * B" using kern p2 unfolding posx_def pen_ok_def by linarith
    note g = ld(2)[OF Some]
    define dr where "dr = my_draw_bitmap (gl_bitmap gl) (posx + gl_left gl) (peny - gl_top gl) c img"
    have "- (2 ^ 31) \<le> posx + gl_left gl" "- (2 ^ 31) \<le> peny - gl_top gl" using conjunct2[OF conjunct2[OF g]] posx y lim ft(2) by (simp_all add: abs_le_iff)
    with g have d: "case dr of Inl f \<Rightarrow> f = OutsideBitmap \<and> \<not> bitmap_ok (gl_bitmap gl)
        | Inr img' \<Rightarrow> im_rows img' = im_rows img \<and> im_cols img' = im_cols img"
      unfolding dr_def by (intro draw_bitmap_confined) simp_all
    have eq: "print_char ft sz peny c k ch (p, img) =
        (case dr of Inl f \<Rightarrow> Inl f | Inr img' \<Rightarrow> Inr (p2\<lparr>pn_x := posx, pn_prev := ft_index ft ch,
           pn_dy := (if pn_dy p2 < bm_rows (gl_bitmap gl) then bm_rows (gl_bitmap gl) else pn_dy p2)\<rparr>, img'))"
      using gi by (simp only: print_char_def Let_def prod.case p1_def[symmetric] l p2_def[symmetric] Some option.case
            if_False posx_def kern_def dr_def)
    show ?thesis
    proof (cases dr)
      case (Inl f)
      moreover have "\<not> gray_font ft" if "\<not> bitmap_ok (gl_bitmap gl)"
        using that l Some unfolding gray_font_def by blast
      ultimately show ?thesis using d eq by simp
    next
      case (Inr img')
      then show ?thesis using d eq posx p2 by (simp add: pen_ok_def)
    qed
  qed
qed

lemma print_loop_safe:
  assumes ft: "font_metrics ft B" "0 \<le> B" and y: "\<bar>peny\<bar> \<le> B"
  shows "pen_ok B X p \<Longrightarrow> 0 \<le> X \<Longrightarrow> X + 2 * B * int (length str) + 3 * B < 2 ^ 24 \<Longrightarrow>
    drawn ft img (\<lambda>p'. \<bar>cdiv (pn_slot p') 64\<bar> \<le> B) (print_loop ft sz peny c k str (p, img))"
proof (induction str arbitrary: X k p img)
  case (Cons ch chs)
  have z: "0 \<le> B * int (length chs)" using ft(2) by simp
  have e: "2 * B * int (length (ch # chs)) = 2 * B + 2 * (B * int (length chs))" by (simp add: algebra_simps)
  have lim: "X + 3 * B < 2 ^ 24" using Cons.prems(3) e z ft(2) by linarith
  note s = print_char_safe[OF ft Cons.prems(1) y lim Cons.prems(2), of img sz c k ch]
  have lim2: "X + 2 * B + 2 * B * int (length chs) + 3 * B < 2 ^ 24"
    using Cons.prems(3) by (simp add: distrib_left)
  show ?case
  proof (cases "print_char ft sz peny c k ch (p, img)")
    case (Inl f)
    then show ?thesis using s by simp
  next
    case (Inr r)
    obtain p1 img1 where r: "r = (p1, img1)" by fastforce
    have s1: "pen_ok B (X + 2 * B) p1" "im_rows img1 = im_rows img" "im_cols img1 = im_cols img"
      using s Inr r by simp_all
    show ?thesis using Cons.IH[OF s1(1) _ lim2, of img1 "Suc k"] Cons.prems(2) ft(2) s1(2,3) Inr
      by (auto simp: r drawn_def split: sum.splits prod.splits)
  qed
qed (simp add: pen_ok_def)

text \<open>\<open>printString\<close> draws any text, also one that runs out of the image on any side, without an
  access outside the image, as long as the pen stays where a \<open>float\<close> holds every integer: for
  metrics within \<open>B\<close> pixels, that is ensured by a bound on the length of the text. A read outside a glyph's bitmap
  is left as the one possible fault, and a font whose bitmaps are all gray has none.\<close>

lemma ft_print_safe:
  assumes "font_metrics ft B" "0 \<le> B" "\<bar>cdiv slot 64\<bar> \<le> B" "\<bar>penx\<bar> \<le> B" "\<bar>peny\<bar> \<le> B"
    and "2 * B * int (length str) + 4 * B < 2 ^ 24"
  shows "case printString ft slot str penx peny c sz img of
     Inl f \<Rightarrow> f = OutsideBitmap \<and> \<not> gray_font ft
   | Inr (dy, p, img') \<Rightarrow> \<bar>cdiv (pn_slot p) 64\<bar> \<le> B \<and> im_rows img' = im_rows img \<and> im_cols img' = im_cols img"
proof -
  have "pen_ok B B \<lparr>pn_x = penx, pn_dx = 0, pn_prev = 0, pn_dy = 0, pn_slot = slot\<rparr>"
    using assms(2-4) by (simp add: pen_ok_def)
  from print_loop_safe[OF assms(1,2,5) this, of str img sz c 0] show ?thesis
    using assms(2,6) by (auto simp: printString_def drawn_def split: sum.splits)
qed

text \<open>A font of one glyph, that of character 65, and a font whose glyph is a monochrome bitmap: eight pixels a
  byte, so that a row of eight pixels is one byte long.\<close>

definition demo_font :: font where
  "demo_font = \<lparr>ft_index = (\<lambda>ch. if ch = 65 then 1 else 0),
     ft_load = (\<lambda>sz gi slot. (Some \<lparr>gl_left = 0, gl_top = 2, gl_bitmap = demo_bitmap\<rparr>, 128)),
     ft_kerned = False, ft_kerning = (\<lambda>sz g g'. None)\<rparr>"

definition mono_font :: font where
  "mono_font = \<lparr>ft_index = (\<lambda>ch. 1),
     ft_load = (\<lambda>sz gi slot. (Some \<lparr>gl_left = 0, gl_top = 0,
        gl_bitmap = \<lparr>bm_rows = 1, bm_width = 8, bm_pitch = 1, bm_buffer = [255]\<rparr>\<rparr>, 512)),
     ft_kerned = False, ft_kerning = (\<lambda>sz g g'. None)\<rparr>"

lemma demo_font_ok: "2 \<le> B \<Longrightarrow> font_metrics demo_font B" "gray_font demo_font"
  by (auto simp: font_metrics_def gray_font_def demo_font_def demo_bitmap_ok cdiv_def, simp_all add: demo_bitmap_def)

text \<open>The code does not look at \<open>pixel_mode\<close>: a monochrome glyph is read behind its buffer.\<close>

lemma mono_glyph_outside:
  "printString mono_font 0 [65] 0 0 (255, 255, 255) 8 (blank_image 1 8) = Inl OutsideBitmap"
  by (simp add: mono_font_def printString_def print_char_def my_draw_bitmap_def clip_def to_int_exact blank_image_def
      draw_one_def alpha_at_def update_px_def upto.simps Let_def)

text \<open>The pen moves by the advance the glyph slot holds, and the slot keeps that of the last glyph
  loaded, even by an earlier call: when the first character of a text has no glyph, the next
  one is not drawn at the pen position but displaced by that stale advance.\<close>

theorem ft_stale_advance:
  assumes "ft_index ft a = 0" "ft_index ft b \<noteq> 0" "ft_load ft sz (ft_index ft b) slot = (Some gl, adv)"
    and "printString ft slot [a, b] penx peny c sz img = Inr (dy, p, img')"
  shows "pn_x p = penx + cdiv slot 64"
  using assms by (auto simp: printString_def print_char_def Let_def split: option.splits sum.splits)

theorem ft_stale_advance_witness:
  "\<exists>dy p img'. printString demo_font 640 [66, 65] 1 2 (255, 255, 255) 24 demo_image = Inr (dy, p, img') \<and> pn_x p = 11"
proof -
  have l: "ft_load demo_font 24 (ft_index demo_font 65) 640 =
      (Some \<lparr>gl_left = 0, gl_top = 2, gl_bitmap = demo_bitmap\<rparr>, 128)"
    by (simp add: demo_font_def)
  have i: "ft_index demo_font 66 = 0" "ft_index demo_font 65 \<noteq> 0" by (simp_all add: demo_font_def)
  then obtain dy p img' where s: "printString demo_font 640 [66, 65] 1 2 (255, 255, 255) 24 demo_image = Inr (dy, p, img')"
    using ft_print_safe[of demo_font 10 640 1 2 "[66, 65]" demo_image "(255, 255, 255)" 24] demo_font_ok(1)[of 10] demo_font_ok(2)
    by (auto simp: cdiv_def split: sum.splits)
  from ft_stale_advance[OF i l s] have "pn_x p = 11" by (simp add: cdiv_def)
  with s show ?thesis by blast
qed

end
