(* ===== verification/Gemm.thy ===== *)
theory Gemm
  imports Prelude
begin

text \<open>
  \<open>topencl.cpp\<close> and \<open>myGEMM.cl\<close>: the matrix product on the host, the three OpenCL kernels that
  compute it, the comparison of their results, and the cache file of the host's result.
  Matrices are stored column by column in one array. The arithmetic of \<open>float\<close> is a
  parameter (\<open>add\<close>, \<open>mul\<close>, \<open>zero\<close>) with no law assumed, so equal results mean the same
  operations in the same order. The runtime may execute work items in any order.
\<close>

section \<open>The host\<close>

text \<open>The inner loop of \<open>matmult\<close>, with its summation order.\<close>

definition dot ::
  "('f \<Rightarrow> 'f \<Rightarrow> 'f) \<Rightarrow> ('f \<Rightarrow> 'f \<Rightarrow> 'f) \<Rightarrow> 'f \<Rightarrow> 'f list \<Rightarrow> 'f list \<Rightarrow> nat \<Rightarrow> nat \<Rightarrow> nat \<Rightarrow> nat \<Rightarrow> 'f" where
  "dot add mul zero A B M K m n =
     foldl (\<lambda>acc k. add acc (mul (A ! (k * M + m)) (B ! (n * K + k)))) zero [0..<K]"

definition matmult ::
  "('f \<Rightarrow> 'f \<Rightarrow> 'f) \<Rightarrow> ('f \<Rightarrow> 'f \<Rightarrow> 'f) \<Rightarrow> 'f \<Rightarrow> 'f list \<Rightarrow> 'f list \<Rightarrow> 'f list \<Rightarrow> nat \<Rightarrow> nat \<Rightarrow> nat \<Rightarrow> 'f list" where
  "matmult add mul zero A B C M K N =
     fold (\<lambda>m C. fold (\<lambda>n C. C[n * M + m := dot add mul zero A B M K m n]) [0..<N] C) [0..<M] C"

text \<open>\<open>ne\<close> is the \<open>!=\<close> of \<open>float\<close>, for which a NaN differs from itself.\<close>

definition matcmp :: "('f \<Rightarrow> 'f \<Rightarrow> bool) \<Rightarrow> 'f list \<Rightarrow> 'f list \<Rightarrow> nat \<Rightarrow> nat \<Rightarrow> nat" where
  "matcmp ne A B M N =
     fold (\<lambda>m ecnt. fold (\<lambda>n ecnt. if ne (A ! (m + n * M)) (B ! (m + n * M)) then Suc ecnt else ecnt)
       [0..<N] ecnt) [0..<M] 0"

section \<open>The kernels\<close>

text \<open>
  A kernel is started for all global identifiers below \<open>global[2] = {M, N}\<close>; \<open>order\<close> lists the
  work items in the order in which the runtime runs them.
\<close>

definition myGEMM1_item ::
  "('f \<Rightarrow> 'f \<Rightarrow> 'f) \<Rightarrow> ('f \<Rightarrow> 'f \<Rightarrow> 'f) \<Rightarrow> 'f \<Rightarrow> 'f list \<Rightarrow> 'f list \<Rightarrow> nat \<Rightarrow> nat \<Rightarrow> nat \<times> nat \<Rightarrow> 'f list \<Rightarrow> 'f list" where
  "myGEMM1_item add mul zero A B M K = (\<lambda>(id0, id1) C.
     let globalRow = id0; globalCol = id1;
         acc = foldl (\<lambda>acc k. add acc (mul (A ! (k * M + globalRow)) (B ! (globalCol * K + k)))) zero [0..<K]
     in C[globalCol * M + globalRow := acc])"

definition myGEMM1b_item ::
  "('f \<Rightarrow> 'f \<Rightarrow> 'f) \<Rightarrow> ('f \<Rightarrow> 'f \<Rightarrow> 'f) \<Rightarrow> 'f \<Rightarrow> 'f list \<Rightarrow> 'f list \<Rightarrow> nat \<Rightarrow> nat \<Rightarrow> nat \<times> nat \<Rightarrow> 'f list \<Rightarrow> 'f list" where
  "myGEMM1b_item add mul zero A B M K = (\<lambda>(id0, id1) C.
     let globalRow = id1; globalCol = id0;
         acc = foldl (\<lambda>acc k. add acc (mul (A ! (k * M + globalRow)) (B ! (globalCol * K + k)))) zero [0..<K]
     in C[globalCol * M + globalRow := acc])"

definition myAdd_item ::
  "('f \<Rightarrow> 'f \<Rightarrow> 'f) \<Rightarrow> 'f list \<Rightarrow> 'f list \<Rightarrow> nat \<Rightarrow> nat \<times> nat \<Rightarrow> 'f list \<Rightarrow> 'f list" where
  "myAdd_item add A B M = (\<lambda>(id0, id1) C.
     let globalRow = id0; globalCol = id1
     in C[globalCol * M + globalRow := add (A ! (globalCol * M + globalRow)) (B ! (globalCol * M + globalRow))])"

definition TS :: nat where "TS = 16"

text \<open>
  One work group of \<open>myGEMM2\<close>. \<open>tile_load\<close> is the part of a work item before the first barrier:
  it fills one cell of each local array, here maps from indices. \<open>tile_sum\<close> is the part between
  the barriers.
\<close>

type_synonym 'f tile = "nat \<times> nat \<Rightarrow> 'f"

definition tile_load ::
  "'f list \<Rightarrow> 'f list \<Rightarrow> nat \<Rightarrow> nat \<Rightarrow> nat \<Rightarrow> nat \<Rightarrow> nat \<Rightarrow> nat \<times> nat \<Rightarrow> 'f tile \<times> 'f tile \<Rightarrow> 'f tile \<times> 'f tile" where
  "tile_load A B M K g0 g1 t = (\<lambda>(row, col) (Asub, Bsub).
     let globalRow = TS * g0 + row; globalCol = TS * g1 + col;
         tiledRow = TS * t + row; tiledCol = TS * t + col
     in (Asub((col, row) := A ! (tiledCol * M + globalRow)),
         Bsub((col, row) := B ! (globalCol * K + tiledRow))))"

definition tile_sum ::
  "('f \<Rightarrow> 'f \<Rightarrow> 'f) \<Rightarrow> ('f \<Rightarrow> 'f \<Rightarrow> 'f) \<Rightarrow> 'f tile \<Rightarrow> 'f tile \<Rightarrow> nat \<times> nat \<Rightarrow> 'f \<Rightarrow> 'f" where
  "tile_sum add mul Asub Bsub = (\<lambda>(row, col) acc.
     foldl (\<lambda>acc k. add acc (mul (Asub (k, row)) (Bsub (col, k)))) acc [0..<TS])"

text \<open>
  One round of the loop over tiles for the whole group: all items load, in the order given for
  the tile, then all add up. \<open>acc\<close> holds the register of each item.
\<close>

definition tile_round ::
  "('f \<Rightarrow> 'f \<Rightarrow> 'f) \<Rightarrow> ('f \<Rightarrow> 'f \<Rightarrow> 'f) \<Rightarrow> 'f list \<Rightarrow> 'f list \<Rightarrow> nat \<Rightarrow> nat \<Rightarrow> nat \<Rightarrow> nat \<Rightarrow>
   (nat \<Rightarrow> (nat \<times> nat) list) \<Rightarrow> nat \<Rightarrow> ('f tile \<times> 'f tile) \<times> (nat \<times> nat \<Rightarrow> 'f) \<Rightarrow>
   ('f tile \<times> 'f tile) \<times> (nat \<times> nat \<Rightarrow> 'f)" where
  "tile_round add mul A B M K g0 g1 order t = (\<lambda>(subs, acc).
     let (Asub, Bsub) = fold (tile_load A B M K g0 g1 t) (order t) subs
     in ((Asub, Bsub), \<lambda>item. tile_sum add mul Asub Bsub item (acc item)))"

definition myGEMM2_acc ::
  "('f \<Rightarrow> 'f \<Rightarrow> 'f) \<Rightarrow> ('f \<Rightarrow> 'f \<Rightarrow> 'f) \<Rightarrow> 'f \<Rightarrow> 'f list \<Rightarrow> 'f list \<Rightarrow> nat \<Rightarrow> nat \<Rightarrow> nat \<Rightarrow> nat \<Rightarrow>
   (nat \<Rightarrow> (nat \<times> nat) list) \<Rightarrow> 'f tile \<times> 'f tile \<Rightarrow> nat \<times> nat \<Rightarrow> 'f" where
  "myGEMM2_acc add mul zero A B M K g0 g1 order subs =
     snd (fold (tile_round add mul A B M K g0 g1 order) [0..<K div TS] (subs, \<lambda>_. zero))"

text \<open>The store at the end of a work item with the given group and local identifiers.\<close>

definition myGEMM2_item ::
  "('f \<Rightarrow> 'f \<Rightarrow> 'f) \<Rightarrow> ('f \<Rightarrow> 'f \<Rightarrow> 'f) \<Rightarrow> 'f \<Rightarrow> 'f list \<Rightarrow> 'f list \<Rightarrow> nat \<Rightarrow> nat \<Rightarrow>
   (nat \<Rightarrow> (nat \<times> nat) list) \<Rightarrow> 'f tile \<times> 'f tile \<Rightarrow> (nat \<times> nat) \<times> (nat \<times> nat) \<Rightarrow> 'f list \<Rightarrow> 'f list" where
  "myGEMM2_item add mul zero A B M K order subs = (\<lambda>((g0, g1), (row, col)) C.
     let globalRow = TS * g0 + row; globalCol = TS * g1 + col
     in C[globalCol * M + globalRow := myGEMM2_acc add mul zero A B M K g0 g1 order subs (row, col)])"

section \<open>Files\<close>

text \<open>
  \<open>fread\<close> of at most \<open>size\<close> bytes into a buffer: None when it writes outside it. A missing file
  is None.
\<close>

definition load_bin :: "byte list option \<Rightarrow> byte list \<Rightarrow> nat \<Rightarrow> (nat \<times> byte list) option" where
  "load_bin file data sz =
     (case file of
        None \<Rightarrow> Some (0, data)
      | Some bs \<Rightarrow>
          let got = take sz bs
          in if length got \<le> length data then Some (length got, got @ drop (length got) data) else None)"

definition MAX_SOURCE_SIZE :: nat where "MAX_SOURCE_SIZE = 0x100000"

text \<open>\<open>load_src\<close>: NULL for a missing file; \<open>source_str[source_size] = 0\<close> may be outside.\<close>

datatype src_result = SrcNull | SrcText "byte list" | SrcOverrun

definition load_src :: "byte list option \<Rightarrow> byte list \<Rightarrow> src_result" where
  "load_src file memory =
     (case file of
        None \<Rightarrow> SrcNull
      | Some bs \<Rightarrow>
          let got = take MAX_SOURCE_SIZE bs; source_size = length got
          in if source_size < MAX_SOURCE_SIZE
             then SrcText ((got @ drop source_size memory)[source_size := 0])
             else SrcOverrun)"

text \<open>The allocation and the cache of \<open>run_myGEMM\<close>: sizes in bytes of \<open>D\<close> and of the file.\<close>

definition sizeof_float_ptr :: nat where "sizeof_float_ptr = 8"

definition D_bytes :: "nat \<Rightarrow> nat \<Rightarrow> nat" where "D_bytes M N = M * N * sizeof_float_ptr + 1"

definition cache_bytes :: "nat \<Rightarrow> nat \<Rightarrow> nat" where "cache_bytes M N = (M * N + 1) * sizeof_float_ptr"

section \<open>Any order of work items\<close>

text \<open>
  What makes a kernel a matrix product: its items write each cell once, with the value of the
  host's loop.
\<close>

locale kernel_items =
  fixes M N :: nat and cellval :: "nat \<Rightarrow> nat \<Rightarrow> 'f"
    and items :: "'i set" and cell :: "'i \<Rightarrow> nat" and val :: "'i \<Rightarrow> 'f"
  assumes cells: "cell ` items = {..<M * N}" and once: "inj_on cell items"
    and vals: "i \<in> items \<Longrightarrow> val i = cellval (cell i mod M) (cell i div M)"
begin

definition run :: "'i list \<Rightarrow> 'f list \<Rightarrow> 'f list" where
  "run order C = fold (\<lambda>i C. C[cell i := val i]) order C"

lemma run_nth:
  "set order \<subseteq> items \<Longrightarrow> length C = M * N \<Longrightarrow> j < M * N \<Longrightarrow>
   length (run order C) = M * N \<and>
   run order C ! j = (if j \<in> cell ` set order then cellval (j mod M) (j div M) else C ! j)"
proof (induction order arbitrary: C)
  case Nil
  then show ?case by (simp add: run_def)
next
  case (Cons i order)
  have "run (i # order) C = run order (C[cell i := val i])" by (simp add: run_def)
  then show ?case
    using Cons.IH[of "C[cell i := val i]"] Cons.prems vals[of i]
    by (auto simp: nth_list_update)
qed

lemma run_any_order:
  assumes "set order = items" "length C = M * N"
  shows "run order C = map (\<lambda>j. cellval (j mod M) (j div M)) [0..<M * N]"
proof (rule nth_equalityI)
  show len: "length (run order C) = length (map (\<lambda>j. cellval (j mod M) (j div M)) [0..<M * N])"
  proof (cases "M * N = 0")
    case True
    then have "items = {}" using cells by auto
    then show ?thesis using assms True by (simp add: run_def)
  next
    case False
    then show ?thesis using run_nth[of order C 0] assms by simp
  qed
  fix j assume "j < length (run order C)"
  then have "j < M * N" using len by simp
  then show "run order C ! j = map (\<lambda>j. cellval (j mod M) (j div M)) [0..<M * N] ! j"
    using run_nth[of order C j] assms cells by auto
qed

end

lemma cell_div: "r < M \<Longrightarrow> (c * M + r) mod M = r \<and> (c * M + r) div M = c" for r M c :: nat
  by simp

lemma cell_bij:
  "(\<lambda>(r, c). c * M + r) ` ({..<M} \<times> {..<N}) = {..<M * N :: nat}"
  "inj_on (\<lambda>(r, c). c * M + r) ({..<M} \<times> {..<N :: nat})"
proof -
  have in_range: "c * M + r < M * N" if "r < M" "c < N" for r c
  proof -
    have "c * M + r < Suc c * M" using that(1) by simp
    also have "\<dots> \<le> N * M" using that(2) by (intro mult_le_mono1) simp
    finally show ?thesis by (simp add: mult.commute)
  qed
  have dm: "(c * M + r) mod M = r \<and> (c * M + r) div M = c" if "r < M" for r c
    using that by simp
  show "inj_on (\<lambda>(r, c). c * M + r) ({..<M} \<times> {..<N})"
  proof (rule inj_onI, clarify)
    fix r c r' c' assume "r < M" "r' < M" "c * M + r = c' * M + r'"
    then show "r = r' \<and> c = c'" using dm[of r c] dm[of r' c'] by metis
  qed
  show "(\<lambda>(r, c). c * M + r) ` ({..<M} \<times> {..<N}) = {..<M * N}"
  proof (intro equalityI subsetI)
    fix j assume "j \<in> {..<M * N}"
    then have j: "j < M * N" by simp
    then have "0 < M" by (cases M) auto
    then have "j mod M < M" "j div M < N" "j = (j div M) * M + j mod M"
      using j by (auto simp: less_mult_imp_div_less mult.commute)
    then show "j \<in> (\<lambda>(r, c). c * M + r) ` ({..<M} \<times> {..<N})"
      by (intro image_eqI[of _ _ "(j mod M, j div M)"]) auto
  qed (use in_range in auto)
qed

section \<open>The simple kernels\<close>

interpretation gemm1: kernel_items M N "dot add mul zero A B M K" "{..<M} \<times> {..<N}"
  "\<lambda>(r, c). c * M + r" "\<lambda>(r, c). dot add mul zero A B M K r c" for M N add mul zero A B K
  by (unfold_locales) (use cell_bij in auto)

lemma swap_image: "prod.swap ` (A \<times> B) = B \<times> A" by auto

lemma gemm1b_cells:
  "(\<lambda>(i0, i1). i0 * M + i1) ` ({..<M} \<times> {..<M}) = {..<M * M :: nat}"
  "inj_on (\<lambda>(i0, i1). i0 * M + i1) ({..<M} \<times> {..<M :: nat})"
proof -
  have e: "(\<lambda>(i0, i1). i0 * M + i1) = (\<lambda>(r, c). c * M + r) \<circ> prod.swap" by auto
  show "(\<lambda>(i0, i1). i0 * M + i1) ` ({..<M} \<times> {..<M}) = {..<M * M}"
    unfolding e image_comp[symmetric] swap_image by (rule cell_bij)
  show "inj_on (\<lambda>(i0, i1). i0 * M + i1) ({..<M} \<times> {..<M})"
    unfolding e by (rule comp_inj_on) (simp_all add: swap_image cell_bij)
qed

interpretation gemm1b: kernel_items M M "dot add mul zero A B M K" "{..<M} \<times> {..<M}"
  "\<lambda>(i0, i1). i0 * M + i1" "\<lambda>(i0, i1). dot add mul zero A B M K i1 i0" for M add mul zero A B K
  by (unfold_locales) (use gemm1b_cells in auto)

lemma myGEMM1_run: "fold (myGEMM1_item add mul zero A B M K) order C = gemm1.run M add mul zero A B K order C"
  unfolding gemm1.run_def by (rule fold_cong) (auto simp: myGEMM1_item_def dot_def Let_def fun_eq_iff)

lemma myGEMM1b_run: "fold (myGEMM1b_item add mul zero A B M K) order C = gemm1b.run M add mul zero A B K order C"
  unfolding gemm1b.run_def by (rule fold_cong) (auto simp: myGEMM1b_item_def dot_def Let_def fun_eq_iff)

interpretation gemm_add: kernel_items M N "\<lambda>r c. add (A ! (c * M + r)) (B ! (c * M + r))" "{..<M} \<times> {..<N}"
  "\<lambda>(r, c). c * M + r" "\<lambda>(r, c). add (A ! (c * M + r)) (B ! (c * M + r))"
  for M N and add :: "'f \<Rightarrow> 'f \<Rightarrow> 'f" and A B
  by (unfold_locales) (use cell_bij in auto)

text \<open>The kernel for sums adds cell by cell, in any order of its items.\<close>

lemma myAdd_sums:
  assumes "length A = M * N" "length B = M * N" "length C = M * N" "set order = {..<M} \<times> {..<N}"
  shows "fold (myAdd_item add A B M) order C = map2 add A B"
proof -
  have "fold (myAdd_item add A B M) order C = gemm_add.run M add A B order C"
    unfolding gemm_add.run_def by (rule fold_cong) (auto simp: myAdd_item_def Let_def fun_eq_iff)
  also have "\<dots> = map (\<lambda>j. add (A ! (j div M * M + j mod M)) (B ! (j div M * M + j mod M))) [0..<M * N]"
    by (rule gemm_add.run_any_order) (use assms in auto)
  also have "\<dots> = map2 add A B"
    by (rule nth_equalityI) (use assms in simp_all)
  finally show ?thesis .
qed

text \<open>The host's loops run the same items, column index innermost.\<close>

lemma matmult_run:
  "matmult add mul zero A B C M K N = gemm1.run M add mul zero A B K (List.product [0..<M] [0..<N]) C"
proof -
  have inner: "fold (\<lambda>n C. C[n * M + m := dot add mul zero A B M K m n]) ns C =
      gemm1.run M add mul zero A B K (map (Pair m) ns) C" for ns m C
    by (induction ns arbitrary: C) (simp_all add: gemm1.run_def)
  have app: "gemm1.run M add mul zero A B K (xs @ ys) C =
      gemm1.run M add mul zero A B K ys (gemm1.run M add mul zero A B K xs C)" for xs ys C
    by (simp add: gemm1.run_def)
  have "fold (\<lambda>m C. fold (\<lambda>n C. C[n * M + m := dot add mul zero A B M K m n]) [0..<N] C) ms C =
      gemm1.run M add mul zero A B K (List.product ms [0..<N]) C" for ms
  proof (induction ms arbitrary: C)
    case Nil
    then show ?case by (simp add: gemm1.run_def)
  next
    case (Cons m ms)
    then show ?case by (simp add: inner app)
  qed
  then show ?thesis by (simp add: matmult_def)
qed

definition product_list ::
  "('f \<Rightarrow> 'f \<Rightarrow> 'f) \<Rightarrow> ('f \<Rightarrow> 'f \<Rightarrow> 'f) \<Rightarrow> 'f \<Rightarrow> 'f list \<Rightarrow> 'f list \<Rightarrow> nat \<Rightarrow> nat \<Rightarrow> nat \<Rightarrow> 'f list" where
  "product_list add mul zero A B M K N = map (\<lambda>j. dot add mul zero A B M K (j mod M) (j div M)) [0..<M * N]"

lemma matmult_eq:
  "length C = M * N \<Longrightarrow> matmult add mul zero A B C M K N = product_list add mul zero A B M K N"
  unfolding matmult_run product_list_def
  by (rule gemm1.run_any_order) auto

section \<open>The tiled kernel\<close>

definition group_items :: "(nat \<times> nat) set" where
  "group_items = {..<TS} \<times> {..<TS}"

lemma tile_load_fold:
  "fold (tile_load A B M K g0 g1 t) order (Asub, Bsub) =
     (\<lambda>(col, row). if (row, col) \<in> set order then A ! ((TS * t + col) * M + (TS * g0 + row)) else Asub (col, row),
      \<lambda>(col, row). if (row, col) \<in> set order then B ! ((TS * g1 + col) * K + (TS * t + row)) else Bsub (col, row))"
proof (induction order arbitrary: Asub Bsub)
  case Nil
  then show ?case by (simp add: fun_eq_iff)
next
  case (Cons i order)
  obtain row col where "i = (row, col)" by (cases i)
  then show ?case
    using Cons by (auto simp: tile_load_def Let_def fun_eq_iff)
qed

definition gemm_term ::
  "('f \<Rightarrow> 'f \<Rightarrow> 'f) \<Rightarrow> ('f \<Rightarrow> 'f \<Rightarrow> 'f) \<Rightarrow> 'f list \<Rightarrow> 'f list \<Rightarrow> nat \<Rightarrow> nat \<Rightarrow> nat \<Rightarrow> nat \<Rightarrow> 'f \<Rightarrow> nat \<Rightarrow> 'f" where
  "gemm_term add mul A B M K m n acc k = add acc (mul (A ! (k * M + m)) (B ! (n * K + k)))"

lemma dot_term: "dot add mul zero A B M K m n = foldl (gemm_term add mul A B M K m n) zero [0..<K]"
  by (simp add: dot_def gemm_term_def[abs_def])

lemma upt_shift: "[t * s..<Suc t * s] = map (\<lambda>k. s * t + k) [0..<s]" for s t :: nat
proof -
  have "map (\<lambda>k. k + s * t) [0..<s] = [s * t..<s + s * t]" using map_add_upt[of "s * t" s] by simp
  then show ?thesis by (simp add: add.commute mult.commute)
qed

lemma tile_round_acc:
  assumes "set (order t) = group_items" "(row, col) \<in> group_items"
  shows "snd (tile_round add mul A B M K g0 g1 order t (subs, acc)) (row, col) =
    foldl (gemm_term add mul A B M K (TS * g0 + row) (TS * g1 + col)) (acc (row, col)) [t * TS..<Suc t * TS]"
proof -
  obtain Asub Bsub where subs: "subs = (Asub, Bsub)" by (cases subs)
  have "tile_sum add mul
       (\<lambda>(col, row). if (row, col) \<in> set (order t) then A ! ((TS * t + col) * M + (TS * g0 + row)) else Asub (col, row))
       (\<lambda>(col, row). if (row, col) \<in> set (order t) then B ! ((TS * g1 + col) * K + (TS * t + row)) else Bsub (col, row))
       (row, col) x =
     foldl (\<lambda>acc k. gemm_term add mul A B M K (TS * g0 + row) (TS * g1 + col) acc (TS * t + k)) x [0..<TS]" for x
    unfolding tile_sum_def case_prod_conv
    by (rule foldl_cong) (use assms in \<open>auto simp: gemm_term_def group_items_def\<close>)
  then show ?thesis
    unfolding upt_shift foldl_map subs tile_round_def case_prod_conv tile_load_fold Let_def snd_conv .
qed

lemma tile_rounds_acc:
  assumes "\<And>t. set (order t) = group_items" "(row, col) \<in> group_items"
  shows "snd (fold (tile_round add mul A B M K g0 g1 order) [0..<n] (subs, \<lambda>_. zero)) (row, col) =
    foldl (gemm_term add mul A B M K (TS * g0 + row) (TS * g1 + col)) zero [0..<n * TS]"
proof (induction n)
  case 0
  then show ?case by simp
next
  case (Suc n)
  define st where "st = fold (tile_round add mul A B M K g0 g1 order) [0..<n] (subs, \<lambda>_. zero)"
  have "snd (tile_round add mul A B M K g0 g1 order n (fst st, snd st)) (row, col) =
      foldl (gemm_term add mul A B M K (TS * g0 + row) (TS * g1 + col)) (snd st (row, col)) [n * TS..<Suc n * TS]"
    by (rule tile_round_acc[OF assms(1,2)])
  moreover have "[0..<Suc n * TS] = [0..<n * TS] @ [n * TS..<Suc n * TS]"
    using upt_add_eq_append[of 0 "n * TS" TS] by (simp add: add.commute)
  ultimately show ?case using Suc by (simp add: st_def[symmetric])
qed

text \<open>What a work item of \<open>myGEMM2\<close> computes: the sum over whole tiles only.\<close>

lemma myGEMM2_acc_eq:
  assumes "\<And>t. set (order t) = group_items" "(row, col) \<in> group_items"
  shows "myGEMM2_acc add mul zero A B M K g0 g1 order subs (row, col) =
    foldl (gemm_term add mul A B M K (TS * g0 + row) (TS * g1 + col)) zero [0..<K div TS * TS]"
  unfolding myGEMM2_acc_def by (rule tile_rounds_acc[OF assms])

definition gemm2_items :: "nat \<Rightarrow> nat \<Rightarrow> ((nat \<times> nat) \<times> (nat \<times> nat)) set" where
  "gemm2_items gm gn = ({..<gm} \<times> {..<gn}) \<times> group_items"

definition gemm2_pos :: "(nat \<times> nat) \<times> (nat \<times> nat) \<Rightarrow> nat \<times> nat" where
  "gemm2_pos = (\<lambda>((g0, g1), (row, col)). (TS * g0 + row, TS * g1 + col))"

lemma TS_pos: "0 < TS" by (simp add: TS_def)

lemma TS_split: "row < TS \<Longrightarrow> (TS * g + row) div TS = g \<and> (TS * g + row) mod TS = row"
  by (simp add: TS_def)

lemma TS_bound: "g < gm \<Longrightarrow> row < TS \<Longrightarrow> TS * g + row < TS * gm"
proof -
  assume "g < gm" "row < TS"
  then have "TS * g + row < TS * Suc g" by simp
  also have "\<dots> \<le> TS * gm" using \<open>g < gm\<close> by (intro mult_le_mono2) simp
  finally show ?thesis .
qed

lemma gemm2_pos_bij:
  "gemm2_pos ` gemm2_items gm gn = {..<TS * gm} \<times> {..<TS * gn}"
  "inj_on gemm2_pos (gemm2_items gm gn)"
proof -
  show "inj_on gemm2_pos (gemm2_items gm gn)"
  proof (rule inj_onI)
    fix i j assume a: "i \<in> gemm2_items gm gn" "j \<in> gemm2_items gm gn" "gemm2_pos i = gemm2_pos j"
    obtain g0 g1 row col g0' g1' row' col' where ij: "i = ((g0, g1), (row, col))" "j = ((g0', g1'), (row', col'))"
      by (metis prod.exhaust)
    then have "TS * g0 + row = TS * g0' + row'" "TS * g1 + col = TS * g1' + col'"
      "row < TS" "row' < TS" "col < TS" "col' < TS"
      using a by (auto simp: gemm2_pos_def gemm2_items_def group_items_def)
    then have "g0 = g0'" "row = row'" "g1 = g1'" "col = col'" using TS_split by metis+
    then show "i = j" by (simp add: ij)
  qed
  show "gemm2_pos ` gemm2_items gm gn = {..<TS * gm} \<times> {..<TS * gn}"
  proof (intro equalityI subsetI)
    fix x assume "x \<in> {..<TS * gm} \<times> {..<TS * gn}"
    then obtain r c where x: "x = (r, c)" "r < TS * gm" "c < TS * gn" by auto
    then have "((r div TS, c div TS), (r mod TS, c mod TS)) \<in> gemm2_items gm gn"
      using TS_pos by (simp add: gemm2_items_def group_items_def less_mult_imp_div_less mult.commute)
    moreover have "gemm2_pos ((r div TS, c div TS), (r mod TS, c mod TS)) = x"
      by (simp add: gemm2_pos_def x)
    ultimately show "x \<in> gemm2_pos ` gemm2_items gm gn" by (metis imageI)
  qed (auto simp: gemm2_pos_def gemm2_items_def group_items_def TS_bound)
qed

lemma gemm2_cell_bij:
  "((\<lambda>(r, c). c * (TS * gm) + r) \<circ> gemm2_pos) ` gemm2_items gm gn = {..<TS * gm * (TS * gn)}"
  "inj_on ((\<lambda>(r, c). c * (TS * gm) + r) \<circ> gemm2_pos) (gemm2_items gm gn)"
  unfolding image_comp[symmetric] gemm2_pos_bij
  by (rule cell_bij) (rule comp_inj_on, simp_all add: gemm2_pos_bij cell_bij)

text \<open>The product over whole tiles: what the tiled kernel computes.\<close>

definition tiled_dot ::
  "('f \<Rightarrow> 'f \<Rightarrow> 'f) \<Rightarrow> ('f \<Rightarrow> 'f \<Rightarrow> 'f) \<Rightarrow> 'f \<Rightarrow> 'f list \<Rightarrow> 'f list \<Rightarrow> nat \<Rightarrow> nat \<Rightarrow> nat \<Rightarrow> nat \<Rightarrow> 'f" where
  "tiled_dot add mul zero A B M K m n = foldl (gemm_term add mul A B M K m n) zero [0..<K div TS * TS]"

interpretation gemm2: kernel_items "TS * gm" "TS * gn" "tiled_dot add mul zero A B (TS * gm) K" "gemm2_items gm gn"
  "(\<lambda>(r, c). c * (TS * gm) + r) \<circ> gemm2_pos"
  "\<lambda>i. tiled_dot add mul zero A B (TS * gm) K (fst (gemm2_pos i)) (snd (gemm2_pos i))"
  for gm gn add mul zero A B K
proof (unfold_locales, goal_cases)
  case (3 i)
  then have "gemm2_pos i \<in> {..<TS * gm} \<times> {..<TS * gn}" using gemm2_pos_bij(1) by blast
  then obtain r c where rc: "gemm2_pos i = (r, c)" "r < TS * gm" by (cases "gemm2_pos i") auto
  then show ?case using cell_div[of r "TS * gm" c] by simp
qed (rule gemm2_cell_bij)+

lemma myGEMM2_run:
  assumes "\<And>t. set (order t) = group_items" "set items \<subseteq> gemm2_items gm gn"
  shows "fold (myGEMM2_item add mul zero A B (TS * gm) K order subs) items C =
    gemm2.run gm add mul zero A B K items C"
  unfolding gemm2.run_def
proof (rule fold_cong)
  fix x assume "x \<in> set items"
  then have "x \<in> gemm2_items gm gn" using assms(2) by blast
  then obtain g0 g1 row col where x: "x = ((g0, g1), (row, col))" "(row, col) \<in> group_items"
    by (auto simp: gemm2_items_def)
  show "myGEMM2_item add mul zero A B (TS * gm) K order subs x =
      (\<lambda>C. C[((\<lambda>(r, c). c * (TS * gm) + r) \<circ> gemm2_pos) x :=
        tiled_dot add mul zero A B (TS * gm) K (fst (gemm2_pos x)) (snd (gemm2_pos x))])"
    using myGEMM2_acc_eq[of order row col add mul zero A B "TS * gm" K g0 g1 subs, OF assms(1) x(2)]
    by (simp add: x myGEMM2_item_def gemm2_pos_def tiled_dot_def Let_def fun_eq_iff)
qed simp_all

text \<open>Each kernel, in any order of its items, gives the product.\<close>

lemma myGEMM1_product:
  "length C = M * N \<Longrightarrow> set items = {..<M} \<times> {..<N} \<Longrightarrow>
   fold (myGEMM1_item add mul zero A B M K) items C = product_list add mul zero A B M K N"
  unfolding myGEMM1_run product_list_def by (rule gemm1.run_any_order) auto

lemma myGEMM1b_product:
  "length C = M * M \<Longrightarrow> set items = {..<M} \<times> {..<M} \<Longrightarrow>
   fold (myGEMM1b_item add mul zero A B M K) items C = product_list add mul zero A B M K M"
  unfolding myGEMM1b_run product_list_def by (rule gemm1b.run_any_order) auto

lemma myGEMM2_product:
  assumes "length C = TS * gm * (TS * gn)" "set items = gemm2_items gm gn" "\<And>t. set (order t) = group_items"
  shows "fold (myGEMM2_item add mul zero A B (TS * gm) (TS * kt) order subs) items C =
    product_list add mul zero A B (TS * gm) (TS * kt) (TS * gn)"
proof -
  have "fold (myGEMM2_item add mul zero A B (TS * gm) (TS * kt) order subs) items C =
      gemm2.run gm add mul zero A B (TS * kt) items C"
    by (rule myGEMM2_run) (use assms in auto)
  also have "\<dots> = map (\<lambda>j. tiled_dot add mul zero A B (TS * gm) (TS * kt) (j mod (TS * gm)) (j div (TS * gm)))
        [0..<TS * gm * (TS * gn)]"
    by (rule gemm2.run_any_order) (use assms in auto)
  also have "tiled_dot add mul zero A B (TS * gm) (TS * kt) = dot add mul zero A B (TS * gm) (TS * kt)"
    using TS_pos by (simp add: tiled_dot_def dot_term mult.commute fun_eq_iff)
  finally show ?thesis by (simp add: product_list_def)
qed

text \<open>C9: the kernels compute what the host computes, bit for bit, in whatever order the runtime
  runs the work items and, for the tiled kernel, the loads within a group: \<open>myGEMM1\<close> for all
  sizes, \<open>myGEMM1b\<close> for square results, \<open>myGEMM2\<close> when the rows, columns and the
  inner size are multiples of the tile size. Nothing is assumed of the arithmetic.\<close>

theorem gemm_kernels_agree:
  assumes "length C = TS * gm * (TS * gn)" and "length C' = M * N" and "length C'' = M * M"
    and "set items = {..<M} \<times> {..<N}" and "set items' = {..<M} \<times> {..<M}"
    and "set items2 = gemm2_items gm gn" and "\<And>t. set (order t) = group_items"
  shows "fold (myGEMM1_item add mul zero A B M K) items C' = matmult add mul zero A B C' M K N \<and>
    fold (myGEMM1b_item add mul zero A B M K) items' C'' = matmult add mul zero A B C'' M K M \<and>
    fold (myGEMM2_item add mul zero A B (TS * gm) (TS * kt) order subs) items2 C =
      matmult add mul zero A B C (TS * gm) (TS * kt) (TS * gn)"
  using assms by (simp add: matmult_eq myGEMM1_product myGEMM1b_product myGEMM2_product)

lemma set_product_upt: "set (List.product [0..<a] [0..<b]) = {..<a} \<times> {..<b}"
  by (auto simp: atLeast0LessThan)

definition group_order :: "nat \<Rightarrow> (nat \<times> nat) list" where
  "group_order t = List.product [0..<TS] [0..<TS]"

lemma group_order_set: "set (group_order t) = group_items"
  by (simp add: group_order_def group_items_def set_product_upt atLeast0LessThan)

lemma one_group: "set (List.product (List.product [0..<1] [0..<1]) (group_order 0)) = gemm2_items 1 1"
  by (auto simp: gemm2_items_def group_order_set)

theorem gemm_kernels_agree_witness:
  "fold (myGEMM1b_item (+) (*) 0 [1, 2, 3, 4, 5, 6] [6, 5, 4, 3, 2, 1] 2 3) [(1, 1), (0, 1), (1, 0), (0, 0)] [0, 0, 0, 0 :: int] =
   matmult (+) (*) 0 [1, 2, 3, 4, 5, 6] [6, 5, 4, 3, 2, 1] [0, 0, 0, 0] 2 3 2"
proof -
  have "set [(1, 1), (0, 1), (1, 0), (0, 0 :: nat)] = {..<2 :: nat} \<times> {..<2}"
    by (auto simp: less_2_cases_iff)
  moreover have "set (List.product (List.product [0..<1] [0..<1]) (group_order 0)) = gemm2_items 1 1"
    by (rule one_group)
  ultimately show ?thesis
    using gemm_kernels_agree[of "replicate (TS * 1 * (TS * 1)) 0" 1 1 "[0, 0, 0, 0]" 2 2 "[0, 0, 0, 0]"
        "[(1, 1), (0, 1), (1, 0), (0, 0)]" "[(1, 1), (0, 1), (1, 0), (0, 0)]"
        "List.product (List.product [0..<1] [0..<1]) (group_order 0)" group_order "(+)" "(*)" "0 :: int" "[1, 2, 3, 4, 5, 6]" "[6, 5, 4, 3, 2, 1]" 3 1 "(\<lambda>_. 0, \<lambda>_. 0)"]
      group_order_set by simp
qed

text \<open>\<open>myGEMM2\<close> drops the terms behind the last whole tile. For every inner size \<open>K\<close> each
  cell is the sum of the first \<open>K div 16 * 16\<close> terms only, so with \<open>K\<close> below 16 the kernel fills the
  result with zeros whatever the matrices are.\<close>

theorem gemm2_drops_tail:
  assumes "length C = TS * gm * (TS * gn)" and "set items = gemm2_items gm gn"
    and "\<And>t. set (order t) = group_items"
  shows "fold (myGEMM2_item add mul zero A B (TS * gm) K order subs) items C =
      map (\<lambda>j. tiled_dot add mul zero A B (TS * gm) K (j mod (TS * gm)) (j div (TS * gm))) [0..<TS * gm * (TS * gn)] \<and>
    (K < TS \<longrightarrow> fold (myGEMM2_item add mul zero A B (TS * gm) K order subs) items C =
      replicate (TS * gm * (TS * gn)) zero)"
proof -
  have "fold (myGEMM2_item add mul zero A B (TS * gm) K order subs) items C = gemm2.run gm add mul zero A B K items C"
    by (rule myGEMM2_run) (use assms in auto)
  also have "\<dots> = map (\<lambda>j. tiled_dot add mul zero A B (TS * gm) K (j mod (TS * gm)) (j div (TS * gm))) [0..<TS * gm * (TS * gn)]"
    by (rule gemm2.run_any_order) (use assms in auto)
  finally have r: "fold (myGEMM2_item add mul zero A B (TS * gm) K order subs) items C =
      map (\<lambda>j. tiled_dot add mul zero A B (TS * gm) K (j mod (TS * gm)) (j div (TS * gm))) [0..<TS * gm * (TS * gn)]" .
  have z: "K < TS \<Longrightarrow> tiled_dot add mul zero A B (TS * gm) K m n = zero" for m n
    by (simp add: tiled_dot_def)
  show ?thesis using r z by (simp add: map_replicate_trivial cong: map_cong)
qed

theorem gemm2_drops_tail_witness:
  "fold (myGEMM2_item (+) (*) 0 [1, 2] [3, 4] (TS * 1) 5 group_order (\<lambda>_. 0, \<lambda>_. 0))
     (List.product (List.product [0..<1] [0..<1]) (group_order 0)) (replicate (TS * 1 * (TS * 1)) (7 :: int)) =
   replicate (TS * 1 * (TS * 1)) 0"
proof -
  have "length (replicate (TS * 1 * (TS * 1)) (7 :: int)) = TS * 1 * (TS * 1)" by simp
  note drop = gemm2_drops_tail[where order = group_order and K = 5 and zero = 0 and add = "(+)" and mul = "(*)",
      OF this one_group group_order_set]
  have "5 < TS" by (simp add: TS_def)
  then show ?thesis using drop by blast
qed

text \<open>Reading files. The cache of the host's result is read into \<open>D\<close> with a size that is
  seven bytes larger than its allocation, so a complete cache file, the one the program itself
  writes, overruns the buffer; a shorter file, however truncated, is taken for a result, the
  rest of \<open>D\<close> keeping what the allocation held. \<open>load_src\<close> writes its terminator behind the
  buffer exactly for files that reach the maximal size.\<close>

theorem file_readers:
  assumes "length D = D_bytes M N"
  shows "(length file = cache_bytes M N \<longrightarrow> load_bin (Some file) D (cache_bytes M N) = None) \<and>
    (0 < length file \<longrightarrow> length file < D_bytes M N \<longrightarrow>
      load_bin (Some file) D (cache_bytes M N) = Some (length file, file @ drop (length file) D)) \<and>
    (load_src (Some file) memory = SrcOverrun \<longleftrightarrow> MAX_SOURCE_SIZE \<le> length file)"
  using assms
  by (auto simp: load_bin_def load_src_def D_bytes_def cache_bytes_def sizeof_float_ptr_def Let_def)

theorem file_readers_witness:
  "load_bin (Some (replicate 40 1)) (replicate 33 0) (cache_bytes 2 2) = None"
  using file_readers[of "replicate 33 0" 2 2 "replicate 40 1" "[]"]
  by (simp add: D_bytes_def cache_bytes_def sizeof_float_ptr_def)

end
