(* ===== verification/Cube.thy ===== *)
theory Cube
  imports Prelude
begin

text \<open>
  \<open>tcube.cpp\<close>: a cube as 48 stickers (eight per face, the centres left out), the table of the
  stickers around each face, and the turn of a face. The search that \<open>main\<close> runs is in theory
  \<open>CubeOrder\<close>.
\<close>

section \<open>Stickers and the table of neighbours\<close>

definition sticker :: "nat \<Rightarrow> nat \<Rightarrow> nat \<Rightarrow> nat" where
  "sticker face edge k = face * 8 + ((edge * 2 + k) mod 8)"

definition edge_links :: "(nat \<times> nat \<times> nat \<times> nat) list" where
  "edge_links =
     [(0, 0, 5, 2), (0, 1, 3, 0), (0, 2, 2, 0), (0, 3, 1, 0),
      (4, 0, 2, 2), (4, 1, 3, 2), (4, 2, 5, 0), (4, 3, 1, 2),
      (1, 1, 2, 3), (2, 1, 3, 3), (3, 1, 5, 1), (1, 3, 5, 3)]"

text \<open>\<open>peer_off[face][i] = v\<close>\<close>

definition peer_set :: "nat \<Rightarrow> nat \<Rightarrow> nat \<Rightarrow> nat list list \<Rightarrow> nat list list" where
  "peer_set face i v t = t[face := (t ! face)[i := v]]"

definition init_peer_off :: "nat list list" where
  "init_peer_off =
     fold (\<lambda>(face0, edge0, face1, edge1) t.
       let t1 = fold (\<lambda>k. peer_set face0 (edge0 * 3 + k) (sticker face1 edge1 (3 - k))) [0..<3] t
       in fold (\<lambda>k. peer_set face1 (edge1 * 3 + k) (sticker face0 edge0 (3 - k))) [0..<3] t1)
     edge_links (replicate 6 (replicate 12 0))"

section \<open>Cubes\<close>

definition reset_cube :: "nat list" where
  "reset_cube = concat (map (replicate 8) [0..<6])"

text \<open>\<open>rotate_face(f)\<close> with the table \<open>peer\<close> in place; the stickers may be of any type.\<close>

definition rotate_with :: "nat list list \<Rightarrow> nat \<Rightarrow> 'a list \<Rightarrow> 'a list" where
  "rotate_with peer f s =
     (let fc = take 8 (drop (f * 8) s);
          temp = fc @ take 2 fc;
          s1 = take (f * 8) s @ take 8 (drop 2 temp) @ drop (f * 8 + 8) s;
          temp1 = map (\<lambda>k. s1 ! (peer ! f ! k)) [0..<12] @ map (\<lambda>k. s1 ! (peer ! f ! (k - 12))) [12..<15]
      in fold (\<lambda>k s. s[peer ! f ! k := temp1 ! (k + 3)]) [0..<12] s1)"

definition rotate_face :: "nat \<Rightarrow> 'a list \<Rightarrow> 'a list" where
  "rotate_face = rotate_with init_peer_off"

section \<open>Turns permute the stickers\<close>

lemma reset_cube_length [simp]: "length reset_cube = 48"
  by code_simp

lemma peer_table: "init_peer_off =
  [[47, 46, 45, 27, 26, 25, 19, 18, 17, 11, 10, 9],
   [1, 0, 7, 17, 16, 23, 33, 32, 39, 41, 40, 47],
   [7, 6, 5, 25, 24, 31, 35, 34, 33, 13, 12, 11],
   [5, 4, 3, 45, 44, 43, 37, 36, 35, 21, 20, 19],
   [23, 22, 21, 31, 30, 29, 43, 42, 41, 15, 14, 13],
   [39, 38, 37, 29, 28, 27, 3, 2, 1, 9, 8, 15]]"
  by code_simp

lemma less_6_cases: "f < 6 \<Longrightarrow> f = 0 \<or> f = 1 \<or> f = 2 \<or> f = 3 \<or> f = 4 \<or> f = (5::nat)"
  by arith

lemma peer_bound: "f < 6 \<Longrightarrow> k < 12 \<Longrightarrow> init_peer_off ! f ! k < 48"
proof -
  assume "f < 6" "k < 12"
  have "\<forall>row\<in>set init_peer_off. length row = 12 \<and> (\<forall>x\<in>set row. x < 48)" "length init_peer_off = 6"
    unfolding peer_table by simp_all
  then show ?thesis using \<open>f < 6\<close> \<open>k < 12\<close> by (metis nth_mem)
qed

lemma length_fold_update [simp]: "length (fold (\<lambda>k s. s[g k := h k]) ks s) = length s"
  by (induction ks arbitrary: s) simp_all

lemma map_fold_update: "map g (fold (\<lambda>k s. s[p k := h k]) ks s) = fold (\<lambda>k s. s[p k := g (h k)]) ks (map g s)"
  by (induction ks arbitrary: s) (simp_all add: map_update)

lemma length_rotate_face: "length s = 48 \<Longrightarrow> f < 6 \<Longrightarrow> length (rotate_face f s) = 48"
  by (simp add: rotate_face_def rotate_with_def Let_def)

lemma rotate_face_natural:
  assumes "length s = 48" "f < 6"
  shows "rotate_face f (map g s) = map g (rotate_face f s)"
proof -
  define s1 where "s1 = take (f * 8) s @ take 8 (drop 2 (take 8 (drop (f * 8) s) @ take 2 (take 8 (drop (f * 8) s)))) @ drop (f * 8 + 8) s"
  have len: "length s1 = 48" using assms by (simp add: s1_def)
  define temp where "temp = map (\<lambda>k. s1 ! (init_peer_off ! f ! k)) [0..<12] @ map (\<lambda>k. s1 ! (init_peer_off ! f ! (k - 12))) [12..<15]"
  have m1: "map g s1 = take (f * 8) (map g s) @ take 8 (drop 2 (take 8 (drop (f * 8) (map g s)) @ take 2 (take 8 (drop (f * 8) (map g s))))) @ drop (f * 8 + 8) (map g s)"
    by (simp add: s1_def take_map drop_map)
  have mt: "map g temp = map (\<lambda>k. map g s1 ! (init_peer_off ! f ! k)) [0..<12] @ map (\<lambda>k. map g s1 ! (init_peer_off ! f ! (k - 12))) [12..<15]"
    using peer_bound[OF assms(2)] len by (simp add: temp_def)
  have nt: "k < 12 \<Longrightarrow> map g temp ! (k + 3) = g (temp ! (k + 3))" for k
    by (rule nth_map) (simp add: temp_def)
  have "rotate_face f (map g s) = fold (\<lambda>k s. s[init_peer_off ! f ! k := map g temp ! (k + 3)]) [0..<12] (map g s1)"
    unfolding rotate_face_def rotate_with_def Let_def mt m1 ..
  also have "\<dots> = fold (\<lambda>k s. s[init_peer_off ! f ! k := g (temp ! (k + 3))]) [0..<12] (map g s1)"
    by (rule fold_cong) (use nt in auto)
  also have "\<dots> = map g (fold (\<lambda>k s. s[init_peer_off ! f ! k := temp ! (k + 3)]) [0..<12] s1)"
    by (simp only: map_fold_update)
  also have "\<dots> = map g (rotate_face f s)"
    unfolding rotate_face_def rotate_with_def Let_def temp_def s1_def ..
  finally show ?thesis .
qed

text \<open>A turn as a permutation: where each position gets its sticker from.\<close>

definition turn :: "nat \<Rightarrow> nat list" where
  "turn f = rotate_face f [0..<48]"

lemma rotate_face_turn:
  assumes "length s = 48" "f < 6"
  shows "rotate_face f s = map (nth s) (turn f)"
proof -
  have "s = map (nth s) [0..<48]" using assms(1) map_nth[of s] by simp
  then show ?thesis using rotate_face_natural[of "[0..<48]" f "nth s"] assms(2) by (simp add: turn_def)
qed

text \<open>The six permutations, evaluated.\<close>

lemma turn_table:
  "turn 0 =
  [2, 3, 4, 5, 6, 7, 0, 1, 8, 45, 46, 47, 12, 13, 14, 15, 16, 9, 10, 11, 20,
   21, 22, 23, 24, 17, 18, 19, 28, 29, 30, 31, 32, 33, 34, 35, 36, 37, 38,
   39, 40, 41, 42, 43, 44, 25, 26, 27]"
  "turn 1 =
  [16, 17, 2, 3, 4, 5, 6, 23, 10, 11, 12, 13, 14, 15, 8, 9, 32, 33, 18, 19,
   20, 21, 22, 39, 24, 25, 26, 27, 28, 29, 30, 31, 40, 41, 34, 35, 36, 37,
   38, 47, 0, 1, 42, 43, 44, 45, 46, 7]"
  "turn 2 =
  [0, 1, 2, 3, 4, 31, 24, 25, 8, 9, 10, 5, 6, 7, 14, 15, 18, 19, 20, 21, 22,
   23, 16, 17, 34, 35, 26, 27, 28, 29, 30, 33, 32, 11, 12, 13, 36, 37, 38,
   39, 40, 41, 42, 43, 44, 45, 46, 47]"
  "turn 3 =
  [0, 1, 2, 43, 44, 45, 6, 7, 8, 9, 10, 11, 12, 13, 14, 15, 16, 17, 18, 3,
   4, 5, 22, 23, 26, 27, 28, 29, 30, 31, 24, 25, 32, 33, 34, 19, 20, 21, 38,
   39, 40, 41, 42, 35, 36, 37, 46, 47]"
  "turn 4 =
  [0, 1, 2, 3, 4, 5, 6, 7, 8, 9, 10, 11, 12, 21, 22, 23, 16, 17, 18, 19, 20,
   29, 30, 31, 24, 25, 26, 27, 28, 41, 42, 43, 34, 35, 36, 37, 38, 39, 32,
   33, 40, 13, 14, 15, 44, 45, 46, 47]"
  "turn 5 =
  [0, 15, 8, 9, 4, 5, 6, 7, 38, 39, 10, 11, 12, 13, 14, 37, 16, 17, 18, 19,
   20, 21, 22, 23, 24, 25, 26, 1, 2, 3, 30, 31, 32, 33, 34, 35, 36, 27, 28,
   29, 42, 43, 44, 45, 46, 47, 40, 41]"
  unfolding turn_def rotate_face_def peer_table by code_simp+

lemma turn_sorted: "f < 6 \<Longrightarrow> sort (turn f) = [0..<48]"
  by (drule less_6_cases, elim disjE; simp only: turn_table; code_simp)

lemma turn_order_four:
  "f < 6 \<Longrightarrow> map (nth (map (nth (turn f)) (turn f))) (map (nth (turn f)) (turn f)) = [0..<48]"
  by (drule less_6_cases, elim disjE; simp only: turn_table; code_simp)

lemma turn_mset: "f < 6 \<Longrightarrow> mset (turn f) = mset [0..<48]"
proof -
  assume "f < 6"
  then show ?thesis using turn_sorted mset_sort by metis
qed

lemma rotate_face_mset:
  assumes "length s = 48" "f < 6"
  shows "mset (rotate_face f s) = mset s"
proof -
  have "mset (rotate_face f s) = image_mset (nth s) (mset (turn f))"
    using rotate_face_turn[OF assms] by simp
  also have "\<dots> = mset (map (nth s) [0..<48])" using turn_mset[OF assms(2)] by simp
  also have "map (nth s) [0..<48] = s" using assms(1) map_nth[of s] by simp
  finally show ?thesis .
qed

text \<open>C11: a turn of any face only moves stickers: every colour occurs as often as before; and four
  turns of the same face are the identity, for every colouring of the 48 stickers.\<close>

theorem turn_permutes:
  assumes "length s = 48" and "f < 6"
  shows "mset (rotate_face f s) = mset s \<and> length (rotate_face f s) = 48 \<and>
    rotate_face f (rotate_face f (rotate_face f (rotate_face f s))) = s"
proof -
  let ?r = "rotate_face f" and ?p = "turn f"
  have l: "length (?r x) = 48" if "length x = 48" for x :: "'a list" using length_rotate_face that assms(2) .
  have t: "?r x = map (nth x) ?p" if "length x = 48" for x :: "'a list"
    using rotate_face_turn that assms(2) .
  have len: "length ?p = 48" using mset_eq_length[OF turn_mset[OF assms(2)]] by simp
  have bound: "i \<in> set ?p \<Longrightarrow> i < 48" for i using mset_eq_setD[OF turn_mset[OF assms(2)]] by auto
  have comp: "map (nth (map (nth x) ys)) zs = map (nth x) (map (nth ys) zs)"
    if "\<forall>i\<in>set zs. i < length ys" for x :: "'a list" and ys zs using that by simp
  have sq: "?r (?r x) = map (nth x) (map (nth ?p) ?p)" if "length x = 48" for x :: "'a list"
    using t[OF that] t[OF l[OF that]] comp[of ?p ?p x] bound len by simp
  have sq_bound: "\<forall>i\<in>set (map (nth ?p) ?p). i < length (map (nth ?p) ?p)"
    using bound len nth_mem[of _ ?p] by auto
  have "?r (?r (?r (?r s))) = map (nth (?r (?r s))) (map (nth ?p) ?p)"
    using sq[OF l[OF l[OF assms(1)]]] .
  also have "\<dots> = map (nth s) (map (nth (map (nth ?p) ?p)) (map (nth ?p) ?p))"
    unfolding sq[OF assms(1)] by (rule comp[OF sq_bound])
  also have "map (nth (map (nth ?p) ?p)) (map (nth ?p) ?p) = [0..<48]"
    by (rule turn_order_four[OF assms(2)])
  also have "map (nth s) [0..<48] = s" using assms(1) map_nth[of s] by simp
  finally show ?thesis using rotate_face_mset[OF assms] length_rotate_face[OF assms] by simp
qed

theorem turn_permutes_witness:
  "rotate_face 2 (rotate_face 2 (rotate_face 2 (rotate_face 2 reset_cube))) = reset_cube"
  using turn_permutes[of reset_cube 2] by simp

text \<open>The table is off by one. The links of \<open>init_peer_off\<close> pair an edge of one face with an
  edge of another, whose stickers are numbers 0 to 2 of that edge. For every link, in both
  directions, the table leaves out the corner sticker 0 of the adjoining edge and takes in
  number 3, the middle of the next edge; so the turn of a face moves twelve side stickers of
  which four do not belong to its layer, and leaves four that do.\<close>

theorem peer_table_off_by_one:
  "list_all (\<lambda>(f0, e0, f1, e1).
     sticker f1 e1 0 \<notin> set (init_peer_off ! f0) \<and> sticker f1 e1 3 \<in> set (init_peer_off ! f0) \<and>
     sticker f0 e0 0 \<notin> set (init_peer_off ! f1) \<and> sticker f0 e0 3 \<in> set (init_peer_off ! f1) \<and>
     turn f0 ! sticker f1 e1 0 = sticker f1 e1 0 \<and> turn f0 ! sticker f1 e1 3 \<noteq> sticker f1 e1 3)
   edge_links"
  by (simp add: edge_links_def sticker_def peer_table turn_table turn_table(2)[unfolded One_nat_def])

end
