(* ===== verification/ClUtil.thy ===== *)
theory ClUtil
  imports Prelude
begin

text \<open>
  \<open>topencl.cpp\<close>: the text of an OpenCL error code, and the selection of a platform by
  \<open>clutl_platform_select\<close> and the start of \<open>main\<close>. The platforms the runtime reports are a
  parameter; what is printed about them is not modelled.
\<close>

section \<open>Error codes\<close>

definition error_names :: "(int \<times> string) list" where
  "error_names =
     [(0, ''CL_SUCCESS''),
      (-1, ''CL_DEVICE_NOT_FOUND''),
      (-2, ''CL_DEVICE_NOT_AVAILABLE''),
      (-3, ''CL_COMPILER_NOT_AVAILABLE''),
      (-4, ''CL_MEM_OBJECT_ALLOCATION_FAILURE''),
      (-5, ''CL_OUT_OF_RESOURCES''),
      (-6, ''CL_OUT_OF_HOST_MEMORY''),
      (-7, ''CL_PROFILING_INFO_NOT_AVAILABLE''),
      (-8, ''CL_MEM_COPY_OVERLAP''),
      (-9, ''CL_IMAGE_FORMAT_MISMATCH''),
      (-10, ''CL_IMAGE_FORMAT_NOT_SUPPORTED''),
      (-12, ''CL_MAP_FAILURE''),
      (-13, ''CL_MISALIGNED_SUB_BUFFER_OFFSET''),
      (-14, ''CL_EXEC_STATUS_ERROR_FOR_EVENTS_IN_WAIT_LIST''),
      (-15, ''CL_COMPILE_PROGRAM_FAILURE''),
      (-16, ''CL_LINKER_NOT_AVAILABLE''),
      (-17, ''CL_LINK_PROGRAM_FAILURE''),
      (-18, ''CL_DEVICE_PARTITION_FAILED''),
      (-19, ''CL_KERNEL_ARG_INFO_NOT_AVAILABLE''),
      (-30, ''CL_INVALID_VALUE''),
      (-31, ''CL_INVALID_DEVICE_TYPE''),
      (-32, ''CL_INVALID_PLATFORM''),
      (-33, ''CL_INVALID_DEVICE''),
      (-34, ''CL_INVALID_CONTEXT''),
      (-35, ''CL_INVALID_QUEUE_PROPERTIES''),
      (-36, ''CL_INVALID_COMMAND_QUEUE''),
      (-37, ''CL_INVALID_HOST_PTR''),
      (-38, ''CL_INVALID_MEM_OBJECT''),
      (-39, ''CL_INVALID_IMAGE_FORMAT_DESCRIPTOR''),
      (-40, ''CL_INVALID_IMAGE_SIZE''),
      (-41, ''CL_INVALID_SAMPLER''),
      (-42, ''CL_INVALID_BINARY''),
      (-43, ''CL_INVALID_BUILD_OPTIONS''),
      (-44, ''CL_INVALID_PROGRAM''),
      (-45, ''CL_INVALID_PROGRAM_EXECUTABLE''),
      (-46, ''CL_INVALID_KERNEL_NAME''),
      (-47, ''CL_INVALID_KERNEL_DEFINITION''),
      (-48, ''CL_INVALID_KERNEL''),
      (-49, ''CL_INVALID_ARG_INDEX''),
      (-50, ''CL_INVALID_ARG_VALUE''),
      (-51, ''CL_INVALID_ARG_SIZE''),
      (-52, ''CL_INVALID_KERNEL_ARGS''),
      (-53, ''CL_INVALID_WORK_DIMENSION''),
      (-54, ''CL_INVALID_WORK_GROUP_SIZE''),
      (-55, ''CL_INVALID_WORK_ITEM_SIZE''),
      (-56, ''CL_INVALID_GLOBAL_OFFSET''),
      (-57, ''CL_INVALID_EVENT_WAIT_LIST''),
      (-58, ''CL_INVALID_EVENT''),
      (-59, ''CL_INVALID_OPERATION''),
      (-60, ''CL_INVALID_GL_OBJECT''),
      (-61, ''CL_INVALID_BUFFER_SIZE''),
      (-62, ''CL_INVALID_MIP_LEVEL''),
      (-63, ''CL_INVALID_GLOBAL_WORK_SIZE''),
      (-64, ''CL_INVALID_PROPERTY''),
      (-65, ''CL_INVALID_IMAGE_DESCRIPTOR''),
      (-66, ''CL_INVALID_COMPILER_OPTIONS''),
      (-67, ''CL_INVALID_LINKER_OPTIONS''),
      (-68, ''CL_INVALID_DEVICE_PARTITION_COUNT''),
      (-69, ''CL_INVALID_PIPE_SIZE''),
      (-70, ''CL_INVALID_DEVICE_QUEUE''),
      (-71, ''CL_INVALID_SPEC_ID''),
      (-72, ''CL_MAX_SIZE_RESTRICTION_EXCEEDED''),
      (-1002, ''CL_INVALID_D3D10_DEVICE_KHR''),
      (-1003, ''CL_INVALID_D3D10_RESOURCE_KHR''),
      (-1004, ''CL_D3D10_RESOURCE_ALREADY_ACQUIRED_KHR''),
      (-1005, ''CL_D3D10_RESOURCE_NOT_ACQUIRED_KHR''),
      (-1006, ''CL_INVALID_D3D11_DEVICE_KHR''),
      (-1007, ''CL_INVALID_D3D11_RESOURCE_KHR''),
      (-1008, ''CL_D3D11_RESOURCE_ALREADY_ACQUIRED_KHR''),
      (-1009, ''CL_D3D11_RESOURCE_NOT_ACQUIRED_KHR''),
      (-1010, ''CL_INVALID_DX9_MEDIA_ADAPTER_KHR''),
      (-1011, ''CL_INVALID_DX9_MEDIA_SURFACE_KHR''),
      (-1012, ''CL_DX9_MEDIA_SURFACE_ALREADY_ACQUIRED_KHR''),
      (-1013, ''CL_DX9_MEDIA_SURFACE_NOT_ACQUIRED_KHR''),
      (-1093, ''CL_INVALID_EGL_OBJECT_KHR''),
      (-1092, ''CL_EGL_RESOURCE_NOT_ACQUIRED_KHR''),
      (-1001, ''CL_PLATFORM_NOT_FOUND_KHR''),
      (-1057, ''CL_DEVICE_PARTITION_FAILED_EXT''),
      (-1058, ''CL_INVALID_PARTITION_COUNT_EXT''),
      (-1059, ''CL_INVALID_PARTITION_NAME_EXT''),
      (-1094, ''CL_INVALID_ACCELERATOR_INTEL''),
      (-1095, ''CL_INVALID_ACCELERATOR_TYPE_INTEL''),
      (-1096, ''CL_INVALID_ACCELERATOR_DESCRIPTOR_INTEL''),
      (-1097, ''CL_ACCELERATOR_TYPE_NOT_SUPPORTED_INTEL''),
      (-1000, ''CL_INVALID_GL_SHAREGROUP_REFERENCE_KHR''),
      (-1098, ''CL_INVALID_VA_API_MEDIA_ADAPTER_INTEL''),
      (-1099, ''CL_INVALID_VA_API_MEDIA_SURFACE_INTEL''),
      (-1100, ''CL_VA_API_MEDIA_SURFACE_ALREADY_ACQUIRED_INTEL''),
      (-1101, ''CL_VA_API_MEDIA_SURFACE_NOT_ACQUIRED_INTEL'')]"

definition clutl_GetErrorString :: "int \<Rightarrow> string" where
  "clutl_GetErrorString errorCode =
     (case map_of error_names errorCode of Some s \<Rightarrow> s | None \<Rightarrow> ''CL_UNKNOWN_ERROR'')"

text \<open>Each code and each name is listed once, so a listed code can be read back from its text.\<close>

lemma error_codes_distinct: "distinct (map fst error_names)"
  by (simp add: error_names_def)

lemma error_names_distinct: "distinct (map snd error_names)"
  by (simp only: error_names_def list.map snd_conv distinct.simps list.set insert_iff empty_iff
      list.inject list.distinct char.inject simp_thms HOL.True_not_False HOL.False_not_True)

lemma error_name_unknown: "''CL_UNKNOWN_ERROR'' \<notin> set (map snd error_names)"
  by (simp add: error_names_def)

lemma map_of_value: "map_of xs c = Some v \<Longrightarrow> v \<in> set (map snd xs)"
  by (drule map_of_SomeD) force

lemma map_of_inj_values:
  "distinct (map snd xs) \<Longrightarrow> map_of xs a = Some v \<Longrightarrow> map_of xs b = Some v \<Longrightarrow> a = b"
proof (induction xs)
  case (Cons x xs)
  then show ?case using map_of_value[of xs _ v] by (auto split: if_splits)
qed simp

text \<open>The text identifies the error. Two different codes have the same text only when both are
  unknown to the table, and the text is the one for unknown codes exactly for codes outside it.\<close>

theorem error_string_injective:
  "(clutl_GetErrorString a = ''CL_UNKNOWN_ERROR'' \<longleftrightarrow> a \<notin> set (map fst error_names)) \<and>
   (clutl_GetErrorString a = clutl_GetErrorString b \<longleftrightarrow>
      a = b \<or> (a \<notin> set (map fst error_names) \<and> b \<notin> set (map fst error_names)))"
proof -
  have known: "map_of error_names c = None \<longleftrightarrow> c \<notin> set (map fst error_names)" for c
    by (simp add: map_of_eq_None_iff)
  have name: "map_of error_names c = Some s \<Longrightarrow> s \<noteq> ''CL_UNKNOWN_ERROR''" for c s
    using error_name_unknown map_of_value[of error_names c s] by metis
  show ?thesis
    using known[of a] known[of b] name[of a] name[of b]
      map_of_inj_values[OF error_names_distinct, of a _ b]
    by (auto simp: clutl_GetErrorString_def split: option.splits)
qed

section \<open>Platform selection\<close>

text \<open>
  \<open>platform_id\<close> has 32 cells, NULL at first; \<open>clGetPlatformIDs\<close> fills as many as fit and reports
  how many platforms there are. A cell outside the array is undefined.
\<close>

definition max_platforms :: nat where "max_platforms = 32"

datatype 'p selection = Selected int "'p option" | SelectUndefined

definition platform_array :: "'p list \<Rightarrow> 'p option list" where
  "platform_array platforms =
     map Some (take max_platforms platforms) @ replicate (max_platforms - length platforms) None"

definition clutl_platform_select :: "'p list \<Rightarrow> int \<Rightarrow> 'p selection" where
  "clutl_platform_select platforms select_id =
     (if select_id > 0
      then if nat (select_id - 1) < length (platform_array platforms)
           then Selected 0 (platform_array platforms ! nat (select_id - 1))
           else SelectUndefined
      else Selected (int (length platforms)) None)"

datatype 'p start = Runs "'p option" | Exits int | StartUndefined

text \<open>
  \<open>main\<close> up to the call of \<open>run_myGEMM\<close>: with an argument its number (\<open>atoi\<close>) is taken as it is,
  otherwise a digit is read from the terminal.
\<close>

definition cl_main :: "'p list \<Rightarrow> int option \<Rightarrow> int \<Rightarrow> 'p start" where
  "cl_main platforms arg key =
     (case arg of
        Some i \<Rightarrow>
          (case clutl_platform_select platforms i of
             SelectUndefined \<Rightarrow> StartUndefined
           | Selected r p \<Rightarrow> if r \<noteq> 0 then Exits 1 else Runs p)
      | None \<Rightarrow>
          (case clutl_platform_select platforms (-1) of
             SelectUndefined \<Rightarrow> StartUndefined
           | Selected cnt _ \<Rightarrow>
               let i = key - 48
               in if i < 1 \<or> i > cnt then Exits 0
                  else (case clutl_platform_select platforms i of
                          SelectUndefined \<Rightarrow> StartUndefined
                        | Selected r p \<Rightarrow> if r \<noteq> 0 then Exits 1 else Runs p)))"

lemma platform_array_length:
  "length (platform_array platforms) = max_platforms"
  by (simp add: platform_array_def)

lemma platform_array_nth:
  "i < max_platforms \<Longrightarrow> platform_array platforms ! i = (if i < length platforms then Some (platforms ! i) else None)"
  by (auto simp: platform_array_def nth_append)

text \<open>The interactive choice is safe, the one on the command line is not. A key starts the
  program only with the platform of that number; an argument that is a positive number beyond
  the platforms starts it with NULL, and beyond 32 reads outside the array.\<close>

theorem platform_choice:
  assumes "length platforms \<le> max_platforms"
  shows "(\<forall>key. cl_main platforms None key =
            (if 1 \<le> key - 48 \<and> key - 48 \<le> int (length platforms)
             then Runs (Some (platforms ! nat (key - 49))) else Exits 0)) \<and>
         (\<forall>i. cl_main platforms (Some i) 0 =
            (if i \<le> 0 then (if platforms = [] then Runs None else Exits 1)
             else if i \<le> int (length platforms) then Runs (Some (platforms ! nat (i - 1)))
             else if i \<le> int max_platforms then Runs None else StartUndefined))"
proof -
  have a: "clutl_platform_select platforms i =
      (if i \<le> 0 then Selected (int (length platforms)) None
       else if i \<le> int (length platforms) then Selected 0 (Some (platforms ! nat (i - 1)))
       else if i \<le> int max_platforms then Selected 0 None else SelectUndefined)" for i
    using assms by (auto simp: clutl_platform_select_def platform_array_length platform_array_nth)
  show ?thesis
    using assms by (auto simp: cl_main_def a Let_def)
qed

theorem platform_choice_witness:
  "cl_main [''A'', ''B''] (Some 40) 0 = StartUndefined \<and> cl_main [''A'', ''B''] None 50 = Runs (Some ''B'')"
  using platform_choice[of "[''A'', ''B'']"] by (simp add: max_platforms_def)

end
