(* ===== verification/HLog.thy ===== *)
theory HLog
  imports Prelude
begin

text \<open>
  \<open>HLog.cpp\<close> and \<open>HLog.h\<close>: the logging function in its two builds, with and without log4cpp. The
  time stamp and the formatted message are parameters; the result is the line printed, or the
  priority and text given to log4cpp.
\<close>

unbundle bit_operations_syntax

section \<open>Levels\<close>

definition N_DEBUG :: cint where "N_DEBUG = 0x01"
definition N_INFO :: cint where "N_INFO = 0x02"
definition N_WARN :: cint where "N_WARN = 0x04"
definition N_ERROR :: cint where "N_ERROR = 0x40"
definition N_FATAL :: cint where "N_FATAL = 0x80"

definition nDebugLevel :: cint where
  "nDebugLevel = N_DEBUG OR N_INFO OR N_ERROR OR N_FATAL"

section \<open>Strings\<close>

text \<open>\<open>rfind\<close>: the last position of a character, None for \<open>npos\<close>.\<close>

definition rfind :: "string \<Rightarrow> char \<Rightarrow> nat option" where
  "rfind s c = (let hits = filter (\<lambda>i. s ! i = c) [0..<length s] in if hits = [] then None else Some (last hits))"

text \<open>\<open>filename.substr(filename.rfind("/") + 1)\<close>; \<open>npos + 1\<close> is 0.\<close>

definition base_name :: "string \<Rightarrow> string" where
  "base_name file = (case rfind file CHR ''/'' of None \<Rightarrow> file | Some i \<Rightarrow> drop (Suc i) file)"

text \<open>\<open>snprintf\<close> into a buffer of \<open>n\<close> characters keeps \<open>n - 1\<close> of them, none for \<open>n = 0\<close>.\<close>

definition snprintf :: "nat \<Rightarrow> string \<Rightarrow> string" where
  "snprintf n s = take (n - 1) s"

definition log_size :: nat where "log_size = 4096"

section \<open>The build without log4cpp\<close>

text \<open>\<open>switch (flag & nDebugLevel)\<close>: the word in the header; no case matches other values.\<close>

definition level_word :: "cint \<Rightarrow> string option" where
  "level_word v =
     (if v = N_DEBUG then Some ''DEBUG'' else if v = N_INFO then Some ''INFO''
      else if v = N_WARN then Some ''WARN'' else if v = N_ERROR then Some ''ERROR''
      else if v = N_FATAL then Some ''FATAL'' else None)"

text \<open>
  \<open>stamp\<close> is the time and thread part of the header, \<open>line\<close> the printed line number, \<open>msg\<close> the
  formatted message. The result is what is printed, None when nothing is.
\<close>

definition HLogInner :: "string \<Rightarrow> cint \<Rightarrow> string \<Rightarrow> string \<Rightarrow> string \<Rightarrow> string \<Rightarrow> string option" where
  "HLogInner stamp flag file func line msg =
     (let filename = base_name file;
          header = (case level_word (flag AND nDebugLevel) of
                      None \<Rightarrow> []
                    | Some w \<Rightarrow> snprintf log_size
                        (stamp @ ''['' @ w @ '']['' @ filename @ '':'' @ func @ '':'' @ line @ ''] ''))
      in if flag AND nDebugLevel \<noteq> 0
         then let offset = length header; nMaxLogSize = log_size - offset - 1
              in Some (header @ snprintf nMaxLogSize msg)
         else None)"

lemma snprintf_length: "length (snprintf n s) \<le> n - 1"
  by (simp add: snprintf_def)

lemma warn_masked: "N_WARN AND nDebugLevel = 0"
  by (simp add: nDebugLevel_def N_WARN_def N_DEBUG_def N_INFO_def N_ERROR_def N_FATAL_def)

text \<open>The log function never prints more than the buffer holds, whatever the lengths of the
  file name, the function name and the message; and \<open>HWarn\<close> prints nothing, its bit missing from
  \<open>nDebugLevel\<close>, while the other four levels always print a line.\<close>

theorem log_line_bounded:
  "(\<forall>out. HLogInner stamp flag file func line msg = Some out \<longrightarrow> length out < log_size) \<and>
   HLogInner stamp N_WARN file func line msg = None \<and>
   (\<forall>level\<in>{N_DEBUG, N_INFO, N_ERROR, N_FATAL}. HLogInner stamp level file func line msg \<noteq> None)"
proof (intro conjI allI impI ballI)
  fix out assume a: "HLogInner stamp flag file func line msg = Some out"
  define header where "header = (case level_word (flag AND nDebugLevel) of
                      None \<Rightarrow> []
                    | Some w \<Rightarrow> snprintf log_size
                        (stamp @ ''['' @ w @ '']['' @ base_name file @ '':'' @ func @ '':'' @ line @ ''] ''))"
  have h: "length header \<le> log_size - 1"
    using snprintf_length[of log_size] by (simp add: header_def split: option.splits)
  have out: "out = header @ snprintf (log_size - length header - 1) msg"
    using a by (simp add: HLogInner_def Let_def header_def[symmetric] split: if_splits)
  have "length out \<le> length header + (log_size - length header - 1 - 1)"
    using snprintf_length[of "log_size - length header - 1" msg] by (simp add: out)
  also have "\<dots> < log_size" using h by (simp add: log_size_def)
  finally show "length out < log_size" .
next
  show "HLogInner stamp N_WARN file func line msg = None" by (simp add: HLogInner_def warn_masked Let_def)
next
  fix level assume "level \<in> {N_DEBUG, N_INFO, N_ERROR, N_FATAL}"
  then have "level AND nDebugLevel \<noteq> 0"
    by (auto simp: nDebugLevel_def N_DEBUG_def N_INFO_def N_ERROR_def N_FATAL_def)
  then show "HLogInner stamp level file func line msg \<noteq> None" by (simp add: HLogInner_def Let_def)
qed

theorem log_line_bounded_witness:
  "HLogInner ''[t]'' N_WARN ''a/b.cpp'' ''f'' ''1'' ''m'' = None"
  using log_line_bounded[of "''[t]''" N_INFO "''a/b.cpp''" "''f''" "''1''" "''m''"] by simp

section \<open>The build with log4cpp\<close>

text \<open>The name between the last slash and the last dot, as \<open>substr(pos, count)\<close>.\<close>

definition category_name :: "string \<Rightarrow> string" where
  "category_name fn =
     (let p = (case rfind fn CHR ''/'' of None \<Rightarrow> 0 | Some i \<Rightarrow> Suc i)
      in case rfind fn CHR ''.'' of
           None \<Rightarrow> drop p fn
         | Some d \<Rightarrow> if p \<le> d then take (d - p) (drop p fn) else drop p fn)"

datatype priority = PDebug | PInfo | PWarn | PError | PFatal

definition level_priority :: "cint \<Rightarrow> priority option" where
  "level_priority flag =
     (if flag = N_DEBUG then Some PDebug else if flag = N_INFO then Some PInfo
      else if flag = N_WARN then Some PWarn else if flag = N_ERROR then Some PError
      else if flag = N_FATAL then Some PFatal else None)"

text \<open>\<open>init\<close> is the result of \<open>initLog4cpp\<close>; the result of the call is its return value and what
  is given to the category.\<close>

definition HLogInner_log4cpp ::
  "int \<Rightarrow> cint \<Rightarrow> string \<Rightarrow> string \<Rightarrow> string \<Rightarrow> string \<Rightarrow> bool \<Rightarrow>
   int \<times> bool \<times> (string \<times> priority \<times> string) option" where
  "HLogInner_log4cpp init flag file func line msg logInitilized =
     (if \<not> logInitilized \<and> init < 0 then (-1, False, None)
      else let filename = category_name file;
               header = snprintf log_size ('':'' @ func @ '':'' @ line @ '': '');
               offset = length header; nMaxLogSize = log_size - offset - 1;
               buffer = header @ snprintf nMaxLogSize msg
           in (0, True, case level_priority flag of None \<Rightarrow> None | Some p \<Rightarrow> Some (filename, p, buffer)))"

text \<open>\<open>initLog4cpp(configPath)\<close>: which of the two files exist, and whether the variable is set.\<close>

definition initLog4cpp :: "bool \<Rightarrow> string option \<Rightarrow> (string \<Rightarrow> bool) \<Rightarrow> int" where
  "initLog4cpp config_exists install_dir file_exists =
     (if config_exists then 0
      else let hddlInstallDir = (case install_dir of None \<Rightarrow> [] | Some d \<Rightarrow> d)
           in if hddlInstallDir = [] then 0
              else if file_exists (hddlInstallDir @ ''/config/hddlapilog.config'') then 0 else -1)"

definition getEnvVar :: "(string \<Rightarrow> string option) \<Rightarrow> string \<Rightarrow> string" where
  "getEnvVar env var = (case env var of None \<Rightarrow> [] | Some v \<Rightarrow> v)"

end
