(* ===== verification/Configuration.thy ===== *)
theory Configuration
  imports Prelude
begin

text \<open>
  \<open>ttuple.cpp\<close>: the class \<open>Configuration\<close>, a tuple of command line arguments that is accessed by
  identifiers. What the compiler computes is modelled as it instantiates the templates:
  \<open>position\<close> is the recursion of \<open>tuple_element_by_id\<close>, and None is a program that does not compile.
\<close>

section \<open>The data\<close>

datatype EParameter =
  IMAGES | MODEL | PLUGIN | PLUGIN_PATHS | LABELS_FILE | ITER_NUM | TOP_NUM | PERF_COUNT | DEVICE

fun enum_value :: "EParameter \<Rightarrow> int" where
  "enum_value IMAGES = 0"
| "enum_value MODEL = 1"
| "enum_value PLUGIN = 2"
| "enum_value PLUGIN_PATHS = 3"
| "enum_value LABELS_FILE = 4"
| "enum_value ITER_NUM = 5"
| "enum_value TOP_NUM = 6"
| "enum_value PERF_COUNT = 7"
| "enum_value DEVICE = 8"

text \<open>The types of the arguments, \<open>std::vector<std::string>\<close>, \<open>std::string\<close>, \<open>size_t\<close>, \<open>bool\<close>, and their values.\<close>

datatype arg_type = TStrings | TString | TSize | TBool

datatype arg_value = VStrings "string list" | VString string | VSize "64 word" | VBool bool

fun type_of :: "arg_value \<Rightarrow> arg_type" where
  "type_of (VStrings ss) = TStrings"
| "type_of (VString s) = TString"
| "type_of (VSize n) = TSize"
| "type_of (VBool b) = TBool"

text \<open>\<open>ArgContainer<A, ArgParameter<T>>\<close>: the identifier, the type, the value and \<open>parsed\<close>.\<close>

record arg_container =
  ac_x :: int
  ac_type :: arg_type
  ac_value :: arg_value
  ac_parsed :: bool

type_synonym configuration = "arg_container list"

text \<open>Value initialisation, which the constructor of the tuple does.\<close>

fun initial :: "arg_type \<Rightarrow> arg_value" where
  "initial TStrings = VStrings []"
| "initial TString = VString []"
| "initial TSize = VSize 0"
| "initial TBool = VBool False"

definition ConfigurationContainer :: "EParameter \<Rightarrow> arg_type \<Rightarrow> arg_container" where
  "ConfigurationContainer p T = \<lparr>ac_x = enum_value p, ac_type = T, ac_value = initial T, ac_parsed = False\<rparr>"

definition Configuration :: configuration where
  "Configuration =
     [ConfigurationContainer IMAGES TStrings,
      ConfigurationContainer MODEL TString,
      ConfigurationContainer PLUGIN TString,
      ConfigurationContainer PLUGIN_PATHS TStrings,
      ConfigurationContainer LABELS_FILE TString,
      ConfigurationContainer ITER_NUM TSize,
      ConfigurationContainer TOP_NUM TSize,
      ConfigurationContainer PERF_COUNT TBool]"

section \<open>Finding an element\<close>

text \<open>
  \<open>tuple_element_by_id<XType<ID>, N, T>::position\<close>: the primary template, which an empty tuple
  selects, has no position; \<open>N\<close> is a \<open>size_t\<close>, which wraps.
\<close>

fun position :: "int \<Rightarrow> 64 word \<Rightarrow> configuration \<Rightarrow> 64 word option" where
  "position ID N [] = None"
| "position ID N (head # tail) = (if ac_x head = ID then Some N else position ID (N - 1) tail)"

text \<open>The index \<open>N - position - 1\<close> that \<open>tget\<close> passes to \<open>std::get\<close>, which checks it.\<close>

definition tget_index :: "int \<Rightarrow> configuration \<Rightarrow> nat option" where
  "tget_index ID t =
     (let N = word_of_nat (length t) in
      case position ID (N - 1) t of
        None \<Rightarrow> None
      | Some p \<Rightarrow> (let i = unat (N - p - 1) in if i < length t then Some i else None))"

definition tget :: "int \<Rightarrow> configuration \<Rightarrow> arg_container option" where
  "tget ID t = map_option (\<lambda>i. t ! i) (tget_index ID t)"

section \<open>The members of \<open>Configuration\<close>\<close>

text \<open>
  The assignment of a value of another type, with the implicit conversions the language has:
  between \<open>size_t\<close> and \<open>bool\<close>, and from both to \<open>char\<close>, which \<open>std::string\<close> can be assigned.
\<close>

fun assign :: "arg_type \<Rightarrow> arg_value \<Rightarrow> arg_value option" where
  "assign TStrings (VStrings ss) = Some (VStrings ss)"
| "assign TString (VString s) = Some (VString s)"
| "assign TString (VSize n) = Some (VString [char_of (unat n)])"
| "assign TString (VBool b) = Some (VString [char_of (of_bool b :: nat)])"
| "assign TSize (VSize n) = Some (VSize n)"
| "assign TSize (VBool b) = Some (VSize (of_bool b))"
| "assign TBool (VBool b) = Some (VBool b)"
| "assign TBool (VSize n) = Some (VBool (n \<noteq> 0))"
| "assign _ _ = None"

definition setValue :: "int \<Rightarrow> arg_value \<Rightarrow> configuration \<Rightarrow> configuration option" where
  "setValue ID v t =
     (case tget_index ID t of
        None \<Rightarrow> None
      | Some i \<Rightarrow> map_option (\<lambda>v'. t[i := (t ! i)\<lparr>ac_value := v'\<rparr>]) (assign (ac_type (t ! i)) v))"

definition get_value :: "int \<Rightarrow> configuration \<Rightarrow> arg_value option" where
  "get_value ID t = map_option ac_value (tget ID t)"

definition setParsed :: "int \<Rightarrow> bool \<Rightarrow> configuration \<Rightarrow> configuration option" where
  "setParsed ID b t =
     (case tget_index ID t of None \<Rightarrow> None | Some i \<Rightarrow> Some (t[i := (t ! i)\<lparr>ac_parsed := b\<rparr>]))"

definition isParsed :: "int \<Rightarrow> configuration \<Rightarrow> bool option" where
  "isParsed ID t = map_option ac_parsed (tget ID t)"

text \<open>\<open>empty()\<close>, which numbers do not have.\<close>

fun value_empty :: "arg_value \<Rightarrow> bool option" where
  "value_empty (VStrings ss) = Some (ss = [])"
| "value_empty (VString s) = Some (s = [])"
| "value_empty _ = None"

definition isParsedAndPresent :: "int \<Rightarrow> configuration \<Rightarrow> bool option" where
  "isParsedAndPresent ID t =
     (case (isParsed ID t, get_value ID t) of
        (Some p, Some v) \<Rightarrow> map_option (\<lambda>e. p \<and> \<not> e) (value_empty v)
      | _ \<Rightarrow> None)"

text \<open>A call of a member that changes the configuration.\<close>

datatype cfg_call = SetValue int arg_value | SetParsed int bool

fun run_call :: "cfg_call \<Rightarrow> configuration \<Rightarrow> configuration option" where
  "run_call (SetValue ID v) t = setValue ID v t"
| "run_call (SetParsed ID b) t = setParsed ID b t"

fun cfg_calls :: "cfg_call list \<Rightarrow> configuration \<Rightarrow> configuration option" where
  "cfg_calls [] t = Some t"
| "cfg_calls (c # cs) t = (case run_call c t of None \<Rightarrow> None | Some t' \<Rightarrow> cfg_calls cs t')"

section \<open>The search by identifier\<close>

abbreviation hit :: "int \<Rightarrow> arg_container \<Rightarrow> bool" where
  "hit ID \<equiv> (\<lambda>a. ac_x a = ID)"

lemma position_scan:
  "position ID N t = (if scan (hit ID) t < length t then Some (N - word_of_nat (scan (hit ID) t)) else None)"
proof (induction t arbitrary: N)
  case (Cons a t)
  then show ?case by (simp add: diff_diff_eq)
qed simp

lemma tget_index_scan:
  assumes "length t < 2 ^ 64"
  shows "tget_index ID t = (if \<exists>a\<in>set t. ac_x a = ID then Some (scan (hit ID) t) else None)"
proof (cases "scan (hit ID) t < length t")
  case True
  have "(word_of_nat (length t) :: 64 word) - (word_of_nat (length t) - 1 - word_of_nat (scan (hit ID) t)) - 1 =
      word_of_nat (scan (hit ID) t)" by simp
  moreover have "unat (word_of_nat (scan (hit ID) t) :: 64 word) = scan (hit ID) t"
    using True assms by (simp add: unat_of_nat)
  ultimately have "tget_index ID t = Some (scan (hit ID) t)"
    using True by (simp add: tget_index_def position_scan Let_def)
  then show ?thesis using True by (simp add: scan_lt_iff)
next
  case False
  then show ?thesis by (simp add: tget_index_def position_scan Let_def scan_lt_iff)
qed

text \<open>\<open>tget\<close> finds, for any tuple that fits the address space, the first element with the
  identifier, although it counts positions from the end: the index it computes with wrapping
  \<open>size_t\<close> arithmetic is the position where a forward scan stops, and it compiles exactly if
  there is such an element.\<close>

theorem tget_first:
  assumes "length t < 2 ^ 64"
  shows "tget_index ID t = (if \<exists>a\<in>set t. ac_x a = ID then Some (scan (\<lambda>a. ac_x a = ID) t) else None)"
  by (rule tget_index_scan[OF assms])

theorem tget_first_witness:
  "tget_index 5 Configuration = Some (scan (\<lambda>a. ac_x a = 5) Configuration) \<and> tget_index 8 Configuration = None"
  using tget_first[of Configuration 5] tget_first[of Configuration 8]
  by (simp add: Configuration_def ConfigurationContainer_def)

section \<open>Typed access\<close>

text \<open>The type each identifier is declared with.\<close>

fun declared_type :: "EParameter \<Rightarrow> arg_type option" where
  "declared_type IMAGES = Some TStrings"
| "declared_type MODEL = Some TString"
| "declared_type PLUGIN = Some TString"
| "declared_type PLUGIN_PATHS = Some TStrings"
| "declared_type LABELS_FILE = Some TString"
| "declared_type ITER_NUM = Some TSize"
| "declared_type TOP_NUM = Some TSize"
| "declared_type PERF_COUNT = Some TBool"
| "declared_type DEVICE = None"

text \<open>The identifiers and types of the elements never change; the values have these types.\<close>

definition shape :: "configuration \<Rightarrow> (int \<times> arg_type) list" where
  "shape t = map (\<lambda>a. (ac_x a, ac_type a)) t"

definition well_typed :: "configuration \<Rightarrow> bool" where
  "well_typed t \<longleftrightarrow> shape t = shape Configuration \<and> (\<forall>a\<in>set t. type_of (ac_value a) = ac_type a)"

lemma shape_Configuration:
  "shape Configuration =
    [(0, TStrings), (1, TString), (2, TString), (3, TStrings), (4, TString), (5, TSize), (6, TSize), (7, TBool)]"
  by (simp add: shape_def Configuration_def ConfigurationContainer_def)

lemma scan_map: "scan f (map g xs) = scan (\<lambda>x. f (g x)) xs"
  by (induction xs) simp_all

lemma index_of_parameter:
  assumes "shape t = shape Configuration"
  shows "declared_type p = Some T \<Longrightarrow>
      tget_index (enum_value p) t = Some (nat (enum_value p)) \<and> nat (enum_value p) < length t \<and>
      ac_x (t ! nat (enum_value p)) = enum_value p \<and> ac_type (t ! nat (enum_value p)) = T"
    and "declared_type p = None \<Longrightarrow> tget_index (enum_value p) t = None"
proof -
  have xs: "map ac_x t = [0, 1, 2, 3, 4, 5, 6, 7]"
    using arg_cong[OF assms, of "map fst"] by (simp add: shape_Configuration) (simp add: shape_def comp_def)
  have ts: "map ac_type t = [TStrings, TString, TString, TStrings, TString, TSize, TSize, TBool]"
    using arg_cong[OF assms, of "map snd"] by (simp add: shape_Configuration) (simp add: shape_def comp_def)
  have len: "length t = 8" using arg_cong[OF xs, of length] by simp
  have nth: "i < 8 \<Longrightarrow> ac_x (t ! i) = [0, 1, 2, 3, 4, 5, 6, 7] ! i \<and>
      ac_type (t ! i) = [TStrings, TString, TString, TStrings, TString, TSize, TSize, TBool] ! i" for i
    using len xs ts by (metis nth_map)
  have find: "tget_index ID t = (if ID \<in> set [0, 1, 2, 3, 4, 5, 6, 7] then
      Some (scan (\<lambda>x. x = ID) [0, 1, 2, 3, 4, 5, 6, 7]) else None)" for ID
  proof -
    have "(\<exists>a\<in>set t. ac_x a = ID) \<longleftrightarrow> ID \<in> set (map ac_x t)" by auto
    moreover have "scan (hit ID) t = scan (\<lambda>x. x = ID) (map ac_x t)" by (simp add: scan_map)
    moreover have "length t < 2 ^ 64" using len by simp
    ultimately show ?thesis unfolding tget_index_scan[OF \<open>length t < 2 ^ 64\<close>] xs by simp
  qed
  show "declared_type p = Some T \<Longrightarrow>
      tget_index (enum_value p) t = Some (nat (enum_value p)) \<and> nat (enum_value p) < length t \<and>
      ac_x (t ! nat (enum_value p)) = enum_value p \<and> ac_type (t ! nat (enum_value p)) = T"
    using nth[of "nat (enum_value p)"] by (cases p) (simp_all add: find len)
  show "declared_type p = None \<Longrightarrow> tget_index (enum_value p) t = None"
    by (cases p) (simp_all add: find)
qed

lemma assign_type: "assign T v = Some w \<Longrightarrow> type_of w = T"
  by (induction T v rule: assign.induct) auto

lemma shape_update:
  "ac_x a = ac_x (t ! i) \<Longrightarrow> ac_type a = ac_type (t ! i) \<Longrightarrow> i < length t \<Longrightarrow> shape (t[i := a]) = shape t"
  by (simp add: shape_def map_update list_update_same_conv)

lemma tget_index_length: "tget_index ID t = Some i \<Longrightarrow> i < length t"
  by (auto simp: tget_index_def Let_def split: option.splits if_splits)

lemma run_call_well_typed:
  assumes "run_call c t = Some t'" "well_typed t"
  shows "well_typed t'"
proof -
  obtain i a where u: "i < length t" "t' = t[i := a]" "ac_x a = ac_x (t ! i)" "ac_type a = ac_type (t ! i)"
    "type_of (ac_value a) = ac_type a"
    using assms tget_index_length
    by (cases c) (force simp: setValue_def setParsed_def well_typed_def split: option.splits dest: assign_type)+
  have "set t' \<subseteq> insert a (set t)" using u(2) set_update_subset_insert by fast
  then show ?thesis using assms(2) u shape_update[OF u(3,4,1)] by (auto simp: well_typed_def)
qed

lemma cfg_calls_well_typed: "cfg_calls cs t = Some t' \<Longrightarrow> well_typed t \<Longrightarrow> well_typed t'"
  by (induction cs t rule: cfg_calls.induct) (auto split: option.splits dest: run_call_well_typed)

lemma initial_well_typed: "well_typed Configuration"
  by (simp add: well_typed_def Configuration_def ConfigurationContainer_def)

text \<open>C30: access is typed: after any members that change it, every identifier except the commented out
  \<open>DEVICE\<close> finds an element, the value there has the type the identifier was declared with, and
  \<open>isParsedAndPresent\<close> compiles exactly for strings and lists of strings; \<open>DEVICE\<close> never compiles.\<close>

theorem cfg_access_typed:
  assumes "cfg_calls cs Configuration = Some t"
  shows "(case declared_type p of
      Some T \<Rightarrow> (\<exists>v. get_value (enum_value p) t = Some v \<and> type_of v = T) \<and> isParsed (enum_value p) t \<noteq> None \<and>
        (isParsedAndPresent (enum_value p) t \<noteq> None \<longleftrightarrow> T = TStrings \<or> T = TString)
    | None \<Rightarrow> get_value (enum_value p) t = None \<and> isParsed (enum_value p) t = None)"
proof -
  have wt: "well_typed t" using cfg_calls_well_typed[OF assms initial_well_typed] .
  then have sh: "shape t = shape Configuration" by (simp add: well_typed_def)
  have empty: "value_empty v \<noteq> None \<longleftrightarrow> type_of v = TStrings \<or> type_of v = TString" for v by (cases v) simp_all
  show ?thesis
  proof (cases "declared_type p")
    case None
    then show ?thesis using index_of_parameter(2)[OF sh None] by (simp add: get_value_def isParsed_def tget_def)
  next
    case (Some T)
    note i = index_of_parameter(1)[OF sh Some]
    then have "type_of (ac_value (t ! nat (enum_value p))) = T" using wt by (auto simp: well_typed_def)
    then show ?thesis using i empty[of "ac_value (t ! nat (enum_value p))"] Some
      by (auto simp: get_value_def isParsed_def isParsedAndPresent_def tget_def)
  qed
qed

section \<open>The last value set\<close>

fun last_set :: "int \<Rightarrow> cfg_call list \<Rightarrow> arg_value option" where
  "last_set ID [] = None"
| "last_set ID (SetParsed i b # cs) = last_set ID cs"
| "last_set ID (SetValue i v # cs) = (case last_set ID cs of Some w \<Rightarrow> Some w | None \<Rightarrow> if i = ID then Some v else None)"

lemma tget_index_id:
  assumes "tget_index ID t = Some i" "length t < 2 ^ 64"
  shows "ac_x (t ! i) = ID"
proof -
  have "\<exists>a\<in>set t. ac_x a = ID" "i = scan (hit ID) t"
    using assms(1) unfolding tget_index_scan[OF assms(2)] by (simp_all split: if_splits)
  then show ?thesis using scan_hit[of "hit ID" t] scan_lt_iff[of "hit ID" t] by blast
qed

lemma run_call_value:
  assumes "run_call c t = Some t'" "well_typed t" "declared_type p = Some T"
  shows "get_value (enum_value p) t' =
    (case c of SetValue ID v \<Rightarrow> if ID = enum_value p then assign T v else get_value (enum_value p) t
     | SetParsed ID b \<Rightarrow> get_value (enum_value p) t)"
proof -
  have sh: "shape t = shape Configuration" "shape t' = shape Configuration"
    using assms(2) run_call_well_typed[OF assms(1,2)] by (simp_all add: well_typed_def)
  have "length t = 8" using arg_cong[OF sh(1), of length] by (simp add: shape_Configuration) (simp add: shape_def)
  then have short: "length t < 2 ^ 64" by simp
  obtain q where q: "tget_index (enum_value p) t = Some q" "q < length t" "ac_type (t ! q) = T" "ac_x (t ! q) = enum_value p"
    "tget_index (enum_value p) t' = Some q"
    using index_of_parameter(1)[OF sh(1) assms(3)] index_of_parameter(1)[OF sh(2) assms(3)] by blast
  have val: "get_value (enum_value p) t = Some (ac_value (t ! q))" "get_value (enum_value p) t' = Some (ac_value (t' ! q))"
    using q(1,5) by (simp_all add: get_value_def tget_def)
  show ?thesis
  proof (cases c)
    case (SetValue ID v)
    then obtain j w where j: "tget_index ID t = Some j" "assign (ac_type (t ! j)) v = Some w"
      "t' = t[j := (t ! j)\<lparr>ac_value := w\<rparr>]"
      using assms(1) by (auto simp: setValue_def split: option.splits)
    have "j = q \<longleftrightarrow> ID = enum_value p" using q(1,4) j(1) tget_index_id[OF j(1) short] by auto
    then show ?thesis unfolding val using SetValue j(2,3) q(2,3) by (auto simp: nth_list_update)
  next
    case (SetParsed ID b)
    then obtain j where "t' = t[j := (t ! j)\<lparr>ac_parsed := b\<rparr>]"
      using assms(1) by (auto simp: setParsed_def split: option.splits)
    then show ?thesis unfolding val using SetParsed q(2) by (cases "j = q") simp_all
  qed
qed

text \<open>\<open>value\<close> gives what the last \<open>setValue\<close> for its identifier stored, converted to the declared type,
  and the initial value when there was none; no other call, and no \<open>setParsed\<close>, disturbs it.\<close>

theorem cfg_last_write:
  assumes "cfg_calls cs Configuration = Some t" "declared_type p = Some T"
  shows "get_value (enum_value p) t =
    (case last_set (enum_value p) cs of None \<Rightarrow> Some (initial T) | Some v \<Rightarrow> assign T v)"
proof -
  have "cfg_calls cs s = Some t \<Longrightarrow> well_typed s \<Longrightarrow> get_value (enum_value p) t =
      (case last_set (enum_value p) cs of None \<Rightarrow> get_value (enum_value p) s | Some v \<Rightarrow> assign T v)" for s
  proof (induction cs arbitrary: s)
    case (Cons c cs)
    then obtain s' where s': "run_call c s = Some s'" "cfg_calls cs s' = Some t" by (auto split: option.splits)
    note wt = run_call_well_typed[OF s'(1) Cons.prems(2)]
    show ?case using Cons.IH[OF s'(2) wt] run_call_value[OF s'(1) Cons.prems(2) assms(2)]
      by (cases c) (auto split: option.splits)
  qed simp
  moreover have "get_value (enum_value p) Configuration = Some (initial T)"
    using index_of_parameter(1)[OF refl assms(2)] assms(2)
    by (cases p) (simp_all add: get_value_def tget_def Configuration_def ConfigurationContainer_def)
  ultimately show ?thesis using assms(1) initial_well_typed by metis
qed

definition demo_calls :: "cfg_call list" where
  "demo_calls = [SetValue 6 (VSize 10), SetParsed 0 True, SetValue 6 (VBool True)]"

definition demo_configuration :: configuration where
  "demo_configuration = Configuration[6 := \<lparr>ac_x = 6, ac_type = TSize, ac_value = VSize 1, ac_parsed = False\<rparr>,
     0 := \<lparr>ac_x = 0, ac_type = TStrings, ac_value = VStrings [], ac_parsed = True\<rparr>]"

lemma demo_configuration: "cfg_calls demo_calls Configuration = Some demo_configuration"
  by (simp add: demo_calls_def demo_configuration_def setValue_def setParsed_def tget_index_def
      Configuration_def ConfigurationContainer_def Let_def)

theorem cfg_access_typed_witness:
  "(\<exists>v. get_value 6 demo_configuration = Some v \<and> type_of v = TSize) \<and> isParsedAndPresent 6 demo_configuration = None"
  using cfg_access_typed[OF demo_configuration, of TOP_NUM] by simp

theorem cfg_last_write_witness:
  "get_value 6 demo_configuration = Some (VSize 1) \<and> get_value 7 demo_configuration = Some (VBool False)"
  using cfg_last_write[OF demo_configuration, of TOP_NUM TSize] cfg_last_write[OF demo_configuration, of PERF_COUNT TBool]
  by (simp add: demo_calls_def)

end
