(* ===== verification/Iterators.thy ===== *)
theory Iterators
  imports Prelude
begin

text \<open>
  \<open>t5.cpp\<close>, \<open>t6.cpp\<close> and \<open>tremove.cpp\<close>: a linked list with a forward iterator, an iterator over an
  array, and the removal of elements from a vector. The list lives on a heap of \<open>ListItem\<close>s, an
  array is a list with pointers as positions; the standard algorithms \<open>find\<close> and \<open>remove_if\<close> are
  written out on the operations of an iterator. The locale \<open>forward_range\<close> is what \<open>find\<close> needs of
  an iterator; both iterators provide it. None is undefined behaviour, or not returning.
\<close>

section \<open>\<open>std::find\<close> over an iterator\<close>

text \<open>\<open>deref\<close> is \<open>*it\<close>, \<open>incr\<close> is \<open>++it\<close>; the loop tests \<open>first != last\<close>.\<close>

partial_function (option) std_find ::
  "('i \<Rightarrow> 'h \<Rightarrow> 'v option) \<Rightarrow> ('i \<Rightarrow> 'h \<Rightarrow> 'i option) \<Rightarrow> 'i \<Rightarrow> 'i \<Rightarrow> 'v \<Rightarrow> 'h \<Rightarrow> 'i option" where
  "std_find deref incr i e v h =
     (if i = e then Some i
      else case deref i h of
             None \<Rightarrow> None
           | Some x \<Rightarrow> if x = v then Some i
                       else (case incr i h of None \<Rightarrow> None | Some j \<Rightarrow> std_find deref incr j e v h))"

text \<open>The iterator \<open>k\<close> steps further.\<close>

fun advance :: "('i \<Rightarrow> 'h \<Rightarrow> 'i option) \<Rightarrow> nat \<Rightarrow> 'i \<Rightarrow> 'h \<Rightarrow> 'i option" where
  "advance incr 0 i h = Some i"
| "advance incr (Suc k) i h = (case incr i h of None \<Rightarrow> None | Some j \<Rightarrow> advance incr k j h)"

locale forward_range =
  fixes deref :: "'i \<Rightarrow> 'h \<Rightarrow> 'v option"
    and incr :: "'i \<Rightarrow> 'h \<Rightarrow> 'i option"
    and seg :: "'i \<Rightarrow> 'i \<Rightarrow> 'h \<Rightarrow> 'v list \<Rightarrow> bool"
  assumes seg_Nil: "seg i e h [] \<Longrightarrow> i = e"
    and seg_Cons: "seg i e h (x # xs) \<Longrightarrow> i \<noteq> e \<and> deref i h = Some x \<and> (\<exists>j. incr i h = Some j \<and> seg j e h xs)"
begin

lemma find_in_range:
  "seg i e h xs \<Longrightarrow> std_find deref incr i e v h = advance incr (scan (\<lambda>x. x = v) xs) i h \<and>
    (\<exists>j. advance incr (scan (\<lambda>x. x = v) xs) i h = Some j \<and> (j = e \<longleftrightarrow> v \<notin> set xs))"
proof (induction xs arbitrary: i)
  case Nil
  then show ?case using seg_Nil by (subst std_find.simps) auto
next
  case (Cons x xs)
  obtain j where "i \<noteq> e" "deref i h = Some x" "incr i h = Some j" "seg j e h xs"
    using seg_Cons[OF Cons.prems] by blast
  then show ?case using Cons.IH[of j] by (subst std_find.simps) auto
qed

lemma find_succeeds: "seg i e h xs \<Longrightarrow> \<exists>j. std_find deref incr i e v h = Some j \<and> (j = e \<longleftrightarrow> v \<notin> set xs)"
  using find_in_range by metis

lemma found_iff:
  assumes "seg i e h xs"
  shows "map_option (\<lambda>it. it \<noteq> e) (std_find deref incr i e v h) = Some (v \<in> set xs)"
proof -
  obtain j where "std_find deref incr i e v h = Some j" "j = e \<longleftrightarrow> v \<notin> set xs"
    using find_succeeds[OF assms] by blast
  then show ?thesis by simp
qed

end

section \<open>The linked list\<close>

record 'v list_item =
  it_value :: 'v
  it_next :: "nat option"

text \<open>The heap: the items at their addresses, and an address that was never used; the list object.\<close>

record 'v item_heap =
  ih_items :: "nat \<Rightarrow> 'v list_item option"
  ih_fresh :: nat

record list_object =
  lo_front :: "nat option"
  lo_end :: "nat option"

definition list_new :: list_object where
  "list_new = \<lparr>lo_front = None, lo_end = None\<rparr>"

text \<open>\<open>new ListItem<T>(v, pnext)\<close>.\<close>

definition new_item :: "'v \<Rightarrow> nat option \<Rightarrow> 'v item_heap \<Rightarrow> nat \<times> 'v item_heap" where
  "new_item v pnext h =
     (ih_fresh h, h\<lparr>ih_items := (ih_items h)(ih_fresh h \<mapsto> \<lparr>it_value = v, it_next = pnext\<rparr>), ih_fresh := Suc (ih_fresh h)\<rparr>)"

definition insert_after :: "nat option \<Rightarrow> 'v \<Rightarrow> 'v item_heap \<Rightarrow> 'v item_heap option" where
  "insert_after ele v h =
     (case ele of None \<Rightarrow> None
      | Some a \<Rightarrow> (case ih_items h a of None \<Rightarrow> None
         | Some it \<Rightarrow>
             let (n, h1) = new_item v (it_next it) h
             in Some (h1\<lparr>ih_items := (ih_items h1)(a \<mapsto> it\<lparr>it_next := Some n\<rparr>)\<rparr>)))"

definition insert_front :: "'v \<Rightarrow> list_object \<Rightarrow> 'v item_heap \<Rightarrow> list_object \<times> 'v item_heap" where
  "insert_front v l h = (let (n, h1) = new_item v (lo_front l) h in (l\<lparr>lo_front := Some n\<rparr>, h1))"

text \<open>\<open>ListIter\<close> is a pointer.\<close>

definition list_begin :: "list_object \<Rightarrow> nat option" where "list_begin l = lo_front l"
definition list_end :: "nat option" where "list_end = None"

definition iter_deref :: "nat option \<Rightarrow> 'v item_heap \<Rightarrow> 'v option" where
  "iter_deref p h = (case p of None \<Rightarrow> None | Some a \<Rightarrow> map_option it_value (ih_items h a))"

definition iter_incr :: "nat option \<Rightarrow> 'v item_heap \<Rightarrow> nat option option" where
  "iter_incr p h = (case p of None \<Rightarrow> None | Some a \<Rightarrow> map_option it_next (ih_items h a))"

text \<open>The loop of \<open>show\<close>, with what is printed so far.\<close>

partial_function (option) show_loop :: "nat option \<Rightarrow> 'v item_heap \<Rightarrow> 'v list \<Rightarrow> 'v list option" where
  "show_loop p h out =
     (case p of None \<Rightarrow> Some out
      | Some a \<Rightarrow> (case ih_items h a of None \<Rightarrow> None
         | Some it \<Rightarrow> show_loop (it_next it) h (out @ [it_value it])))"

definition list_show :: "list_object \<Rightarrow> 'v item_heap \<Rightarrow> 'v list option" where
  "list_show l h = show_loop (lo_front l) h []"

text \<open>The program: the list, then \<open>find\<close> for the numbers from -10 to 9, and whether it succeeds.\<close>

definition empty_heap :: "'v item_heap" where
  "empty_heap = \<lparr>ih_items = (\<lambda>_. None), ih_fresh = 1\<rparr>"

definition t5_list :: "list_object \<times> int item_heap" where
  "t5_list = fold (\<lambda>v (l, h). insert_front v l h) [5, 4, 3, 2, 1, 0] (list_new, empty_heap)"

definition t5_main :: "int list option \<times> (int \<times> bool option) list" where
  "t5_main =
     (case t5_list of (l, h) \<Rightarrow>
        (list_show l h,
         map (\<lambda>i. (i, map_option (\<lambda>it. it \<noteq> list_end) (std_find iter_deref iter_incr (list_begin l) list_end i h))) [- 10..9]))"

section \<open>The array\<close>

text \<open>A pointer into an array, from its start to one behind its end.\<close>

definition ptr_deref :: "nat \<Rightarrow> 'v list \<Rightarrow> 'v option" where
  "ptr_deref i a = (if i < length a then Some (a ! i) else None)"

definition ptr_incr :: "nat \<Rightarrow> 'v list \<Rightarrow> nat option" where
  "ptr_incr i a = (if i < length a then Some (Suc i) else None)"

definition t6_array :: "int list" where
  "t6_array = [1, 2, 3, 4, 5, 6, 7, -1, -2]"

definition t6_main :: "(int \<times> bool option) list" where
  "t6_main = map (\<lambda>i. (i, map_option (\<lambda>it. it \<noteq> 9) (std_find ptr_deref ptr_incr 0 9 i t6_array))) [- 10..9]"

section \<open>\<open>std::remove_if\<close> and \<open>erase\<close>\<close>

text \<open>
  The loop moves each element that stays to \<open>res\<close>; \<open>moved x\<close> is what a move leaves of \<open>x\<close>. No element
  is moved before the first one that goes.
\<close>

function remove_loop :: "('v \<Rightarrow> bool) \<Rightarrow> ('v \<Rightarrow> 'v) \<Rightarrow> nat \<Rightarrow> nat \<Rightarrow> 'v list \<Rightarrow> nat \<times> 'v list" where
  "remove_loop pred moved i res a =
     (if i < length a
      then if pred (a ! i) then remove_loop pred moved (Suc i) res a
           else remove_loop pred moved (Suc i) (Suc res) (a[res := a ! i, i := moved (a ! i)])
      else (res, a))"
  by pat_completeness auto
termination
  by (relation "measure (\<lambda>(pred, moved, i, res, a). length a - i)") auto

declare remove_loop.simps [simp del]

definition remove_if :: "('v \<Rightarrow> bool) \<Rightarrow> ('v \<Rightarrow> 'v) \<Rightarrow> 'v list \<Rightarrow> nat \<times> 'v list" where
  "remove_if pred moved a =
     (let f = scan pred a in if f = length a then (f, a) else remove_loop pred moved (Suc f) f a)"

definition vector_erase :: "nat \<Rightarrow> nat \<Rightarrow> 'v list \<Rightarrow> 'v list" where
  "vector_erase i j a = take i a @ drop j a"

record person =
  p_name :: string
  p_id :: int

definition tremove_vall :: "person list" where
  "tremove_vall =
     [\<lparr>p_name = ''Li'', p_id = 1\<rparr>, \<lparr>p_name = ''Wang'', p_id = 2\<rparr>, \<lparr>p_name = ''Qin'', p_id = 3\<rparr>,
      \<lparr>p_name = ''Zheng'', p_id = 2\<rparr>, \<lparr>p_name = ''Qiao'', p_id = 5\<rparr>]"

definition erase_remove_if :: "('v \<Rightarrow> bool) \<Rightarrow> ('v \<Rightarrow> 'v) \<Rightarrow> 'v list \<Rightarrow> 'v list" where
  "erase_remove_if pred moved a =
     (case remove_if pred moved a of (res, a') \<Rightarrow> vector_erase res (length a') a')"

definition tremove_main :: "(person \<Rightarrow> person) \<Rightarrow> person list" where
  "tremove_main moved = erase_remove_if (\<lambda>p. p_id p = 2) moved tremove_vall"

section \<open>The heap represents a list\<close>

fun segment :: "nat option \<Rightarrow> nat option \<Rightarrow> 'v item_heap \<Rightarrow> 'v list \<Rightarrow> bool" where
  "segment p e h [] \<longleftrightarrow> p = e"
| "segment p e h (x # xs) \<longleftrightarrow>
     p \<noteq> e \<and> (\<exists>a it. p = Some a \<and> ih_items h a = Some it \<and> it_value it = x \<and> segment (it_next it) e h xs)"

interpretation li: forward_range iter_deref iter_incr segment
  by unfold_locales (auto simp: iter_deref_def iter_incr_def)

text \<open>The addresses of the items, which a list has once each.\<close>

fun chain :: "nat option \<Rightarrow> 'v item_heap \<Rightarrow> (nat \<times> 'v) list \<Rightarrow> bool" where
  "chain p h [] \<longleftrightarrow> p = None"
| "chain p h (ax # axs) \<longleftrightarrow>
     p = Some (fst ax) \<and> (\<exists>it. ih_items h (fst ax) = Some it \<and> it_value it = snd ax \<and> chain (it_next it) h axs)"

definition represents :: "list_object \<Rightarrow> 'v item_heap \<Rightarrow> (nat \<times> 'v) list \<Rightarrow> bool" where
  "represents l h axs \<longleftrightarrow> chain (lo_front l) h axs \<and> distinct (map fst axs) \<and> (\<forall>a\<in>fst ` set axs. a < ih_fresh h)"

lemma chain_segment: "chain p h axs \<Longrightarrow> segment p None h (map snd axs)"
  by (induction axs arbitrary: p) auto

lemma chain_cong: "\<forall>a\<in>fst ` set axs. ih_items h' a = ih_items h a \<Longrightarrow> chain p h axs \<Longrightarrow> chain p h' axs"
  by (induction axs arbitrary: p) auto

lemma show_chain: "chain p h axs \<Longrightarrow> show_loop p h out = Some (out @ map snd axs)"
proof (induction axs arbitrary: p out)
  case (Cons ax axs)
  then show ?case by (subst show_loop.simps) auto
qed (subst show_loop.simps, simp)

lemma insert_front_represents:
  assumes "represents l h axs" "insert_front v l h = (l', h')"
  shows "represents l' h' ((ih_fresh h, v) # axs)"
proof -
  have h': "h' = h\<lparr>ih_items := (ih_items h)(ih_fresh h \<mapsto> \<lparr>it_value = v, it_next = lo_front l\<rparr>), ih_fresh := Suc (ih_fresh h)\<rparr>"
    "lo_front l' = Some (ih_fresh h)"
    using assms(2) by (auto simp: insert_front_def new_item_def)
  have old: "\<forall>a\<in>fst ` set axs. a < ih_fresh h" using assms(1) by (simp add: represents_def)
  have "chain (lo_front l) h' axs"
    by (rule chain_cong[of _ _ h]) (use old assms(1) in \<open>auto simp: h'(1) represents_def\<close>)
  then show ?thesis using assms(1) old h' by (auto simp: represents_def less_Suc_eq)
qed

lemma insert_after_chain:
  assumes "chain p h (us @ (a, x) # ws)" "distinct (map fst (us @ (a, x) # ws))"
    and "\<forall>b\<in>fst ` set (us @ (a, x) # ws). b < ih_fresh h" "insert_after (Some a) v h = Some h'"
  shows "chain p h' (us @ (a, x) # (ih_fresh h, v) # ws)"
  using assms
proof (induction us arbitrary: p)
  case Nil
  then obtain it where it: "p = Some a" "ih_items h a = Some it" "it_value it = x" "chain (it_next it) h ws" by auto
  have h': "ih_items h' = (ih_items h)(ih_fresh h \<mapsto> \<lparr>it_value = v, it_next = it_next it\<rparr>, a \<mapsto> it\<lparr>it_next := Some (ih_fresh h)\<rparr>)"
    using Nil.prems(4) it(2) by (auto simp: insert_after_def new_item_def)
  have "\<forall>b\<in>fst ` set ws. ih_items h' b = ih_items h b"
    using Nil.prems(2,3) by (auto simp: h')
  from chain_cong[OF this it(4)] have "chain (it_next it) h' ws" .
  moreover have "a \<noteq> ih_fresh h" using Nil.prems(3) by simp
  ultimately show ?case using it(1,3) by (simp add: h')
next
  case (Cons u us)
  then obtain it where it: "p = Some (fst u)" "ih_items h (fst u) = Some it" "it_value it = snd u"
    "chain (it_next it) h (us @ (a, x) # ws)" by auto
  have "chain (it_next it) h' (us @ (a, x) # (ih_fresh h, v) # ws)"
    using Cons.IH[OF it(4)] Cons.prems(2-4) by auto
  moreover have "fst u \<noteq> a" "fst u < ih_fresh h" using Cons.prems(2,3) by auto
  moreover have "ih_items h' b = ih_items h b" if "b \<noteq> a" "b \<noteq> ih_fresh h" for b
    using Cons.prems(4) that by (auto simp: insert_after_def new_item_def split: option.splits)
  ultimately show ?case using it(1-3) by auto
qed

section \<open>The list as an abstract list\<close>

text \<open>An operation of a client, which finds the item to insert after by its position.\<close>

datatype 'v list_op = InsertFront 'v | InsertAfter nat 'v

fun do_list_op :: "'v list_op \<Rightarrow> list_object \<times> 'v item_heap \<Rightarrow> (list_object \<times> 'v item_heap) option" where
  "do_list_op (InsertFront v) (l, h) = Some (insert_front v l h)"
| "do_list_op (InsertAfter k v) (l, h) =
     (case advance iter_incr k (list_begin l) h of
        None \<Rightarrow> None
      | Some p \<Rightarrow> map_option (\<lambda>h'. (l, h')) (insert_after p v h))"

fun run_list :: "'v list_op list \<Rightarrow> list_object \<times> 'v item_heap \<Rightarrow> (list_object \<times> 'v item_heap) option" where
  "run_list [] s = Some s"
| "run_list (c # cs) s = (case do_list_op c s of None \<Rightarrow> None | Some s' \<Rightarrow> run_list cs s')"

fun abs_op :: "'v list_op \<Rightarrow> 'v list \<Rightarrow> 'v list option" where
  "abs_op (InsertFront v) xs = Some (v # xs)"
| "abs_op (InsertAfter k v) xs = (if k < length xs then Some (take (Suc k) xs @ v # drop (Suc k) xs) else None)"

fun abs_run :: "'v list_op list \<Rightarrow> 'v list \<Rightarrow> 'v list option" where
  "abs_run [] xs = Some xs"
| "abs_run (c # cs) xs = (case abs_op c xs of None \<Rightarrow> None | Some ys \<Rightarrow> abs_run cs ys)"

lemma advance_chain:
  "chain p h axs \<Longrightarrow> advance iter_incr k p h =
    (if k < length axs then Some (Some (fst (axs ! k))) else if k = length axs then Some None else None)"
proof (induction axs arbitrary: p k)
  case Nil
  then show ?case by (cases k) (auto simp: iter_incr_def)
next
  case (Cons ax axs)
  then show ?case by (cases k) (auto simp: iter_incr_def)
qed

lemma list_op_abs:
  assumes "represents l h axs"
  shows "case do_list_op c (l, h) of
      None \<Rightarrow> abs_op c (map snd axs) = None
    | Some (l', h') \<Rightarrow> \<exists>bys. represents l' h' bys \<and> abs_op c (map snd axs) = Some (map snd bys)"
proof (cases c)
  case (InsertFront v)
  then show ?thesis using insert_front_represents[OF assms, of v] by (cases "insert_front v l h") fastforce
next
  case (InsertAfter k v)
  have ch: "chain (lo_front l) h axs" using assms by (simp add: represents_def)
  show ?thesis
  proof (cases "k < length axs")
    case False
    then show ?thesis using InsertAfter advance_chain[OF ch, of k]
      by (auto simp: list_begin_def insert_after_def)
  next
    case True
    obtain a x where ax: "axs ! k = (a, x)" by fastforce
    have split: "axs = take k axs @ (a, x) # drop (Suc k) axs" using take_nth_drop[OF True] ax by simp
    obtain it where "ih_items h a = Some it"
    proof -
      have "chain p h (us @ (a, x) # ws) \<Longrightarrow> ih_items h a \<noteq> None" for p us ws
        by (induction us arbitrary: p) auto
      then show thesis using ch split that by (metis not_None_eq)
    qed
    then obtain h' where h': "insert_after (Some a) v h = Some h'" by (simp add: insert_after_def new_item_def)
    then have fresh: "ih_fresh h' = Suc (ih_fresh h)"
      by (auto simp: insert_after_def new_item_def split: option.splits)
    define bys where "bys = take k axs @ (a, x) # (ih_fresh h, v) # drop (Suc k) axs"
    have d: "distinct (map fst (take k axs @ (a, x) # drop (Suc k) axs))"
      and old: "\<forall>b\<in>fst ` set (take k axs @ (a, x) # drop (Suc k) axs). b < ih_fresh h"
      using assms split by (auto simp: represents_def)
    have "chain (lo_front l) h' bys"
      using insert_after_chain[OF _ d old h', of "lo_front l"] ch split by (simp add: bys_def)
    moreover have "ih_fresh h \<notin> fst ` set (take k axs @ (a, x) # drop (Suc k) axs)"
      using old by (meson less_irrefl)
    then have "distinct (map fst bys)" "\<forall>b\<in>fst ` set bys. b < ih_fresh h'"
      using d old fresh by (auto simp: bys_def less_Suc_eq)
    ultimately have "represents l h' bys" by (simp add: represents_def)
    moreover have "map snd bys = take (Suc k) (map snd axs) @ v # drop (Suc k) (map snd axs)"
      using True ax by (simp add: bys_def take_Suc_conv_app_nth take_map drop_map)
    ultimately show ?thesis using InsertAfter advance_chain[OF ch, of k] True ax h'
      by (auto simp: list_begin_def)
  qed
qed

lemma run_list_abs:
  "represents l h axs \<Longrightarrow>
    (case run_list cs (l, h) of
       None \<Rightarrow> abs_run cs (map snd axs) = None
     | Some (l', h') \<Rightarrow> \<exists>bys. represents l' h' bys \<and> abs_run cs (map snd axs) = Some (map snd bys))"
proof (induction cs arbitrary: l h axs)
  case (Cons c cs)
  note step = list_op_abs[OF Cons.prems, of c]
  show ?case
  proof (cases "do_list_op c (l, h)")
    case None
    then show ?thesis using step by simp
  next
    case (Some s)
    obtain l' h' where s: "s = (l', h')" by fastforce
    then obtain bys where "represents l' h' bys" "abs_op c (map snd axs) = Some (map snd bys)"
      using step Some by auto
    then show ?thesis using Cons.IH[of l' h' bys] Some s by (auto split: option.splits)
  qed
qed auto

lemma new_represents: "represents list_new empty_heap []"
  by (simp add: represents_def list_new_def empty_heap_def)

text \<open>C31: the linked list is a list: any sequence of insertions at the front and behind items found with
  the iterator succeeds on the heap exactly when it does on abstract lists; afterwards \<open>show\<close> comes to an end and
  prints the abstract list, and \<open>find\<close> from \<open>begin\<close> returns, with \<open>end\<close> exactly for values that are not in it.\<close>

theorem list_refines:
  "case run_list cs (list_new, empty_heap) of
     None \<Rightarrow> abs_run cs [] = None
   | Some (l, h) \<Rightarrow> \<exists>xs. abs_run cs [] = Some xs \<and> list_show l h = Some xs \<and>
       (\<exists>it. std_find iter_deref iter_incr (list_begin l) list_end v h = Some it \<and> (it = list_end \<longleftrightarrow> v \<notin> set xs))"
proof (cases "run_list cs (list_new, empty_heap)")
  case None
  then show ?thesis using run_list_abs[OF new_represents, of cs] by simp
next
  case (Some s)
  obtain l h where s: "s = (l, h)" by fastforce
  then obtain bys where b: "represents l h bys" "abs_run cs [] = Some (map snd bys)"
    using run_list_abs[OF new_represents, of cs] Some by auto
  then have ch: "chain (lo_front l) h bys" by (simp add: represents_def)
  have "list_show l h = Some (map snd bys)" using show_chain[OF ch, of "[]"] by (simp add: list_show_def)
  moreover have "\<exists>it. std_find iter_deref iter_incr (list_begin l) list_end v h = Some it \<and>
      (it = list_end \<longleftrightarrow> v \<notin> set (map snd bys))"
    using li.find_succeeds[OF chain_segment[OF ch], of v] by (simp add: list_begin_def list_end_def)
  ultimately show ?thesis using Some s b(2) by auto
qed

section \<open>The two programs\<close>

definition array_segment :: "nat \<Rightarrow> nat \<Rightarrow> 'v list \<Rightarrow> 'v list \<Rightarrow> bool" where
  "array_segment i e a xs \<longleftrightarrow> i \<le> e \<and> e \<le> length a \<and> xs = take (e - i) (drop i a)"

interpretation array: forward_range ptr_deref ptr_incr array_segment
proof (unfold_locales, goal_cases)
  case (1 i e h)
  then show ?case by (auto simp: array_segment_def)
next
  case (2 i e h x xs)
  then have "i \<noteq> e" "i \<le> e" and e: "e \<le> length h" by (auto simp: array_segment_def)
  then have i: "i < e" "e \<le> length h" by simp_all
  then have "drop i h = h ! i # drop (Suc i) h" by (simp add: Cons_nth_drop_Suc)
  moreover have "e - i = Suc (e - Suc i)" using i(1) by simp
  ultimately have "x = h ! i" "xs = take (e - Suc i) (drop (Suc i) h)"
    using 2 by (simp_all add: array_segment_def)
  then show ?case using i by (simp add: ptr_deref_def ptr_incr_def array_segment_def)
qed

lemma run_insert_front:
  "run_list (map InsertFront vs) (l, h) = Some (fold (\<lambda>v (l, h). insert_front v l h) vs (l, h))"
proof (induction vs arbitrary: l h)
  case (Cons v vs)
  then show ?case by (cases "insert_front v l h") simp
qed simp

text \<open>Both programs print the truth: \<open>t5\<close> shows the list from 0 to 5 and \<open>find\<close> reports exactly its
  elements, and \<open>t6\<close> reports exactly the elements of its array, for every number from -10 to 9.\<close>

theorem find_programs:
  "t5_main = (Some [0, 1, 2, 3, 4, 5], map (\<lambda>i. (i, Some (i \<in> {0..5}))) [- 10..9]) \<and>
    t6_main = map (\<lambda>i. (i, Some (i \<in> set t6_array))) [- 10..9]"
proof
  obtain l h where lh: "t5_list = (l, h)" by fastforce
  define cs :: "int list_op list" where "cs = map InsertFront [5, 4, 3, 2, 1, 0]"
  have r: "run_list cs (list_new, empty_heap) = Some t5_list"
    using run_insert_front[of "[5, 4, 3, 2, 1, 0]" list_new empty_heap] by (simp only: cs_def t5_list_def)
  obtain bys where b: "represents l h bys" "map snd bys = [0, 1, 2, 3, 4, 5]"
    using run_list_abs[OF new_represents, of cs] unfolding r lh by (auto simp: cs_def)
  then have ch: "chain (lo_front l) h bys" by (simp add: represents_def)
  have "set (map snd bys) = {0..5}" unfolding b(2) by auto
  then have "map_option (\<lambda>it. it \<noteq> list_end) (std_find iter_deref iter_incr (list_begin l) list_end i h) = Some (i \<in> {0..5})" for i
    using li.found_iff[OF chain_segment[OF ch], of i] by (simp add: list_begin_def list_end_def)
  then show "t5_main = (Some [0, 1, 2, 3, 4, 5], map (\<lambda>i. (i, Some (i \<in> {0..5}))) [- 10..9])"
    using show_chain[OF ch, of "[]"] b(2) by (simp only: t5_main_def lh list_show_def prod.case append_Nil)
next
  have "array_segment 0 9 t6_array t6_array" by (simp add: array_segment_def t6_array_def)
  then have "map_option (\<lambda>it. it \<noteq> 9) (std_find ptr_deref ptr_incr 0 9 i t6_array) = Some (i \<in> set t6_array)" for i
    by (rule array.found_iff)
  then show "t6_main = map (\<lambda>i. (i, Some (i \<in> set t6_array))) [- 10..9]" by (simp only: t6_main_def)
qed

section \<open>Removal\<close>

lemma remove_loop_filter:
  "res < i \<Longrightarrow> i \<le> length a \<Longrightarrow>
    (case remove_loop pred moved i res a of (r, a') \<Rightarrow>
       r \<le> length a' \<and> take r a' = take res a @ filter (\<lambda>x. \<not> pred x) (drop i a))"
proof (induction "length a - i" arbitrary: i res a rule: less_induct)
  case less
  show ?case
  proof (cases "i < length a")
    case False
    then show ?thesis using less.prems by (subst remove_loop.simps) simp
  next
    case True
    have d: "drop i a = a ! i # drop (Suc i) a" using True by (simp add: Cons_nth_drop_Suc)
    show ?thesis
    proof (cases "pred (a ! i)")
      case True
      then show ?thesis using less.hyps[of a "Suc i" res] less.prems \<open>i < length a\<close>
        by (subst remove_loop.simps) (simp add: d)
    next
      case False
      define b where "b = a[res := a ! i, i := moved (a ! i)]"
      have b: "length b = length a" "drop (Suc i) b = drop (Suc i) a" using less.prems(1) by (simp_all add: b_def)
      have "take (Suc res) b = take (Suc res) (a[res := a ! i])" using less.prems(1) by (simp add: b_def)
      also have "\<dots> = take res a @ [a ! i]" using less.prems True by (simp add: take_Suc_conv_app_nth)
      finally have "take (Suc res) b = take res a @ [a ! i]" .
      then show ?thesis using less.hyps[of b "Suc i" "Suc res"] less.prems True False b
        by (subst remove_loop.simps) (simp add: d b_def[symmetric])
    qed
  qed
qed

lemma erase_remove_if_filter: "erase_remove_if pred moved a = filter (\<lambda>x. \<not> pred x) a"
proof (cases "scan pred a = length a")
  case True
  then have "filter (\<lambda>x. \<not> pred x) a = a" by (simp add: scan_eq_length_iff filter_id_conv)
  then show ?thesis using True by (simp add: erase_remove_if_def remove_if_def vector_erase_def)
next
  case False
  define f where "f = scan pred a"
  have f: "f < length a" using False scan_le[of pred a] unfolding f_def by linarith
  obtain r b where r: "remove_loop pred moved (Suc f) f a = (r, b)" by fastforce
  have "filter (\<lambda>x. \<not> pred x) (take f a) = take f a"
    using scan_before[of _ pred a] by (auto simp: filter_id_conv f_def)
  moreover have "pred (a ! f)" using f scan_hit[of pred a] by (simp add: f_def)
  ultimately have "filter (\<lambda>x. \<not> pred x) a = take f a @ filter (\<lambda>x. \<not> pred x) (drop (Suc f) a)"
    using arg_cong[OF take_nth_drop[OF f], of "filter (\<lambda>x. \<not> pred x)"] by simp
  moreover have "r \<le> length b" "take r b = take f a @ filter (\<lambda>x. \<not> pred x) (drop (Suc f) a)"
    using remove_loop_filter[of f "Suc f" a pred moved] f r by auto
  ultimately show ?thesis using False r
    by (simp add: erase_remove_if_def remove_if_def vector_erase_def f_def[symmetric] Let_def)
qed

text \<open>\<open>erase(remove_if(...), end)\<close> keeps exactly the elements without the property, in order, whatever
  a move leaves behind; the program prints the three persons whose number is not 2.\<close>

theorem erase_remove_filter:
  "erase_remove_if pred moved a = filter (\<lambda>x. \<not> pred x) a \<and>
    map p_name (tremove_main moved2) = [''Li'', ''Qin'', ''Qiao'']"
  by (simp add: erase_remove_if_filter tremove_main_def tremove_vall_def)

end
