(* ===== verification/Forwarding.thy ===== *)
theory Forwarding
  imports Prelude
begin

text \<open>
  \<open>tforward.cpp\<close>: reference types and forwarding. What the compiler does with the templates is
  written out: the deduction of \<open>T\<close>, the collapsing of references to references, the category of
  expressions; and what the program prints, \<open>type_name\<close> among it.
\<close>

section \<open>Types and expressions\<close>

text \<open>A type without references: its name and its qualifiers; and a type that may be a reference.\<close>

record object_type =
  ot_name :: string
  ot_const :: bool
  ot_volatile :: bool

datatype cpp_type = Plain object_type | LRef object_type | RRef object_type

text \<open>An argument: an expression of an object type that is an lvalue or not.\<close>

datatype expression = Lvalue object_type | Rvalue object_type

fun expr_type :: "expression \<Rightarrow> object_type" where
  "expr_type (Lvalue t) = t"
| "expr_type (Rvalue t) = t"

text \<open>\<open>std::remove_reference\<close>, and the types \<open>T&\<close> and \<open>T&&\<close>, where references collapse.\<close>

fun remove_reference :: "cpp_type \<Rightarrow> object_type" where
  "remove_reference (Plain t) = t"
| "remove_reference (LRef t) = t"
| "remove_reference (RRef t) = t"

fun lvalue_ref_to :: "cpp_type \<Rightarrow> cpp_type" where
  "lvalue_ref_to (Plain t) = LRef t"
| "lvalue_ref_to (LRef t) = LRef t"
| "lvalue_ref_to (RRef t) = LRef t"

fun rvalue_ref_to :: "cpp_type \<Rightarrow> cpp_type" where
  "rvalue_ref_to (Plain t) = RRef t"
| "rvalue_ref_to (LRef t) = LRef t"
| "rvalue_ref_to (RRef t) = RRef t"

definition is_lvalue_reference :: "cpp_type \<Rightarrow> bool" where
  "is_lvalue_reference T \<longleftrightarrow> (case T of LRef _ \<Rightarrow> True | _ \<Rightarrow> False)"

definition is_rvalue_reference :: "cpp_type \<Rightarrow> bool" where
  "is_rvalue_reference T \<longleftrightarrow> (case T of RRef _ \<Rightarrow> True | _ \<Rightarrow> False)"

text \<open>
  \<open>type_name<T>()\<close>; \<open>demangle\<close> is what \<open>abi::__cxa_demangle\<close> gives, None for a null pointer, and the name of
  an object type is that of its \<open>typeid\<close>, which ignores qualifiers.
\<close>

definition type_name :: "(string \<Rightarrow> string option) \<Rightarrow> cpp_type \<Rightarrow> string" where
  "type_name demangle T =
     (let TR = remove_reference T;
          r = (case demangle (ot_name TR) of Some own \<Rightarrow> own | None \<Rightarrow> ot_name TR);
          r = (if ot_const TR then r @ '' const'' else r);
          r = (if ot_volatile TR then r @ '' volatile'' else r);
          r = (if is_lvalue_reference T then r @ '' &'' else r)
      in (if is_rvalue_reference T then r @ '' &&'' else r))"

section \<open>Deduction\<close>

text \<open>
  For a parameter \<open>T& t\<close> the argument must be an lvalue, or an rvalue of a const type; for \<open>T&& t\<close> an lvalue
  of type \<open>V\<close> gives \<open>V&\<close>, an rvalue gives \<open>V\<close>. None does not compile. Both times \<open>decltype(t)\<close> is the
  parameter's type.
\<close>

fun deduce_lref :: "expression \<Rightarrow> cpp_type option" where
  "deduce_lref (Lvalue V) = Some (Plain V)"
| "deduce_lref (Rvalue V) = (if ot_const V then Some (Plain V) else None)"

fun deduce_fwd :: "expression \<Rightarrow> cpp_type" where
  "deduce_fwd (Lvalue V) = LRef V"
| "deduce_fwd (Rvalue V) = Plain V"

definition foo1 :: "expression \<Rightarrow> string option" where
  "foo1 e = (case deduce_lref e of
       None \<Rightarrow> None
     | Some T \<Rightarrow> let t = lvalue_ref_to T in
         Some (if is_lvalue_reference t \<or> is_rvalue_reference t
               then (if is_lvalue_reference t then ''lvalue_reference'' else '''') @
                    (if is_rvalue_reference t then ''rvalue_reference'' else '''')
               else ''not reference''))"

text \<open>The two lines that \<open>foo2\<close> prints after its name.\<close>

definition foo2 :: "(string \<Rightarrow> string option) \<Rightarrow> expression \<Rightarrow> string \<times> string" where
  "foo2 demangle e =
     (let T = deduce_fwd e in (type_name demangle T, type_name demangle (rvalue_ref_to T)))"

text \<open>
  Expressions inside \<open>foo2\<close>: the name \<open>t\<close> is an lvalue whatever its type; \<open>static_cast<R>(x)\<close> to a reference
  type is an lvalue for \<open>V&\<close> and an rvalue for \<open>V&&\<close>; \<open>std::forward<T>(t)\<close> is \<open>static_cast<T&&>(t)\<close>.
\<close>

definition name_expr :: "cpp_type \<Rightarrow> expression" where
  "name_expr T = Lvalue (remove_reference T)"

fun static_cast_ref :: "cpp_type \<Rightarrow> expression option" where
  "static_cast_ref (LRef t) = Some (Lvalue t)"
| "static_cast_ref (RRef t) = Some (Rvalue t)"
| "static_cast_ref (Plain t) = None"

definition forward_expr :: "cpp_type \<Rightarrow> expression option" where
  "forward_expr T = static_cast_ref (rvalue_ref_to T)"

section \<open>The calls of \<open>main\<close>\<close>

text \<open>
  Objects live at addresses; a reference is the address. \<open>E\<close> prints its arguments and increments the
  first, \<open>f\<close> passes references on and needs lvalues, \<open>f2\<close> takes const references, to temporaries if
  need be, and casts the const away. None does not compile.
\<close>

type_synonym int_store = "nat \<Rightarrow> int"

datatype argument = Var nat | Literal int

definition E :: "nat \<Rightarrow> nat \<Rightarrow> nat \<Rightarrow> int_store \<Rightarrow> (int \<times> int \<times> int) \<times> int_store" where
  "E a b c m = ((m a, m b, m c), m(a := m a + 1))"

definition f_call :: "argument \<Rightarrow> argument \<Rightarrow> argument \<Rightarrow> int_store \<Rightarrow> ((int \<times> int \<times> int) \<times> int_store) option" where
  "f_call a b c m = (case (a, b, c) of (Var a, Var b, Var c) \<Rightarrow> Some (E a b c m) | _ \<Rightarrow> None)"

text \<open>Binding a const reference: a literal gets the temporary object at the address \<open>tmp\<close>.\<close>

fun bind_const :: "nat \<Rightarrow> argument \<Rightarrow> int_store \<Rightarrow> nat \<times> int_store" where
  "bind_const tmp (Var a) m = (a, m)"
| "bind_const tmp (Literal z) m = (tmp, m(tmp := z))"

definition f2_call :: "nat \<Rightarrow> argument \<Rightarrow> argument \<Rightarrow> argument \<Rightarrow> int_store \<Rightarrow> (int \<times> int \<times> int) \<times> int_store" where
  "f2_call tmp a b c m =
     (let (a, m) = bind_const tmp a m; (b, m) = bind_const (tmp + 1) b m; (c, m) = bind_const (tmp + 2) c m
      in E a b c m)"

text \<open>\<open>its_ok_to_modify...(i)\<close> prints the temporary before and after \<open>modify_int\<close>.\<close>

definition modify_temporary :: "int \<Rightarrow> int \<times> int" where
  "modify_temporary i = (i, i + 1)"

text \<open>The calls of \<open>main\<close> with \<open>a\<close>, \<open>b\<close>, \<open>c\<close> at the addresses 0, 1, 2, up to \<open>foo1\<close>; the lines printed.\<close>

definition forward_main :: "((int \<times> int) \<times> (int \<times> int \<times> int) list) option" where
  "forward_main =
     (let m = (\<lambda>_. 0)(0 := 1, 1 := 2, 2 := 3) in
      case f_call (Var 0) (Var 1) (Var 2) m of
        None \<Rightarrow> None
      | Some (l1, m) \<Rightarrow>
          let (l2, m) = f2_call 3 (Literal 1) (Literal 2) (Literal 3) m;
              (l3, m) = f2_call 3 (Var 0) (Var 1) (Var 2) m
          in Some (modify_temporary 1, [l1, l2, l3]))"

section \<open>Forwarding is perfect\<close>

text \<open>
  The rest of \<open>main\<close>: the lines of \<open>foo1(a)\<close> and \<open>foo1(ca)\<close>, those of \<open>foo2(1)\<close>, \<open>foo2(a)\<close> and \<open>foo2(ca)\<close>, and what it says
  of \<open>ca\<close>. \<open>i\<close> is the name that \<open>typeid(int)\<close> has.
\<close>

definition int_type :: "bool \<Rightarrow> object_type" where
  "int_type c = \<lparr>ot_name = ''i'', ot_const = c, ot_volatile = False\<rparr>"

definition forwarded_func :: "int \<Rightarrow> int option" where
  "forwarded_func x = (if x + 1 < 2 ^ 31 then Some (x + 1) else None)"

definition forward_report :: "(string \<Rightarrow> string option) \<Rightarrow> string option list \<times> (string \<times> string) list \<times> string" where
  "forward_report demangle =
     (let a = Lvalue (int_type False); ca = Lvalue (int_type True) in
      ([foo1 a, foo1 ca], [foo2 demangle (Rvalue (int_type False)), foo2 demangle a, foo2 demangle ca],
       if ot_const (int_type True) then ''const'' else ''non-const''))"

lemma forward_report_prints:
  "demangle ''i'' = Some ''int'' \<Longrightarrow> forward_report demangle =
     ([Some ''lvalue_reference'', Some ''lvalue_reference''],
      [(''int'', ''int &&''), (''int &'', ''int &''), (''int const &'', ''int const &'')], ''const'')"
  by (simp add: forward_report_def int_type_def foo1_def foo2_def type_name_def is_lvalue_reference_def
      is_rvalue_reference_def)

text \<open>For every argument, lvalue or not, const or not: \<open>foo2\<close> compiles, the reference it gets refers to
  the argument's type, and is an lvalue reference exactly for lvalues; \<open>std::forward<T>(t)\<close> is an
  expression of the same type and category as the argument, whereas the name \<open>t\<close> is always an lvalue.
  So another \<open>foo2\<close> that gets \<open>std::forward<T>(t)\<close> deduces the same \<open>T\<close>. \<open>foo1\<close> rejects exactly the rvalues
  that are not const, and never sees an rvalue reference.\<close>

theorem forward_preserves:
  "forward_expr (deduce_fwd e) = Some e \<and>
    remove_reference (rvalue_ref_to (deduce_fwd e)) = expr_type e \<and>
    (is_lvalue_reference (rvalue_ref_to (deduce_fwd e)) \<longleftrightarrow> e = Lvalue (expr_type e)) \<and>
    (is_rvalue_reference (rvalue_ref_to (deduce_fwd e)) \<longleftrightarrow> e = Rvalue (expr_type e)) \<and>
    name_expr (rvalue_ref_to (deduce_fwd e)) = Lvalue (expr_type e) \<and>
    map_option deduce_fwd (forward_expr (deduce_fwd e)) = Some (deduce_fwd e) \<and>
    foo1 e = (if e = Lvalue (expr_type e) \<or> ot_const (expr_type e) then Some ''lvalue_reference'' else None)"
  by (cases e) (simp_all add: forward_expr_def is_lvalue_reference_def is_rvalue_reference_def name_expr_def foo1_def)

text \<open>What \<open>main\<close> prints up to \<open>foo1\<close>: the third call sees the \<open>a\<close> that \<open>E\<close> incremented in the first.\<close>

lemma forward_main_prints: "forward_main = Some ((1, 2), [(1, 2, 3), (1, 2, 3), (2, 2, 3)])"
  by (simp add: forward_main_def f_call_def f2_call_def E_def modify_temporary_def)

end
