(* ===== verification/SharedObjects.thy ===== *)
theory SharedObjects
  imports Workers
begin

text \<open>
  Test 3 of \<open>tthreads.cpp\<close>: pairs of \<open>shared_ptr\<close> pass through the queue from the main thread to three
  workers. The state adds to that of theory \<open>Workers\<close> the reference count of every object and the two
  counters of \<open>MyObj\<close>. Each release of a reference is a step of its own, so the last owner of an object
  may be any thread; taking an element copies the pair and erases it under the mutex of the queue, which
  leaves the counts as they are.
\<close>

section \<open>State and steps\<close>

type_synonym data_ele = "nat \<times> nat"   \<comment> \<open>the objects of a pair of \<open>shared_ptr\<close>\<close>

text \<open>
  \<open>t3_made\<close>: the locals \<open>p1\<close>, \<open>p2\<close> and \<open>d\<close> of the round exist, with the objects of the next item;
  \<open>t3_main_rel\<close> and \<open>t3_rel i\<close> are the references whose destructors the main thread and worker \<open>i\<close> have
  still to run.
\<close>

record 'q test3 =
  t3_work :: "('q, data_ele) work"
  t3_made :: bool
  t3_main_rel :: "nat list"
  t3_rel :: "nat \<Rightarrow> nat list"
  t3_count :: "nat \<Rightarrow> nat"
  t3_ctor :: nat
  t3_dtor :: nat

text \<open>The destructor of a \<open>shared_ptr\<close>: the object goes with its last reference.\<close>

definition release_ref :: "nat \<Rightarrow> 'q test3 \<Rightarrow> 'q test3" where
  "release_ref p s =
     s\<lparr>t3_count := (t3_count s)(p := t3_count s p - 1),
       t3_dtor := t3_dtor s + (if t3_count s p = 1 then 1 else 0)\<rparr>"

definition add_ref :: "nat \<Rightarrow> 'q test3 \<Rightarrow> 'q test3" where
  "add_ref p s = s\<lparr>t3_count := (t3_count s)(p := Suc (t3_count s p))\<rparr>"

text \<open>\<open>shared_ptr<MyObj> p(new MyObj)\<close>.\<close>

definition new_obj :: "nat \<Rightarrow> 'q test3 \<Rightarrow> 'q test3" where
  "new_obj p s = s\<lparr>t3_count := (t3_count s)(p := 1), t3_ctor := Suc (t3_ctor s)\<rparr>"

inductive test3_step ::
  "((data_ele \<Rightarrow> bool) \<Rightarrow> 'q \<Rightarrow> data_ele \<Rightarrow> 'q \<Rightarrow> bool) \<Rightarrow> ((data_ele \<Rightarrow> bool) \<Rightarrow> 'q \<Rightarrow> 'q \<Rightarrow> bool) \<Rightarrow>
   (data_ele \<Rightarrow> 'q \<Rightarrow> 'q \<Rightarrow> bool) \<Rightarrow> ('q \<Rightarrow> 'q) \<Rightarrow> 'q test3 \<Rightarrow> 'q test3 \<Rightarrow> bool"
  for takes ends puts closes where
  t3_new: "wk_todo (t3_work s) = (a, b) # xs \<Longrightarrow> \<not> t3_made s \<Longrightarrow> t3_main_rel s = [] \<Longrightarrow>
     test3_step takes ends puts closes s
       ((add_ref b (add_ref a (new_obj b (new_obj a s))))\<lparr>t3_made := True\<rparr>)"
| t3_put: "wk_todo (t3_work s) = (a, b) # xs \<Longrightarrow> t3_made s \<Longrightarrow> puts (a, b) (wk_q (t3_work s)) q \<Longrightarrow>
     test3_step takes ends puts closes s
       ((add_ref b (add_ref a s))\<lparr>t3_work := (t3_work s)\<lparr>wk_q := q, wk_todo := xs\<rparr>,
          t3_made := False, t3_main_rel := [b, a, b, a]\<rparr>)"
| t3_main_release: "t3_main_rel s = p # ps \<Longrightarrow>
     test3_step takes ends puts closes s (release_ref p (s\<lparr>t3_main_rel := ps\<rparr>))"
| t3_close: "wk_todo (t3_work s) = [] \<Longrightarrow> t3_main_rel s = [] \<Longrightarrow> \<not> wk_closed (t3_work s) \<Longrightarrow>
     test3_step takes ends puts closes s
       (s\<lparr>t3_work := (t3_work s)\<lparr>wk_q := closes (wk_q (t3_work s)), wk_closed := True\<rparr>\<rparr>)"
| t3_get: "i < 3 \<Longrightarrow> \<not> wk_done (t3_work s) i \<Longrightarrow> t3_rel s i = [] \<Longrightarrow>
     takes (\<lambda>_. True) (wk_q (t3_work s)) (a, b) q \<Longrightarrow>
     test3_step takes ends puts closes s
       (s\<lparr>t3_work := (t3_work s)\<lparr>wk_q := q, wk_cnt := (wk_cnt (t3_work s))(i := Suc (wk_cnt (t3_work s) i))\<rparr>,
          t3_rel := (t3_rel s)(i := [b, a])\<rparr>)"
| t3_release: "i < 3 \<Longrightarrow> t3_rel s i = p # ps \<Longrightarrow>
     test3_step takes ends puts closes s (release_ref p (s\<lparr>t3_rel := (t3_rel s)(i := ps)\<rparr>))"
| t3_break: "i < 3 \<Longrightarrow> \<not> wk_done (t3_work s) i \<Longrightarrow> t3_rel s i = [] \<Longrightarrow>
     ends (\<lambda>_. True) (wk_q (t3_work s)) q \<Longrightarrow>
     test3_step takes ends puts closes s
       (s\<lparr>t3_work := (t3_work s)\<lparr>wk_q := q, wk_done := (wk_done (t3_work s))(i := True)\<rparr>\<rparr>)"

definition test3_items :: "nat \<Rightarrow> data_ele list" where
  "test3_items n = map (\<lambda>i. (2 * i, 2 * i + 1)) [0..<n]"

definition test3_start :: "'q \<Rightarrow> nat \<Rightarrow> 'q test3" where
  "test3_start q n = \<lparr>t3_work = work0 q (test3_items n), t3_made = False, t3_main_rel = [], t3_rel = (\<lambda>_. []),
     t3_count = (\<lambda>_. 0), t3_ctor = 0, t3_dtor = 0\<rparr>"

section \<open>The references that exist\<close>

fun refs_of :: "data_ele \<Rightarrow> nat multiset" where
  "refs_of (a, b) = {#a, b#}"

fun made_refs :: "bool \<Rightarrow> data_ele list \<Rightarrow> nat multiset" where
  "made_refs True (x # xs) = refs_of x + refs_of x"
| "made_refs m xs = {#}"

definition unborn :: "'q test3 \<Rightarrow> nat multiset" where
  "unborn s = sum_list (map refs_of (if t3_made s then tl (wk_todo (t3_work s)) else wk_todo (t3_work s)))"

definition refs :: "('q \<Rightarrow> data_ele list) \<Rightarrow> 'q test3 \<Rightarrow> nat multiset" where
  "refs contents s =
     made_refs (t3_made s) (wk_todo (t3_work s)) + mset (t3_main_rel s) +
     (\<Sum>i<3. mset (t3_rel s i)) + sum_list (map refs_of (contents (wk_q (t3_work s))))"

text \<open>
  The counts are the numbers of references; objects to come have no references and are distinct; an object
  that was constructed is alive as long as there are references, and destroyed otherwise.
\<close>

definition t3_inv :: "('q \<Rightarrow> data_ele list) \<Rightarrow> nat \<Rightarrow> 'q test3 \<Rightarrow> bool" where
  "t3_inv contents n s \<longleftrightarrow>
     (\<forall>p. t3_count s p = count (refs contents s) p) \<and>
     (\<forall>p. count (unborn s) p \<le> 1) \<and> set_mset (unborn s) \<inter> set_mset (refs contents s) = {} \<and>
     t3_ctor s + size (unborn s) = 2 * n \<and>
     t3_dtor s + card (set_mset (refs contents s)) = t3_ctor s \<and>
     (t3_made s \<longrightarrow> wk_todo (t3_work s) \<noteq> [] \<and> t3_main_rel s = []) \<and>
     (wk_closed (t3_work s) \<longrightarrow> t3_main_rel s = []) \<and>
     (\<forall>i. wk_done (t3_work s) i \<longrightarrow> t3_rel s i = [])"

lemma release_simps [simp]:
  "t3_work (release_ref p s) = t3_work s" "t3_made (release_ref p s) = t3_made s"
  "t3_main_rel (release_ref p s) = t3_main_rel s" "t3_rel (release_ref p s) = t3_rel s"
  "t3_ctor (release_ref p s) = t3_ctor s"
  by (simp_all add: release_ref_def)

lemma add_ref_simps [simp]:
  "t3_work (add_ref p s) = t3_work s" "t3_made (add_ref p s) = t3_made s"
  "t3_main_rel (add_ref p s) = t3_main_rel s" "t3_rel (add_ref p s) = t3_rel s"
  "t3_ctor (add_ref p s) = t3_ctor s" "t3_dtor (add_ref p s) = t3_dtor s"
  "t3_count (add_ref p s) = (t3_count s)(p := Suc (t3_count s p))"
  by (simp_all add: add_ref_def)

lemma new_obj_simps [simp]:
  "t3_work (new_obj p s) = t3_work s" "t3_made (new_obj p s) = t3_made s"
  "t3_main_rel (new_obj p s) = t3_main_rel s" "t3_rel (new_obj p s) = t3_rel s"
  "t3_ctor (new_obj p s) = Suc (t3_ctor s)" "t3_dtor (new_obj p s) = t3_dtor s"
  "t3_count (new_obj p s) = (t3_count s)(p := 1)"
  by (simp_all add: new_obj_def)

lemma refs_of_mset: "sum_list (map refs_of xs) = sum_mset (image_mset refs_of (mset xs))"
  by (simp add: sum_mset_sum_list flip: mset_map)

lemma rel_update:
  fixes i :: nat
  assumes "i < 3"
  shows "(\<Sum>j<3. mset ((f(i := x)) j)) + mset (f i) = (\<Sum>j<3. mset (f j)) + mset x"
proof -
  have "i = 0 \<or> i = 1 \<or> i = 2" using assms by linarith
  then show ?thesis by (auto simp: eval_nat_numeral ac_simps)
qed

text \<open>Releasing one of the references.\<close>

lemma release_inv:
  assumes "t3_inv contents n s" "refs contents s = add_mset p (refs contents t)"
    and "t3_work t = t3_work s" "t3_made t = t3_made s" "t3_count t = t3_count s" "t3_ctor t = t3_ctor s"
      "t3_dtor t = t3_dtor s" "t3_made s \<longrightarrow> t3_main_rel t = []" "wk_closed (t3_work s) \<longrightarrow> t3_main_rel t = []"
      "\<forall>i. wk_done (t3_work s) i \<longrightarrow> t3_rel t i = []"
  shows "t3_inv contents n (release_ref p t)"
proof -
  have r: "refs contents (release_ref p t) = refs contents t" "unborn (release_ref p t) = unborn t" "unborn t = unborn s"
    using assms by (simp_all add: refs_def unborn_def)
  have c: "t3_count t p = Suc (count (refs contents t) p)"
    "\<And>q. q \<noteq> p \<Longrightarrow> t3_count t q = count (refs contents t) q"
    using assms(1,2,5) by (auto simp: t3_inv_def)
  have d: "card (insert p (set_mset (refs contents t))) =
      card (set_mset (refs contents t)) + (if count (refs contents t) p = 0 then 1 else 0)"
    by (auto simp: card_insert_if not_in_iff)
  show ?thesis
    using assms c d unfolding t3_inv_def r by (auto simp: release_ref_def)
qed

lemma test3_filter: "i < 3 \<Longrightarrow> i < length (test3_filters :: (data_ele \<Rightarrow> bool) list) \<and> test3_filters ! i = (\<lambda>_ :: data_ele. True)"
  by (auto simp: test3_filters_def eval_nat_numeral less_Suc_eq)

text \<open>The test is over: the joins have returned and no destructor is pending.\<close>

definition t3_finished :: "'q test3 \<Rightarrow> bool" where
  "t3_finished s \<longleftrightarrow> all_joined test3_filters (t3_work s) \<and> t3_main_rel s = [] \<and> (\<forall>i<3. t3_rel s i = [])"

text \<open>The destructors still to run, and the construction of the next pair.\<close>

definition pending :: "'q test3 \<Rightarrow> nat" where
  "pending s = length (t3_main_rel s) + (\<Sum>i<3. length (t3_rel s i)) + (if t3_made s then 0 else 1)"

lemma pending_update:
  "i < (3 :: nat) \<Longrightarrow> (\<Sum>j<3. length ((f(i := x)) j)) + length (f i) = (\<Sum>j<3. length (f j)) + length x"
proof -
  assume "i < 3"
  then have "i = 0 \<or> i = 1 \<or> i = 2" by linarith
  then show ?thesis by (auto simp: eval_nat_numeral)
qed

text \<open>A queue of pairs: the same contract, for the elements of the test.\<close>

locale pair_queue = work_queue contents shut invar cap takes ends puts closes
  for contents :: "'q \<Rightarrow> data_ele list" and shut invar cap takes ends puts closes
begin

abbreviation "t3step \<equiv> test3_step takes ends puts closes"

lemma take_refs:
  "takes f q x q' \<Longrightarrow> invar q \<Longrightarrow>
   sum_list (map refs_of (contents q)) = refs_of x + sum_list (map refs_of (contents q'))"
  using take_law by (fastforce simp: refs_of_mset)

lemma put_refs:
  "puts x q q' \<Longrightarrow> invar q \<Longrightarrow> sum_list (map refs_of (contents q')) = sum_list (map refs_of (contents q)) + refs_of x"
  using put_law by fastforce

definition tinv :: "nat \<Rightarrow> 'q test3 \<Rightarrow> bool" where
  "tinv n s \<longleftrightarrow> t3_inv contents n s \<and> winv test3_filters n (t3_work s)"

text \<open>A step is one of the program of theory \<open>Workers\<close>, with at most five destructors more, or it uses up
  one of them.\<close>

lemma t3_effect:
  "t3step s t \<Longrightarrow>
   (t3_work t = t3_work s \<and> Suc (pending t) \<le> pending s) \<or>
   (wstep test3_filters (t3_work s) (t3_work t) \<and> pending t \<le> pending s + 5)"
proof (induction rule: test3_step.induct)
  case (t3_put s a b xs q)
  then show ?case using work_step.main_put[of "t3_work s" "(a, b)" xs puts q] by (simp add: pending_def)
next
  case (t3_close s)
  then show ?case using work_step.main_close[of "t3_work s"] by (simp add: pending_def)
next
  case (t3_get i s a b q)
  then show ?case
    using test3_filter[of i] pending_update[of i "t3_rel s" "[b, a]"]
      work_step.worker_get[of i test3_filters "t3_work s" takes "(a, b)" q] by (simp add: pending_def)
next
  case (t3_release i s p ps)
  then show ?case using pending_update[of i "t3_rel s" ps] by (simp add: pending_def)
next
  case (t3_break i s q)
  then show ?case
    using test3_filter[of i] work_step.worker_break[of i test3_filters "t3_work s" ends q] by (simp add: pending_def)
qed (simp_all add: pending_def)

lemma new_inv:
  assumes "t3_inv contents n s" "wk_todo (t3_work s) = (a, b) # xs" "\<not> t3_made s" "t3_main_rel s = []"
  shows "t3_inv contents n ((add_ref b (add_ref a (new_obj b (new_obj a s))))\<lparr>t3_made := True\<rparr>)" (is "t3_inv _ _ ?t")
proof -
  have u: "unborn s = {#a, b#} + unborn ?t" using assms(2,3) by (simp add: unborn_def)
  have r: "refs contents ?t = {#a, b, a, b#} + refs contents s"
    using assms(2-4) by (simp add: refs_def ac_simps)
  have ab: "a \<noteq> b" "a \<notin># unborn ?t" "b \<notin># unborn ?t" "a \<notin># refs contents s" "b \<notin># refs contents s"
  proof -
    have c: "count (unborn s) a \<le> 1" "count (unborn s) b \<le> 1" using assms(1) by (simp_all add: t3_inv_def)
    show "a \<noteq> b" using c u by auto
    then show "a \<notin># unborn ?t" "b \<notin># unborn ?t" using c u by (auto simp: not_in_iff)
    show "a \<notin># refs contents s" "b \<notin># refs contents s" using assms(1) u by (auto simp: t3_inv_def)
  qed
  have "\<And>p. count (unborn ?t) p \<le> 1"
    using assms(1) u by (metis t3_inv_def count_union le_add2 le_trans)
  moreover have "card (set_mset (refs contents ?t)) = card (set_mset (refs contents s)) + 2"
    using ab by (simp add: r card_insert_if)
  ultimately show ?thesis
    using assms ab u unfolding t3_inv_def r by (auto simp: not_in_iff)
qed

lemma put_inv:
  assumes "t3_inv contents n s" "wk_todo (t3_work s) = (a, b) # xs" "t3_made s" "puts (a, b) (wk_q (t3_work s)) q"
    and "invar (wk_q (t3_work s))" "\<not> wk_closed (t3_work s)"
  shows "t3_inv contents n ((add_ref b (add_ref a s))\<lparr>t3_work := (t3_work s)\<lparr>wk_q := q, wk_todo := xs\<rparr>,
          t3_made := False, t3_main_rel := [b, a, b, a]\<rparr>)" (is "t3_inv _ _ ?t")
proof -
  have u: "unborn ?t = unborn s" using assms(2,3) by (simp add: unborn_def)
  have "t3_main_rel s = []" using assms(1,3) by (simp add: t3_inv_def)
  then have r: "refs contents ?t = {#a, b#} + refs contents s" "{#a, b#} \<subseteq># refs contents s"
    using assms(2,3) put_refs[OF assms(4,5)] by (simp_all add: refs_def ac_simps)
  then have "set_mset (refs contents ?t) = set_mset (refs contents s)"
    by (auto dest: mset_subset_eqD)
  then show ?thesis
    using assms(1,6) r(1) unfolding t3_inv_def u by auto
qed

lemma get_inv:
  assumes "t3_inv contents n s" "i < 3" "\<not> wk_done (t3_work s) i" "t3_rel s i = []"
    and "takes f (wk_q (t3_work s)) (a, b) q" "invar (wk_q (t3_work s))"
  shows "t3_inv contents n (s\<lparr>t3_work := (t3_work s)\<lparr>wk_q := q, wk_cnt := c\<rparr>, t3_rel := (t3_rel s)(i := [b, a])\<rparr>)"
    (is "t3_inv _ _ ?t")
proof -
  have u: "unborn ?t = unborn s" by (simp add: unborn_def)
  have "refs contents ?t = refs contents s"
    using take_refs[OF assms(5,6)] rel_update[OF assms(2), of "t3_rel s" "[b, a]"] assms(4)
    by (simp add: refs_def ac_simps)
  then show ?thesis using assms(1,3) unfolding t3_inv_def u by auto
qed

lemma main_release_inv:
  assumes "t3_inv contents n s" "t3_main_rel s = p # ps"
  shows "t3_inv contents n (release_ref p (s\<lparr>t3_main_rel := ps\<rparr>))"
proof (rule release_inv[OF assms(1)])
  show "refs contents s = add_mset p (refs contents (s\<lparr>t3_main_rel := ps\<rparr>))"
    by (simp add: refs_def assms(2))
qed (use assms in \<open>simp_all add: t3_inv_def\<close>)

lemma worker_release_inv:
  assumes "t3_inv contents n s" "i < 3" "t3_rel s i = p # ps"
  shows "t3_inv contents n (release_ref p (s\<lparr>t3_rel := (t3_rel s)(i := ps)\<rparr>))"
proof (rule release_inv[OF assms(1)])
  show "refs contents s = add_mset p (refs contents (s\<lparr>t3_rel := (t3_rel s)(i := ps)\<rparr>))"
    using rel_update[OF assms(2), of "t3_rel s" ps] assms(3) by (simp add: refs_def ac_simps)
  have "\<not> wk_done (t3_work s) i" using assms(1,3) by (metis t3_inv_def list.distinct(1))
  then show "\<forall>j. wk_done (t3_work s) j \<longrightarrow> t3_rel (s\<lparr>t3_rel := (t3_rel s)(i := ps)\<rparr>) j = []"
    using assms(1) by (simp add: t3_inv_def)
qed (use assms in \<open>simp_all add: t3_inv_def\<close>)

lemma queue_inv:
  assumes "t3_inv contents n s" "contents q = contents (wk_q (t3_work s))" "wk_todo w = wk_todo (t3_work s)" "wk_q w = q"
    and "wk_closed w \<longrightarrow> t3_main_rel s = []" "\<forall>i. wk_done w i \<longrightarrow> t3_rel s i = []"
  shows "t3_inv contents n (s\<lparr>t3_work := w\<rparr>)"
proof -
  have "refs contents (s\<lparr>t3_work := w\<rparr>) = refs contents s" "unborn (s\<lparr>t3_work := w\<rparr>) = unborn s"
    by (simp_all add: refs_def unborn_def assms(2-4))
  then show ?thesis using assms(1,3,5,6) by (simp add: t3_inv_def)
qed

lemma tinv_step: "t3step s t \<Longrightarrow> tinv n s \<Longrightarrow> tinv n t"
proof -
  assume step: "t3step s t" and i: "tinv n s"
  have w: "winv test3_filters n (t3_work t)"
    using t3_effect[OF step] i winv_step by (auto simp: tinv_def)
  have s: "t3_inv contents n s" "invar (wk_q (t3_work s))" "wk_closed (t3_work s) \<longrightarrow> wk_todo (t3_work s) = []"
    using i by (simp_all add: tinv_def winv_def)
  from step s have "t3_inv contents n t"
  proof (induction rule: test3_step.induct)
    case (t3_new s a b xs)
    then show ?case by (simp add: new_inv)
  next
    case (t3_put s a b xs q)
    then show ?case by (intro put_inv) auto
  next
    case (t3_close s)
    then show ?case
      using close_law[of "wk_q (t3_work s)"] by (intro queue_inv[OF _ _ _ refl]) (simp_all add: t3_inv_def)
  next
    case (t3_get i s a b q)
    then show ?case by (intro get_inv)
  next
    case (t3_break i s q)
    then show ?case
      using end_law[OF t3_break(4)] by (intro queue_inv[OF _ _ _ refl]) (simp_all add: t3_inv_def)
  qed (simp_all add: main_release_inv worker_release_inv)
  with w show ?thesis by (simp add: tinv_def)
qed

lemma work_step_t3:
  assumes "wstep test3_filters (t3_work s) w" "t3_main_rel s = []" "\<forall>i<3. t3_rel s i = []"
    and "wk_todo (t3_work s) \<noteq> [] \<longrightarrow> t3_made s"
  shows "\<exists>t. t3step s t"
  using assms(1)
proof (cases rule: work_step.cases)
  case (main_put x xs q)
  then show ?thesis using assms(4) test3_step.t3_put[of s "fst x" "snd x" xs puts q] by auto
next
  case main_close
  then show ?thesis using assms(2) test3_step.t3_close[of s] by blast
next
  case (worker_get i x q)
  then have "i < 3" "takes (\<lambda>_. True) (wk_q (t3_work s)) (fst x, snd x) q"
    using test3_filter[of i] by (simp_all add: test3_filters_def)
  with worker_get(3) assms(3) have "t3step s
       (s\<lparr>t3_work := (t3_work s)\<lparr>wk_q := q, wk_cnt := (wk_cnt (t3_work s))(i := Suc (wk_cnt (t3_work s) i))\<rparr>,
          t3_rel := (t3_rel s)(i := [snd x, fst x])\<rparr>)"
    by (intro test3_step.t3_get[of i s takes "fst x" "snd x" q]) auto
  then show ?thesis by blast
next
  case (worker_break i q)
  then have "i < 3" "ends (\<lambda>_. True) (wk_q (t3_work s)) q"
    using test3_filter[of i] by (simp_all add: test3_filters_def)
  with worker_break(3) assms(3) have "t3step s
       (s\<lparr>t3_work := (t3_work s)\<lparr>wk_q := q, wk_done := (wk_done (t3_work s))(i := True)\<rparr>\<rparr>)"
    by (intro test3_step.t3_break[of i s ends q]) auto
  then show ?thesis by blast
qed

lemma t3_not_stuck:
  assumes "tinv n s" "\<not> t3_finished s"
  shows "\<exists>t. t3step s t"
proof (cases "t3_main_rel s")
  case (Cons p ps)
  then show ?thesis using test3_step.t3_main_release by blast
next
  case Nil
  note main = this
  show ?thesis
  proof (cases "\<forall>i<3. t3_rel s i = []")
    case False
    then obtain i where "i < 3" "t3_rel s i \<noteq> []" by blast
    then show ?thesis using test3_step.t3_release[of i s] by (cases "t3_rel s i") blast+
  next
    case True
    show ?thesis
    proof (cases "wk_todo (t3_work s) \<noteq> [] \<and> \<not> t3_made s")
      case True
      then show ?thesis
        using main test3_step.t3_new[of s] by (cases "wk_todo (t3_work s)"; force)
    next
      case False
      have "\<not> all_joined test3_filters (t3_work s)" using assms(2) main True by (simp add: t3_finished_def)
      then have "\<exists>w. wstep test3_filters (t3_work s) w"
        using assms(1) not_stuck[of test3_filters n "t3_work s" 0] test3_filter[of 0] by (simp add: tinv_def)
      then show ?thesis using work_step_t3 main True False by blast
    qed
  qed
qed

lemma t3_measure_step:
  assumes "t3step s t" "tinv n s"
  shows "Suc (6 * budget test3_filters (t3_work t) + pending t) \<le> 6 * budget test3_filters (t3_work s) + pending s"
  using t3_effect[OF assms(1)] budget_step[of test3_filters "t3_work s" "t3_work t" n] assms(2)
  by (auto simp: tinv_def)

lemma tinv_start:
  assumes "invar q" "\<not> shut q" "contents q = []"
  shows "tinv n (test3_start q n)"
proof -
  have u: "unborn (test3_start q n) = mset [0..<2 * n]"
    by (induction n) (simp_all add: unborn_def test3_start_def work0_def test3_items_def ac_simps)
  have "count (mset [0..<2 * n]) p \<le> 1" for p
    by (simp add: count_mset_set')
  moreover have "refs contents (test3_start q n) = {#}"
    by (simp add: refs_def test3_start_def work0_def assms(3))
  ultimately have "t3_inv contents n (test3_start q n)"
    unfolding t3_inv_def u by (simp add: test3_start_def work0_def)
  moreover have "winv test3_filters n (work0 q (test3_items n))"
    using winv0[OF assms, of test3_filters "test3_items n"] by (simp add: test3_items_def)
  ultimately show ?thesis by (simp add: tinv_def test3_start_def)
qed

definition t3_left :: "'q test3 \<Rightarrow> nat" where
  "t3_left s = 6 * budget test3_filters (t3_work s) + pending s"

definition t3_begin :: "nat \<Rightarrow> 'q test3 \<Rightarrow> bool" where
  "t3_begin n s \<longleftrightarrow> (\<exists>q. s = test3_start q n \<and> invar q \<and> \<not> shut q \<and> contents q = [])"

lemma t3_left_start: "contents q = [] \<Longrightarrow> t3_left (test3_start q n) = 12 * n + 25"
  by (simp add: t3_left_def test3_start_def budget0 pending_def) (simp add: test3_items_def test3_filters_def)

text \<open>At the end every object has been destroyed.\<close>

lemma t3_finished_counts:
  assumes "tinv n s" "t3_finished s"
  shows "total_count test3_filters (t3_work s) = n \<and> contents (wk_q (t3_work s)) = [] \<and>
    t3_ctor s = 2 * n \<and> t3_dtor s = 2 * n"
proof -
  have j: "total_count test3_filters (t3_work s) = n \<and> contents (wk_q (t3_work s)) = []"
    using assms joined_total[of test3_filters n "t3_work s" 0] test3_filter[of 0]
    by (simp add: tinv_def t3_finished_def)
  have e: "wk_todo (t3_work s) = []" "t3_main_rel s = []" "\<forall>i<3. t3_rel s i = []"
    using assms(2) by (simp_all add: t3_finished_def all_joined_def)
  moreover have "\<not> t3_made s" using assms(1) e(1) by (auto simp: tinv_def t3_inv_def)
  ultimately have "refs contents s = {#}" "unborn s = {#}" using j by (simp_all add: refs_def unborn_def)
  then show ?thesis using assms(1) j by (simp add: tinv_def t3_inv_def)
qed

end

sublocale pair_queue \<subseteq> shared: bounded_system "t3_begin n" t3step "tinv n" t3_left for n
proof (unfold_locales, goal_cases)
  case (1 s)
  then show ?case by (auto simp: t3_begin_def intro: tinv_start)
next
  case (2 s t)
  then show ?case by (rule tinv_step)
next
  case (3 s t)
  then show ?case using t3_measure_step by (fastforce simp: t3_left_def)
qed

interpretation pq: pair_queue q_elems q_closed "\<lambda>q. q_size_limit q = default_limit"
  "size_of_int default_limit" bq_takes bq_ends bq_puts bq_close
  by unfold_locales

section \<open>The property\<close>

abbreviation "bq_test3_step \<equiv> test3_step bq_takes bq_ends bq_puts bq_close"

text \<open>C22: Test 3 ends in every schedule, after at most 12025 steps, and never gets stuck. A count is always the
  number of references to its object, in locals, in the queue and in pending destructors, so no object is
  destroyed while it is referenced; at the end 2000 objects were constructed and 2000 destroyed, 1000 pairs were
  counted and the queue is empty.\<close>

theorem test3_objects:
  assumes "(bq_test3_step ^^ k) (test3_start (bq_new default_limit) 1000) s"
  shows "k \<le> 12025 \<and> (t3_finished s \<or> (\<exists>t. bq_test3_step s t)) \<and>
    (\<forall>p. t3_count s p = count (refs q_elems s) p) \<and>
    (t3_finished s \<longrightarrow> t3_ctor s = 2000 \<and> t3_dtor s = 2000 \<and>
       total_count test3_filters (t3_work s) = 1000 \<and> bq_size (wk_q (t3_work s)) = 0)"
proof -
  have "pq.t3_begin 1000 (test3_start (bq_new default_limit) 1000)" using bq_new_start by (auto simp: pq.t3_begin_def)
  from pq.shared.run_bound[OF assms this] have "pq.tinv 1000 s \<and> k \<le> 12025"
    using pq.t3_left_start[OF bq_new_start(3)] by simp
  moreover from this have "\<forall>p. t3_count s p = count (refs q_elems s) p" by (simp add: pq.tinv_def t3_inv_def)
  ultimately show ?thesis
    using pq.t3_not_stuck[of 1000 s] pq.t3_finished_counts[of 1000 s] by (auto simp: bq_size_def)
qed

theorem test3_objects_witness:
  "\<exists>t. bq_test3_step (test3_start (bq_new default_limit) 1000) t"
proof -
  have "\<not> t3_finished (test3_start (bq_new default_limit) 1000 :: data_ele bqueue test3)"
    by (simp add: t3_finished_def test3_start_def work0_def all_joined_def)
  then show ?thesis using test3_objects[of 0 "test3_start (bq_new default_limit) 1000"] by simp
qed

end
