(* ===== verification/Bitmap.thy ===== *)
theory Bitmap
  imports Prelude "HOL-Library.Signed_Division"
begin

text \<open>
  The image loader of \<open>tcube.cpp\<close> (in the part that \<open>#if 0\<close> disables): the little-endian readers and
  \<open>loadBMP\<close> on a file given as its bytes. Memory that was not
  written is None; an evaluation that uses it, an array access out of bounds and a signed overflow
  are the fault \<open>Undefined\<close>, a failed \<open>assert\<close> is \<open>Assertion\<close>, and an array of negative size
  \<open>BadArrayLength\<close>, the exception of \<open>new\<close>.
\<close>

section \<open>Results\<close>

datatype fault = Assertion string | BadArrayLength | Undefined

type_synonym 'a result = "fault + 'a"

definition andThen :: "'e + 'a \<Rightarrow> ('a \<Rightarrow> 'e + 'b) \<Rightarrow> 'e + 'b" where
  "andThen r f = (case r of Inl e \<Rightarrow> Inl e | Inr x \<Rightarrow> f x)"

lemma andThen_simps [simp]: "andThen (Inl e) f = Inl e" "andThen (Inr x) f = f x"
  by (simp_all add: andThen_def)

lemma andThen_Inr_iff: "andThen r f = Inr y \<longleftrightarrow> (\<exists>x. r = Inr x \<and> f x = Inr y)"
  by (cases r) auto

text \<open>An \<open>int\<close> computation, exact or undefined.\<close>

definition in_int :: "int \<Rightarrow> bool" where
  "in_int i \<longleftrightarrow> - (2 ^ 31) \<le> i \<and> i < 2 ^ 31"

definition int_of :: "int \<Rightarrow> int result" where
  "int_of i = (if in_int i then Inr i else Inl Undefined)"

definition check_that :: "bool \<Rightarrow> string \<Rightarrow> unit result" where
  "check_that b msg = (if b then Inr () else Inl (Assertion msg))"

section \<open>Little-endian numbers\<close>

definition toInt :: "byte list \<Rightarrow> int" where
  "toInt b = sint (or (push_bit 24 (ucast (b ! 3))) (or (push_bit 16 (ucast (b ! 2)))
     (or (push_bit 8 (ucast (b ! 1))) (ucast (b ! 0)))) :: 32 word)"

definition toShort :: "byte list \<Rightarrow> int" where
  "toShort b = sint (ucast (or (push_bit 8 (ucast (b ! 1))) (ucast (b ! 0)) :: 32 word) :: 16 word)"

section \<open>The input stream\<close>

text \<open>\<open>is_good\<close> is \<open>good()\<close>: after a short read or a failed seek nothing more is extracted.\<close>

record ifile =
  is_bytes :: "byte list"
  is_pos :: nat
  is_good :: bool

definition is_rest :: "ifile \<Rightarrow> byte list" where
  "is_rest s = drop (is_pos s) (is_bytes s)"

text \<open>\<open>read(buffer, n)\<close> into a buffer that was not initialised.\<close>

definition is_read :: "nat \<Rightarrow> ifile \<Rightarrow> byte option list \<times> ifile" where
  "is_read n s =
     (if is_good s
      then let got = take n (is_rest s)
           in (map Some got @ replicate (n - length got) None,
               s\<lparr>is_pos := is_pos s + length got, is_good := (length got = n)\<rparr>)
      else (replicate n None, s))"

definition is_ignore :: "nat \<Rightarrow> ifile \<Rightarrow> ifile" where
  "is_ignore n s =
     (if is_good s
      then let k = min n (length (is_rest s)) in s\<lparr>is_pos := is_pos s + k, is_good := (k = n)\<rparr>
      else s)"

text \<open>
  \<open>seekg(off, beg)\<close> on a stream that has not failed: it fails for a negative offset and may go beyond
  the end. Where \<open>loadBMP\<close> seeks, every earlier read was complete.
\<close>

definition is_seek :: "int \<Rightarrow> ifile \<Rightarrow> ifile" where
  "is_seek off s =
     (if \<not> is_good s then s else if off < 0 then s\<lparr>is_good := False\<rparr> else s\<lparr>is_pos := nat off\<rparr>)"

text \<open>The value of a buffer: undefined when a byte was not read.\<close>

definition buffer_value :: "byte option list \<Rightarrow> byte list result" where
  "buffer_value b = (if None \<in> set b then Inl Undefined else Inr (map the b))"

definition read_bytes :: "nat \<Rightarrow> ifile \<Rightarrow> (byte list \<times> ifile) result" where
  "read_bytes n s = andThen (buffer_value (fst (is_read n s))) (\<lambda>b. Inr (b, snd (is_read n s)))"

definition readInt :: "ifile \<Rightarrow> (int \<times> ifile) result" where
  "readInt s = andThen (read_bytes 4 s) (\<lambda>(b, s). Inr (toInt b, s))"

definition readShort :: "ifile \<Rightarrow> (int \<times> ifile) result" where
  "readShort s = andThen (read_bytes 2 s) (\<lambda>(b, s). Inr (toShort b, s))"

section \<open>The loader\<close>

record bmp_image =
  im_pixels :: "byte option list"
  im_width :: int
  im_height :: int

record bmp_info =
  bm_offset :: int
  bm_width :: int
  bm_height :: int

text \<open>The two formats that are read, after the size of the header: the dimensions, and the checks.\<close>

definition read_v3 :: "ifile \<Rightarrow> (int \<times> int \<times> ifile) result" where
  "read_v3 s =
     andThen (readInt s) (\<lambda>(width, s).
     andThen (readInt s) (\<lambda>(height, s).
     andThen (readShort (is_ignore 2 s)) (\<lambda>(depth, s).
     andThen (check_that (depth = 24) ''Image is not 24 bits per pixel'') (\<lambda>_.
     andThen (readShort s) (\<lambda>(compression, s).
     andThen (check_that (compression = 0) ''Image is compressed'') (\<lambda>_.
     Inr (width, height, s)))))))"

definition read_os2_v1 :: "ifile \<Rightarrow> (int \<times> int \<times> ifile) result" where
  "read_os2_v1 s =
     andThen (readShort s) (\<lambda>(width, s).
     andThen (readShort s) (\<lambda>(height, s).
     andThen (readShort (is_ignore 2 s)) (\<lambda>(depth, s).
     andThen (check_that (depth = 24) ''Image is not 24 bits per pixel'') (\<lambda>_.
     Inr (width, height, s)))))"

definition read_dimensions :: "int \<Rightarrow> ifile \<Rightarrow> (int \<times> int \<times> ifile) result" where
  "read_dimensions headerSize s =
     (if headerSize = 40 then read_v3 s
      else if headerSize = 12 then read_os2_v1 s
      else if headerSize = 64 then Inl (Assertion ''Can't load OS/2 V2 bitmaps'')
      else if headerSize = 108 then Inl (Assertion ''Can't load Windows V4 bitmaps'')
      else if headerSize = 124 then Inl (Assertion ''Can't load Windows V5 bitmaps'')
      else Inl (Assertion ''Unknown bitmap format''))"

definition read_header :: "ifile \<Rightarrow> (bmp_info \<times> ifile) result" where
  "read_header s =
     andThen (read_bytes 2 s) (\<lambda>(magic, s).
     andThen (check_that (magic = [66, 77]) ''Not a bitmap file'') (\<lambda>_.
     andThen (readInt (is_ignore 8 s)) (\<lambda>(dataOffset, s).
     andThen (readInt s) (\<lambda>(headerSize, s).
     andThen (read_dimensions headerSize s) (\<lambda>(width, height, s).
     Inr (\<lparr>bm_offset = dataOffset, bm_width = width, bm_height = height\<rparr>, s))))))"

text \<open>\<open>((width * 3 + 3) / 4) * 4 - (width * 3 % 4)\<close>, with C's division.\<close>

definition bytesPerRow :: "int \<Rightarrow> int result" where
  "bytesPerRow width =
     andThen (int_of (width * 3)) (\<lambda>w3. andThen (int_of (w3 + 3)) (\<lambda>w.
       int_of ((w sdiv 4) * 4 - w3 smod 4)))"

definition new_array :: "int \<Rightarrow> byte option list result" where
  "new_array n = (if n < 0 then Inl BadArrayLength else Inr (replicate (nat n) None))"

text \<open>\<open>pixels2[d] = pixels[s]\<close>.\<close>

definition copy_byte :: "byte option list \<Rightarrow> int \<Rightarrow> int \<Rightarrow> byte option list \<Rightarrow> byte option list result" where
  "copy_byte src d s dst =
     (if 0 \<le> s \<and> s < int (length src) \<and> 0 \<le> d \<and> d < int (length dst)
      then Inr (dst[nat d := src ! nat s]) else Inl Undefined)"

text \<open>A counting loop \<open>for (i = i0; i < n; i++)\<close> over a body that may fault.\<close>

function for_loop :: "int \<Rightarrow> int \<Rightarrow> (int \<Rightarrow> 'a \<Rightarrow> 'a result) \<Rightarrow> 'a \<Rightarrow> 'a result" where
  "for_loop i n body a = (if i < n then andThen (body i a) (for_loop (i + 1) n body) else Inr a)"
  by auto

termination
  by (relation "measure (\<lambda>(i, n, _). nat (n - i))") auto

declare for_loop.simps [simp del]

definition reorder :: "int \<Rightarrow> int \<Rightarrow> int \<Rightarrow> byte option list \<Rightarrow> byte option list \<Rightarrow> byte option list result" where
  "reorder stride width height pixels pixels2 =
     for_loop 0 height (\<lambda>y. for_loop 0 width (\<lambda>x. for_loop 0 3 (\<lambda>c.
       copy_byte pixels (3 * (width * y + x) + c) (stride * y + 3 * x + (2 - c))))) pixels2"

definition load_data :: "bmp_info \<Rightarrow> ifile \<Rightarrow> bmp_image result" where
  "load_data info s =
     andThen (bytesPerRow (bm_width info)) (\<lambda>stride.
     andThen (int_of (stride * bm_height info)) (\<lambda>size.
     andThen (new_array size) (\<lambda>_.
     let pixels = fst (is_read (nat size) (is_seek (bm_offset info) s))
     in andThen (int_of (bm_width info * bm_height info)) (\<lambda>area.
        andThen (int_of (area * 3)) (\<lambda>size2.
        andThen (new_array size2) (\<lambda>pixels2.
        andThen (reorder stride (bm_width info) (bm_height info) pixels pixels2) (\<lambda>pixels2.
        Inr \<lparr>im_pixels = pixels2, im_width = bm_width info, im_height = bm_height info\<rparr>)))))))"

text \<open>
  \<open>sprintf\<close> into \<open>filepath[256]\<close> and opening; the files are a parameter.
\<close>

definition data_dir :: string where "data_dir = ''../hodgepodge/data/''"

definition loadBMP :: "(string \<Rightarrow> byte list option) \<Rightarrow> string \<Rightarrow> bmp_image result" where
  "loadBMP files filename =
     (if 256 \<le> length (data_dir @ filename) then Inl Undefined
      else case files (data_dir @ filename) of
        None \<Rightarrow> Inl (Assertion ''Could not find file'')
      | Some bytes \<Rightarrow>
          andThen (read_header \<lparr>is_bytes = bytes, is_pos = 0, is_good = True\<rparr>) (\<lambda>(info, s). load_data info s))"


section \<open>Loops\<close>

lemma for_loop_done [simp]: "n \<le> i \<Longrightarrow> for_loop i n body a = Inr a"
  by (simp add: for_loop.simps)

lemma for_loop_step: "i < n \<Longrightarrow> for_loop i n body a = andThen (body i a) (for_loop (i + 1) n body)"
  by (simp add: for_loop.simps)

text \<open>A loop whose body keeps an invariant and never faults ends with the invariant.\<close>

lemma for_loop_invariant:
  assumes "i \<le> n" "I i a"
    and "\<And>j b. i \<le> j \<Longrightarrow> j < n \<Longrightarrow> I j b \<Longrightarrow> \<exists>b'. body j b = Inr b' \<and> I (j + 1) b'"
  shows "\<exists>b. for_loop i n body a = Inr b \<and> I n b"
  using assms
proof (induction i n body a rule: for_loop.induct)
  case (1 i n body a)
  show ?case
  proof (cases "i < n")
    case True
    then obtain b where b: "body i a = Inr b" "I (i + 1) b" using 1(3,4) by blast
    have "\<exists>c. for_loop (i + 1) n body b = Inr c \<and> I n c"
      using 1(1)[OF True, of b] b True 1(4) by force
    then show ?thesis using b True by (simp add: for_loop_step)
  next
    case False
    then show ?thesis using 1(2,3) by simp
  qed
qed

text \<open>A loop whose body is undefined in some iteration, and otherwise does not fault, is undefined.\<close>

definition ok_or_undefined :: "'a result \<Rightarrow> bool" where
  "ok_or_undefined r \<longleftrightarrow> (\<forall>e. r = Inl e \<longrightarrow> e = Undefined)"

lemma ok_or_undefined_simps [simp]: "ok_or_undefined (Inr x)" "ok_or_undefined (Inl Undefined)"
  by (simp_all add: ok_or_undefined_def)

lemma for_loop_ok_or_undefined:
  "(\<And>j b. ok_or_undefined (body j b)) \<Longrightarrow> ok_or_undefined (for_loop i n body a)"
proof (induction i n body a rule: for_loop.induct)
  case (1 i n body a)
  then show ?case
    by (cases "i < n"; cases "body i a") (auto simp: for_loop_step ok_or_undefined_def)
qed

lemma for_loop_undefined:
  assumes "\<And>j b. ok_or_undefined (body j b)" "\<And>b. body k b = Inl Undefined" "i \<le> k" "k < n"
  shows "for_loop i n body a = Inl Undefined"
  using assms
proof (induction i n body a rule: for_loop.induct)
  case (1 i n body a)
  show ?case
  proof (cases "body i a")
    case (Inl e)
    then show ?thesis using 1(2)[of i a] 1(4,5) by (simp add: for_loop_step ok_or_undefined_def)
  next
    case (Inr b)
    then have "i \<noteq> k" using 1(3) by auto
    then show ?thesis using 1 Inr by (simp add: for_loop_step)
  qed
qed

section \<open>The length of a row\<close>

text \<open>Rows of a bitmap are padded to a multiple of four bytes.\<close>

definition padded_row :: "int \<Rightarrow> int" where
  "padded_row width = (width * 3 + 3) div 4 * 4"

lemma sdiv_nonneg: "0 \<le> a \<Longrightarrow> 0 < b \<Longrightarrow> (a::int) sdiv b = a div b"
  by (cases "a = 0") (simp_all add: signed_divide_int_def sgn_if)

lemma smod_nonneg: "0 \<le> a \<Longrightarrow> 0 < b \<Longrightarrow> (a::int) smod b = a mod b"
  by (cases "a = 0") (simp_all add: signed_modulo_int_def sgn_if)

lemma mod4_cases:
  obtains q :: int where "width = 4 * q" | q where "width = 4 * q + 1" | q where "width = 4 * q + 2"
    | q where "width = 4 * q + 3"
proof -
  have "width mod 4 = 0 \<or> width mod 4 = 1 \<or> width mod 4 = 2 \<or> width mod 4 = 3" by linarith
  then show ?thesis using that mult_div_mod_eq[of 4 width] by (metis add.right_neutral)
qed

lemma padded_row_eq: "padded_row width = width * 3 + width mod 4"
  by (cases width rule: mod4_cases; simp add: padded_row_def; presburger?)

text \<open>The computed length is \<open>3 * width\<close> plus 0, -2, 0 or 2, for \<open>width mod 4\<close> equal to 0, 1, 2, 3.\<close>

lemma row_len_eq: "padded_row width - width * 3 mod 4 =
    width * 3 + (if width mod 4 = 1 then -2 else if width mod 4 = 3 then 2 else 0)"
  by (cases width rule: mod4_cases; simp add: padded_row_eq; presburger?)

lemma row_rest: "0 \<le> width * 3 mod 4 \<and> (width * 3 mod 4 = 0 \<longleftrightarrow> width mod 4 = (0 :: int))"
  by (cases width rule: mod4_cases; simp; presburger?)

lemma bytesPerRow_nonneg:
  assumes "0 \<le> width" "in_int (width * 3 + 3)"
  shows "bytesPerRow width = Inr (padded_row width - width * 3 mod 4)"
proof -
  have "in_int (width * 3)" using assms by (simp add: in_int_def)
  moreover have "in_int (padded_row width - width * 3 mod 4)"
    using assms unfolding row_len_eq in_int_def by auto
  ultimately show ?thesis
    using assms by (simp add: bytesPerRow_def int_of_def sdiv_nonneg smod_nonneg padded_row_def)
qed

text \<open>The row length of \<open>loadBMP\<close> is that of the file format exactly for widths that are multiples
  of four; otherwise it is too small, by up to three bytes, so that the rows after the first are cut askew.\<close>

theorem bmp_row_length:
  assumes "0 \<le> width" "in_int (width * 3 + 3)"
  shows "\<exists>r. bytesPerRow width = Inr r \<and> r \<le> padded_row width \<and> (r = padded_row width \<longleftrightarrow> width mod 4 = 0) \<and>
    (r < width * 3 \<longleftrightarrow> width mod 4 = 1)"
proof -
  have "padded_row width - width * 3 mod 4 < width * 3 \<longleftrightarrow> width mod 4 = 1"
    unfolding row_len_eq by auto
  then show ?thesis
    using bytesPerRow_nonneg[OF assms] row_rest[of width] by auto
qed

theorem bmp_row_length_witness:
  "bytesPerRow 5 = Inr 13 \<and> padded_row 5 = 16"
  using bmp_row_length[of 5] by (simp add: in_int_def padded_row_def bytesPerRow_def int_of_def sdiv_nonneg smod_nonneg)

section \<open>Reordering\<close>

text \<open>Where byte \<open>j\<close> of the image comes from in data with rows of the given length.\<close>

definition source_index :: "nat \<Rightarrow> nat \<Rightarrow> nat \<Rightarrow> nat" where
  "source_index stride w j = stride * (j div (3 * w)) + 3 * (j mod (3 * w) div 3) + (2 - j mod 3)"

lemma pixel_divmod:
  fixes w x y c :: nat
  assumes "x < w" "c < 3"
  shows "(3 * (w * y + x) + c) div (3 * w) = y" "(3 * (w * y + x) + c) mod (3 * w) = 3 * x + c"
    "(3 * x + c) div 3 = x" "(3 * (w * y + x) + c) mod 3 = c"
proof -
  have a: "3 * (w * y + x) + c = (3 * x + c) + y * (3 * w)" by (simp add: algebra_simps)
  have b: "3 * x + c < 3 * w" using assms by linarith
  show "(3 * (w * y + x) + c) div (3 * w) = y" "(3 * (w * y + x) + c) mod (3 * w) = 3 * x + c"
    unfolding a using b assms(1) by simp_all
  show "(3 * x + c) div 3 = x" using assms(2) by simp
  have "(c + 3 * (w * y + x)) mod 3 = c" unfolding mod_mult_self2 using assms(2) by simp
  then show "(3 * (w * y + x) + c) mod 3 = c" by (simp only: add.commute)
qed

lemma source_index_pixel:
  "x < w \<Longrightarrow> c < 3 \<Longrightarrow> source_index stride w (3 * (w * y + x) + c) = stride * y + 3 * x + (2 - c)"
  by (simp only: source_index_def pixel_divmod)

text \<open>The bytes written so far, in the order of the loops.\<close>

definition filled :: "byte option list \<Rightarrow> nat \<Rightarrow> nat \<Rightarrow> nat \<Rightarrow> int \<Rightarrow> byte option list \<Rightarrow> bool" where
  "filled src stride w h n b \<longleftrightarrow>
     length b = 3 * w * h \<and> (\<forall>j. int j < n \<longrightarrow> b ! j = src ! source_index stride w j)"

lemma pixel_in_image:
  fixes w x y c h :: nat
  assumes "x < w" "y < h" "c < 3"
  shows "3 * (w * y + x) + c < 3 * w * h"
proof -
  have "w * y + w \<le> w * h" using assms(2) by (metis Suc_leI mult_Suc_right mult_le_mono2 add.commute)
  then show ?thesis using assms by (simp add: algebra_simps)
qed

lemma copy_byte_inside:
  "s < length src \<Longrightarrow> d < length dst \<Longrightarrow> copy_byte src (int d) (int s) dst = Inr (dst[d := src ! s])"
  by (simp add: copy_byte_def)

lemma copy_byte_fills:
  assumes "x < w" "y < h" "c < 3" "stride * y + 3 * x + (2 - c) < length src"
    and "filled src stride w h (3 * (int w * int y + int x) + int c) b"
  shows "\<exists>b'. copy_byte src (3 * (int w * int y + int x) + int c) (int stride * int y + 3 * int x + (2 - int c)) b = Inr b' \<and>
    filled src stride w h (3 * (int w * int y + int x) + int c + 1) b'"
proof -
  let ?d = "3 * (w * y + x) + c" and ?s = "stride * y + 3 * x + (2 - c)"
  have d: "3 * (int w * int y + int x) + int c = int ?d" by simp
  have s: "int stride * int y + 3 * int x + (2 - int c) = int ?s" using assms(3) by simp
  have len: "?d < length b"
    using pixel_in_image[OF assms(1-3)] assms(5) by (simp add: filled_def)
  have old: "length b = 3 * w * h" "\<And>j. j < ?d \<Longrightarrow> b ! j = src ! source_index stride w j"
    using assms(5) unfolding filled_def d of_nat_less_iff by blast+
  have "b[?d := src ! ?s] ! j = src ! source_index stride w j" if "int j < int ?d + 1" for j
  proof (cases "j = ?d")
    case True
    then show ?thesis using len source_index_pixel[OF assms(1,3), of stride y] by simp
  next
    case False
    with that have "j < ?d" unfolding of_nat_Suc[symmetric] by linarith
    then show ?thesis using False old(2) by (metis nth_list_update_neq)
  qed
  then have "filled src stride w h (int ?d + 1) (b[?d := src ! ?s])"
    unfolding filled_def using old(1) by simp
  then show ?thesis
    using copy_byte_inside[OF assms(4) len] unfolding d s by blast
qed

lemma reorder_fills:
  assumes rows: "\<And>y x c. x < w \<Longrightarrow> y < h \<Longrightarrow> c < 3 \<Longrightarrow> stride * y + 3 * x + (2 - c) < length src"
    and len: "length dst = 3 * w * h"
  shows "\<exists>b. reorder (int stride) (int w) (int h) src dst = Inr b \<and> filled src stride w h (int (3 * w * h)) b"
proof -
  let ?F = "filled src stride w h"
  have "\<exists>b. reorder (int stride) (int w) (int h) src dst = Inr b \<and> ?F (3 * (int w * int h)) b"
    unfolding reorder_def
  proof (rule for_loop_invariant[where I = "\<lambda>y. ?F (3 * (int w * y))"], goal_cases)
    case (3 y a)
    have "\<exists>b. for_loop 0 (int w) (\<lambda>x. for_loop 0 3 (\<lambda>c. copy_byte src (3 * (int w * y + x) + c)
        (int stride * y + 3 * x + (2 - c)))) a = Inr b \<and> ?F (3 * (int w * y + int w)) b"
    proof (rule for_loop_invariant[where I = "\<lambda>x. ?F (3 * (int w * y + x))"], goal_cases)
      case (3 x b)
      have "\<exists>b'. for_loop 0 3 (\<lambda>c. copy_byte src (3 * (int w * y + x) + c)
          (int stride * y + 3 * x + (2 - c))) b = Inr b' \<and> ?F (3 * (int w * y + x) + 3) b'"
      proof (rule for_loop_invariant[where I = "\<lambda>c. ?F (3 * (int w * y + x) + c)"], goal_cases)
        case (3 c b')
        obtain yn xn cn where n: "y = int yn" "x = int xn" "c = int cn"
          using \<open>0 \<le> y\<close> \<open>0 \<le> x\<close> \<open>0 \<le> c\<close> by (metis nonneg_eq_int)
        have "xn < w" "yn < h" "cn < 3" using n \<open>y < int h\<close> \<open>x < int w\<close> \<open>c < 3\<close> by simp_all
        then show ?case
          using copy_byte_fills[of xn w yn h cn stride src b'] rows[of xn yn cn] 3(3)
          by (simp add: n add.assoc)
      qed (use 3 in auto)
      then show ?case by (simp add: algebra_simps)
    qed (use 3 in auto)
    then show ?case by (simp add: algebra_simps)
  qed (use len in \<open>auto simp: filled_def\<close>)
  then show ?thesis by (simp add: algebra_simps)
qed

text \<open>A read beyond the data makes it undefined.\<close>

lemma copy_byte_ok_or_undefined: "ok_or_undefined (copy_byte src d s dst)"
  by (simp add: copy_byte_def)

lemma reorder_undefined:
  assumes "0 \<le> y" "y < h" "0 \<le> x" "x < w" "0 \<le> c" "c < 3"
    and "int (length src) \<le> stride * y + 3 * x + (2 - c)"
  shows "reorder stride w h src dst = Inl Undefined"
proof -
  have c: "for_loop 0 3 (\<lambda>c. copy_byte src (3 * (w * y + x) + c) (stride * y + 3 * x + (2 - c))) b = Inl Undefined" for b
    by (rule for_loop_undefined[where k = c]) (use assms in \<open>auto simp: copy_byte_def\<close>)
  have row: "for_loop 0 w (\<lambda>x. for_loop 0 3 (\<lambda>c. copy_byte src (3 * (w * y + x) + c) (stride * y + 3 * x + (2 - c)))) b
      = Inl Undefined" for b
    by (rule for_loop_undefined[where k = x])
      (use assms c in \<open>auto intro: for_loop_ok_or_undefined copy_byte_ok_or_undefined\<close>)
  show ?thesis
    unfolding reorder_def
  proof (rule for_loop_undefined[where k = y])
    show "ok_or_undefined (for_loop 0 w (\<lambda>x. for_loop 0 3 (\<lambda>c. copy_byte src (3 * (w * j + x) + c)
        (stride * j + 3 * x + (2 - c)))) b)" for j b
      by (intro for_loop_ok_or_undefined copy_byte_ok_or_undefined)
  qed (rule row assms)+
qed

section \<open>The loader is safe for three widths out of four\<close>

text \<open>The rows that are read for a width and a height that are not negative.\<close>

definition row_len :: "nat \<Rightarrow> nat" where
  "row_len w = 3 * w + (if w mod 4 = 3 then 2 else 0) - (if w mod 4 = 1 then 2 else 0)"

lemma bytesPerRow_row_len: "in_int (int w * 3 + 3) \<Longrightarrow> bytesPerRow (int w) = Inr (int (row_len w))"
proof -
  assume "in_int (int w * 3 + 3)"
  then have "bytesPerRow (int w) = Inr (padded_row (int w) - int w * 3 mod 4)"
    by (intro bytesPerRow_nonneg) simp_all
  moreover have "int w mod 4 = int (w mod 4)" by (simp add: zmod_int)
  moreover have "w mod 4 = 1 \<Longrightarrow> 2 \<le> 3 * w" by (cases w) simp_all
  ultimately show ?thesis unfolding row_len_eq row_len_def by (auto simp: of_nat_diff)
qed

definition fits :: "nat \<Rightarrow> nat \<Rightarrow> bool" where
  "fits w h \<longleftrightarrow> in_int (int w * 3 + 3) \<and> in_int (int (row_len w * h)) \<and> in_int (int (3 * w * h))"

lemma is_read_length: "length (fst (is_read n s)) = n"
  by (auto simp: is_read_def Let_def)

lemma row_inside:
  assumes "w mod 4 \<noteq> 1" "x < w" "y < h" "c < 3"
  shows "row_len w * y + 3 * x + (2 - c) < row_len w * h"
proof -
  have "row_len w * y + row_len w \<le> row_len w * h"
    using assms(3) by (metis Suc_leI mult_Suc_right mult_le_mono2 add.commute)
  moreover have "3 * x + (2 - c) < row_len w" using assms by (simp add: row_len_def)
  ultimately show ?thesis by linarith
qed

lemma load_data_fits:
  assumes "fits w h" "bm_width info = int w" "bm_height info = int h"
  shows "load_data info s =
    andThen (reorder (int (row_len w)) (int w) (int h)
        (fst (is_read (row_len w * h) (is_seek (bm_offset info) s))) (replicate (3 * w * h) None))
      (\<lambda>p. Inr \<lparr>im_pixels = p, im_width = int w, im_height = int h\<rparr>)"
proof -
  have area: "in_int (int w * int h)" "in_int (int w * int h * 3)" "in_int (int (row_len w) * int h)"
    using assms(1) by (auto simp: fits_def in_int_def algebra_simps)
  moreover have "\<not> int h * int w < 0" "\<not> int (row_len w) * int h < 0" by (simp_all add: not_less)
  moreover have "nat (int w * int h * 3) = 3 * w * h" "nat (int (row_len w) * int h) = row_len w * h"
    by (simp_all add: nat_mult_distrib)
  ultimately show ?thesis
    using assms bytesPerRow_row_len[of w]
    by (simp add: load_data_def fits_def int_of_def new_array_def Let_def)
qed

lemma load_data_reads:
  fixes s :: ifile
  assumes "fits w h" "bm_width info = int w" "bm_height info = int h" "w mod 4 \<noteq> 1"
  defines "data \<equiv> fst (is_read (row_len w * h) (is_seek (bm_offset info) s))"
  shows "\<exists>img. load_data info s = Inr img \<and> im_width img = int w \<and> im_height img = int h \<and>
    length (im_pixels img) = 3 * w * h \<and> (\<forall>j<3 * w * h. im_pixels img ! j = data ! source_index (row_len w) w j)"
proof -
  have "\<exists>b. reorder (int (row_len w)) (int w) (int h) data (replicate (3 * w * h) None) = Inr b \<and>
      filled data (row_len w) w h (int (3 * w * h)) b"
    by (rule reorder_fills) (use row_inside[OF assms(4)] in \<open>simp_all add: data_def is_read_length\<close>)
  then show ?thesis
    unfolding load_data_fits[OF assms(1-3)] data_def[symmetric] filled_def of_nat_less_iff by auto
qed

lemma load_data_overruns:
  assumes "fits w h" "bm_width info = int w" "bm_height info = int h" "w mod 4 = 1" "0 < h"
  shows "load_data info s = Inl Undefined"
proof -
  have w: "0 < w" "int (row_len w) = 3 * int w - 2" using assms(4) by (cases w; auto simp: row_len_def)+
  have "reorder (int (row_len w)) (int w) (int h)
      (fst (is_read (row_len w * h) (is_seek (bm_offset info) s))) (replicate (3 * w * h) None) = Inl Undefined"
    by (rule reorder_undefined[of "int h - 1" _ "int w - 1" _ 0])
      (use w assms(5) in \<open>simp_all add: is_read_length algebra_simps\<close>)
  then show ?thesis by (simp add: load_data_fits[OF assms(1-3)])
qed

section \<open>What loading a file comes to\<close>

text \<open>The row length the code computes, for all widths; the two cases come from C's division, which truncates.\<close>

definition row_bytes :: "int \<Rightarrow> int" where
  "row_bytes w =
     (if 0 \<le> w then 3 * w + (if w mod 4 = 1 then - 2 else if w mod 4 = 3 then 2 else 0)
      else 3 * w + (if w mod 4 = 0 then 4 else if w mod 4 = 2 then 8 else 6))"

text \<open>The outcome for the dimensions of a header, with the width, the height and the size of the array of an image.\<close>

definition dims_outcome :: "int \<Rightarrow> int \<Rightarrow> (int \<times> int \<times> int) result" where
  "dims_outcome w h =
     (if \<not> in_int (3 * w) \<or> \<not> in_int (3 * w + 3) \<or> \<not> in_int (row_bytes w * h) then Inl Undefined
      else if row_bytes w * h < 0 then Inl BadArrayLength
      else if \<not> in_int (w * h) \<or> \<not> in_int (3 * w * h) then Inl Undefined
      else if w * h < 0 then Inl BadArrayLength
      else if 0 < w \<and> 0 < h \<and> w mod 4 = 1 then Inl Undefined
      else Inr (w, h, 3 * w * h))"

text \<open>The outcome for the bytes of a header, read at their places in the file.\<close>

definition int32_at :: "byte list \<Rightarrow> nat \<Rightarrow> int" where
  "int32_at bs p = toInt (take 4 (drop p bs))"

definition int16_at :: "byte list \<Rightarrow> nat \<Rightarrow> int" where
  "int16_at bs p = toShort (take 2 (drop p bs))"

definition unsupported :: "int \<Rightarrow> string" where
  "unsupported headerSize =
     (if headerSize = 64 then ''Can't load OS/2 V2 bitmaps'' else if headerSize = 108 then ''Can't load Windows V4 bitmaps''
      else if headerSize = 124 then ''Can't load Windows V5 bitmaps'' else ''Unknown bitmap format'')"

definition header_outcome :: "byte list \<Rightarrow> (int \<times> int) result" where
  "header_outcome bs =
     (if length bs < 2 then Inl Undefined
      else if take 2 bs \<noteq> [66, 77] then Inl (Assertion ''Not a bitmap file'')
      else if length bs < 18 then Inl Undefined
      else if int32_at bs 14 = 40 then
        (if length bs < 30 then Inl Undefined
         else if int16_at bs 28 \<noteq> 24 then Inl (Assertion ''Image is not 24 bits per pixel'')
         else if length bs < 32 then Inl Undefined
         else if int16_at bs 30 \<noteq> 0 then Inl (Assertion ''Image is compressed'')
         else Inr (int32_at bs 18, int32_at bs 22))
      else if int32_at bs 14 = 12 then
        (if length bs < 26 then Inl Undefined
         else if int16_at bs 24 \<noteq> 24 then Inl (Assertion ''Image is not 24 bits per pixel'')
         else Inr (int16_at bs 18, int16_at bs 20))
      else Inl (Assertion (unsupported (int32_at bs 14))))"

definition load_outcome :: "(string \<Rightarrow> byte list option) \<Rightarrow> string \<Rightarrow> (int \<times> int \<times> int) result" where
  "load_outcome files filename =
     (if 256 \<le> length (data_dir @ filename) then Inl Undefined
      else case files (data_dir @ filename) of
        None \<Rightarrow> Inl (Assertion ''Could not find file'')
      | Some bs \<Rightarrow> andThen (header_outcome bs) (\<lambda>(w, h). dims_outcome w h))"

lemma andThen_if: "andThen (if b then r else r') f = (if b then andThen r f else andThen r' f)"
  by simp

text \<open>Reading at a position of a good stream.\<close>

definition good_at :: "byte list \<Rightarrow> nat \<Rightarrow> ifile" where
  "good_at bs p = \<lparr>is_bytes = bs, is_pos = p, is_good = True\<rparr>"

lemma read_bytes_good:
  assumes "0 < n"
  shows "read_bytes n (good_at bs p) =
    (if p + n \<le> length bs then Inr (take n (drop p bs), good_at bs (p + n)) else Inl Undefined)"
  using assms
  by (auto simp: read_bytes_def buffer_value_def is_read_def is_rest_def good_at_def Let_def comp_def min_def)

lemma read_bytes_bad: "0 < n \<Longrightarrow> \<not> is_good s \<Longrightarrow> read_bytes n s = Inl Undefined"
  by (simp add: read_bytes_def buffer_value_def is_read_def)

lemma readInt_good:
  "readInt (good_at bs p) = (if p + 4 \<le> length bs then Inr (int32_at bs p, good_at bs (p + 4)) else Inl Undefined)"
  by (simp add: readInt_def read_bytes_good int32_at_def)

lemma readShort_good:
  "readShort (good_at bs p) = (if p + 2 \<le> length bs then Inr (int16_at bs p, good_at bs (p + 2)) else Inl Undefined)"
  by (simp add: readShort_def read_bytes_good int16_at_def)

lemma ignore_good:
  assumes "p \<le> length bs"
  shows "p + k \<le> length bs \<Longrightarrow> is_ignore k (good_at bs p) = good_at bs (p + k)"
    "\<not> p + k \<le> length bs \<Longrightarrow> \<not> is_good (is_ignore k (good_at bs p))"
  using assms by (auto simp: is_ignore_def is_rest_def good_at_def Let_def)

lemma readInt_ignore:
  "p \<le> length bs \<Longrightarrow> readInt (is_ignore k (good_at bs p)) =
    (if p + k + 4 \<le> length bs then Inr (int32_at bs (p + k), good_at bs (p + k + 4)) else Inl Undefined)"
  by (cases "p + k \<le> length bs") (auto simp: ignore_good readInt_good, simp_all add: ignore_good readInt_def read_bytes_bad)

lemma readShort_ignore:
  "p \<le> length bs \<Longrightarrow> readShort (is_ignore k (good_at bs p)) =
    (if p + k + 2 \<le> length bs then Inr (int16_at bs (p + k), good_at bs (p + k + 2)) else Inl Undefined)"
  by (cases "p + k \<le> length bs") (auto simp: ignore_good readShort_good, simp_all add: ignore_good readShort_def read_bytes_bad)

lemma read_v3_good:
  "18 \<le> length bs \<Longrightarrow> map_sum id (\<lambda>(w, h, s). (w, h)) (read_v3 (good_at bs 18)) =
    (if length bs < 30 then Inl Undefined
     else if int16_at bs 28 \<noteq> 24 then Inl (Assertion ''Image is not 24 bits per pixel'')
     else if length bs < 32 then Inl Undefined
     else if int16_at bs 30 \<noteq> 0 then Inl (Assertion ''Image is compressed'')
     else Inr (int32_at bs 18, int32_at bs 22))"
  unfolding read_v3_def check_that_def
  by (cases "length bs < 30"; cases "length bs < 22"; cases "length bs < 26"; cases "length bs < 32")
    (simp_all add: readInt_good readShort_good readShort_ignore)

lemma read_os2_v1_good:
  "18 \<le> length bs \<Longrightarrow> map_sum id (\<lambda>(w, h, s). (w, h)) (read_os2_v1 (good_at bs 18)) =
    (if length bs < 26 then Inl Undefined
     else if int16_at bs 24 \<noteq> 24 then Inl (Assertion ''Image is not 24 bits per pixel'')
     else Inr (int16_at bs 18, int16_at bs 20))"
  unfolding read_os2_v1_def check_that_def
  by (cases "length bs < 20"; cases "length bs < 22"; cases "length bs < 26")
    (simp_all add: readShort_good readShort_ignore)

lemma read_header_good:
  "map_sum id (\<lambda>(info, s). (bm_width info, bm_height info)) (read_header (good_at bs 0)) = header_outcome bs"
proof -
  have dims: "map_sum id (\<lambda>(info, s). (bm_width info, bm_height info))
      (andThen r (\<lambda>(width, height, s). Inr (\<lparr>bm_offset = d, bm_width = width, bm_height = height\<rparr>, s))) =
      map_sum id (\<lambda>(w, h, s). (w, h)) r" for d and r :: "(int \<times> int \<times> ifile) result"
    by (cases r) auto
  show ?thesis
  proof (cases "18 \<le> length bs \<and> take 2 bs = [66, 77]")
    case True
    then have "read_header (good_at bs 0) =
        andThen (read_dimensions (int32_at bs 14) (good_at bs 18))
          (\<lambda>(width, height, s). Inr (\<lparr>bm_offset = int32_at bs 10, bm_width = width, bm_height = height\<rparr>, s))"
      by (simp add: read_header_def read_bytes_good check_that_def readInt_ignore readInt_good)
    then show ?thesis
      using True read_v3_good[of bs] read_os2_v1_good[of bs]
      by (simp add: dims header_outcome_def read_dimensions_def unsupported_def)
  next
    case False
    then show ?thesis
      by (cases "length bs < 14")
        (auto simp: read_header_def read_bytes_good check_that_def readInt_ignore readInt_good header_outcome_def)
  qed
qed

lemma bytesPerRow_outcome:
  "bytesPerRow w = (if in_int (3 * w) \<and> in_int (3 * w + 3) then Inr (row_bytes w) else Inl Undefined)"
proof -
  have r: "((3 * w + 3) sdiv 4) * 4 - (3 * w) smod 4 = row_bytes w"
  proof (cases "0 \<le> w")
    case True
    then show ?thesis
      using row_len_eq[of w] by (simp add: sdiv_nonneg smod_nonneg row_bytes_def padded_row_def mult.commute)
  next
    case False
    then have neg: "3 * w < 0" "3 * w + 3 \<le> 0" by simp_all
    then have "(3 * w + 3) sdiv 4 = - (- (3 * w + 3) div 4)" "(3 * w) smod 4 = - (- (3 * w) mod 4)"
      by (auto simp: signed_divide_int_def signed_modulo_int_def sgn_if abs_if)
    moreover have "- (- (3 * w + 3) div 4) * 4 + (- (3 * w) mod 4) = row_bytes w"
      using False unfolding row_bytes_def by (cases w rule: mod4_cases; simp; presburger)
    ultimately show ?thesis by simp
  qed
  have "in_int (row_bytes w)" if "in_int (3 * w)" "in_int (3 * w + 3)"
    using that unfolding row_bytes_def in_int_def by auto
  then show ?thesis
    using r by (auto simp: bytesPerRow_def int_of_def mult.commute)
qed

text \<open>The loops on any dimensions: nothing to do, or \<open>reorder_fills\<close>, or \<open>reorder_undefined\<close>.\<close>

lemma reorder_outcome:
  assumes src: "int (length src) = row_bytes w * h" and dst: "int (length dst) = 3 * w * h"
  shows "map_sum id length (reorder (row_bytes w) w h src dst) =
    (if 0 < w \<and> 0 < h \<and> w mod 4 = 1 then Inl Undefined else Inr (length dst))"
proof (cases "0 < w \<and> 0 < h")
  case False
  have "reorder (row_bytes w) w h src dst = Inr dst"
  proof (cases "0 < h")
    case True
    then have "w \<le> 0" using False by simp
    then have "\<exists>b. reorder (row_bytes w) w h src dst = Inr b \<and> b = dst"
      unfolding reorder_def using True by - (rule for_loop_invariant[where I = "\<lambda>_ b. b = dst"], auto)
    then show ?thesis by simp
  qed (simp add: reorder_def)
  then show ?thesis using False by auto
next
  case True
  define wn hn where "wn = nat w" and "hn = nat h"
  have n: "w = int wn" "h = int hn" using True by (simp_all add: wn_def hn_def)
  have m: "w mod 4 = int (wn mod 4)" by (simp add: n zmod_int)
  show ?thesis
  proof (cases "w mod 4 = 1")
    case bad: True
    then have "row_bytes w = 3 * w - 2" using True by (simp add: row_bytes_def)
    moreover have "reorder (3 * w - 2) w h src dst = Inl Undefined"
      by (rule reorder_undefined[of "h - 1" _ "w - 1" _ 0])
        (use True src calculation in \<open>simp_all add: algebra_simps\<close>)
    ultimately show ?thesis using True bad by simp
  next
    case good: False
    then have g: "wn mod 4 \<noteq> 1" using m by simp
    have "wn mod 4 = 1 \<Longrightarrow> 2 \<le> 3 * wn" by (cases wn) simp_all
    then have r: "row_bytes w = int (row_len wn)"
      using True m by (auto simp: row_bytes_def row_len_def n of_nat_diff)
    have "length src = row_len wn * hn" "length dst = 3 * wn * hn"
    proof -
      have "int (length src) = int (row_len wn * hn)" using src[unfolded r n(2)] by simp
      then show "length src = row_len wn * hn" by (simp only: of_nat_eq_iff)
      have "int (length dst) = int (3 * wn * hn)" using dst unfolding n by simp
      then show "length dst = 3 * wn * hn" by (simp only: of_nat_eq_iff)
    qed
    then obtain b where "reorder (int (row_len wn)) (int wn) (int hn) src dst = Inr b" "length b = length dst"
      using reorder_fills[of wn hn "row_len wn" src dst] row_inside[OF g] by (auto simp: filled_def)
    then have "map_sum id length (reorder (row_bytes w) w h src dst) = Inr (length dst)"
      unfolding r unfolding n by simp
    then show ?thesis using good by simp
  qed
qed

lemma load_data_outcome:
  "map_sum id (\<lambda>img. (im_width img, im_height img, int (length (im_pixels img)))) (load_data info s) =
    dims_outcome (bm_width info) (bm_height info)"
proof -
  define w h r where "w = bm_width info" and "h = bm_height info" and "r = row_bytes w"
  note wh = w_def[symmetric] h_def[symmetric]
  show ?thesis
  proof (cases "in_int (3 * w) \<and> in_int (3 * w + 3) \<and> in_int (r * h) \<and> 0 \<le> r * h \<and>
      in_int (w * h) \<and> in_int (3 * w * h) \<and> 0 \<le> w * h")
    case False
    have "w * h * 3 < 0 \<longleftrightarrow> w * h < 0" by linarith
    then show ?thesis
      using False unfolding load_data_def dims_outcome_def wh bytesPerRow_outcome r_def[symmetric]
      by (auto simp: int_of_def new_array_def Let_def ac_simps)
  next
    case True
    let ?src = "fst (is_read (nat (r * h)) (is_seek (bm_offset info) s))" and ?dst = "replicate (nat (w * h * 3)) (None :: byte option)"
    have "load_data info s = andThen (reorder r w h ?src ?dst)
        (\<lambda>p. Inr \<lparr>im_pixels = p, im_width = w, im_height = h\<rparr>)"
      using True unfolding load_data_def wh bytesPerRow_outcome r_def[symmetric]
      by (simp add: int_of_def new_array_def Let_def ac_simps)
    moreover have "map_sum id length (reorder r w h ?src ?dst) =
        (if 0 < w \<and> 0 < h \<and> w mod 4 = 1 then Inl Undefined else Inr (length ?dst))"
      unfolding r_def by (rule reorder_outcome) (use True in \<open>simp_all add: r_def is_read_length\<close>)
    moreover have "int (length ?dst) = 3 * w * h" using True by simp
    ultimately show ?thesis
      using True unfolding dims_outcome_def wh r_def[symmetric]
      by (cases "reorder r w h ?src ?dst") (auto split: if_splits)
  qed
qed

text \<open>C21: what \<open>loadBMP\<close> does with any file under any name, field by field of the header and for all dimensions:
  which assertion fails, when it uses bytes that a short file did not give, overflows an \<open>int\<close> or gets a negative
  array size, and when it reads outside its data: exactly for widths of the form 4k + 1 with some row. In all other
  cases an image of three bytes a pixel results; dimensions that are both negative are accepted too. (There is memory
  for its arrays, and bytes missing at the end of the file leave pixels unset.)\<close>

theorem bmp_load_in_bounds:
  "map_sum id (\<lambda>img. (im_width img, im_height img, int (length (im_pixels img)))) (loadBMP files filename) =
    load_outcome files filename"
proof (cases "files (data_dir @ filename)")
  case None
  then show ?thesis by (simp add: loadBMP_def load_outcome_def)
next
  case (Some bs)
  have "map_sum id (\<lambda>img. (im_width img, im_height img, int (length (im_pixels img))))
      (andThen r (\<lambda>(info, s). load_data info s)) =
      andThen (map_sum id (\<lambda>(info, s). (bm_width info, bm_height info)) r) (\<lambda>(w, h). dims_outcome w h)"
    for r :: "(bmp_info \<times> ifile) result"
    by (cases r) (auto simp: load_data_outcome)
  then show ?thesis
    using Some by (simp add: loadBMP_def load_outcome_def read_header_good[unfolded good_at_def])
qed

section \<open>Files\<close>

text \<open>
  A file in the format with a 40 byte header, for an image of RGB bytes: \<open>skipped\<close>, \<open>planes\<close> and \<open>others\<close> are
  the fields that the loader does not use. Rows start at the bottom, hold BGR bytes and are padded.
\<close>

definition le16 :: "int \<Rightarrow> byte list" where
  "le16 i = [word_of_int i, word_of_int (drop_bit 8 i)]"

definition le32 :: "int \<Rightarrow> byte list" where
  "le32 i = [word_of_int i, word_of_int (drop_bit 8 i), word_of_int (drop_bit 16 i), word_of_int (drop_bit 24 i)]"

definition row_size :: "nat \<Rightarrow> nat" where "row_size w = 3 * w + w mod 4"

definition file_pixels :: "nat \<Rightarrow> nat \<Rightarrow> byte list \<Rightarrow> byte list" where
  "file_pixels w h px =
     map (\<lambda>k. let y = k div row_size w; r = k mod row_size w
              in if r < 3 * w then px ! (3 * (w * y + r div 3) + (2 - r mod 3)) else 0)
       [0..<row_size w * h]"

definition bmp_file :: "byte list \<Rightarrow> byte list \<Rightarrow> byte list \<Rightarrow> nat \<Rightarrow> nat \<Rightarrow> byte list \<Rightarrow> byte list" where
  "bmp_file skipped planes others w h px =
     [66, 77] @ skipped @ le32 54 @ le32 40 @ le32 (int w) @ le32 (int h) @ planes @ le16 24 @ le16 0 @ others @
     file_pixels w h px"

lemma le_length [simp]: "length (le16 i) = 2" "length (le32 i) = 4"
  by (simp_all add: le16_def le32_def)

lemma signed_id32: "in_int i \<Longrightarrow> sint (word_of_int i :: 32 word) = i"
  by (simp add: in_int_def sint_sbintrunc' signed_take_bit_int_eq_self)

lemma toInt_le32: "in_int i \<Longrightarrow> toInt (le32 i) = i"
proof -
  assume i: "in_int i"
  have "or (push_bit 24 (ucast (le32 i ! 3))) (or (push_bit 16 (ucast (le32 i ! 2)))
     (or (push_bit 8 (ucast (le32 i ! 1))) (ucast (le32 i ! 0)))) = (word_of_int i :: 32 word)"
  proof (rule bit_word_eqI)
    show "bit (or (push_bit 24 (ucast (le32 i ! 3))) (or (push_bit 16 (ucast (le32 i ! 2)))
       (or (push_bit 8 (ucast (le32 i ! 1))) (ucast (le32 i ! 0)))) :: 32 word) n \<longleftrightarrow> bit (word_of_int i :: 32 word) n"
      if "n < LENGTH(32)" for n
      using that by (cases "n < 8"; cases "n < 16"; cases "n < 24") (auto simp: le32_def bit_simps)
  qed
  then show ?thesis using signed_id32[OF i] by (simp add: toInt_def)
qed

lemma toShort_le16: "- (2 ^ 15) \<le> i \<Longrightarrow> i < 2 ^ 15 \<Longrightarrow> toShort (le16 i) = i"
proof -
  assume i: "- (2 ^ 15) \<le> i" "i < 2 ^ 15"
  have "ucast (or (push_bit 8 (ucast (le16 i ! 1))) (ucast (le16 i ! 0)) :: 32 word) = (word_of_int i :: 16 word)"
    by (rule bit_word_eqI) (auto simp: le16_def bit_simps)
  then show ?thesis using i by (simp add: toShort_def sint_sbintrunc' signed_take_bit_int_eq_self)
qed

text \<open>A stream between the bytes read and those left.\<close>

definition stream_at :: "byte list \<Rightarrow> byte list \<Rightarrow> ifile" where
  "stream_at pre rest = \<lparr>is_bytes = pre @ rest, is_pos = length pre, is_good = True\<rparr>"

lemma read_bytes_at: "length a = n \<Longrightarrow> read_bytes n (stream_at pre (a @ r)) = Inr (a, stream_at (pre @ a) r)"
  by (auto simp: read_bytes_def is_read_def is_rest_def stream_at_def buffer_value_def Let_def comp_def)

lemma ignore_at: "length a = n \<Longrightarrow> is_ignore n (stream_at pre (a @ r)) = stream_at (pre @ a) r"
  by (simp add: is_ignore_def is_rest_def stream_at_def Let_def)

lemma readInt_at: "in_int i \<Longrightarrow> readInt (stream_at pre (le32 i @ r)) = Inr (i, stream_at (pre @ le32 i) r)"
  by (simp add: readInt_def read_bytes_at toInt_le32)

lemma readShort_at:
  "- (2 ^ 15) \<le> i \<Longrightarrow> i < 2 ^ 15 \<Longrightarrow> readShort (stream_at pre (le16 i @ r)) = Inr (i, stream_at (pre @ le16 i) r)"
  by (simp add: readShort_def read_bytes_at toShort_le16)

lemma in_int_small: "- 1000 \<le> i \<Longrightarrow> i \<le> 1000 \<Longrightarrow> in_int i"
  by (simp add: in_int_def)

lemma read_v3_at:
  assumes "in_int w" "in_int h" "length planes = 2"
  shows "read_v3 (stream_at pre (le32 w @ le32 h @ planes @ le16 24 @ le16 0 @ r)) =
    Inr (w, h, stream_at (pre @ le32 w @ le32 h @ planes @ le16 24 @ le16 0) r)"
  using assms by (simp add: read_v3_def readInt_at readShort_at ignore_at check_that_def)

lemma read_header_at:
  assumes "in_int (int w)" "in_int (int h)" "length skipped = 8" "length planes = 2" "length others = 22"
  shows "\<exists>pre rest. read_header (stream_at [] (bmp_file skipped planes others w h px)) =
      Inr (\<lparr>bm_offset = 54, bm_width = int w, bm_height = int h\<rparr>, stream_at pre rest) \<and>
      drop 54 (pre @ rest) = file_pixels w h px"
proof -
  let ?pre = "[66, 77] @ skipped @ le32 54 @ le32 40 @ le32 (int w) @ le32 (int h) @ planes @ le16 24 @ le16 0"
  have "read_bytes 2 (stream_at [] ([66, 77] @ r)) = Inr ([66, 77], stream_at [66, 77] r)" for r
    using read_bytes_at[of "[66, 77]" 2 "[]" r] by simp
  then have "read_header (stream_at [] (bmp_file skipped planes others w h px)) =
      Inr (\<lparr>bm_offset = 54, bm_width = int w, bm_height = int h\<rparr>, stream_at ?pre (others @ file_pixels w h px))"
    using ignore_at[of skipped 8 "[66, 77]"] assms
    by (simp add: read_header_def bmp_file_def check_that_def readInt_at in_int_small read_dimensions_def
        read_v3_at del: append.simps)
  moreover have "drop 54 (?pre @ others @ file_pixels w h px) = file_pixels w h px"
    using assms by simp
  ultimately show ?thesis by blast
qed

lemma file_pixels_length [simp]: "length (file_pixels w h px) = row_size w * h"
  by (simp add: file_pixels_def)

lemma file_pixels_nth:
  assumes "y < h" "r < row_size w"
  shows "file_pixels w h px ! (row_size w * y + r) =
    (if r < 3 * w then px ! (3 * (w * y + r div 3) + (2 - r mod 3)) else 0)"
proof -
  have "row_size w * y + row_size w \<le> row_size w * h"
    using assms(1) by (metis Suc_leI mult_Suc_right mult_le_mono2 add.commute)
  then have "row_size w * y + r < row_size w * h" using assms(2) by linarith
  then show ?thesis
    using assms(2) unfolding file_pixels_def by (simp add: Let_def)
qed

lemma file_pixels_source:
  assumes "y < h" "x < w" "c < 3"
  shows "file_pixels w h px ! (row_size w * y + (3 * x + (2 - c))) = px ! (3 * (w * y + x) + c)"
proof -
  have r: "3 * x + (2 - c) < 3 * w" "3 * w \<le> row_size w" "(3 * x + (2 - c)) div 3 = x"
    using assms by (simp_all add: row_size_def)
  moreover have "(3 * x + (2 - c)) mod 3 = 2 - c" unfolding mod_mult_self4 by simp
  ultimately show ?thesis
    using assms(1,3) file_pixels_nth[of y h "3 * x + (2 - c)" w px] by simp
qed

text \<open>The bytes of an image, by row, column and component.\<close>

lemma pixel_cases:
  fixes j w h :: nat
  assumes "j < 3 * w * h"
  obtains y x c where "j = 3 * (w * y + x) + c" "y < h" "x < w" "c < 3"
proof
  have w: "0 < 3 * w" using assms by (cases w) auto
  show "j = 3 * (w * (j div (3 * w)) + j mod (3 * w) div 3) + j mod (3 * w) mod 3"
  proof -
    have "j = 3 * w * (j div (3 * w)) + j mod (3 * w)" by simp
    also have "j mod (3 * w) = 3 * (j mod (3 * w) div 3) + j mod (3 * w) mod 3" by simp
    finally show ?thesis by (simp add: algebra_simps)
  qed
  show "j div (3 * w) < h" using assms w by (simp add: less_mult_imp_div_less mult.commute)
  have "j mod (3 * w) < 3 * w" using w by simp
  then show "j mod (3 * w) div 3 < w" by linarith
qed simp

lemma row_len_le: "row_len w \<le> row_size w"
  by (auto simp: row_len_def row_size_def)

lemma data_of_file:
  assumes "drop 54 (pre @ rest) = file_pixels w h px"
  shows "fst (is_read (row_len w * h) (is_seek 54 (stream_at pre rest))) = map Some (take (row_len w * h) (file_pixels w h px))"
proof -
  have "row_len w * h \<le> row_size w * h" using row_len_le by simp
  moreover have "is_rest (is_seek 54 (stream_at pre rest)) = file_pixels w h px"
    using assms by (simp add: is_rest_def is_seek_def stream_at_def)
  moreover have "is_good (is_seek 54 (stream_at pre rest))"
    by (simp add: is_seek_def stream_at_def)
  ultimately show ?thesis by (simp add: is_read_def Let_def min_absorb2)
qed

section \<open>Round trip\<close>

definition has_file :: "(string \<Rightarrow> byte list option) \<Rightarrow> string \<Rightarrow> byte list \<Rightarrow> bool" where
  "has_file files filename bytes \<longleftrightarrow>
     length (data_dir @ filename) < 256 \<and> files (data_dir @ filename) = Some bytes"

text \<open>Loading a file of the format: the rows are taken at the computed length.\<close>

lemma loadBMP_file:
  assumes "fits w h" "in_int (int h)" "length skipped = 8" "length planes = 2" "length others = 22"
    and "has_file files filename (bmp_file skipped planes others w h px)"
  shows "\<exists>s. loadBMP files filename = load_data \<lparr>bm_offset = 54, bm_width = int w, bm_height = int h\<rparr> s \<and>
    fst (is_read (row_len w * h) (is_seek 54 s)) = map Some (take (row_len w * h) (file_pixels w h px))"
proof -
  have "in_int (int w)" using assms(1) by (simp add: fits_def in_int_def)
  then obtain pre rest where
    "read_header (stream_at [] (bmp_file skipped planes others w h px)) =
        Inr (\<lparr>bm_offset = 54, bm_width = int w, bm_height = int h\<rparr>, stream_at pre rest)"
    "drop 54 (pre @ rest) = file_pixels w h px"
    using read_header_at[OF _ assms(2-5)] by blast
  then have "loadBMP files filename =
      load_data \<lparr>bm_offset = 54, bm_width = int w, bm_height = int h\<rparr> (stream_at pre rest) \<and>
      fst (is_read (row_len w * h) (is_seek 54 (stream_at pre rest))) = map Some (take (row_len w * h) (file_pixels w h px))"
    using assms(6) data_of_file by (simp add: loadBMP_def has_file_def stream_at_def)
  then show ?thesis by blast
qed

lemma loadBMP_reads:
  assumes "fits w h" "in_int (int h)" "length skipped = 8" "length planes = 2" "length others = 22"
    and "has_file files filename (bmp_file skipped planes others w h px)" "w mod 4 \<noteq> 1"
  shows "\<exists>img. loadBMP files filename = Inr img \<and> im_width img = int w \<and> im_height img = int h \<and>
    length (im_pixels img) = 3 * w * h \<and>
    (\<forall>y x c. y < h \<longrightarrow> x < w \<longrightarrow> c < 3 \<longrightarrow>
       im_pixels img ! (3 * (w * y + x) + c) = Some (file_pixels w h px ! (row_len w * y + 3 * x + (2 - c))))"
proof -
  let ?info = "\<lparr>bm_offset = 54, bm_width = int w, bm_height = int h\<rparr>"
  obtain s where s: "loadBMP files filename = load_data ?info s"
    "fst (is_read (row_len w * h) (is_seek 54 s)) = map Some (take (row_len w * h) (file_pixels w h px))"
    using loadBMP_file[OF assms(1-6)] by blast
  obtain img where img: "load_data ?info s = Inr img" "im_width img = int w" "im_height img = int h"
    "length (im_pixels img) = 3 * w * h"
    "\<forall>j<3 * w * h. im_pixels img ! j =
       map Some (take (row_len w * h) (file_pixels w h px)) ! source_index (row_len w) w j"
    using load_data_reads[OF assms(1) _ _ assms(7), of ?info s] s(2) by auto
  have "im_pixels img ! (3 * (w * y + x) + c) = Some (file_pixels w h px ! (row_len w * y + 3 * x + (2 - c)))"
    if p: "y < h" "x < w" "c < 3" for y x c
  proof -
    have k: "row_len w * y + 3 * x + (2 - c) < row_len w * h" by (rule row_inside[OF assms(7) p(2,1,3)])
    also have "\<dots> \<le> row_size w * h" using row_len_le by simp
    finally show ?thesis
      using k pixel_in_image[OF p(2,1,3)] img(5) source_index_pixel[OF p(2,3), of "row_len w" y] by simp
  qed
  then show ?thesis using s(1) img by auto
qed

definition image_of :: "nat \<Rightarrow> nat \<Rightarrow> byte list \<Rightarrow> bmp_image" where
  "image_of w h px = \<lparr>im_pixels = map Some px, im_width = int w, im_height = int h\<rparr>"

lemma loadBMP_correct:
  assumes "fits w h" "in_int (int h)" "length skipped = 8" "length planes = 2" "length others = 22"
    and "has_file files filename (bmp_file skipped planes others w h px)" "length px = 3 * w * h"
    and rows: "w mod 4 = 0 \<or> (h \<le> 1 \<and> w mod 4 \<noteq> 1)"
  shows "loadBMP files filename = Inr (image_of w h px)"
proof -
  obtain img where img: "loadBMP files filename = Inr img" "im_width img = int w" "im_height img = int h"
    "length (im_pixels img) = 3 * w * h"
    "\<forall>y x c. y < h \<longrightarrow> x < w \<longrightarrow> c < 3 \<longrightarrow>
       im_pixels img ! (3 * (w * y + x) + c) = Some (file_pixels w h px ! (row_len w * y + 3 * x + (2 - c)))"
    using loadBMP_reads[OF assms(1-6)] rows by fastforce
  have "im_pixels img ! j = Some (px ! j)" if "j < 3 * w * h" for j
    using that
  proof (cases j rule: pixel_cases)
    case (1 y x c)
    then have "row_len w * y = row_size w * y" using rows by (auto simp: row_len_def row_size_def)
    then have "row_len w * y + 3 * x + (2 - c) = row_size w * y + (3 * x + (2 - c))" by (simp only: add.assoc)
    then show ?thesis
      unfolding 1(1) using img(5) file_pixels_source[OF 1(2-4), of px] 1(2-4) by metis
  qed
  then have "im_pixels img = map Some px"
    using img(4) assms(7) by (intro nth_equalityI) auto
  then show ?thesis using img(1-3) by (simp add: image_of_def)
qed

text \<open>An image of ones shows the shift: the second row begins with a byte of padding.\<close>

lemma loadBMP_shifted:
  assumes "fits w h" "in_int (int h)" "length skipped = 8" "length planes = 2" "length others = 22"
    and "has_file files filename (bmp_file skipped planes others w h (replicate (3 * w * h) 1))"
    and "2 \<le> h" "w mod 4 = 2 \<or> w mod 4 = 3"
  shows "loadBMP files filename \<noteq> Inr (image_of w h (replicate (3 * w * h) 1))"
proof
  let ?px = "replicate (3 * w * h) 1 :: byte list"
  assume eq: "loadBMP files filename = Inr (image_of w h ?px)"
  have "w \<noteq> 0" using assms(8) by (metis mod_0 zero_neq_numeral)
  then have w: "0 < w" "w mod 4 \<noteq> 1" using assms(8) by auto
  obtain img where img: "loadBMP files filename = Inr img"
    "\<forall>y x c. y < h \<longrightarrow> x < w \<longrightarrow> c < 3 \<longrightarrow>
       im_pixels img ! (3 * (w * y + x) + c) = Some (file_pixels w h ?px ! (row_len w * y + 3 * x + (2 - c)))"
    using loadBMP_reads[OF assms(1-6) w(2)] by blast
  have "1 < h" "(2::nat) < 3" using assms(7) by simp_all
  then have "im_pixels img ! (3 * (w * 1 + 0) + 2) = Some (file_pixels w h ?px ! (row_len w * 1 + 3 * 0 + (2 - 2)))"
    using img(2) w(1) by blast
  moreover have "img = image_of w h ?px" using eq img(1) by (metis sum.inject(2))
  moreover have "map Some ?px ! (3 * (w * 1 + 0) + 2) = Some 1"
    using pixel_in_image[OF w(1) \<open>1 < h\<close> \<open>(2::nat) < 3\<close>] by simp
  moreover have "file_pixels w h ?px ! (row_len w) = 0"
    using file_pixels_nth[of 0 h "row_len w" w ?px] assms(7,8) by (auto simp: row_len_def row_size_def)
  ultimately show False by (simp add: image_of_def)
qed

text \<open>C20: \<open>loadBMP\<close> returns every image of a file with the plain 24-bit format, RGB and from the bottom row
  up, exactly when the width is a multiple of four, or there is at most one row (and it is not read out of
  bounds). For other widths some image comes out wrong: the row length subtracts what it should not.\<close>

theorem bmp_roundtrip:
  assumes "fits w h" "in_int (int h)" "length skipped = 8" "length planes = 2" "length others = 22"
    and "length (data_dir @ filename) < 256"
  shows "(\<forall>px. length px = 3 * w * h \<longrightarrow>
      loadBMP (\<lambda>_. Some (bmp_file skipped planes others w h px)) filename = Inr (image_of w h px)) \<longleftrightarrow>
    w mod 4 = 0 \<or> h = 0 \<or> (h = 1 \<and> w mod 4 \<noteq> 1)"
proof -
  let ?L = "\<lambda>px. loadBMP (\<lambda>_. Some (bmp_file skipped planes others w h px)) filename"
  have named: "has_file (\<lambda>_. Some (bmp_file skipped planes others w h px)) filename (bmp_file skipped planes others w h px)" for px
    using assms(6) by (simp add: has_file_def)
  have good: "?L px = Inr (image_of w h px)"
    if "w mod 4 = 0 \<or> h \<le> 1 \<and> w mod 4 \<noteq> 1" "length px = 3 * w * h" for px
    by (rule loadBMP_correct[OF assms(1-5) named that(2,1)])
  have shifted: "?L (replicate (3 * w * h) 1) \<noteq> Inr (image_of w h (replicate (3 * w * h) 1))"
    if "2 \<le> h" "w mod 4 = 2 \<or> w mod 4 = 3"
    by (rule loadBMP_shifted[OF assms(1-5) named that])
  obtain s where s: "?L (replicate (3 * w * h) 1) = load_data \<lparr>bm_offset = 54, bm_width = int w, bm_height = int h\<rparr> s"
    using loadBMP_file[OF assms(1-5) named] by blast
  then have overrun: "?L (replicate (3 * w * h) 1) = Inl Undefined" if "w mod 4 = 1" "0 < h"
    using load_data_overruns[OF assms(1) _ _ that] by simp
  have none: "?L px = Inr (image_of w h px)" if "h = 0" "length px = 3 * w * h" for px
  proof -
    obtain s where "?L px = load_data \<lparr>bm_offset = 54, bm_width = int w, bm_height = int h\<rparr> s"
      using loadBMP_file[OF assms(1-5) named] by blast
    then show ?thesis using load_data_fits[OF assms(1)] that by (simp add: reorder_def image_of_def)
  qed
  have bad: "\<exists>px. length px = 3 * w * h \<and> ?L px \<noteq> Inr (image_of w h px)"
    if "\<not> (w mod 4 = 0 \<or> h = 0 \<or> (h = 1 \<and> w mod 4 \<noteq> 1))"
  proof -
    have "(2 \<le> h \<and> (w mod 4 = 2 \<or> w mod 4 = 3)) \<or> (w mod 4 = 1 \<and> 0 < h)" using that by linarith
    then have "?L (replicate (3 * w * h) 1) \<noteq> Inr (image_of w h (replicate (3 * w * h) 1))"
      using shifted overrun by (elim disjE conjE) auto
    then show ?thesis by (metis length_replicate)
  qed
  have "?L px = Inr (image_of w h px)"
    if "w mod 4 = 0 \<or> h = 0 \<or> (h = 1 \<and> w mod 4 \<noteq> 1)" "length px = 3 * w * h" for px
    using that(1) good[OF _ that(2)] none[OF _ that(2)] by auto
  with bad show ?thesis by (intro iffI) (blast, simp)
qed

theorem bmp_roundtrip_witness:
  "\<not> (\<forall>px. length px = 36 \<longrightarrow>
      loadBMP (\<lambda>_. Some (bmp_file (replicate 8 0) [1, 0] (replicate 22 0) 6 2 px)) ''a.bmp'' = Inr (image_of 6 2 px))"
  using bmp_roundtrip[of 6 2 "replicate 8 0" "[1, 0]" "replicate 22 0" "''a.bmp''"]
  by (simp add: fits_def in_int_def row_len_def data_dir_def)

end
