(* ===== verification/AutoArray.thy ===== *)
theory AutoArray
  imports Bitmap
begin

text \<open>
  The owning pointer \<open>auto_array\<close> of \<open>tcube.cpp\<close> and the arrays of \<open>loadBMP\<close> and \<open>Image\<close>. Objects are
  addressed by the order of their construction; \<open>as_live\<close> are the arrays allocated and not deleted, and
  \<open>as_client\<close> the pointers that calls of \<open>release\<close> have handed over, each to be deleted once by who got it. The mutable flag moves the ownership from the source of
  a copy, which is why copying needs the heap of objects here.
\<close>

section \<open>State and operations\<close>

record auto_array =
  aa_array :: "nat option"    \<comment> \<open>None is NULL\<close>
  aa_released :: bool

record arrays =
  as_objs :: "auto_array option list"   \<comment> \<open>None after the destructor\<close>
  as_live :: "nat set"
  as_client :: "nat multiset"
  as_next :: nat

definition arrays0 :: arrays where
  "arrays0 = \<lparr>as_objs = [], as_live = {}, as_client = {#}, as_next = 0\<rparr>"

datatype misuse = NotAlive | DoubleDelete

text \<open>The argument of a constructor or of \<open>reset\<close>: a new array, or NULL.\<close>

datatype aa_op =
    Construct bool
  | CopyConstruct nat
  | Destroy nat
  | Assign nat nat        \<comment> \<open>target, source\<close>
  | Release nat
  | Reset nat bool
  | ClientDelete nat      \<comment> \<open>\<open>delete[]\<close> by the owner of a released array, as in \<open>~Image\<close>\<close>

definition allocate :: "bool \<Rightarrow> arrays \<Rightarrow> nat option \<times> arrays" where
  "allocate b s =
     (if b then (Some (as_next s), s\<lparr>as_live := insert (as_next s) (as_live s), as_next := Suc (as_next s)\<rparr>)
      else (None, s))"

definition delete_array :: "nat \<Rightarrow> arrays \<Rightarrow> misuse + arrays" where
  "delete_array p s = (if p \<in> as_live s then Inr (s\<lparr>as_live := as_live s - {p}\<rparr>) else Inl DoubleDelete)"

text \<open>\<open>if (!isReleased && array != NULL) delete[] array\<close>.\<close>

definition drop_array :: "auto_array \<Rightarrow> arrays \<Rightarrow> misuse + arrays" where
  "drop_array a s =
     (if aa_released a then Inr s else case aa_array a of None \<Rightarrow> Inr s | Some p \<Rightarrow> delete_array p s)"

definition aa_obj :: "nat \<Rightarrow> arrays \<Rightarrow> auto_array option" where
  "aa_obj x s = (if x < length (as_objs s) then as_objs s ! x else None)"

definition set_obj :: "nat \<Rightarrow> auto_array option \<Rightarrow> arrays \<Rightarrow> arrays" where
  "set_obj x a s = s\<lparr>as_objs := (as_objs s)[x := a]\<rparr>"

definition with_obj :: "nat \<Rightarrow> arrays \<Rightarrow> (auto_array \<Rightarrow> misuse + arrays) \<Rightarrow> misuse + arrays" where
  "with_obj x s f = (case aa_obj x s of None \<Rightarrow> Inl NotAlive | Some a \<Rightarrow> f a)"

definition released :: "auto_array \<Rightarrow> auto_array" where
  "released a = a\<lparr>aa_released := True\<rparr>"

definition aa_ctor :: "bool \<Rightarrow> arrays \<Rightarrow> arrays" where
  "aa_ctor b s =
     (let (p, s) = allocate b s in s\<lparr>as_objs := as_objs s @ [Some \<lparr>aa_array = p, aa_released = False\<rparr>]\<rparr>)"

definition aa_copy :: "nat \<Rightarrow> arrays \<Rightarrow> misuse + arrays" where
  "aa_copy y s = with_obj y s (\<lambda>a.
     Inr (let s = s\<lparr>as_objs := as_objs s @ [Some a]\<rparr> in set_obj y (Some (released a)) s))"

definition aa_dtor :: "nat \<Rightarrow> arrays \<Rightarrow> misuse + arrays" where
  "aa_dtor x s = with_obj x s (\<lambda>a. andThen (drop_array a s) (\<lambda>s. Inr (set_obj x None s)))"

text \<open>An assignment to itself is no special case: the array is deleted, then the object marked.\<close>

definition aa_assign :: "nat \<Rightarrow> nat \<Rightarrow> arrays \<Rightarrow> misuse + arrays" where
  "aa_assign x y s = with_obj x s (\<lambda>a. with_obj y s (\<lambda>b.
     andThen (drop_array a s) (\<lambda>s. Inr (set_obj y (Some (released b)) (set_obj x (Some b) s)))))"

text \<open>\<open>release\<close> returns the pointer whatever the flag was.\<close>

definition aa_release :: "nat \<Rightarrow> arrays \<Rightarrow> misuse + arrays" where
  "aa_release x s = with_obj x s (\<lambda>a.
     let s = set_obj x (Some (released a)) s
     in Inr (case aa_array a of None \<Rightarrow> s | Some p \<Rightarrow> s\<lparr>as_client := add_mset p (as_client s)\<rparr>))"

text \<open>\<open>reset(array_)\<close> leaves \<open>isReleased\<close> as it is.\<close>

definition aa_reset :: "nat \<Rightarrow> bool \<Rightarrow> arrays \<Rightarrow> misuse + arrays" where
  "aa_reset x b s = with_obj x s (\<lambda>a.
     let (p, s) = allocate b s
     in andThen (drop_array a s) (\<lambda>s. Inr (set_obj x (Some (a\<lparr>aa_array := p\<rparr>)) s)))"

definition client_delete :: "nat \<Rightarrow> arrays \<Rightarrow> misuse + arrays" where
  "client_delete p s =
     (if p \<in># as_client s
      then andThen (delete_array p s) (\<lambda>s. Inr (s\<lparr>as_client := as_client s - {#p#}\<rparr>))
      else Inl NotAlive)"

fun aa_exec :: "aa_op \<Rightarrow> arrays \<Rightarrow> misuse + arrays" where
  "aa_exec (Construct b) s = Inr (aa_ctor b s)"
| "aa_exec (CopyConstruct y) s = aa_copy y s"
| "aa_exec (Destroy x) s = aa_dtor x s"
| "aa_exec (Assign x y) s = aa_assign x y s"
| "aa_exec (Release x) s = aa_release x s"
| "aa_exec (Reset x b) s = aa_reset x b s"
| "aa_exec (ClientDelete p) s = client_delete p s"

fun aa_exec_all :: "aa_op list \<Rightarrow> arrays \<Rightarrow> misuse + arrays" where
  "aa_exec_all [] s = Inr s"
| "aa_exec_all (c # cs) s = andThen (aa_exec c s) (aa_exec_all cs)"

section \<open>One owner per array\<close>

text \<open>The arrays an object would delete.\<close>

fun owned_by :: "auto_array option \<Rightarrow> nat multiset" where
  "owned_by None = {#}"
| "owned_by (Some a) = (if aa_released a then {#} else case aa_array a of None \<Rightarrow> {#} | Some p \<Rightarrow> {#p#})"

definition aa_owned :: "arrays \<Rightarrow> nat multiset" where
  "aa_owned s = sum_list (map owned_by (as_objs s))"

text \<open>
  Every live array has exactly one owner: an object, the client it was released to, or it is one of
  \<open>L\<close>, which nobody will delete. As an equation of multisets this says that owners are distinct.
\<close>

definition accounted :: "nat multiset \<Rightarrow> arrays \<Rightarrow> bool" where
  "accounted L s \<longleftrightarrow> finite (as_live s) \<and>
     aa_owned s + as_client s + L = mset_set (as_live s) \<and> (\<forall>p\<in>as_live s. p < as_next s)"

lemma sum_list_owned_update:
  "x < length os \<Longrightarrow>
   sum_list (map owned_by (os[x := a])) + owned_by (os ! x) = sum_list (map owned_by os) + owned_by a"
proof (induction os arbitrary: x)
  case (Cons b os)
  then show ?case by (cases x) (simp_all add: ac_simps)
qed simp

lemma owned_set_obj:
  "x < length (as_objs s) \<Longrightarrow> aa_owned (set_obj x a s) + owned_by (as_objs s ! x) = aa_owned s + owned_by a"
  by (simp add: aa_owned_def set_obj_def sum_list_owned_update)

lemma owned_snoc: "aa_owned (s\<lparr>as_objs := as_objs s @ [a]\<rparr>) = aa_owned s + owned_by a"
  by (simp add: aa_owned_def)

lemma owned_frame [simp]:
  "aa_owned (s\<lparr>as_live := l\<rparr>) = aa_owned s" "aa_owned (s\<lparr>as_client := c\<rparr>) = aa_owned s" "aa_owned (s\<lparr>as_next := n\<rparr>) = aa_owned s"
  by (simp_all add: aa_owned_def)

lemma released_simps [simp]: "aa_released (released a)" "aa_array (released a) = aa_array a"
  by (simp_all add: released_def)

lemma objD:
  assumes "aa_obj x s = Some a"
  shows "x < length (as_objs s)" "as_objs s ! x = Some a"
  using assms by (auto simp: aa_obj_def split: if_splits)

text \<open>Giving an array that is in flight to an object, and taking one from it.\<close>

lemma accounted_set_obj:
  assumes "accounted (L + owned_by b) s" "aa_obj x s = Some a"
  shows "accounted (L + owned_by (Some a)) (set_obj x b s)"
proof -
  note x = objD[OF assms(2)]
  have "aa_owned (set_obj x b s) + owned_by (Some a) = aa_owned s + owned_by b"
    using owned_set_obj[OF x(1), of b] x(2) by simp
  then show ?thesis
    using assms(1) by (simp add: accounted_def set_obj_def ac_simps)
qed

lemma accounted_snoc:
  "accounted (L + owned_by b) s \<Longrightarrow> accounted L (s\<lparr>as_objs := as_objs s @ [b]\<rparr>)"
  by (simp add: accounted_def owned_snoc ac_simps)

lemma accounted_allocate:
  assumes "accounted L s" "allocate b s = (p, t)"
  shows "accounted (L + (case p of None \<Rightarrow> {#} | Some q \<Rightarrow> {#q#})) t \<and> as_objs t = as_objs s"
proof -
  have "as_next s \<notin> as_live s" using assms(1) by (auto simp: accounted_def)
  then show ?thesis
    using assms by (auto simp: allocate_def accounted_def less_SucI split: if_splits)
qed

lemma accounted_delete:
  assumes "accounted (add_mset p L) s"
  shows "\<exists>t. delete_array p s = Inr t \<and> accounted L t \<and> as_objs t = as_objs s"
proof -
  have eq: "add_mset p (aa_owned s + as_client s + L) = mset_set (as_live s)" "finite (as_live s)"
    using assms by (simp_all add: accounted_def)
  then have p: "p \<in> as_live s" by (metis finite_set_mset_mset_set union_single_eq_member add_mset_add_single add.commute)
  have "mset_set (as_live s) = add_mset p (mset_set (as_live s - {p}))"
    using mset_set.remove[OF eq(2) p] by simp
  then have "aa_owned s + as_client s + L = mset_set (as_live s - {p})" using eq(1) by simp
  then show ?thesis
    using assms p by (auto simp: delete_array_def accounted_def)
qed

lemma accounted_drop:
  assumes "accounted (L + owned_by (Some a)) s"
  shows "\<exists>t. drop_array a s = Inr t \<and> accounted L t \<and> as_objs t = as_objs s"
  using assms accounted_delete[of _ L s]
  by (auto simp: drop_array_def split: option.splits if_splits)

section \<open>Every operation keeps the accounts\<close>

text \<open>The outcome of an operation: the accounts are kept, with the arrays of \<open>M\<close> lost.\<close>

definition keeps :: "nat multiset \<Rightarrow> (nat multiset \<Rightarrow> bool) \<Rightarrow> misuse + arrays \<Rightarrow> bool" where
  "keeps L Q r \<longleftrightarrow> (case r of Inl e \<Rightarrow> e = NotAlive | Inr t \<Rightarrow> \<exists>M. Q M \<and> accounted (L + M) t)"

lemma keepsI: "accounted L t \<Longrightarrow> Q {#} \<Longrightarrow> keeps L Q (Inr t)"
  by (auto simp: keeps_def intro: exI[of _ "{#}"])

lemma keeps_with_obj:
  "(\<And>a. aa_obj x s = Some a \<Longrightarrow> keeps L Q (f a)) \<Longrightarrow> keeps L Q (with_obj x s f)"
  by (simp add: with_obj_def keeps_def split: option.splits)

lemma ctor_keeps: "accounted L s \<Longrightarrow> accounted L (aa_ctor b s)"
proof -
  assume i: "accounted L s"
  obtain p t where p: "allocate b s = (p, t)" by fastforce
  have "accounted (L + owned_by (Some \<lparr>aa_array = p, aa_released = False\<rparr>)) t"
    using accounted_allocate[OF i p] by simp
  from accounted_snoc[OF this] p show ?thesis by (simp add: aa_ctor_def)
qed

lemma copy_keeps:
  assumes "accounted L s" "aa_obj y s = Some a"
  shows "accounted L (set_obj y (Some (released a)) (s\<lparr>as_objs := as_objs s @ [Some a]\<rparr>))"
proof -
  note y = objD[OF assms(2)]
  have "accounted (L + owned_by (Some a)) (set_obj y (Some (released a)) s)"
    using accounted_set_obj[of L "Some (released a)" s y a] assms by simp
  from accounted_snoc[OF this] y show ?thesis by (simp add: set_obj_def list_update_append)
qed

lemma drop_set_obj:
  "andThen (drop_array a s) (\<lambda>s. Inr (set_obj x b s)) = drop_array a (set_obj x b s)"
  by (simp add: drop_array_def delete_array_def set_obj_def split: option.splits)

lemma dtor_keeps:
  assumes "accounted L s" "aa_obj x s = Some a" "owned_by b = {#}"
  shows "keeps L (\<lambda>M. M = {#}) (andThen (drop_array a s) (\<lambda>s. Inr (set_obj x b s)))"
proof -
  have "accounted (L + owned_by (Some a)) (set_obj x b s)"
    using accounted_set_obj[of L b s x a] assms by simp
  from accounted_drop[OF this] show ?thesis
    unfolding drop_set_obj by (auto simp: keepsI)
qed

lemma obj_set_obj: "aa_obj x s = Some a \<Longrightarrow> aa_obj x (set_obj y b s) = (if y = x then b else Some a)"
  by (auto simp: aa_obj_def set_obj_def nth_list_update split: if_splits)

lemma assign_keeps:
  assumes "accounted L s" "aa_obj x s = Some a" "aa_obj y s = Some b"
  shows "keeps L (\<lambda>M. M = {#})
    (andThen (drop_array a s) (\<lambda>s. Inr (set_obj y (Some (released b)) (set_obj x (Some b) s))))"
proof (cases "x = y")
  case True
  then have "set_obj y (Some (released b)) (set_obj x (Some b) t) = set_obj x (Some (released b)) t" for t
    by (simp add: set_obj_def)
  then show ?thesis using dtor_keeps[OF assms(1,2), of "Some (released b)"] by simp
next
  case False
  have "accounted (L + owned_by (Some b)) (set_obj y (Some (released b)) s)"
    using accounted_set_obj[of L "Some (released b)" s y b] assms by simp
  moreover have "aa_obj x (set_obj y (Some (released b)) s) = Some a"
    using False assms(2) by (simp add: obj_set_obj)
  ultimately have "accounted (L + owned_by (Some a)) (set_obj x (Some b) (set_obj y (Some (released b)) s))"
    by (rule accounted_set_obj)
  from accounted_drop[OF this]
  obtain t where t: "drop_array a (set_obj x (Some b) (set_obj y (Some (released b)) s)) = Inr t" "accounted L t"
    by blast
  have "set_obj y (Some (released b)) (set_obj x (Some b) u) = set_obj x (Some b) (set_obj y (Some (released b)) u)" for u
    using False by (simp add: set_obj_def list_update_swap)
  then have "andThen (drop_array a s) (\<lambda>s. Inr (set_obj y (Some (released b)) (set_obj x (Some b) s))) = Inr t"
    using t(1) by (simp add: drop_set_obj[symmetric] andThen_def split: sum.splits)
  then show ?thesis using t(2) by (simp add: keepsI)
qed

lemma release_keeps:
  assumes "accounted L s" "aa_obj x s = Some a" "\<not> aa_released a \<or> aa_array a = None"
  shows "accounted L (let s = set_obj x (Some (released a)) s
     in case aa_array a of None \<Rightarrow> s | Some p \<Rightarrow> s\<lparr>as_client := add_mset p (as_client s)\<rparr>)"
proof -
  let ?t = "set_obj x (Some (released a)) s"
  have i: "accounted (L + owned_by (Some a)) ?t"
    using accounted_set_obj[of L "Some (released a)" s x a] assms by simp
  show ?thesis
  proof (cases "aa_array a")
    case None
    then show ?thesis using i by (auto simp: Let_def split: if_splits)
  next
    case (Some p)
    then have "accounted (add_mset p L) ?t" using i assms(3) by simp
    then show ?thesis using Some by (simp add: accounted_def Let_def)
  qed
qed

text \<open>A \<open>release\<close> of an object whose flag is set already: the pointer it returns is not its own.\<close>

fun flagged_release :: "arrays \<Rightarrow> aa_op \<Rightarrow> bool" where
  "flagged_release s (Release x) = (\<exists>a. aa_obj x s = Some a \<and> aa_released a \<and> aa_array a \<noteq> None)"
| "flagged_release s _ = False"

text \<open>A \<open>reset\<close> with a new array after \<open>release\<close>, or after the ownership moved away.\<close>

fun late_reset :: "arrays \<Rightarrow> aa_op \<Rightarrow> bool" where
  "late_reset s (Reset x True) = (\<exists>a. aa_obj x s = Some a \<and> aa_released a)"
| "late_reset s _ = False"

lemma reset_keeps:
  assumes "accounted L s" "aa_obj x s = Some a"
  shows "keeps L (\<lambda>M. M = {#} \<or> (b \<and> aa_released a))
    (let (p, s) = allocate b s in andThen (drop_array a s) (\<lambda>s. Inr (set_obj x (Some (a\<lparr>aa_array := p\<rparr>)) s)))"
proof -
  obtain p t where p: "allocate b s = (p, t)" by fastforce
  let ?P = "case p of None \<Rightarrow> {#} | Some q \<Rightarrow> {#q#}" and ?n = "Some (a\<lparr>aa_array := p\<rparr>)"
  have t: "accounted (L + ?P) t" "as_objs t = as_objs s" using accounted_allocate[OF assms(1) p] by auto
  then have x: "aa_obj x t = Some a" using assms(2) by (auto simp: aa_obj_def split: if_splits)
  have "keeps L (\<lambda>M. M = {#} \<or> (b \<and> aa_released a)) (drop_array a (set_obj x ?n t))"
  proof (cases "aa_released a")
    case True
    then have "accounted ((L + ?P) + owned_by (Some a)) (set_obj x ?n t)"
      using accounted_set_obj[of "L + ?P" ?n t x a] t x by simp
    moreover have "?P = {#} \<or> b" using p by (auto simp: allocate_def split: if_splits)
    ultimately show ?thesis using True by (auto simp: drop_array_def keeps_def)
  next
    case False
    then have "accounted (L + owned_by (Some a)) (set_obj x ?n t)"
      using accounted_set_obj[of L ?n t x a] t x by simp
    from accounted_drop[OF this] show ?thesis by (auto simp: keepsI)
  qed
  then show ?thesis by (simp add: p drop_set_obj)
qed

lemma client_delete_keeps:
  assumes "accounted L s"
  shows "keeps L (\<lambda>M. M = {#}) (client_delete p s)"
proof (cases "p \<in># as_client s")
  case True
  let ?s = "s\<lparr>as_client := as_client s - {#p#}\<rparr>"
  obtain C where "as_client s = add_mset p C" using True by (rule mset_add)
  then have "accounted (add_mset p L) ?s" using assms by (simp add: accounted_def)
  from accounted_delete[OF this] obtain t where t: "delete_array p ?s = Inr t" "accounted L t" by blast
  have "client_delete p s = delete_array p ?s"
    using True by (simp add: client_delete_def delete_array_def)
  then show ?thesis using t by (simp add: keepsI)
qed (simp add: client_delete_def keeps_def)

lemma keeps_mono: "keeps L Q r \<Longrightarrow> (\<And>M. Q M \<Longrightarrow> R M) \<Longrightarrow> keeps L R r"
  by (auto simp: keeps_def split: sum.splits)

lemma exec_keeps:
  assumes "accounted L s" "\<not> flagged_release s c"
  shows "keeps L (\<lambda>M. M = {#} \<or> late_reset s c) (aa_exec c s)"
proof (cases c)
  case (Construct b)
  then show ?thesis using ctor_keeps[OF assms(1)] by (simp add: keepsI)
next
  case (CopyConstruct y)
  then show ?thesis
    using copy_keeps[OF assms(1)] by (auto simp: aa_copy_def Let_def intro!: keeps_with_obj keepsI)
next
  case (Destroy x)
  then show ?thesis
    using dtor_keeps[OF assms(1), of x _ None] by (auto simp: aa_dtor_def intro!: keeps_with_obj elim: keeps_mono)
next
  case (Assign x y)
  then show ?thesis
    using assign_keeps[OF assms(1)] by (auto simp: aa_assign_def intro!: keeps_with_obj elim: keeps_mono)
next
  case (Release x)
  then show ?thesis
    using release_keeps[OF assms(1), of x] assms(2) unfolding Let_def
    by (auto simp: aa_release_def Let_def intro!: keeps_with_obj keepsI)
next
  case (Reset x b)
  have "keeps L (\<lambda>M. M = {#} \<or> late_reset s c) (aa_reset x b s)"
    unfolding aa_reset_def
  proof (rule keeps_with_obj)
    fix a assume a: "aa_obj x s = Some a"
    have "b \<and> aa_released a \<longrightarrow> late_reset s c" using Reset a by (cases b) auto
    then show "keeps L (\<lambda>M. M = {#} \<or> late_reset s c)
      (let (p, s) = allocate b s in andThen (drop_array a s) (\<lambda>s. Inr (set_obj x (Some (a\<lparr>aa_array := p\<rparr>)) s)))"
      using reset_keeps[OF assms(1) a, of b] by (elim keeps_mono) blast
  qed
  then show ?thesis using Reset by simp
next
  case (ClientDelete p)
  then show ?thesis using client_delete_keeps[OF assms(1), of p] by (auto elim: keeps_mono)
qed

text \<open>Whether a sequence of operations has a \<open>reset\<close> that loses its array.\<close>

fun has_late_reset :: "aa_op list \<Rightarrow> arrays \<Rightarrow> bool" where
  "has_late_reset [] s = False"
| "has_late_reset (c # cs) s =
     (late_reset s c \<or> (case aa_exec c s of Inl e \<Rightarrow> False | Inr t \<Rightarrow> has_late_reset cs t))"

text \<open>Whether it has a \<open>release\<close> of an object whose flag is set.\<close>

fun has_flagged_release :: "aa_op list \<Rightarrow> arrays \<Rightarrow> bool" where
  "has_flagged_release [] s = False"
| "has_flagged_release (c # cs) s =
     (flagged_release s c \<or> (case aa_exec c s of Inl e \<Rightarrow> False | Inr t \<Rightarrow> has_flagged_release cs t))"

lemma exec_all_keeps:
  "accounted L s \<Longrightarrow> \<not> has_flagged_release cs s \<Longrightarrow> keeps L (\<lambda>M. M = {#} \<or> has_late_reset cs s) (aa_exec_all cs s)"
proof (induction cs arbitrary: L s)
  case (Cons c cs)
  have own: "\<not> flagged_release s c" using Cons.prems(2) by simp
  show ?case
  proof (cases "aa_exec c s")
    case (Inl e)
    then show ?thesis using exec_keeps[OF Cons.prems(1) own] by (simp add: keeps_def)
  next
    case (Inr t)
    then obtain M where M: "M = {#} \<or> late_reset s c" "accounted (L + M) t"
      using exec_keeps[OF Cons.prems(1) own] by (auto simp: keeps_def)
    have add: "(\<exists>N. Q N \<and> accounted (L + M + N) u) \<Longrightarrow> \<exists>N. (\<exists>N'. N = M + N' \<and> Q N') \<and> accounted (L + N) u" for Q u
      by (metis add.assoc)
    have "keeps L (\<lambda>N. \<exists>N'. N = M + N' \<and> (N' = {#} \<or> has_late_reset cs t)) (aa_exec_all cs t)"
      using Cons.IH[OF M(2)] Cons.prems(2) Inr add by (auto simp: keeps_def split: sum.splits)
    then show ?thesis using Inr M(1) by (auto elim!: keeps_mono)
  qed
qed (simp add: keepsI)

lemma accounted0: "accounted {#} arrays0"
  by (simp add: accounted_def arrays0_def aa_owned_def)

lemma all_destroyed: "\<forall>a\<in>set (as_objs s). a = None \<Longrightarrow> aa_owned s = {#}"
proof -
  have "\<forall>a\<in>set os. a = None \<Longrightarrow> sum_list (map owned_by os) = {#}" for os
    by (induction os) auto
  then show "\<forall>a\<in>set (as_objs s). a = None \<Longrightarrow> aa_owned s = {#}" by (simp add: aa_owned_def)
qed

text \<open>C23: in any sequence of constructions, copies, assignments (to itself included), releases, resets and
  destructions of \<open>auto_array\<close> objects, and of deletions by those who got a released pointer, no array is
  deleted twice, as long as \<open>release\<close> is only called on objects that have not given up their array before:
  \<open>release\<close> does not look at the flag (the next lemma). When all objects are destroyed, the arrays that are
  left are exactly those that \<open>release\<close> handed over and that were not deleted, each handed over once, unless
  some \<open>reset\<close> gave a new array to an object that had released its own.\<close>

theorem auto_array_single_owner:
  assumes "\<not> has_flagged_release cs arrays0"
  shows "aa_exec_all cs arrays0 \<noteq> Inl DoubleDelete \<and>
   (\<forall>s. aa_exec_all cs arrays0 = Inr s \<longrightarrow> \<not> has_late_reset cs arrays0 \<longrightarrow> (\<forall>a\<in>set (as_objs s). a = None) \<longrightarrow>
      as_client s = mset_set (as_live s))"
proof -
  note k = exec_all_keeps[OF accounted0 assms]
  have "as_client s = mset_set (as_live s)"
    if s: "aa_exec_all cs arrays0 = Inr s" "\<not> has_late_reset cs arrays0" "\<forall>a\<in>set (as_objs s). a = None" for s
  proof -
    have "accounted {#} s" using k s(1,2) by (auto simp: keeps_def)
    then show ?thesis using all_destroyed[OF s(3)] by (simp add: accounted_def)
  qed
  then show ?thesis using k by (auto simp: keeps_def)
qed

theorem auto_array_single_owner_witness:
  "\<exists>s. aa_exec_all [Construct True, CopyConstruct 0, Assign 1 1, Construct True, Destroy 1, Release 2, Destroy 2, Destroy 0] arrays0 = Inr s \<and>
     as_client s = mset_set (as_live s) \<and> as_live s = {1}"
proof -
  let ?cs = "[Construct True, CopyConstruct 0, Assign 1 1, Construct True, Destroy 1, Release 2, Destroy 2, Destroy 0]"
  note ops = arrays0_def aa_ctor_def aa_copy_def aa_assign_def aa_release_def aa_dtor_def allocate_def with_obj_def
    aa_obj_def set_obj_def drop_array_def delete_array_def released_def Let_def
  have "\<exists>s. aa_exec_all ?cs arrays0 = Inr s \<and> as_objs s = [None, None, None] \<and> as_live s = {1}"
    by (simp add: ops)
  moreover have "\<not> has_late_reset ?cs arrays0" "\<not> has_flagged_release ?cs arrays0" by (simp_all add: ops)
  ultimately show ?thesis using auto_array_single_owner[of ?cs] by auto
qed

text \<open>A pointer can be handed over twice: by a copy that owns the array, and by its source, which does not.\<close>

lemma release_ignores_flag:
  "aa_exec_all [Construct True, CopyConstruct 0, Release 0, ClientDelete 0, Destroy 1] arrays0 = Inl DoubleDelete"
  "aa_exec_all [Construct True, Release 0, Release 0, ClientDelete 0, ClientDelete 0] arrays0 = Inl DoubleDelete"
  by (simp_all add: arrays0_def aa_ctor_def aa_copy_def aa_release_def aa_dtor_def allocate_def with_obj_def aa_obj_def
      set_obj_def drop_array_def delete_array_def released_def client_delete_def Let_def)

section \<open>The arrays of the loader\<close>

text \<open>
  \<open>loadBMP\<close> after the header: \<open>pixels\<close> is object 0 and \<open>pixels2\<close> object 1, released to the image. When the
  second \<open>new\<close> throws, only the first object exists.
\<close>

definition load_ops :: "bool \<Rightarrow> aa_op list" where
  "load_ops second =
     (if second then [Construct True, Construct True, Release 1, Destroy 1, Destroy 0] else [Construct True, Destroy 0])"

text \<open>The image owns the one array that is left, and its destructor frees it.\<close>

lemma load_arrays:
  "\<exists>s t. aa_exec_all (load_ops True) arrays0 = Inr s \<and> as_live s = {1} \<and> as_client s = {#1#} \<and>
     aa_exec (ClientDelete 1) s = Inr t \<and> as_live t = {}"
  "\<exists>s. aa_exec_all (load_ops False) arrays0 = Inr s \<and> as_live s = {}"
  by (auto simp: load_ops_def arrays0_def aa_ctor_def aa_release_def aa_dtor_def allocate_def with_obj_def aa_obj_def
      set_obj_def drop_array_def delete_array_def released_def client_delete_def Let_def)

text \<open>A late \<open>reset\<close> loses its array for good.\<close>

lemma late_reset_leaks:
  "\<exists>s. aa_exec_all [Construct True, Release 0, Reset 0 True, Destroy 0] arrays0 = Inr s \<and>
     as_objs s = [None] \<and> as_client s = {#0#} \<and> as_live s = {0, 1}"
  by (auto simp: arrays0_def aa_ctor_def aa_release_def aa_reset_def aa_dtor_def allocate_def with_obj_def aa_obj_def
      set_obj_def drop_array_def delete_array_def released_def Let_def)

end
