(* ===== verification/CubeScene.thy ===== *)
theory CubeScene
  imports Bitmap
begin

text \<open>
  The display of the cube in \<open>tcube.cpp\<close> (in the part that \<open>#if 0\<close> disables), as the sequence of OpenGL calls
  it makes. The identifiers that OpenGL returns for textures and lists are the parameters \<open>tex\<close> and \<open>lst\<close>, the
  files and the results of \<open>rand\<close> are parameters too. Coordinates are multiples of half the box, which are
  integers. Of the windows the handlers are modelled, which GLUT calls in any order.
\<close>

section \<open>Calls\<close>

datatype gl =
    GlEnable string
  | GlDisable string
  | GlClearColor
  | GlHint
  | GlGenTextures nat
  | GlBindTexture nat
  | GlTexImage int int
  | GlTexParameter string
  | GlBegin
  | GlTexCoord int int
  | GlVertex int int int
  | GlEnd
  | GlNewList nat
  | GlEndList
  | GlClear
  | GlMatrixMode string
  | GlLoadIdentity
  | GlTranslate int int int
  | GlRotate int
  | GlPushMatrix
  | GlPopMatrix
  | GlCallList nat
  | SwapBuffers
  | GlViewport int int int int
  | GluPerspective int int     \<comment> \<open>the aspect as width and height\<close>
  | GluLookAt
  | PostRedisplay

section \<open>The small cube\<close>

text \<open>\<open>BOX_SIZE / 2\<close> is 1.\<close>

type_synonym corner = "int \<times> int \<times> int"

definition top_face :: "corner list" where "top_face = [(-1, 1, -1), (-1, 1, 1), (1, 1, 1), (1, 1, -1)]"
definition bottom_face :: "corner list" where "bottom_face = [(-1, -1, -1), (1, -1, -1), (1, -1, 1), (-1, -1, 1)]"
definition left_face :: "corner list" where "left_face = [(-1, -1, -1), (-1, -1, 1), (-1, 1, 1), (-1, 1, -1)]"
definition right_face :: "corner list" where "right_face = [(1, -1, -1), (1, 1, -1), (1, 1, 1), (1, -1, 1)]"
definition front_face :: "corner list" where "front_face = [(-1, -1, 1), (1, -1, 1), (1, 1, 1), (-1, 1, 1)]"
definition back_face :: "corner list" where "back_face = [(-1, -1, -1), (-1, 1, -1), (1, 1, -1), (1, -1, -1)]"

definition tex_corners :: "(int \<times> int) list" where
  "tex_corners = [(0, 0), (1, 0), (1, 1), (0, 1)]"

definition draw_quad :: "corner list \<Rightarrow> gl list" where
  "draw_quad f = concat (map2 (\<lambda>(s, t) (x, y, z). [GlTexCoord s t, GlVertex x y z]) tex_corners f)"

definition draw_face :: "nat \<Rightarrow> corner list \<Rightarrow> gl list" where
  "draw_face texture f =
     [GlEnable ''TEXTURE_2D'', GlBindTexture texture, GlTexParameter ''MIN_FILTER'', GlTexParameter ''MAG_FILTER'', GlBegin] @
     draw_quad f @ [GlEnd]"

text \<open>\<open>loadTexture\<close>, and the images in the order of \<open>all_textureId\<close>.\<close>

definition loadTexture :: "nat \<Rightarrow> bmp_image \<Rightarrow> gl list" where
  "loadTexture t im = [GlGenTextures t, GlBindTexture t, GlTexImage (im_width im) (im_height im)]"

definition texture_files :: "string list" where
  "texture_files = [''white.bmp'', ''red.bmp'', ''blue.bmp'', ''orange.bmp'', ''green.bmp'', ''yellow.bmp'']"

fun load_textures :: "(string \<Rightarrow> byte list option) \<Rightarrow> (nat \<Rightarrow> nat) \<Rightarrow> nat \<Rightarrow> string list \<Rightarrow> gl list result" where
  "load_textures files tex k [] = Inr []"
| "load_textures files tex k (f # fs) =
     andThen (loadBMP files f) (\<lambda>im.
     andThen (load_textures files tex (Suc k) fs) (\<lambda>cs. Inr (loadTexture (tex k) im @ cs)))"

text \<open>\<open>draw_smallcube\<close>, with its static variable \<open>bInit\<close>.\<close>

definition draw_smallcube ::
  "(string \<Rightarrow> byte list option) \<Rightarrow> (nat \<Rightarrow> nat) \<Rightarrow> nat \<Rightarrow> bool \<Rightarrow> (gl list \<times> bool) result" where
  "draw_smallcube files tex color bInit =
     andThen (if bInit then Inr [] else load_textures files tex 0 texture_files) (\<lambda>loads.
     Inr (loads @ draw_face (tex color) top_face @ [GlDisable ''TEXTURE_2D''] @ draw_face (tex color) bottom_face @
       draw_face (tex color) left_face @ draw_face (tex color) right_face @ draw_face (tex color) front_face @
       draw_face (tex color) back_face, True))"

section \<open>Initialisation and drawing\<close>

fun compile_lists ::
  "(string \<Rightarrow> byte list option) \<Rightarrow> (nat \<Rightarrow> nat) \<Rightarrow> (nat \<Rightarrow> nat) \<Rightarrow> nat list \<Rightarrow> bool \<Rightarrow> gl list result" where
  "compile_lists files tex lst [] bInit = Inr []"
| "compile_lists files tex lst (k # ks) bInit =
     andThen (draw_smallcube files tex k bInit) (\<lambda>(cs, bInit).
     andThen (compile_lists files tex lst ks bInit) (\<lambda>ds. Inr ([GlNewList (lst k)] @ cs @ [GlEndList] @ ds)))"

definition initRendering ::
  "(string \<Rightarrow> byte list option) \<Rightarrow> (nat \<Rightarrow> nat) \<Rightarrow> (nat \<Rightarrow> nat) \<Rightarrow> gl list result" where
  "initRendering files tex lst =
     andThen (compile_lists files tex lst [0..<6] False) (\<lambda>cs.
     Inr ([GlEnable ''DEPTH_TEST'', GlEnable ''COLOR_MATERIAL'', GlClearColor, GlHint] @ cs))"

text \<open>\<open>for (i = 0; i < 5; i += 2)\<close>, three times.\<close>

definition scene_cells :: "(int \<times> int \<times> int) list" where
  "scene_cells = concat (map (\<lambda>i. concat (map (\<lambda>j. map (\<lambda>k. (i, j, k)) [0, 2, 4]) [0, 2, 4])) [0, 2, 4])"

definition draw_cell :: "(nat \<Rightarrow> nat) \<Rightarrow> (int \<times> int \<times> int) \<Rightarrow> nat \<Rightarrow> gl list" where
  "draw_cell lst = (\<lambda>(i, j, k) r. [GlPushMatrix, GlTranslate i j k, GlCallList (lst (r mod 6)), GlPopMatrix])"

definition drawScene :: "(nat \<Rightarrow> nat) \<Rightarrow> int \<Rightarrow> nat list \<Rightarrow> gl list" where
  "drawScene lst angle rands =
     [GlClear, GlMatrixMode ''MODELVIEW'', GlLoadIdentity, GlTranslate 0 (-5) (-10), GlRotate (- angle)] @
     concat (map2 (draw_cell lst) scene_cells rands) @ [SwapBuffers]"

text \<open>\<open>update\<close>: the angle is a \<open>float\<close> that only takes even values up to 362, which it holds exactly.\<close>

definition update_angle :: "int \<Rightarrow> int" where
  "update_angle a = (let a = a + 2 in if a > 360 then a - 360 else a)"

definition handleResize :: "int \<Rightarrow> int \<Rightarrow> gl list" where
  "handleResize w h = [GlViewport 0 0 w h, GlMatrixMode ''PROJECTION'', GlLoadIdentity, GluPerspective w h, GluLookAt]"

text \<open>The calls of the handlers that \<open>main\<close> registers; the list holds what \<open>rand\<close> returns in \<open>drawScene\<close>.\<close>

datatype glut_event = Keypress char | Reshape int int | Display "nat list" | Timer

text \<open>A handler, with \<open>_angle\<close>; None is \<open>exit(0)\<close>.\<close>

fun handle_event :: "(nat \<Rightarrow> nat) \<Rightarrow> glut_event \<Rightarrow> int \<Rightarrow> (gl list \<times> int) option" where
  "handle_event lst (Keypress c) a = (if c = CHR ''q'' then None else Some ([], a))"
| "handle_event lst (Reshape w h) a = Some (handleResize w h, a)"
| "handle_event lst (Display rands) a = Some (drawScene lst a rands, a)"
| "handle_event lst Timer a = Some ([PostRedisplay], update_angle a)"

fun main_loop :: "(nat \<Rightarrow> nat) \<Rightarrow> glut_event list \<Rightarrow> int \<Rightarrow> gl list" where
  "main_loop lst [] a = []"
| "main_loop lst (e # es) a =
     (case handle_event lst e a of None \<Rightarrow> [] | Some (cs, a) \<Rightarrow> cs @ main_loop lst es a)"

definition display_main ::
  "(string \<Rightarrow> byte list option) \<Rightarrow> (nat \<Rightarrow> nat) \<Rightarrow> (nat \<Rightarrow> nat) \<Rightarrow> glut_event list \<Rightarrow> gl list result" where
  "display_main files tex lst es = andThen (initRendering files tex lst) (\<lambda>cs. Inr (cs @ main_loop lst es 0))"

section \<open>Geometry\<close>

definition cube_faces :: "corner list list" where
  "cube_faces = [top_face, bottom_face, left_face, right_face, front_face, back_face]"

fun face_edges :: "corner list \<Rightarrow> (corner \<times> corner) list" where
  "face_edges [] = []"
| "face_edges (c # cs) = zip (c # cs) (cs @ [c])"

definition cross :: "corner \<Rightarrow> corner \<Rightarrow> corner" where
  "cross = (\<lambda>(a1, a2, a3) (b1, b2, b3). (a2 * b3 - a3 * b2, a3 * b1 - a1 * b3, a1 * b2 - a2 * b1))"

definition minus_corner :: "corner \<Rightarrow> corner \<Rightarrow> corner" where
  "minus_corner = (\<lambda>(a1, a2, a3) (b1, b2, b3). (a1 - b1, a2 - b2, a3 - b3))"

definition inner :: "corner \<Rightarrow> corner \<Rightarrow> int" where
  "inner = (\<lambda>(a1, a2, a3) (b1, b2, b3). a1 * b1 + a2 * b2 + a3 * b3)"

lemmas face_defs = top_face_def bottom_face_def left_face_def right_face_def front_face_def back_face_def

text \<open>The six quads of the small cube are its surface: 24 different directed edges, each the reverse of another,
  between 8 corners; every quad is flat, and its corners run counterclockwise seen from outside.\<close>

theorem smallcube_surface:
  "distinct (concat (map face_edges cube_faces)) \<and> length (concat (map face_edges cube_faces)) = 24 \<and>
   prod.swap ` set (concat (map face_edges cube_faces)) = set (concat (map face_edges cube_faces)) \<and>
   set (concat cube_faces) = {-1, 1} \<times> {-1, 1} \<times> {-1, 1} \<and>
   list_all (\<lambda>f. let n = cross (minus_corner (f ! 1) (f ! 0)) (minus_corner (f ! 2) (f ! 1))
     in list_all (\<lambda>c. inner n c = 4) f) cube_faces"
proof (intro conjI)
  show "prod.swap ` set (concat (map face_edges cube_faces)) = set (concat (map face_edges cube_faces))"
    by (simp add: cube_faces_def face_defs insert_commute)
  show "set (concat cube_faces) = {-1, 1} \<times> {-1, 1} \<times> {-1, 1}"
    by (auto simp: cube_faces_def face_defs)
qed (simp_all add: cube_faces_def face_defs cross_def minus_corner_def inner_def Let_def)

section \<open>Nesting\<close>

text \<open>
  What OpenGL demands of the order of calls: vertices only between \<open>glBegin\<close> and \<open>glEnd\<close>, nothing else
  there, lists and primitives are not nested, and no matrix is popped that was not pushed. The state is whether a list and
  a primitive are open, and the depth of the matrix stack.
\<close>

type_synonym gl_state = "bool \<times> bool \<times> nat"

fun gl_ok :: "gl_state \<Rightarrow> gl list \<Rightarrow> gl_state option" where
  "gl_ok s [] = Some s"
| "gl_ok (l, p, d) (GlBegin # cs) = (if p then None else gl_ok (l, True, d) cs)"
| "gl_ok (l, p, d) (GlEnd # cs) = (if p then gl_ok (l, False, d) cs else None)"
| "gl_ok (l, p, d) (GlTexCoord a b # cs) = gl_ok (l, p, d) cs"
| "gl_ok (l, p, d) (GlVertex a b c # cs) = (if p then gl_ok (l, p, d) cs else None)"
| "gl_ok (l, p, d) (GlNewList n # cs) = (if l \<or> p then None else gl_ok (True, p, d) cs)"
| "gl_ok (l, p, d) (GlEndList # cs) = (if l \<and> \<not> p then gl_ok (False, p, d) cs else None)"
| "gl_ok (l, p, d) (GlPushMatrix # cs) = (if p then None else gl_ok (l, p, Suc d) cs)"
| "gl_ok (l, p, d) (GlPopMatrix # cs) = (if p \<or> d = 0 then None else gl_ok (l, p, d - 1) cs)"
| "gl_ok (l, p, d) (c # cs) = (if p then None else gl_ok (l, p, d) cs)"

lemma gl_ok_append: "gl_ok s (cs @ ds) = Option.bind (gl_ok s cs) (\<lambda>t. gl_ok t ds)"
  by (induction s cs rule: gl_ok.induct) auto

text \<open>The lists that the images are specified in; None is outside a list.\<close>

fun image_places :: "nat option \<Rightarrow> gl list \<Rightarrow> nat option list" where
  "image_places l [] = []"
| "image_places l (GlNewList n # cs) = image_places (Some n) cs"
| "image_places l (GlEndList # cs) = image_places None cs"
| "image_places l (GlTexImage w h # cs) = l # image_places l cs"
| "image_places l (c # cs) = image_places l cs"

lemma load_textures_ok:
  "load_textures files tex k fs = Inr cs \<Longrightarrow>
   gl_ok (l, False, d) (cs @ ds) = gl_ok (l, False, d) ds \<and>
   image_places m (cs @ ds) = replicate (length fs) m @ image_places m ds"
  by (induction files tex k fs arbitrary: cs rule: load_textures.induct)
    (auto simp: andThen_Inr_iff loadTexture_def)

lemma texture_files_length: "length texture_files = 6"
  by (simp add: texture_files_def)

lemma draw_face_ok:
  assumes "f \<in> set cube_faces"
  shows "gl_ok (l, False, d) (draw_face t f @ ds) = gl_ok (l, False, d) ds"
    "image_places m (draw_face t f @ ds) = image_places m ds"
  using assms by (auto simp: cube_faces_def face_defs draw_face_def draw_quad_def tex_corners_def)

lemma draw_smallcube_ok:
  assumes "draw_smallcube files tex k b = Inr (cs, b')"
  shows "b' \<and> gl_ok (l, False, d) (cs @ ds) = gl_ok (l, False, d) ds \<and>
    image_places m (cs @ ds) = (if b then [] else replicate 6 m) @ image_places m ds"
proof -
  obtain loads where loads: "(if b then Inr [] else load_textures files tex 0 texture_files) = Inr loads" "b'"
    "cs = loads @ draw_face (tex k) top_face @ [GlDisable ''TEXTURE_2D''] @ draw_face (tex k) bottom_face @
       draw_face (tex k) left_face @ draw_face (tex k) right_face @ draw_face (tex k) front_face @
       draw_face (tex k) back_face"
    using assms by (auto simp: draw_smallcube_def andThen_Inr_iff)
  have "gl_ok (l, False, d) (loads @ es) = gl_ok (l, False, d) es \<and>
      image_places m (loads @ es) = (if b then [] else replicate 6 m) @ image_places m es" for es
    using loads(1) load_textures_ok[of files tex 0 texture_files loads l d es m]
    by (cases b) (auto simp: texture_files_length)
  then show ?thesis
    using loads(2,3) by (simp add: draw_face_ok cube_faces_def)
qed

lemma compile_lists_ok:
  "compile_lists files tex lst ks b = Inr cs \<Longrightarrow>
   gl_ok (False, False, d) (cs @ ds) = gl_ok (False, False, d) ds \<and>
   image_places None (cs @ ds) = (if b \<or> ks = [] then [] else replicate 6 (Some (lst (hd ks)))) @ image_places None ds"
proof (induction ks arbitrary: b cs)
  case (Cons k ks)
  obtain es b' rest where e: "draw_smallcube files tex k b = Inr (es, b')" "compile_lists files tex lst ks b' = Inr rest"
    "cs = [GlNewList (lst k)] @ es @ [GlEndList] @ rest"
    using Cons.prems by (auto simp: andThen_Inr_iff)
  then have "b'" using draw_smallcube_ok by blast
  then show ?case
    using Cons.IH[OF e(2)] e(3) draw_smallcube_ok[OF e(1), of True d "GlEndList # rest @ ds" "Some (lst k)"] by simp
qed simp

lemma draw_cells_ok:
  "gl_ok (l, False, d) (concat (map2 (draw_cell lst) cells rands) @ ds) = gl_ok (l, False, d) ds"
proof (induction cells arbitrary: rands)
  case (Cons c cells)
  then show ?case by (cases c; cases rands) (auto simp: draw_cell_def)
qed simp

lemma main_loop_ok:
  "gl_ok (False, False, d) (main_loop lst es a) = Some (False, False, d) \<and> image_places m (main_loop lst es a) = []"
proof -
  have "image_places m (concat (map2 (draw_cell lst) cells rands) @ ds) = image_places m ds" for cells rands ds
  proof (induction cells arbitrary: rands)
    case (Cons c cells)
    then show ?case by (cases c; cases rands) (auto simp: draw_cell_def)
  qed simp
  then show ?thesis
  proof (induction es arbitrary: a)
    case (Cons e es)
    then show ?case by (cases e) (simp_all add: drawScene_def handleResize_def draw_cells_ok)
  qed simp
qed

text \<open>When the images load, the calls of the program are well-nested whatever events come in which
  order, and leave no list, primitive or matrix open. All images are specified inside the first list, so in OpenGL,
  where compiling a list does not execute it, the other lists have no image until the first one has been called.\<close>

theorem scene_well_nested:
  assumes "display_main files tex lst es = Inr cs"
  shows "gl_ok (False, False, 0) cs = Some (False, False, 0) \<and> image_places None cs = replicate 6 (Some (lst 0))"
proof -
  obtain ds where d: "compile_lists files tex lst [0..<6] False = Inr ds"
    "cs = [GlEnable ''DEPTH_TEST'', GlEnable ''COLOR_MATERIAL'', GlClearColor, GlHint] @ ds @ main_loop lst es 0"
    using assms by (auto simp: display_main_def initRendering_def andThen_Inr_iff)
  show ?thesis
    using d(2) compile_lists_ok[OF d(1), of 0 "main_loop lst es 0"] main_loop_ok by (simp add: upt_rec)
qed

text \<open>With images of no pixels everything loads.\<close>

definition tiny_files :: "string \<Rightarrow> byte list option" where
  "tiny_files = (\<lambda>_. Some (bmp_file (replicate 8 0) [1, 0] (replicate 22 0) 0 0 []))"

lemma tiny_loads: "f \<in> set texture_files \<Longrightarrow> loadBMP tiny_files f = Inr (image_of 0 0 [])"
proof -
  assume "f \<in> set texture_files"
  then have "has_file tiny_files f (bmp_file (replicate 8 0) [1, 0] (replicate 22 0) 0 0 [])"
    by (auto simp: has_file_def tiny_files_def data_dir_def texture_files_def)
  then show ?thesis
    by (intro loadBMP_correct[of 0 0 "replicate 8 0" "[1, 0]" "replicate 22 0"])
      (simp_all add: fits_def in_int_def row_len_def)
qed

lemma compile_lists_Inr: "\<exists>cs. compile_lists files tex lst ks True = Inr cs"
  by (induction ks) (auto simp: draw_smallcube_def andThen_Inr_iff)

lemma tiny_initialises: "\<exists>cs. initRendering tiny_files id id = Inr cs"
proof -
  have "\<exists>cs. load_textures tiny_files id k fs = Inr cs" if "set fs \<subseteq> set texture_files" for k fs
    using that by (induction fs arbitrary: k) (auto simp: tiny_loads andThen_Inr_iff)
  then obtain loads where "load_textures tiny_files id 0 texture_files = Inr loads" by blast
  then obtain cs where cs: "draw_smallcube tiny_files id 0 False = Inr (cs, True)" by (simp add: draw_smallcube_def)
  obtain ds where ds: "compile_lists tiny_files id id [1..<6] True = Inr ds" using compile_lists_Inr by blast
  have "[0..<6] = 0 # [1..<6]" by (simp add: upt_conv_Cons)
  then show ?thesis using cs ds by (simp add: initRendering_def del: upt_conv_Cons_Cons)
qed

theorem scene_well_nested_witness:
  "\<exists>cs. display_main tiny_files id id [Reshape 800 800, Timer, Display [7, 3], Keypress CHR ''q''] = Inr cs \<and>
     gl_ok (False, False, 0) cs = Some (False, False, 0) \<and> image_places None cs = replicate 6 (Some 0)"
  using tiny_initialises scene_well_nested[of tiny_files id id "[Reshape 800 800, Timer, Display [7, 3], Keypress CHR ''q'']"]
  by (auto simp: display_main_def)

text \<open>The cells of a frame, and the angle.\<close>

lemma scene_cells_all: "distinct scene_cells" "set scene_cells = {0, 2, 4} \<times> {0, 2, 4} \<times> {0, 2, 4}"
  by (auto simp: scene_cells_def)

lemma update_angle_range: "0 \<le> a \<Longrightarrow> a \<le> 360 \<Longrightarrow> even a \<Longrightarrow>
    0 < update_angle a \<and> update_angle a \<le> 360 \<and> even (update_angle a)"
  by (auto simp: update_angle_def Let_def)

lemma update_angle_period: "(update_angle ^^ Suc n) 0 = 2 * (int n mod 180) + 2"
proof (induction n)
  case (Suc n)
  have r: "0 \<le> int n mod 180" "int n mod 180 < 180" by simp_all
  have "(int n + 1) mod 180 = (int n mod 180 + 1) mod 180" by (rule mod_add_left_eq[symmetric])
  also have "\<dots> = (if int n mod 180 = 179 then 0 else int n mod 180 + 1)"
    using r by (cases "int n mod 180 = 179") (simp_all add: mod_pos_pos_trivial del: of_nat_mod)
  finally have m: "int (Suc n) mod 180 = (if int n mod 180 = 179 then 0 else int n mod 180 + 1)"
    by (simp add: add.commute)
  have e: "(update_angle ^^ Suc (Suc n)) 0 = update_angle (2 * (int n mod 180) + 2)" using Suc by simp
  show ?case unfolding e m using r by (auto simp: update_angle_def Let_def)
qed (simp add: update_angle_def Let_def)

end
