(* ===== verification/RunGemm.thy ===== *)
theory RunGemm
  imports Gemm
begin

text \<open>
  \<open>run_myGEMM\<close> of \<open>topencl.cpp\<close>, with \<open>clutl_build_program\<close> and \<open>save_bin\<close>: matrices, the cache of the host's
  result, the device, the comparison, and what is acquired and released. The OpenCL runtime is a
  parameter, with no assumption: which of its objects can be created (\<open>made\<close>), whether the build log can be queried, which kernels can be enqueued
  (\<open>enq\<close>), and what the host's array holds after the buffer was read back (\<open>device\<close>), be it what the kernels
  computed with the device's own rounding or what was there before, as errors are printed or not looked at. The
  runtime refuses NULL handles with an error code. The formulas of the matrix elements are the parameters \<open>fA\<close>
  and \<open>fB\<close>, \<open>view\<close> reads a number from memory. Accesses outside an allocation and overflows are recorded as
  faults, and the run goes on as it does in practice; \<open>malloc\<close> succeeds.
\<close>

section \<open>Parts\<close>

definition NUM_RUNS :: nat where "NUM_RUNS = 10"
definition SIZE :: nat where "SIZE = 4096 div 4"

datatype gemm_fault = SquareOverflow nat | LoadOverrun | SaveOverread | SourceOverrun | LogSizeUnset

datatype gemm_object =
    HostA | HostB | HostC | HostD | ClContext | ClQueue | ClProgram | ClKernel | BufA | BufB | BufC
  | ClEvent nat | KernelString | BuildMessages

datatype gemm_event = Acquire gemm_object | ReleaseObj gemm_object

text \<open>\<open>i*i\<close> with \<open>int i\<close>.\<close>

definition square_int :: "nat \<Rightarrow> int" where
  "square_int i = sint (word_of_nat i * word_of_nat i :: cint)"

definition square_overflows :: "nat \<Rightarrow> bool" where
  "square_overflows i \<longleftrightarrow> square_int i \<noteq> int i * int i"

definition fill_A :: "(nat \<Rightarrow> int \<Rightarrow> 'f) \<Rightarrow> nat \<Rightarrow> 'f list \<times> gemm_fault list" where
  "fill_A fA n = (map (\<lambda>i. fA i (square_int i)) [0..<n], map SquareOverflow (filter square_overflows [0..<n]))"

text \<open>The size is in bytes; None when bytes outside the buffer are written to the file. A file that cannot be
  opened is not writable.\<close>

definition save_bin :: "bool \<Rightarrow> byte list \<Rightarrow> nat \<Rightarrow> nat option" where
  "save_bin writable data sz =
     (if \<not> writable then Some 0 else if sz \<le> length data then Some sz else None)"

text \<open>
  The host's result: from the cache file, which is taken whenever a byte can be read, or computed and saved.
\<close>

definition host_part ::
  "(byte list \<Rightarrow> nat \<Rightarrow> 'f) \<Rightarrow> ('f \<Rightarrow> 'f \<Rightarrow> 'f) \<Rightarrow> ('f \<Rightarrow> 'f \<Rightarrow> 'f) \<Rightarrow> 'f \<Rightarrow> 'f list \<Rightarrow> 'f list \<Rightarrow> nat \<Rightarrow> nat \<Rightarrow> nat \<Rightarrow>
   byte list option \<Rightarrow> bool \<Rightarrow> byte list \<Rightarrow> 'f list \<times> gemm_fault list" where
  "host_part view add mul zero A B M K N file writable Dmem =
     (case load_bin file Dmem (cache_bytes M N) of
        None \<Rightarrow> (map (view (take (length Dmem) (the file))) [0..<M * N], [LoadOverrun])
      | Some (ret, D) \<Rightarrow>
          if 0 < ret then (map (view D) [0..<M * N], [])
          else (matmult add mul zero A B (map (view D) [0..<M * N]) M K N,
                case save_bin writable D (cache_bytes M N) of None \<Rightarrow> [SaveOverread] | Some _ \<Rightarrow> []))"

text \<open>OpenCL objects: those that can be created, and the release of what was created.\<close>

definition create :: "(gemm_object \<Rightarrow> bool) \<Rightarrow> gemm_object list \<Rightarrow> gemm_event list" where
  "create made os = map Acquire (filter made os)"

definition release_cl :: "(gemm_object \<Rightarrow> bool) \<Rightarrow> gemm_object list \<Rightarrow> gemm_event list" where
  "release_cl made os = map ReleaseObj (filter made os)"

text \<open>\<open>clutl_build_program\<close>: the result, and the log. A compilation that fails is printed, not returned. \<open>logSize\<close> has no
  value when the query for it fails (\<open>info\<close>).\<close>

definition clutl_build_program ::
  "(gemm_object \<Rightarrow> bool) \<Rightarrow> bool \<Rightarrow> src_result \<Rightarrow> int \<times> gemm_event list \<times> gemm_fault list" where
  "clutl_build_program made info src =
     (case src of
        SrcNull \<Rightarrow> (1, [], [])
      | _ \<Rightarrow> (0, [Acquire KernelString] @ create made [ClProgram] @ [ReleaseObj KernelString, Acquire BuildMessages,
            ReleaseObj BuildMessages],
          (if src = SrcOverrun then [SourceOverrun] else []) @ (if info then [] else [LogSizeUnset])))"

text \<open>A run of the kernel: the event, when the kernel could be enqueued.\<close>

definition run_events :: "(nat \<Rightarrow> bool) \<Rightarrow> nat \<Rightarrow> gemm_event list" where
  "run_events enq r = (if enq r then [Acquire (ClEvent r)] else [])"

section \<open>The program\<close>

datatype gemm_end = BuildExit | Compared nat

record 'f gemm_out =
  go_end :: gemm_end
  go_C :: "'f list"
  go_log :: "gemm_event list"
  go_faults :: "gemm_fault list"

record 'f cl_runtime =
  cl_made :: "gemm_object \<Rightarrow> bool"
  cl_build_info :: bool
  cl_enq :: "nat \<Rightarrow> bool"
  cl_device :: "'f list \<Rightarrow> 'f list \<Rightarrow> 'f list \<Rightarrow> nat \<Rightarrow> 'f"

definition run_myGEMM ::
  "nat \<Rightarrow> (nat \<Rightarrow> int \<Rightarrow> 'f) \<Rightarrow> (nat \<Rightarrow> 'f) \<Rightarrow> (byte list \<Rightarrow> nat \<Rightarrow> 'f) \<Rightarrow> ('f \<Rightarrow> 'f \<Rightarrow> 'f) \<Rightarrow> ('f \<Rightarrow> 'f \<Rightarrow> 'f) \<Rightarrow> 'f \<Rightarrow>
   ('f \<Rightarrow> 'f \<Rightarrow> bool) \<Rightarrow> byte list option \<Rightarrow> bool \<Rightarrow> byte list \<Rightarrow> src_result \<Rightarrow> 'f cl_runtime \<Rightarrow> 'f gemm_out" where
  "run_myGEMM sz fA fB view add mul zero ne file writable Dmem src cl =
     (let K = sz; M = sz; N = sz;
          (A, f1) = fill_A fA (M * K);
          B = map fB [0..<K * N];
          C = replicate (M * N) zero;
          (D, f2) = host_part view add mul zero A B M K N file writable Dmem;
          (ret, build_log, f3) = clutl_build_program (cl_made cl) (cl_build_info cl) src;
          log1 = map Acquire [HostA, HostB, HostC, HostD] @ create (cl_made cl) [ClContext, ClQueue] @ build_log
      in if ret \<noteq> 0 then \<lparr>go_end = BuildExit, go_C = C, go_log = log1, go_faults = f1 @ f2 @ f3\<rparr>
         else
           let C = map (cl_device cl A B C) [0..<M * N];
               log2 = log1 @ create (cl_made cl) [BufA, BufB, BufC, ClKernel] @
                 concat (map (run_events (cl_enq cl)) [0..<NUM_RUNS]) @
                 release_cl (cl_made cl) [BufA, BufB, BufC, ClQueue, ClContext, ClProgram, ClKernel] @
                 map ReleaseObj [HostA, HostB, HostC]
           in \<lparr>go_end = Compared (matcmp ne C D M N), go_C = C, go_log = log2, go_faults = f1 @ f2 @ f3\<rparr>)"

section \<open>Comparison\<close>

text \<open>The number is that of the cells that differ.\<close>

lemma fold_count: "fold (\<lambda>x e. if P x then Suc e else e) xs e = e + length (filter P xs)"
  by (induction xs arbitrary: e) auto

lemma fold_add: "fold (\<lambda>x e. e + f x) xs e = e + sum_list (map f xs)" for e :: nat
  by (induction xs arbitrary: e) auto

lemma matcmp_count:
  "matcmp ne A B M N = (\<Sum>m\<leftarrow>[0..<M]. length (filter (\<lambda>n. ne (A ! (m + n * M)) (B ! (m + n * M))) [0..<N]))"
  by (simp add: matcmp_def fold_count fold_add)

lemma matcmp_card: "matcmp ne A B M N = card {i. i < M * N \<and> ne (A ! i) (B ! i)}"
proof -
  let ?f = "\<lambda>(m, n). n * M + m"
  let ?S = "Sigma {..<M} (\<lambda>m. {n. n < N \<and> ne (A ! (m + n * M)) (B ! (m + n * M))})"
  have "matcmp ne A B M N = (\<Sum>m<M. card {n. n < N \<and> ne (A ! (m + n * M)) (B ! (m + n * M))})"
    unfolding matcmp_count sum_list_distinct_conv_sum_set[OF distinct_upt] atLeast0LessThan[symmetric] set_upt
    by (intro sum.cong refl) (simp add: distinct_length_filter Int_def conj_commute)
  also have "\<dots> = card ?S" by (simp add: card_SigmaI)
  also have "\<dots> = card (?f ` ?S)"
    by (rule card_image[symmetric], rule inj_on_subset[OF cell_bij(2)[of M N]]) auto
  also have "?f ` ?S = {i. i < M * N \<and> ne (A ! i) (B ! i)}"
  proof (intro equalityI subsetI)
    fix i assume "i \<in> ?f ` ?S"
    then obtain m n where i: "i = n * M + m" "m < M" "n < N" "ne (A ! i) (B ! i)" by (auto simp: add.commute)
    then have "i \<in> ?f ` ({..<M} \<times> {..<N})" by force
    then show "i \<in> {i. i < M * N \<and> ne (A ! i) (B ! i)}" using i(4) unfolding cell_bij(1) by simp
  next
    fix i assume "i \<in> {i. i < M * N \<and> ne (A ! i) (B ! i)}"
    then have i: "i \<in> ?f ` ({..<M} \<times> {..<N})" "ne (A ! i) (B ! i)" unfolding cell_bij(1) by simp_all
    then obtain m n where "m < M" "n < N" "i = n * M + m" by auto
    with i(2) show "i \<in> ?f ` ?S" by (force simp: add.commute)
  qed
  finally show ?thesis .
qed

section \<open>Overflow\<close>

lemma square_int_take: "square_int i = signed_take_bit 31 (int i * int i)"
proof -
  have "word_of_nat i * word_of_nat i = (word_of_int (int i * int i) :: cint)" by simp
  then show ?thesis unfolding square_int_def by (simp only: sint_sbintrunc') simp
qed

lemma square_overflows_iff: "square_overflows i \<longleftrightarrow> 46340 < i"
proof
  assume i: "46340 < i"
  have "square_int i < 2 ^ 31" unfolding square_int_def by (rule less_le_trans[OF sint_lt]) simp
  moreover have "46341 * 46341 \<le> int i * int i" using i by (intro mult_mono) auto
  ultimately show "square_overflows i" by (simp add: square_overflows_def)
next
  assume o: "square_overflows i"
  show "46340 < i"
  proof (rule ccontr)
    assume "\<not> 46340 < i"
    then have "int i * int i \<le> 46340 * 46340" by (intro mult_mono) auto
    moreover have "- (2 ^ 31) \<le> int i * int i" by (rule order_trans[of _ 0]) simp_all
    ultimately have "square_int i = int i * int i"
      unfolding square_int_take by (intro signed_take_bit_int_eq_self) simp_all
    then show False using o by (simp add: square_overflows_def)
  qed
qed

section \<open>Runs\<close>

text \<open>One of the product kernels, started for all items, in any order of them.\<close>

inductive product_run ::
  "('f \<Rightarrow> 'f \<Rightarrow> 'f) \<Rightarrow> ('f \<Rightarrow> 'f \<Rightarrow> 'f) \<Rightarrow> 'f \<Rightarrow> 'f list \<Rightarrow> 'f list \<Rightarrow> nat \<Rightarrow> ('f list \<Rightarrow> 'f list) \<Rightarrow> bool"
  for add mul zero A B where
  run_myGEMM1: "set items = {..<n} \<times> {..<n} \<Longrightarrow>
     product_run add mul zero A B n (fold (myGEMM1_item add mul zero A B n n) items)"
| run_myGEMM1b: "set items = {..<n} \<times> {..<n} \<Longrightarrow>
     product_run add mul zero A B n (fold (myGEMM1b_item add mul zero A B n n) items)"
| run_myGEMM2: "set items = gemm2_items g g \<Longrightarrow> (\<And>t. set (order t) = group_items) \<Longrightarrow>
     product_run add mul zero A B (TS * g) (fold (myGEMM2_item add mul zero A B (TS * g) (TS * g) order subs) items)"

lemma product_run_result:
  "product_run add mul zero A B n r \<Longrightarrow> length C = n * n \<Longrightarrow> r C = product_list add mul zero A B n n n"
  by (induction rule: product_run.induct) (simp_all add: myGEMM1_product myGEMM1b_product myGEMM2_product)

lemma product_runs_result:
  assumes "\<forall>r\<in>set rs. product_run add mul zero A B n r" "rs \<noteq> []" "length C = n * n"
  shows "fold (\<lambda>r C. r C) rs C = product_list add mul zero A B n n n"
  using assms
proof (induction rs arbitrary: C)
  case (Cons r rs)
  then have r: "r C = product_list add mul zero A B n n n" by (simp add: product_run_result)
  then have "length (r C) = n * n" by (simp add: product_list_def)
  then show ?case using Cons r by (cases "rs = []") auto
qed simp

text \<open>What is held after a log, and whether only held objects were released.\<close>

fun held_after :: "gemm_event list \<Rightarrow> gemm_object set \<Rightarrow> gemm_object set option" where
  "held_after [] H = Some H"
| "held_after (Acquire x # es) H = (if x \<in> H then None else held_after es (insert x H))"
| "held_after (ReleaseObj x # es) H = (if x \<in> H then held_after es (H - {x}) else None)"

lemma filter_overflows: "filter square_overflows [0..<n] = [46341..<n]"
proof (cases "46341 \<le> n")
  case True
  then have "[0..<n] = [0..<46341] @ [46341..<n]" by (metis le_add_diff_inverse upt_add_eq_append zero_le)
  moreover have "filter square_overflows [0..<46341] = []" by (simp only: filter_empty_conv square_overflows_iff set_upt) auto
  moreover have "filter square_overflows [46341..<n] = [46341..<n]" by (simp add: filter_id_conv square_overflows_iff)
  ultimately show ?thesis by simp
next
  case False
  then show ?thesis by (auto simp: filter_empty_conv square_overflows_iff)
qed

text \<open>Logs that only acquire new objects, or only release held ones.\<close>

lemma held_then: "held_after es H = Some H' \<Longrightarrow> held_after (es @ fs) H = held_after fs H'"
  by (induction es H rule: held_after.induct) (auto split: if_splits)

lemma held_acquire: "distinct xs \<Longrightarrow> set xs \<inter> H = {} \<Longrightarrow> held_after (map Acquire xs) H = Some (H \<union> set xs)"
  by (induction xs arbitrary: H) auto

lemma held_release: "distinct xs \<Longrightarrow> set xs \<subseteq> H \<Longrightarrow> held_after (map ReleaseObj xs) H = Some (H - set xs)"
proof (induction xs arbitrary: H)
  case (Cons x xs)
  then have "set xs \<subseteq> H - {x}" "x \<in> H" "H - {x} - set xs = H - set (x # xs)" by auto
  then show ?case using Cons.IH[of "H - {x}"] Cons.prems(1) by simp
qed simp

lemma runs_acquire: "concat (map (run_events enq) rs) = map Acquire (map ClEvent (filter enq rs))"
  by (induction rs) (simp_all add: run_events_def)

lemma log_held:
  "held_after ((map Acquire [HostA, HostB, HostC, HostD] @ create made [ClContext, ClQueue] @
        [Acquire KernelString] @ create made [ClProgram] @
        [ReleaseObj KernelString, Acquire BuildMessages, ReleaseObj BuildMessages]) @
      create made [BufA, BufB, BufC, ClKernel] @ concat (map (run_events enq) [0..<NUM_RUNS]) @
      release_cl made [BufA, BufB, BufC, ClQueue, ClContext, ClProgram, ClKernel] @
      map ReleaseObj [HostA, HostB, HostC]) {} =
    Some (insert HostD (ClEvent ` {r. r < NUM_RUNS \<and> enq r}))"
proof -
  define E where "E = ClEvent ` {r. r < NUM_RUNS \<and> enq r}"
  define X where "X = set (filter made [ClContext, ClQueue, ClProgram, BufA, BufB, BufC, ClKernel])"
  define host where "host = {HostA, HostB, HostC, HostD}"
  have E: "set (map ClEvent (filter enq [0..<NUM_RUNS])) = E" by (auto simp: E_def)
  have first: "held_after (map Acquire [HostA, HostB, HostC, HostD] @ create made [ClContext, ClQueue] @
      [Acquire KernelString] @ create made [ClProgram] @
      [ReleaseObj KernelString, Acquire BuildMessages, ReleaseObj BuildMessages]) {} =
      Some (host \<union> set (filter made [ClContext, ClQueue, ClProgram]))"
    by (cases "made ClContext"; cases "made ClQueue"; cases "made ClProgram") (auto simp: create_def host_def)
  have second: "held_after (create made [BufA, BufB, BufC, ClKernel]) (host \<union> set (filter made [ClContext, ClQueue, ClProgram])) =
      Some (host \<union> X)"
    unfolding create_def by (subst held_acquire) (auto simp: host_def X_def)
  have third: "held_after (concat (map (run_events enq) [0..<NUM_RUNS])) (host \<union> X) = Some (host \<union> X \<union> E)"
    unfolding runs_acquire by (subst held_acquire) (auto simp: host_def X_def E_def distinct_map inj_on_def split: if_splits)
  have fourth: "held_after (release_cl made [BufA, BufB, BufC, ClQueue, ClContext, ClProgram, ClKernel]) (host \<union> X \<union> E) =
      Some (host \<union> E)"
    unfolding release_cl_def by (subst held_release) (auto simp: host_def X_def E_def split: if_splits)
  have "held_after (map ReleaseObj [HostA, HostB, HostC]) (host \<union> E) = Some (insert HostD E)"
    by (subst held_release) (auto simp: host_def E_def)
  then show ?thesis
    unfolding held_then[OF first] held_then[OF second] held_then[OF third] held_then[OF fourth] by (simp only: E_def)
qed

text \<open>A run without a cache file, with any OpenCL runtime.\<close>

lemma run_first:
  assumes "src = SrcText text"
  shows "run_myGEMM n fA fB view add mul zero ne None writable (replicate (D_bytes n n) x) src cl =
    (let A = map (\<lambda>i. fA i (square_int i)) [0..<n * n]; B = map fB [0..<n * n];
         C = map (cl_device cl A B (replicate (n * n) zero)) [0..<n * n]
     in \<lparr>go_end = Compared (matcmp ne C (product_list add mul zero A B n n n) n n), go_C = C,
         go_log = (map Acquire [HostA, HostB, HostC, HostD] @ create (cl_made cl) [ClContext, ClQueue] @
            [Acquire KernelString] @ create (cl_made cl) [ClProgram] @
            [ReleaseObj KernelString, Acquire BuildMessages, ReleaseObj BuildMessages]) @
          create (cl_made cl) [BufA, BufB, BufC, ClKernel] @ concat (map (run_events (cl_enq cl)) [0..<NUM_RUNS]) @
          release_cl (cl_made cl) [BufA, BufB, BufC, ClQueue, ClContext, ClProgram, ClKernel] @
          map ReleaseObj [HostA, HostB, HostC],
         go_faults = map SquareOverflow [46341..<n * n] @ (if writable then [SaveOverread] else []) @
           (if cl_build_info cl then [] else [LogSizeUnset])\<rparr>)"
proof -
  have host: "matmult add mul zero A B (map f [0..<n * n]) n n n = product_list add mul zero A B n n n" for A B f
    by (rule matmult_eq) simp
  have "D_bytes n n < cache_bytes n n" by (simp add: D_bytes_def cache_bytes_def sizeof_float_ptr_def)
  then have "host_part view add mul zero A B n n n None writable (replicate (D_bytes n n) x) =
      (product_list add mul zero A B n n n, if writable then [SaveOverread] else [])" for A B
    by (simp add: host_part_def load_bin_def save_bin_def host)
  then show ?thesis
    unfolding run_myGEMM_def clutl_build_program_def assms
    by (simp add: fill_A_def filter_overflows Let_def)
qed

text \<open>C25: a run without a cache file, for any arithmetic and comparison of \<open>float\<close> and any OpenCL runtime, whatever
  it computes and whichever of its calls fail: the errors that the program reports are exactly the cells of the array
  read back that differ from the matrix product. What the program has acquired is released, but for the
  host's result and the event of every kernel that was enqueued. From index 46341 on \<open>i*i\<close> overflows, saving
  the cache reads behind the result, and the size of a build log that cannot be queried is used all the same.\<close>

theorem gemm_run_first:
  assumes "src = SrcText text"
  shows "let A = map (\<lambda>i. fA i (square_int i)) [0..<n * n]; B = map fB [0..<n * n];
      out = run_myGEMM n fA fB view add mul zero ne None writable (replicate (D_bytes n n) x) src cl
    in go_end out = Compared (card {i. i < n * n \<and> ne (go_C out ! i) (product_list add mul zero A B n n n ! i)}) \<and>
       go_C out = map (cl_device cl A B (replicate (n * n) zero)) [0..<n * n] \<and>
       held_after (go_log out) {} = Some (insert HostD (ClEvent ` {r. r < NUM_RUNS \<and> cl_enq cl r})) \<and>
       go_faults out = map SquareOverflow [46341..<n * n] @ (if writable then [SaveOverread] else []) @
         (if cl_build_info cl then [] else [LogSizeUnset])"
  unfolding run_first[OF assms] Let_def
  by (simp only: gemm_out.simps matcmp_card log_held simp_thms)

text \<open>A device that computes with the arithmetic of the host but gives 0 in the last cell, whose third kernel cannot
  be enqueued.\<close>

definition demo_cl :: "int cl_runtime" where
  "demo_cl = \<lparr>cl_made = (\<lambda>_. True), cl_build_info = True, cl_enq = (\<lambda>r. r \<noteq> 2),
     cl_device = (\<lambda>A B C i. if i = 3 then 0 else product_list (+) (*) 0 A B 2 2 2 ! i)\<rparr>"

theorem gemm_run_first_witness:
  "go_end (run_myGEMM 2 (\<lambda>i s. 1) (\<lambda>i. 1) (\<lambda>_ _. 0) (+) (*) 0 (\<noteq>) None True (replicate (D_bytes 2 2) 1) (SrcText []) demo_cl) =
   Compared 1"
proof -
  let ?P = "product_list (+) (*) (0 :: int) (map (\<lambda>i. 1) [0..<2 * 2]) (map (\<lambda>i. 1) [0..<2 * 2]) 2 2 2"
  let ?C = "map (cl_device demo_cl (map (\<lambda>i. 1) [0..<2 * 2]) (map (\<lambda>i. 1) [0..<2 * 2]) (replicate (2 * 2) 0)) [0..<2 * 2]"
  have "{i. i < 2 * 2 \<and> ?C ! i \<noteq> ?P ! i} = {3 :: nat}"
  proof -
    have "?P = [2, 2, 2, 2]" by code_simp
    then have key: "?C ! i \<noteq> ?P ! i \<longleftrightarrow> i = 3" if "i < 2 * 2" for i
      using that by (auto simp: demo_cl_def)
    have "{i. i < 2 * 2 \<and> ?C ! i \<noteq> ?P ! i} = {i. i < 2 * 2 \<and> i = 3}"
      by (intro Collect_cong conj_cong refl) (rule key)
    also have "\<dots> = {3}" by auto
    finally show ?thesis .
  qed
  with gemm_run_first[of "SrcText []" "[]" "\<lambda>i s. 1" 2 "\<lambda>i. 1" "\<lambda>_ _. 0" "(+)" "(*)" 0 "(\<noteq>)" True 1 demo_cl, OF refl]
  show ?thesis unfolding Let_def by simp
qed

text \<open>With a device that computes as the host does, by any of the product kernels in any order of the work items, no
  error is reported, unless a number, such as a NaN, differs from itself.\<close>

lemma gemm_run_agrees:
  assumes "src = SrcText text" "\<And>a. \<not> ne a a" "rs \<noteq> []"
    and "\<And>A B C i. cl_device cl A B C i = fold (\<lambda>r C. r C) rs C ! i"
    and "\<And>r A B. r \<in> set rs \<Longrightarrow> product_run add mul zero (map (\<lambda>i. fA i (square_int i)) [0..<n * n]) (map fB [0..<n * n]) n r"
  shows "go_end (run_myGEMM n fA fB view add mul zero ne None writable (replicate (D_bytes n n) x) src cl) = Compared 0"
proof -
  let ?P = "product_list add mul zero (map (\<lambda>i. fA i (square_int i)) [0..<n * n]) (map fB [0..<n * n]) n n n"
  have "fold (\<lambda>r C. r C) rs (replicate (n * n) zero) = ?P"
    by (rule product_runs_result) (use assms in auto)
  then show ?thesis
    using assms(2) unfolding run_first[OF assms(1)] by (simp add: Let_def matcmp_card assms(4))
qed

text \<open>A complete cache file, which a run that could write it leaves behind, overruns the allocation of the next
  run; any other file with at least one byte is taken for the host's result and the product is not computed.\<close>

lemma host_part_cached:
  "length file = cache_bytes n n \<Longrightarrow>
   snd (host_part view add mul zero A B n n n (Some file) writable (replicate (D_bytes n n) x)) = [LoadOverrun]"
  "0 < length file \<Longrightarrow> length file \<le> D_bytes n n \<Longrightarrow>
   host_part view add mul zero A B n n n (Some file) writable (replicate (D_bytes n n) x) =
     (map (view (file @ replicate (D_bytes n n - length file) x)) [0..<n * n], [])"
proof -
  have D: "D_bytes n n < cache_bytes n n" by (simp add: D_bytes_def cache_bytes_def sizeof_float_ptr_def)
  show "length file = cache_bytes n n \<Longrightarrow>
      snd (host_part view add mul zero A B n n n (Some file) writable (replicate (D_bytes n n) x)) = [LoadOverrun]"
    using D by (simp add: host_part_def load_bin_def)
  show "0 < length file \<Longrightarrow> length file \<le> D_bytes n n \<Longrightarrow>
      host_part view add mul zero A B n n n (Some file) writable (replicate (D_bytes n n) x) =
        (map (view (file @ replicate (D_bytes n n - length file) x)) [0..<n * n], [])"
    using D by (simp add: host_part_def load_bin_def)
qed

text \<open>When the kernel source cannot be read, the program exits and releases nothing.\<close>

lemma gemm_run_no_source:
  "go_end (run_myGEMM n fA fB view add mul zero ne file writable Dmem SrcNull cl) = BuildExit"
  "(\<And>x. cl_made cl x) \<Longrightarrow>
     held_after (go_log (run_myGEMM n fA fB view add mul zero ne file writable Dmem SrcNull cl)) {} =
     Some {HostA, HostB, HostC, HostD, ClContext, ClQueue}"
  by (auto simp: run_myGEMM_def clutl_build_program_def create_def Let_def split: prod.splits)

end
