(* ===== verification/DeviceCaps.thy ===== *)
theory DeviceCaps
  imports ClUtil
begin

text \<open>
  What \<open>topencl.cpp\<close> prints of the system: the capabilities of a device (\<open>clutl_device_caps\<close>), the platforms
  that \<open>clutl_platform_select\<close> lists, and the memory map of the process. The values are parameters. A query
  whose buffer is too small fails and stores nothing, as OpenCL documents; the code does not look at
  the result and prints what the variable held before.
\<close>

section \<open>Device capabilities\<close>

text \<open>Local variables as bytes, None while uninitialised; \<open>cv_val\<close> is \<open>char val[1024]\<close>.\<close>

record caps_vars =
  cv_val :: "byte option list"
  cv_uint :: "byte option list"
  cv_sz :: "byte option list"
  cv_maxdim :: "byte option list"
  cv_lc_memsz :: "byte option list"
  cv_gl_memsz :: "byte option list"

definition caps_vars0 :: caps_vars where
  "caps_vars0 = \<lparr>cv_val = replicate 1024 None, cv_uint = replicate 4 None, cv_sz = replicate 8 None,
     cv_maxdim = replicate 4 None, cv_lc_memsz = replicate 8 None, cv_gl_memsz = replicate 8 None\<rparr>"

definition clGetDeviceInfo :: "(string \<Rightarrow> byte list) \<Rightarrow> string \<Rightarrow> byte option list \<Rightarrow> byte option list" where
  "clGetDeviceInfo info name var =
     (if length (info name) \<le> length var then map Some (info name) @ drop (length (info name)) var else var)"

text \<open>What \<open>printf\<close> shows: a text, a number, or a value that was never stored.\<close>

datatype shown = Text "byte list" | Numbers "nat list" | Indeterminate

fun le_value :: "byte list \<Rightarrow> nat" where
  "le_value [] = 0"
| "le_value (b # bs) = unat b + 256 * le_value bs"

text \<open>\<open>%s\<close> reads up to the terminator, which must come before a byte that was not stored.\<close>

definition show_text :: "byte option list \<Rightarrow> shown" where
  "show_text var =
     (let bs = takeWhile (\<lambda>b. b \<noteq> Some 0 \<and> b \<noteq> None) var
      in if Some 0 = (var @ [None]) ! length bs then Text (map the bs) else Indeterminate)"

definition show_number :: "nat \<Rightarrow> byte option list \<Rightarrow> shown" where
  "show_number rshift var =
     (if None \<in> set var then Indeterminate else Numbers [le_value (map the var) div 2 ^ rshift])"

text \<open>The sizes of the work items: the array has \<open>wi_maxdim\<close> cells, and \<open>n / sizeof(size_t)\<close> are printed.\<close>

fun cells :: "nat \<Rightarrow> byte list \<Rightarrow> nat list" where
  "cells 0 bs = []"
| "cells (Suc k) bs = le_value (take 8 bs) # cells k (drop 8 bs)"

definition show_item_sizes :: "(string \<Rightarrow> byte list) \<Rightarrow> byte option list \<Rightarrow> shown" where
  "show_item_sizes info maxdim =
     (if None \<in> set maxdim \<or> length (info ''CL_DEVICE_MAX_WORK_ITEM_SIZES'') > 8 * le_value (map the maxdim)
      then Indeterminate
      else Numbers (cells (length (info ''CL_DEVICE_MAX_WORK_ITEM_SIZES'') div 8) (info ''CL_DEVICE_MAX_WORK_ITEM_SIZES'')))"

text \<open>The queries of numbers into one variable, printed one after the other.\<close>

fun query_uints :: "(string \<Rightarrow> byte list) \<Rightarrow> string list \<Rightarrow> caps_vars \<Rightarrow> (string \<times> shown) list \<times> caps_vars" where
  "query_uints info [] v = ([], v)"
| "query_uints info (p # ps) v =
     (let v = v\<lparr>cv_uint := clGetDeviceInfo info p (cv_uint v)\<rparr>;
          (lines, w) = query_uints info ps v
      in ((p, show_number 0 (cv_uint v)) # lines, w))"

definition compute_params :: "string list" where
  "compute_params = [''CL_DEVICE_MAX_COMPUTE_UNITS'', ''CL_DEVICE_MAX_CLOCK_FREQUENCY'', ''CL_DEVICE_ADDRESS_BITS'']"

definition width_params :: "string list" where
  "width_params = [''CL_DEVICE_PREFERRED_VECTOR_WIDTH_FLOAT'', ''CL_DEVICE_PREFERRED_VECTOR_WIDTH_DOUBLE'',
     ''CL_DEVICE_PREFERRED_VECTOR_WIDTH_INT'', ''CL_DEVICE_PREFERRED_VECTOR_WIDTH_SHORT'',
     ''CL_DEVICE_PREFERRED_VECTOR_WIDTH_CHAR'']"

definition clutl_device_caps :: "(string \<Rightarrow> byte list) \<Rightarrow> (string \<times> shown) list" where
  "clutl_device_caps info =
     (let v = caps_vars0;
          v = v\<lparr>cv_val := clGetDeviceInfo info ''CL_DEVICE_NAME'' (cv_val v)\<rparr>;
          name = (''CL_DEVICE_NAME'', show_text (cv_val v));
          (units, v) = query_uints info compute_params v;
          v = v\<lparr>cv_sz := clGetDeviceInfo info ''CL_DEVICE_MAX_WORK_GROUP_SIZE'' (cv_sz v)\<rparr>;
          v = v\<lparr>cv_maxdim := clGetDeviceInfo info ''CL_DEVICE_MAX_WORK_ITEM_DIMENSIONS'' (cv_maxdim v)\<rparr>;
          groups = [(''CL_DEVICE_MAX_WORK_GROUP_SIZE'', show_number 0 (cv_sz v)),
            (''CL_DEVICE_MAX_WORK_ITEM_DIMENSIONS'', show_number 0 (cv_maxdim v)),
            (''CL_DEVICE_MAX_WORK_ITEM_SIZES'', show_item_sizes info (cv_maxdim v))];
          v = v\<lparr>cv_lc_memsz := clGetDeviceInfo info ''CL_DEVICE_LOCAL_MEM_SIZE'' (cv_lc_memsz v)\<rparr>;
          v = v\<lparr>cv_gl_memsz := clGetDeviceInfo info ''CL_DEVICE_GLOBAL_MEM_SIZE'' (cv_gl_memsz v)\<rparr>;
          memory = [(''CL_DEVICE_LOCAL_MEM_SIZE'', show_number 10 (cv_lc_memsz v)),
            (''CL_DEVICE_GLOBAL_MEM_SIZE'', show_number 20 (cv_gl_memsz v))];
          (widths, v) = query_uints info width_params v;
          v = v\<lparr>cv_val := clGetDeviceInfo info ''CL_DEVICE_EXTENSIONS'' (cv_val v)\<rparr>
      in name # units @ groups @ memory @ widths @ [(''CL_DEVICE_EXTENSIONS'', show_text (cv_val v))])"

section \<open>What is printed\<close>

text \<open>The sizes OpenCL documents for the values; a text ends with its only zero byte.\<close>

definition is_text :: "byte list \<Rightarrow> bool" where
  "is_text bs \<longleftrightarrow> bs \<noteq> [] \<and> List.last bs = 0 \<and> 0 \<notin> set (butlast bs)"

definition documented_sizes :: "(string \<Rightarrow> byte list) \<Rightarrow> bool" where
  "documented_sizes info \<longleftrightarrow>
     list_all (\<lambda>p. length (info p) = 4) (''CL_DEVICE_MAX_WORK_ITEM_DIMENSIONS'' # compute_params @ width_params) \<and>
     list_all (\<lambda>p. length (info p) = 8)
       [''CL_DEVICE_MAX_WORK_GROUP_SIZE'', ''CL_DEVICE_LOCAL_MEM_SIZE'', ''CL_DEVICE_GLOBAL_MEM_SIZE''] \<and>
     length (info ''CL_DEVICE_MAX_WORK_ITEM_SIZES'') = 8 * le_value (info ''CL_DEVICE_MAX_WORK_ITEM_DIMENSIONS'') \<and>
     is_text (info ''CL_DEVICE_NAME'') \<and> is_text (info ''CL_DEVICE_EXTENSIONS'')"

lemma get_info_exact: "length (info p) = length var \<Longrightarrow> clGetDeviceInfo info p var = map Some (info p)"
  by (simp add: clGetDeviceInfo_def)

lemma get_info_length: "length (clGetDeviceInfo info p var) = length var"
  by (simp add: clGetDeviceInfo_def)

lemma show_number_stored: "show_number r (map Some bs) = Numbers [le_value bs div 2 ^ r]"
  by (auto simp: show_number_def comp_def)

lemma show_number_0: "show_number 0 (map Some bs) = Numbers [le_value bs]"
  by (simp add: show_number_stored)

lemma show_text_stored:
  assumes "is_text bs"
  shows "show_text (map Some bs @ rest) = Text (butlast bs)"
proof -
  obtain as where bs: "bs = as @ [0]" "0 \<notin> set as"
    using assms by (metis append_butlast_last_id is_text_def)
  have tw: "takeWhile (\<lambda>b. b \<noteq> Some 0 \<and> b \<noteq> None) (map Some as @ Some 0 # rest) = map Some as"
    using bs(2) by (induction as) auto
  show ?thesis using tw by (simp add: show_text_def bs(1) nth_append comp_def)
qed

lemma query_uints_stored:
  assumes "list_all (\<lambda>p. length (info p) = 4) ps" "length (cv_uint v) = 4"
  shows "\<exists>u. length u = 4 \<and> query_uints info ps v = (map (\<lambda>p. (p, Numbers [le_value (info p)])) ps, v\<lparr>cv_uint := u\<rparr>)"
  using assms
proof (induction ps arbitrary: v)
  case Nil
  then show ?case by (intro exI[of _ "cv_uint v"]) simp
next
  case (Cons p ps)
  then have g: "clGetDeviceInfo info p (cv_uint v) = map Some (info p)" "length (info p) = 4"
    by (simp_all add: get_info_exact)
  obtain u where "length u = 4" "query_uints info ps (v\<lparr>cv_uint := map Some (info p)\<rparr>) =
      (map (\<lambda>p. (p, Numbers [le_value (info p)])) ps, v\<lparr>cv_uint := u\<rparr>)"
    using Cons.IH[of "v\<lparr>cv_uint := map Some (info p)\<rparr>"] Cons.prems(1) g(2) by auto
  then show ?case using g by (auto simp: show_number_0 Let_def)
qed

text \<open>Every line shows the value of its parameter, except that extensions that do not fit into the array
  show the name of the device again.\<close>

theorem device_caps_printed:
  assumes "documented_sizes info" "length (info ''CL_DEVICE_NAME'') \<le> 1024"
  shows "clutl_device_caps info =
    [(''CL_DEVICE_NAME'', Text (butlast (info ''CL_DEVICE_NAME'')))] @
    map (\<lambda>p. (p, Numbers [le_value (info p)])) (compute_params @
      [''CL_DEVICE_MAX_WORK_GROUP_SIZE'', ''CL_DEVICE_MAX_WORK_ITEM_DIMENSIONS'']) @
    [(''CL_DEVICE_MAX_WORK_ITEM_SIZES'', Numbers (cells (le_value (info ''CL_DEVICE_MAX_WORK_ITEM_DIMENSIONS''))
        (info ''CL_DEVICE_MAX_WORK_ITEM_SIZES''))),
     (''CL_DEVICE_LOCAL_MEM_SIZE'', Numbers [le_value (info ''CL_DEVICE_LOCAL_MEM_SIZE'') div 2 ^ 10]),
     (''CL_DEVICE_GLOBAL_MEM_SIZE'', Numbers [le_value (info ''CL_DEVICE_GLOBAL_MEM_SIZE'') div 2 ^ 20])] @
    map (\<lambda>p. (p, Numbers [le_value (info p)])) width_params @
    [(''CL_DEVICE_EXTENSIONS'', Text (butlast (info (if length (info ''CL_DEVICE_EXTENSIONS'') \<le> 1024
        then ''CL_DEVICE_EXTENSIONS'' else ''CL_DEVICE_NAME''))))]"
proof -
  note d = assms(1)[unfolded documented_sizes_def]
  define nm where "nm = clGetDeviceInfo info ''CL_DEVICE_NAME'' (replicate 1024 None)"
  have name: "nm = map Some (info ''CL_DEVICE_NAME'') @ drop (length (info ''CL_DEVICE_NAME'')) (replicate 1024 None)"
    "length nm = 1024"
    using assms(2) by (simp_all add: nm_def clGetDeviceInfo_def)
  have shown_name: "show_text nm = Text (butlast (info ''CL_DEVICE_NAME''))"
    unfolding name(1) using d by (intro show_text_stored) simp
  have ext: "show_text (clGetDeviceInfo info ''CL_DEVICE_EXTENSIONS'' nm) =
      Text (butlast (info (if length (info ''CL_DEVICE_EXTENSIONS'') \<le> 1024 then ''CL_DEVICE_EXTENSIONS'' else ''CL_DEVICE_NAME'')))"
    unfolding clGetDeviceInfo_def name(2) using d shown_name show_text_stored by simp
  let ?v = "caps_vars0\<lparr>cv_val := nm\<rparr>"
  obtain u where u: "length u = 4" "query_uints info compute_params ?v =
      (map (\<lambda>p. (p, Numbers [le_value (info p)])) compute_params, ?v\<lparr>cv_uint := u\<rparr>)"
    using query_uints_stored[of info compute_params ?v] d by (auto simp: caps_vars0_def)
  let ?w = "?v\<lparr>cv_uint := u, cv_sz := map Some (info ''CL_DEVICE_MAX_WORK_GROUP_SIZE''),
    cv_maxdim := map Some (info ''CL_DEVICE_MAX_WORK_ITEM_DIMENSIONS''),
    cv_lc_memsz := map Some (info ''CL_DEVICE_LOCAL_MEM_SIZE''), cv_gl_memsz := map Some (info ''CL_DEVICE_GLOBAL_MEM_SIZE'')\<rparr>"
  obtain u' where u': "query_uints info width_params ?w =
      (map (\<lambda>p. (p, Numbers [le_value (info p)])) width_params, ?w\<lparr>cv_uint := u'\<rparr>)"
    using query_uints_stored[of info width_params ?w] d u(1) by auto
  have e: "clGetDeviceInfo info ''CL_DEVICE_MAX_WORK_GROUP_SIZE'' (replicate 8 None) = map Some (info ''CL_DEVICE_MAX_WORK_GROUP_SIZE'')"
    "clGetDeviceInfo info ''CL_DEVICE_MAX_WORK_ITEM_DIMENSIONS'' (replicate 4 None) = map Some (info ''CL_DEVICE_MAX_WORK_ITEM_DIMENSIONS'')"
    "clGetDeviceInfo info ''CL_DEVICE_LOCAL_MEM_SIZE'' (replicate 8 None) = map Some (info ''CL_DEVICE_LOCAL_MEM_SIZE'')"
    "clGetDeviceInfo info ''CL_DEVICE_GLOBAL_MEM_SIZE'' (replicate 8 None) = map Some (info ''CL_DEVICE_GLOBAL_MEM_SIZE'')"
    using d by (simp_all add: get_info_exact)
  have sizes: "show_item_sizes info (map Some (info ''CL_DEVICE_MAX_WORK_ITEM_DIMENSIONS'')) =
      Numbers (cells (le_value (info ''CL_DEVICE_MAX_WORK_ITEM_DIMENSIONS'')) (info ''CL_DEVICE_MAX_WORK_ITEM_SIZES''))"
    using d by (auto simp: show_item_sizes_def comp_def)
  have init: "cv_val caps_vars0 = replicate 1024 None" "cv_sz caps_vars0 = replicate 8 None"
    "cv_maxdim caps_vars0 = replicate 4 None" "cv_lc_memsz caps_vars0 = replicate 8 None"
    "cv_gl_memsz caps_vars0 = replicate 8 None"
    by (simp_all add: caps_vars0_def)
  show ?thesis
    unfolding clutl_device_caps_def Let_def init nm_def[symmetric] u(2)
    by (simp add: init e u' sizes shown_name ext show_number_stored show_number_0)
qed

text \<open>A device with two extensions, and the same with more text than the array holds.\<close>

definition some_device :: "nat \<Rightarrow> string \<Rightarrow> byte list" where
  "some_device n p =
     (if p = ''CL_DEVICE_NAME'' then [71, 80, 85, 0]
      else if p = ''CL_DEVICE_EXTENSIONS'' then replicate n 120 @ [0]
      else if p = ''CL_DEVICE_MAX_WORK_ITEM_DIMENSIONS'' then [1, 0, 0, 0]
      else if p \<in> set compute_params \<or> p \<in> set width_params then [8, 0, 0, 0]
      else [0, 0, 0, 0, 1, 0, 0, 0])"

lemma some_device_documented: "documented_sizes (some_device n)"
  by (simp add: documented_sizes_def some_device_def compute_params_def width_params_def is_text_def butlast_append)

theorem device_caps_printed_witness:
  "List.last (clutl_device_caps (some_device 2)) = (''CL_DEVICE_EXTENSIONS'', Text [120, 120]) \<and>
   List.last (clutl_device_caps (some_device 1024)) = (''CL_DEVICE_EXTENSIONS'', Text [71, 80, 85])"
proof -
  have l: "length (some_device n ''CL_DEVICE_NAME'') \<le> 1024" "length (some_device n ''CL_DEVICE_EXTENSIONS'') = Suc n"
    "butlast (some_device n ''CL_DEVICE_EXTENSIONS'') = replicate n 120"
    "butlast (some_device n ''CL_DEVICE_NAME'') = [71, 80, 85]" for n
    by (simp_all add: some_device_def)
  show ?thesis
    unfolding device_caps_printed[OF some_device_documented l(1)] last_append by (simp add: l) (simp add: eval_nat_numeral)
qed

section \<open>The list of platforms\<close>

text \<open>
  The platforms that \<open>clutl_platform_select\<close> prints. The loop runs to the number the runtime reports, not
  to the size of \<open>platform_id\<close>; None is an access outside the array.
\<close>

definition platforms_shown :: "'p list \<Rightarrow> int \<Rightarrow> 'p option list option" where
  "platforms_shown platforms select_id =
     (let shown = List.filter (\<lambda>i. select_id = int i + 1 \<or> select_id \<le> 0) [0..<length platforms]
      in if list_all (\<lambda>i. i < max_platforms) shown then Some (map (\<lambda>i. platform_array platforms ! i) shown) else None)"

theorem platforms_listed:
  "platforms_shown platforms (-1) = (if length platforms \<le> 32 then Some (map Some platforms) else None) \<and>
   (k < length platforms \<and> k < 32 \<longrightarrow> platforms_shown platforms (int k + 1) = Some [Some (platforms ! k)])"
proof (intro conjI impI)
  have "length platforms \<le> 32" if "list_all (\<lambda>i. i < max_platforms) [0..<length platforms]"
    using that by (cases "length platforms \<le> 32") (auto simp: list_all_iff max_platforms_def)
  moreover have "map (\<lambda>i. platform_array platforms ! i) [0..<length platforms] = map Some platforms"
    if "length platforms \<le> 32"
    using that by (intro nth_equalityI) (auto simp: platform_array_nth max_platforms_def)
  ultimately show "platforms_shown platforms (-1) = (if length platforms \<le> 32 then Some (map Some platforms) else None)"
    by (auto simp: platforms_shown_def list_all_iff max_platforms_def)
next
  assume k: "k < length platforms \<and> k < 32"
  have "List.filter (\<lambda>i. i = k) [0..<length platforms] = [k]"
    using k by (induction platforms rule: rev_induct) (auto simp: less_Suc_eq filter_empty_conv)
  moreover have "(int k + 1 = int i + 1 \<or> int k + 1 \<le> 0) = (i = k)" for i by auto
  ultimately show "platforms_shown platforms (int k + 1) = Some [Some (platforms ! k)]"
    using k by (simp add: platforms_shown_def platform_array_nth max_platforms_def)
qed

theorem platforms_listed_witness: "platforms_shown [''A'', ''B''] 2 = Some [Some ''B'']"
  using platforms_listed[of "[''A'', ''B'']" 1] by simp

section \<open>The memory map\<close>

text \<open>
  \<open>show_runtime_map\<close> reads the map in pieces of a line or 1023 characters and hands each to \<open>printf\<close> as
  the format. The file is None when it cannot be opened, which the code does not test; a piece with a per cent
  sign is no plain text for \<open>printf\<close>. Both give None.
\<close>

definition piece_length :: "string \<Rightarrow> nat" where
  "piece_length tx = min 1023 (Suc (length (takeWhile (\<lambda>c. c \<noteq> CHR 0x0A) tx)))"

function map_pieces :: "string \<Rightarrow> string list" where
  "map_pieces tx =
     (if tx = [] then [] else take (piece_length tx) tx # map_pieces (drop (piece_length tx) tx))"
  by auto
termination by (relation "measure length") (auto simp: piece_length_def)

declare map_pieces.simps [simp del]

definition printf_format :: "string \<Rightarrow> string option" where
  "printf_format l = (if CHR ''%'' \<in> set l then None else Some l)"

fun print_all :: "string list \<Rightarrow> string option" where
  "print_all [] = Some []"
| "print_all (l # ls) = Option.bind (printf_format l) (\<lambda>a. map_option ((@) a) (print_all ls))"

definition show_runtime_map :: "string option \<Rightarrow> string option" where
  "show_runtime_map maps = Option.bind maps (\<lambda>tx. print_all (map_pieces tx))"

lemma map_pieces_concat: "concat (map_pieces tx) = tx"
  by (induction tx rule: map_pieces.induct) (subst map_pieces.simps, auto)

lemma print_all_eq: "print_all ls = (if CHR ''%'' \<in> set (concat ls) then None else Some (concat ls))"
  by (induction ls) (auto simp: printf_format_def)

text \<open>The map is shown as it is exactly when the file opens and has no per cent sign.\<close>

theorem runtime_map_shown:
  "show_runtime_map maps = (case maps of None \<Rightarrow> None | Some tx \<Rightarrow> if CHR ''%'' \<in> set tx then None else Some tx)"
  by (simp add: show_runtime_map_def print_all_eq map_pieces_concat split: option.split)

end
