(* ===== verification/CharDevice.thy ===== *)
theory CharDevice
  imports Prelude
begin

text \<open>
  The second driver in \<open>kernel_module/hello.c\<close> (disabled by \<open>#if 0\<close>): a character device that hands out a
  constant string, with its registration; and \<open>cat\<close> of \<open>kernel_module/test.c\<close>, which reads a device to its
  end. Positions and counts are words of 64 bits, as the comparison with the size mixes signed and unsigned.
\<close>

section \<open>The device\<close>

definition hello_string :: string where
  "hello_string = ''Hello world from kernel mode!'' @ [CHR 0x0A, CHR 0x00, CHR 0x00]"

text \<open>\<open>sizeof\<close>, an \<open>ssize_t\<close>.\<close>

definition hello_size :: "64 word" where "hello_size = 32"

lemma hello_length: "length hello_string = 32" "unat hello_size = 32" "sint hello_size = 32"
  by (simp_all add: hello_string_def hello_size_def)

datatype file_result =
    DevRead string "64 word"     \<comment> \<open>the bytes copied and the new position\<close>
  | DevFault
  | DevOutside                   \<comment> \<open>reads memory outside the string\<close>

definition EFAULT_C :: int where "EFAULT_C = 14"

text \<open>
  \<open>device_file_read\<close> after the sleep. The first comparison is signed; in the second, \<open>count\<close> is a \<open>size_t\<close>,
  so sum and comparison are unsigned. \<open>ok\<close> says whether \<open>copy_to_user\<close> succeeds.
\<close>

definition device_file_read :: "bool \<Rightarrow> 64 word \<Rightarrow> 64 word \<Rightarrow> file_result" where
  "device_file_read ok cnt position =
     (if sint hello_size \<le> sint position then DevRead [] position
      else let cnt = (if hello_size < position + cnt then hello_size - position else cnt)
           in if sint position < 0 \<or> length hello_string < unat position + unat cnt then DevOutside
              else if \<not> ok then DevFault
              else DevRead (take (unat cnt) (drop (unat position) hello_string)) (position + cnt))"

definition hello_return :: "file_result \<Rightarrow> int" where
  "hello_return r = (case r of DevRead s _ \<Rightarrow> int (length s) | _ \<Rightarrow> - EFAULT_C)"

lemma small_nonneg: "unat w \<le> 32 \<Longrightarrow> 0 \<le> sint (w :: 64 word)"
proof -
  assume "unat w \<le> 32"
  then have "int (unat w) \<le> int 32" by (simp only: of_nat_le_iff)
  then have "uint w \<le> 32" by simp
  moreover have "- (2 ^ 63) \<le> uint w" by (rule order_trans[of _ 0]) simp_all
  ultimately have "signed_take_bit 63 (uint w) = uint w" by (intro signed_take_bit_int_eq_self) simp_all
  then show ?thesis unfolding sint_uint by simp
qed

lemma read_inside:
  assumes "0 \<le> sint position" "0 \<le> sint cnt"
  shows "device_file_read True cnt position =
    (let p = min (unat position) 32; k = min (unat cnt) (32 - p)
     in DevRead (take k (drop p hello_string)) (position + word_of_nat k))"
proof -
  have p: "sint position = int (unat position)" "sint cnt = int (unat cnt)"
    using assms by (simp_all flip: uint_eq_sint)
  have b: "unat position < 2 ^ 63" "unat cnt < 2 ^ 63"
    unfolding of_nat_less_iff[where 'a = int, symmetric] using sint_lt[of position] sint_lt[of cnt] p by simp_all
  have sum: "unat (position + cnt) = unat position + unat cnt"
    by (rule unat_plus_if'[THEN trans]) (use b in simp)
  have le: "sint hello_size \<le> sint position \<longleftrightarrow> 32 \<le> unat position"
    unfolding p hello_length by (metis of_nat_le_iff of_nat_numeral)
  have pos: "\<not> sint position < 0" using assms(1) by simp
  show ?thesis
  proof (cases "32 \<le> unat position")
    case True
    then show ?thesis using le by (simp add: device_file_read_def Let_def)
  next
    case False
    have diff: "unat (hello_size - position) = 32 - unat position"
      using False by (subst unat_sub) (simp_all add: word_le_nat_alt hello_length)
    have lt: "hello_size < position + cnt \<longleftrightarrow> 32 < unat position + unat cnt"
      by (simp add: word_less_nat_alt hello_length sum)
    show ?thesis
    proof (cases "32 < unat position + unat cnt")
      case True
      have "word_of_nat (32 - unat position) = hello_size - position"
        by (simp flip: diff)
      moreover have "\<not> unat cnt \<le> 32 - unat position" using True False by linarith
      ultimately show ?thesis using True False le pos lt diff by (simp add: device_file_read_def hello_length(1) Let_def min_def)
    next
      case False': False
      moreover have "unat cnt \<le> 32 - unat position" using False False' by linarith
      ultimately show ?thesis using False le pos lt by (simp add: device_file_read_def hello_length(1) Let_def min_def)
    qed
  qed
qed

text \<open>C26: For a position and a count that are not negative, which is what the kernel passes, a read stays inside
  the string, copies what is left of it up to \<open>count\<close> bytes, moves the position by as much, and returns 0
  exactly when \<open>count\<close> is 0 or the string has been read. Larger counts wrap around: some read behind the
  string.\<close>

theorem hello_read:
  assumes "0 \<le> sint position" "0 \<le> sint cnt"
  shows "let p = min (unat position) 32; k = min (unat cnt) (32 - p); r = device_file_read True cnt position
    in r = DevRead (take k (drop p hello_string)) (position + word_of_nat k) \<and> hello_return r = int k \<and>
       (hello_return r = 0 \<longleftrightarrow> cnt = 0 \<or> 32 \<le> unat position) \<and>
       device_file_read False cnt position \<in> {DevFault, DevRead [] position} \<and>
       device_file_read True (- 3) 5 = DevOutside"
proof -
  have r: "device_file_read True cnt position =
      DevRead (take (min (unat cnt) (32 - min (unat position) 32)) (drop (min (unat position) 32) hello_string))
        (position + word_of_nat (min (unat cnt) (32 - min (unat position) 32)))"
    using read_inside[OF assms] by (simp add: Let_def)
  have "device_file_read False cnt position \<in> {DevFault, DevRead [] position}"
    using r by (auto simp: device_file_read_def Let_def split: if_splits)
  moreover have "device_file_read True (- 3) 5 = DevOutside"
    by (simp add: device_file_read_def hello_length Let_def) (simp add: hello_size_def hello_string_def)
  moreover have "unat cnt = 0 \<longleftrightarrow> cnt = 0" by (rule unat_eq_zero)
  ultimately show ?thesis
    unfolding Let_def r by (auto simp: hello_return_def hello_length min_def)
qed

theorem hello_read_witness:
  "device_file_read True 5 30 = DevRead [CHR 0x00, CHR 0x00] 32"
  using hello_read[of 30 5] by (simp add: Let_def hello_string_def)

section \<open>Registration\<close>

record chrdev =
  cd_major :: int
  cd_log :: "(bool \<times> int) list"   \<comment> \<open>True for a registration, and the number\<close>

definition chrdev0 :: chrdev where "chrdev0 = \<lparr>cd_major = 0, cd_log = []\<rparr>"

text \<open>\<open>register_chrdev(0, ...)\<close> returns the number it chose, or an error.\<close>

definition register_device :: "int \<Rightarrow> chrdev \<Rightarrow> int \<times> chrdev" where
  "register_device r s =
     (if r < 0 then (r, s) else (0, s\<lparr>cd_major := r, cd_log := cd_log s @ [(True, r)]\<rparr>))"

definition unregister_device :: "chrdev \<Rightarrow> chrdev" where
  "unregister_device s = (if cd_major s \<noteq> 0 then s\<lparr>cd_log := cd_log s @ [(False, cd_major s)]\<rparr> else s)"

definition hello_init :: "int \<Rightarrow> chrdev \<Rightarrow> int \<times> chrdev" where
  "hello_init r s = register_device r s"

definition hello_cleanup :: "chrdev \<Rightarrow> chrdev" where
  "hello_cleanup s = unregister_device s"

text \<open>The module is unloaded only after a successful initialisation; what was registered is unregistered.\<close>

lemma hello_module:
  "r < 0 \<Longrightarrow> hello_init r chrdev0 = (r, chrdev0)"
  "0 < r \<Longrightarrow> fst (hello_init r chrdev0) = 0 \<and>
     cd_log (hello_cleanup (snd (hello_init r chrdev0))) = [(True, r), (False, r)]"
  by (simp_all add: hello_init_def hello_cleanup_def register_device_def unregister_device_def chrdev0_def)

section \<open>Reading a device to its end\<close>

text \<open>What \<open>cat\<close> writes to the terminal: the size of each piece and the piece, or a message.\<close>

datatype cat_out = Piece nat string | ReadError | WriteError

text \<open>
  The device is a function from the number of bytes asked for and its state to a piece, or an error; \<open>writes\<close>
  says whether the terminal takes a piece whole. A loop that does not end has the value None.
\<close>

partial_function (option) cat ::
  "(nat \<Rightarrow> 's \<Rightarrow> (string \<times> 's) option) \<Rightarrow> (string \<Rightarrow> bool) \<Rightarrow> 's \<Rightarrow> cat_out list \<Rightarrow> cat_out list option" where
  "cat dev writes s out =
     (case dev 100 s of
        None \<Rightarrow> Some (out @ [ReadError])
      | Some (buf, s') \<Rightarrow>
          if buf = [] then Some out
          else if \<not> writes buf then Some (out @ [Piece (length buf) buf, WriteError])
          else cat dev writes s' (out @ [Piece (length buf) buf]))"

text \<open>The device above, whose state is its position.\<close>

definition hello_dev :: "nat \<Rightarrow> 64 word \<Rightarrow> (string \<times> 64 word) option" where
  "hello_dev n position =
     (case device_file_read True (word_of_nat n) position of DevRead s p \<Rightarrow> Some (s, p) | _ \<Rightarrow> None)"

definition pieces :: "cat_out list \<Rightarrow> string" where
  "pieces out = concat (map (\<lambda>c. case c of Piece _ s \<Rightarrow> s | _ \<Rightarrow> []) out)"

text \<open>The contract of a device that hands out its bytes in portions, none of them empty before the end.\<close>

locale readable_device =
  fixes dev :: "nat \<Rightarrow> 's \<Rightarrow> (string \<times> 's) option"
    and good :: "'s \<Rightarrow> bool"
    and rest :: "'s \<Rightarrow> string"
  assumes portion: "good s \<Longrightarrow> \<exists>buf s'. dev 100 s = Some (buf, s') \<and> good s' \<and> rest s = buf @ rest s' \<and>
      (buf = [] \<longrightarrow> rest s = [])"
begin

lemma cat_all:
  assumes "good s" "\<And>b. writes b"
  shows "\<exists>o'. cat dev writes s out = Some (out @ o') \<and> pieces o' = rest s \<and>
    (\<forall>c\<in>set o'. \<exists>b. c = Piece (length b) b \<and> b \<noteq> [])"
  using assms(1)
proof (induction "length (rest s)" arbitrary: s out rule: less_induct)
  case less
  obtain buf s' where b: "dev 100 s = Some (buf, s')" "good s'" "rest s = buf @ rest s'" "buf = [] \<longrightarrow> rest s = []"
    using portion[OF less.prems] by blast
  show ?case
  proof (cases "buf = []")
    case True
    then show ?thesis using b by (simp add: cat.simps[of dev writes s] pieces_def)
  next
    case False
    then have "length (rest s') < length (rest s)" using b(3) by simp
    from less.hyps[OF this b(2), of "out @ [Piece (length buf) buf]"] obtain o' where
      o': "cat dev writes s' (out @ [Piece (length buf) buf]) = Some ((out @ [Piece (length buf) buf]) @ o')"
      "pieces o' = rest s'" "\<forall>c\<in>set o'. \<exists>b. c = Piece (length b) b \<and> b \<noteq> []" by blast
    have "cat dev writes s out = Some (out @ (Piece (length buf) buf # o'))"
      using o'(1) b(1) False assms(2) by (simp add: cat.simps[of dev writes s])
    moreover have "pieces (Piece (length buf) buf # o') = rest s" using o'(2) b(3) by (simp add: pieces_def)
    ultimately show ?thesis using o'(3) False by (intro exI[of _ "Piece (length buf) buf # o'"]) auto
  qed
qed

end

interpretation hello: readable_device hello_dev "\<lambda>p. 0 \<le> sint p \<and> unat p \<le> 32" "\<lambda>p. drop (unat p) hello_string"
proof (unfold_locales, goal_cases)
  case (1 p)
  let ?k = "min 100 (32 - unat p)"
  have p: "min (unat p) 32 = unat p" using 1 by simp
  have "hello_dev 100 p = Some (take ?k (drop (unat p) hello_string), p + word_of_nat ?k)"
    using read_inside[of p 100] 1 unfolding hello_dev_def Let_def p by simp
  moreover have u: "unat (p + word_of_nat ?k) = unat p + ?k"
    using 1 by (subst unat_plus_if') (auto simp: unat_of_nat min_def)
  moreover have "0 \<le> sint (p + word_of_nat ?k)"
    by (rule small_nonneg) (use u 1 in linarith)
  moreover have "drop (unat p) hello_string = take ?k (drop (unat p) hello_string) @ drop (unat p + ?k) hello_string"
    by (metis append_take_drop_id drop_drop add.commute)
  moreover have "take ?k (drop (unat p) hello_string) = [] \<longrightarrow> drop (unat p) hello_string = []"
    using 1 by (auto simp: hello_length)
  ultimately show ?case using 1 by (intro exI[of _ "take ?k (drop (unat p) hello_string)"] exI[of _ "p + word_of_nat ?k"]) (auto simp: hello_length)
qed

text \<open>\<open>cat\<close> returns, and writes what is left in the device, in order, in pieces with their sizes.\<close>

theorem cat_hello:
  assumes "0 \<le> sint p" "unat p \<le> 32" "\<And>b. writes b"
  shows "\<exists>o'. cat hello_dev writes p [] = Some o' \<and> pieces o' = drop (unat p) hello_string \<and>
    (\<forall>c\<in>set o'. \<exists>b. c = Piece (length b) b \<and> b \<noteq> [])"
  using hello.cat_all[of p writes "[]"] assms by auto

theorem cat_hello_witness: "\<exists>o'. cat hello_dev (\<lambda>_. True) 0 [] = Some o' \<and> pieces o' = hello_string"
  using cat_hello[of 0 "\<lambda>_. True"] by auto

end
