(* ===== verification/SymbolBinding.thy ===== *)
theory SymbolBinding
  imports Prelude
begin

text \<open>
  \<open>tjingo.cpp\<close> with the libraries \<open>lib_jingo\<close> and \<open>lib_jingo2\<close>: what the program prints, depending on which
  definition a call of a function with several definitions reaches, and the table entry that \<open>main\<close>
  replaces. The dynamic linker is not part of the repository: which definition it binds a symbol to is
  the parameter \<open>resolve\<close>, and of the offset table of the executable the model keeps only where its
  calls go.
\<close>

section \<open>Objects and symbols\<close>

datatype dso = Exe | Jingo | Jingo2

text \<open>The functions an object defines and does not declare static.\<close>

fun so_defines :: "dso \<Rightarrow> string list" where
  "so_defines Exe = [''main'', ''funcB'', ''funcD'']"
| "so_defines Jingo = [''nothing'', ''funcA'', ''funcB'', ''funcC'', ''jingo'']"
| "so_defines Jingo2 = [''nothing'', ''funcA'', ''funcB'', ''funcC'', ''jingo2'']"

type_synonym target = "dso \<times> string"

text \<open>What the linker binds a symbol to is a definition of that name.\<close>

definition binds :: "(string \<Rightarrow> target option) \<Rightarrow> bool" where
  "binds resolve \<longleftrightarrow> (\<forall>s d f. resolve s = Some (d, f) \<longrightarrow> f = s \<and> s \<in> set (so_defines d))"

section \<open>The functions\<close>

text \<open>The lines that are printed, without the addresses in them.\<close>

datatype line =
    Puts string
  | CanYouSeeMe nat string
  | CallingFuncA string string
  | Returned string string

text \<open>\<open>funcA\<close>, \<open>funcB\<close>, \<open>funcD\<close>: constant strings.\<close>

fun const_fun :: "target \<Rightarrow> string option" where
  "const_fun (d, s) =
     (if d = Exe \<and> s = ''funcB'' then Some ''funcB in main.c''
      else if d = Exe \<and> s = ''funcD'' then Some ''funcD in main.c''
      else if d = Jingo \<and> s = ''funcA'' then Some ''funcA in jingo''
      else if d = Jingo \<and> s = ''funcB'' then Some ''funcB in jingo''
      else if d = Jingo2 \<and> s = ''funcA'' then Some ''funcA in jingo2''
      else if d = Jingo2 \<and> s = ''funcB'' then Some ''funcB in jingo2''
      else None)"

text \<open>\<open>call_constant\<close> calls one of them; \<open>funcC\<close> of either library returns what its call of \<open>funcD\<close>
  returns. None is the linker's error for an undefined symbol.\<close>

definition call_constant :: "(string \<Rightarrow> target option) \<Rightarrow> string \<Rightarrow> string option" where
  "call_constant resolve s = Option.bind (resolve s) const_fun"

definition funcC :: "(string \<Rightarrow> target option) \<Rightarrow> target \<Rightarrow> string option" where
  "funcC resolve t = (if snd t = ''funcC'' \<and> fst t \<noteq> Exe then call_constant resolve ''funcD'' else None)"

text \<open>\<open>jingo\<close> with its static function \<open>local_func\<close>, and \<open>jingo2\<close>; the addresses they print are left out.\<close>

definition local_subfunc :: "nat \<Rightarrow> nat" where "local_subfunc i = i * 8"

definition local_func :: "(string \<Rightarrow> target option) \<Rightarrow> nat \<Rightarrow> line list option" where
  "local_func resolve i =
     Option.bind (call_constant resolve ''funcD'') (\<lambda>r. Some [CanYouSeeMe (local_subfunc i) r])"

definition jingo :: "(string \<Rightarrow> target option) \<Rightarrow> line list option" where
  "jingo resolve =
     Option.bind (local_func resolve 1) (\<lambda>ls.
     Option.bind (call_constant resolve ''funcA'') (\<lambda>r.
       Some (Puts ''jingo is called'' # ls @ [CallingFuncA ''jingo'' r])))"

definition jingo2 :: "(string \<Rightarrow> target option) \<Rightarrow> line list option" where
  "jingo2 resolve =
     Option.bind (call_constant resolve ''funcA'') (\<lambda>r.
       Some [Puts ''jingo2 is called'', CallingFuncA ''jingo2'' r])"

section \<open>The program\<close>

text \<open>
  \<open>calls\<close> gives for a function that the executable calls through its table the function whose entry
  it uses: its own, until \<open>*p_got_jingo = *p_got_jingo2\<close> copies an entry.
\<close>

definition call_void ::
  "(string \<Rightarrow> target option) \<Rightarrow> (string \<Rightarrow> string) \<Rightarrow> string \<Rightarrow> line list option" where
  "call_void resolve calls s =
     Option.bind (resolve (calls s)) (\<lambda>t.
       if t = (Jingo, ''jingo'') then jingo resolve
       else if t = (Jingo2, ''jingo2'') then jingo2 resolve else None)"

text \<open>The statements of \<open>main\<close>. Its call of \<open>funcB\<close> is direct, as the executable defines \<open>funcB\<close>.\<close>

datatype statement = CallJingo | CallJingo2 | Patch | CallFuncA | CallFuncB | CallFuncC

definition returns :: "string \<Rightarrow> string \<Rightarrow> line list option" where
  "returns f r = Some [Returned f r]"

fun run_statement ::
  "(string \<Rightarrow> target option) \<Rightarrow> statement \<Rightarrow> (string \<Rightarrow> string) \<Rightarrow> (line list \<times> (string \<Rightarrow> string)) option" where
  "run_statement resolve CallJingo calls = map_option (\<lambda>l. (l, calls)) (call_void resolve calls ''jingo'')"
| "run_statement resolve CallJingo2 calls = map_option (\<lambda>l. (l, calls)) (call_void resolve calls ''jingo2'')"
| "run_statement resolve Patch calls = Some ([], calls(''jingo'' := calls ''jingo2''))"
| "run_statement resolve CallFuncA calls = map_option (\<lambda>l. (l, calls))
     (Option.bind (call_constant resolve (calls ''funcA'')) (returns ''funcA''))"
| "run_statement resolve CallFuncB calls = map_option (\<lambda>l. (l, calls))
     (Option.bind (const_fun (Exe, ''funcB'')) (returns ''funcB''))"
| "run_statement resolve CallFuncC calls = map_option (\<lambda>l. (l, calls))
     (Option.bind (resolve (calls ''funcC'')) (\<lambda>t. Option.bind (funcC resolve t) (returns ''funcC'')))"

fun run_statements ::
  "(string \<Rightarrow> target option) \<Rightarrow> statement list \<Rightarrow> (string \<Rightarrow> string) \<Rightarrow> line list option" where
  "run_statements resolve [] calls = Some []"
| "run_statements resolve (c # cs) calls =
     Option.bind (run_statement resolve c calls) (\<lambda>(l, calls).
       map_option (\<lambda>ls. l @ ls) (run_statements resolve cs calls))"

definition tjingo_main :: "(string \<Rightarrow> target option) \<Rightarrow> line list option" where
  "tjingo_main resolve =
     run_statements resolve
       [CallJingo, CallJingo, CallJingo, CallJingo2, Patch, CallJingo, CallFuncA, CallFuncB, CallFuncC] (\<lambda>s. s)"

section \<open>What the program prints\<close>

definition tjingo_lines :: "string \<Rightarrow> line list" where
  "tjingo_lines a =
     (let j = [Puts ''jingo is called'', CanYouSeeMe 8 ''funcD in main.c'', CallingFuncA ''jingo'' a];
          j2 = [Puts ''jingo2 is called'', CallingFuncA ''jingo2'' a]
      in j @ j @ j @ j2 @ j2 @
        [Returned ''funcA'' a, Returned ''funcB'' ''funcB in main.c'', Returned ''funcC'' ''funcD in main.c''])"

text \<open>Names that one object defines leave the linker no choice.\<close>

lemma binds_unique:
  assumes "binds resolve" "resolve s \<noteq> None"
  shows "s = ''jingo'' \<Longrightarrow> resolve s = Some (Jingo, s)" "s = ''jingo2'' \<Longrightarrow> resolve s = Some (Jingo2, s)"
    "s = ''funcD'' \<Longrightarrow> resolve s = Some (Exe, s)"
    "s = ''funcC'' \<Longrightarrow> resolve s = Some (Jingo, s) \<or> resolve s = Some (Jingo2, s)"
    "s = ''funcA'' \<Longrightarrow> resolve s = Some (Jingo, s) \<or> resolve s = Some (Jingo2, s)"
proof -
  obtain d f where r: "resolve s = Some (d, f)" using assms(2) by fastforce
  then have "f = s" "s \<in> set (so_defines d)" using assms(1) unfolding binds_def by blast+
  then show "s = ''jingo'' \<Longrightarrow> resolve s = Some (Jingo, s)" "s = ''jingo2'' \<Longrightarrow> resolve s = Some (Jingo2, s)"
    "s = ''funcD'' \<Longrightarrow> resolve s = Some (Exe, s)"
    "s = ''funcC'' \<Longrightarrow> resolve s = Some (Jingo, s) \<or> resolve s = Some (Jingo2, s)"
    "s = ''funcA'' \<Longrightarrow> resolve s = Some (Jingo, s) \<or> resolve s = Some (Jingo2, s)"
    using r by (cases d; simp)+
qed

text \<open>For any linker that binds the five symbols the program needs: both libraries and the program use the same
  \<open>funcA\<close>, so a library may get that of the other one; \<open>funcD\<close> is that of the executable; and the fourth call of
  \<open>jingo\<close>, after the entry has been copied, runs \<open>jingo2\<close>.\<close>

theorem tjingo_output:
  assumes "binds resolve" "resolve ''jingo'' \<noteq> None" "resolve ''jingo2'' \<noteq> None" "resolve ''funcA'' \<noteq> None"
    "resolve ''funcC'' \<noteq> None" "resolve ''funcD'' \<noteq> None"
  shows "tjingo_main resolve = Some (tjingo_lines
    (if resolve ''funcA'' = Some (Jingo2, ''funcA'') then ''funcA in jingo2'' else ''funcA in jingo''))"
proof -
  note b = binds_unique[OF assms(1)]
  have r: "resolve ''jingo'' = Some (Jingo, ''jingo'')" "resolve ''jingo2'' = Some (Jingo2, ''jingo2'')"
    "resolve ''funcD'' = Some (Exe, ''funcD'')"
    using b(1)[OF assms(2)] b(2)[OF assms(3)] b(3)[OF assms(6)] by simp_all
  have a: "resolve ''funcA'' = Some (Jingo, ''funcA'') \<or> resolve ''funcA'' = Some (Jingo2, ''funcA'')"
    using b(5)[OF assms(4)] by simp
  have c: "resolve ''funcC'' = Some (Jingo, ''funcC'') \<or> resolve ''funcC'' = Some (Jingo2, ''funcC'')"
    using b(4)[OF assms(5)] by simp
  have d: "call_constant resolve ''funcD'' = Some ''funcD in main.c''" by (simp add: call_constant_def r)
  have j: "Option.bind (resolve ''funcC'') (\<lambda>t. Option.bind (funcC resolve t) (returns ''funcC'')) =
      Some [Returned ''funcC'' ''funcD in main.c'']"
    using c by (elim disjE) (simp_all add: funcC_def d returns_def)
  show ?thesis
    using a
  proof (elim disjE)
    assume "resolve ''funcA'' = Some (Jingo, ''funcA'')"
    then show ?thesis
      by (simp add: tjingo_main_def call_void_def r jingo_def jingo2_def local_func_def local_subfunc_def d j
          call_constant_def[of resolve "''funcA''"] returns_def tjingo_lines_def)
  next
    assume "resolve ''funcA'' = Some (Jingo2, ''funcA'')"
    then show ?thesis
      by (simp add: tjingo_main_def call_void_def r jingo_def jingo2_def local_func_def local_subfunc_def d j
          call_constant_def[of resolve "''funcA''"] returns_def tjingo_lines_def)
  qed
qed

text \<open>The order of \<open>target_link_libraries(tjingo jingo2 jingo)\<close>, in which the first definition counts.\<close>

theorem tjingo_output_witness:
  "\<exists>resolve. resolve ''funcA'' = Some (Jingo2, ''funcA'') \<and>
     tjingo_main resolve = Some (tjingo_lines ''funcA in jingo2'')"
proof -
  define resolve where "resolve = [''jingo'' \<mapsto> (Jingo, ''jingo''), ''jingo2'' \<mapsto> (Jingo2, ''jingo2''),
    ''funcA'' \<mapsto> (Jingo2, ''funcA''), ''funcC'' \<mapsto> (Jingo2, ''funcC''), ''funcD'' \<mapsto> (Exe, ''funcD'')]"
  have "binds resolve" unfolding binds_def resolve_def by (auto split: if_splits)
  then show ?thesis using tjingo_output[of resolve] by (intro exI[of _ resolve]) (simp add: resolve_def)
qed

end
