(* ===== verification/SmartPtr.thy ===== *)
theory SmartPtr
  imports Prelude
begin

text \<open>
  \<open>tsmartptr.cpp\<close>: objects that announce their construction and destruction, held by \<open>shared_ptr\<close> with a
  deleter of the program. The output is the list of events; \<open>shared_ptr\<close> is used without sharing here, so
  a pointer is its control block: none for an empty one, else the raw pointer it manages, which may be NULL.
\<close>

section \<open>Events and pointers\<close>

datatype event =
    Ctor int
  | Dtor int
  | CreateFailed "int option"   \<comment> \<open>with the number, in \<open>test1\<close>\<close>
  | Ids "int list"

text \<open>A raw pointer is the object's number, or NULL. \<open>create\<close> gives NULL on failure.\<close>

definition create_obj :: "bool \<Rightarrow> int \<Rightarrow> int option \<times> event list" where
  "create_obj bToFail i = (if bToFail then (None, []) else (Some i, [Ctor i]))"

text \<open>\<open>delete pt\<close>, which does nothing for NULL.\<close>

definition destroy_obj :: "int option \<Rightarrow> event list" where
  "destroy_obj pt = (case pt of None \<Rightarrow> [] | Some i \<Rightarrow> [Dtor i])"

type_synonym sptr = "int option option"

text \<open>Assignment of a new pointer, and the end of the scope: the deleter is called for NULL too.\<close>

definition drop_sptr :: "sptr \<Rightarrow> event list" where
  "drop_sptr p = (case p of None \<Rightarrow> [] | Some pt \<Rightarrow> destroy_obj pt)"

definition is_null :: "sptr \<Rightarrow> bool" where
  "is_null p \<longleftrightarrow> (case p of None \<Rightarrow> True | Some pt \<Rightarrow> pt = None)"

section \<open>The tests\<close>

text \<open>One round of \<open>test1\<close>: the new object exists before the old one goes.\<close>

definition round1 :: "(int \<Rightarrow> bool) \<Rightarrow> int \<Rightarrow> sptr \<Rightarrow> sptr \<times> event list" where
  "round1 fails i p0 =
     (let (pt, es) = create_obj (fails i) i; p = Some pt
      in (p, es @ drop_sptr p0 @ (if is_null p then [CreateFailed (Some i)] else [])))"

fun rounds1 :: "(int \<Rightarrow> bool) \<Rightarrow> int list \<Rightarrow> sptr \<Rightarrow> event list" where
  "rounds1 fails [] p0 = drop_sptr p0"
| "rounds1 fails (i # is) p0 = (let (p, es) = round1 fails i p0 in es @ rounds1 fails is p)"

definition smart_test1 :: "event list" where
  "smart_test1 = rounds1 (\<lambda>i. i = 102) [100, 101, 102, 103] None"

text \<open>\<open>Compose\<close>: members in order, the body, and members in reverse.\<close>

definition compose :: "bool \<Rightarrow> event list" where
  "compose bToFail =
     (let (pt, es) = create_obj bToFail 100; p0 = Some pt; p1 = Some (Some 101)
      in es @ [Ctor 101] @ (if is_null p0 then [CreateFailed None] else []) @ drop_sptr p1 @ drop_sptr p0)"

definition smart_test2 :: "event list" where "smart_test2 = compose True"

text \<open>An array of objects or of pointers: elements are destroyed in reverse.\<close>

definition array_test :: "int list \<Rightarrow> event list" where
  "array_test is = map Ctor is @ [Ids is] @ concat (map (\<lambda>i. drop_sptr (Some (Some i))) (rev is))"

definition smart_test3 :: "event list" where "smart_test3 = array_test [990, 991, 992]"
definition smart_test4 :: "event list" where "smart_test4 = array_test [880, 881, 882]"

section \<open>Lifetimes\<close>

text \<open>A run of events is sound if every destructor is of a live object; the result are the live objects.\<close>

fun lifetimes :: "int set \<Rightarrow> event list \<Rightarrow> int set option" where
  "lifetimes A [] = Some A"
| "lifetimes A (Ctor i # es) = (if i \<in> A then None else lifetimes (insert i A) es)"
| "lifetimes A (Dtor i # es) = (if i \<in> A then lifetimes (A - {i}) es else None)"
| "lifetimes A (e # es) = lifetimes A es"

lemma lifetimes_append: "lifetimes A (es @ fs) = Option.bind (lifetimes A es) (\<lambda>B. lifetimes B fs)"
  by (induction A es rule: lifetimes.induct) auto

fun objects_of :: "sptr \<Rightarrow> int set" where
  "objects_of (Some (Some i)) = {i}"
| "objects_of p = {}"

lemma lifetimes_drop: "objects_of p \<subseteq> A \<Longrightarrow> lifetimes A (drop_sptr p) = Some (A - objects_of p)"
  by (cases p rule: objects_of.cases) (auto simp: drop_sptr_def destroy_obj_def)

lemma round1_lifetime:
  assumes "objects_of p0 \<subseteq> - {i}" "round1 fails i p0 = (p, es)"
  shows "lifetimes (objects_of p0) es = Some (objects_of p)" "objects_of p \<subseteq> {i}"
    "objects_of p = (if fails i then {} else {i})"
proof -
  have es: "es = snd (create_obj (fails i) i) @ drop_sptr p0 @ (if fails i then [CreateFailed (Some i)] else [])"
    "p = Some (if fails i then None else Some i)"
    using assms(2) by (auto simp: round1_def create_obj_def is_null_def split: if_splits)
  then show "objects_of p \<subseteq> {i}" "objects_of p = (if fails i then {} else {i})" by auto
  have "lifetimes (insert i (objects_of p0)) (drop_sptr p0) = Some (insert i (objects_of p0) - objects_of p0)"
    by (rule lifetimes_drop) auto
  moreover have "insert i (objects_of p0) - objects_of p0 = {i}" using assms(1) by auto
  ultimately show "lifetimes (objects_of p0) es = Some (objects_of p)"
    using assms(1) lifetimes_drop[of p0 "objects_of p0"] unfolding es
    by (auto simp: create_obj_def lifetimes_append)
qed

lemma rounds1_lifetime:
  "distinct is \<Longrightarrow> objects_of p0 \<inter> set is = {} \<Longrightarrow> lifetimes (objects_of p0) (rounds1 fails is p0) = Some {}"
proof (induction "is" arbitrary: p0)
  case Nil
  then show ?case by (simp add: lifetimes_drop)
next
  case (Cons i "is")
  obtain p es where r: "round1 fails i p0 = (p, es)" by fastforce
  have i: "objects_of p0 \<subseteq> - {i}" using Cons.prems(2) by auto
  then have "objects_of p \<inter> set is = {}" using round1_lifetime(2)[OF i r] Cons.prems(1) by auto
  then show ?case
    using Cons round1_lifetime(1)[OF i r] by (simp add: r lifetimes_append)
qed

lemma rounds1_ctors:
  "filter (\<lambda>e. case e of Ctor _ \<Rightarrow> True | CreateFailed _ \<Rightarrow> True | _ \<Rightarrow> False) (rounds1 fails is p0) =
     map (\<lambda>i. if fails i then CreateFailed (Some i) else Ctor i) is"
proof (induction "is" arbitrary: p0)
  case Nil
  then show ?case by (cases p0 rule: objects_of.cases) (simp_all add: drop_sptr_def destroy_obj_def)
next
  case (Cons i "is")
  then show ?case
    by (cases p0 rule: objects_of.cases)
      (simp_all add: round1_def create_obj_def is_null_def drop_sptr_def destroy_obj_def)
qed

text \<open>In \<open>test1\<close>, for any numbers and any failures of \<open>create\<close>, a failure is reported exactly for the
  numbers for which no object was constructed; every object is destroyed exactly once and none is left,
  though the deleter is also called with NULL. An object outlives the construction of the next one.\<close>

theorem smart_ptr_lifetimes:
  assumes "distinct is"
  shows "lifetimes {} (rounds1 fails is None) = Some {} \<and>
    filter (\<lambda>e. case e of Ctor _ \<Rightarrow> True | CreateFailed _ \<Rightarrow> True | _ \<Rightarrow> False) (rounds1 fails is None) =
      map (\<lambda>i. if fails i then CreateFailed (Some i) else Ctor i) is"
  using rounds1_lifetime[OF assms, of None fails] rounds1_ctors[of fails "is" None] by simp

theorem smart_ptr_lifetimes_witness: "lifetimes {} smart_test1 = Some {}"
  using smart_ptr_lifetimes[of "[100, 101, 102, 103]" "\<lambda>i. i = 102"] by (simp add: smart_test1_def)

text \<open>What the tests print, and that the other tests leave nothing behind either.\<close>

lemma smart_test1_output:
  "smart_test1 = [Ctor 100, Ctor 101, Dtor 100, Dtor 101, CreateFailed (Some 102), Ctor 103, Dtor 103]"
  by (simp add: smart_test1_def round1_def create_obj_def drop_sptr_def destroy_obj_def is_null_def)

lemma array_test_lifetimes: "distinct is \<Longrightarrow> lifetimes {} (array_test is) = Some {}"
proof -
  assume d: "distinct is"
  have up: "distinct js \<Longrightarrow> set js \<inter> A = {} \<Longrightarrow> lifetimes A (map Ctor js @ es) = lifetimes (A \<union> set js) es" for js A es
    by (induction js arbitrary: A) (auto simp: Un_insert_right)
  have down: "distinct js \<Longrightarrow> lifetimes (set js) (concat (map (\<lambda>i. drop_sptr (Some (Some i))) js)) = Some {}" for js
    by (induction js) (auto simp: drop_sptr_def destroy_obj_def)
  show ?thesis using up[OF d, of "{}"] down[of "rev is"] d by (simp add: array_test_def)
qed

lemma smart_tests_lifetimes:
  "lifetimes {} (compose b) = Some {}" "lifetimes {} smart_test3 = Some {}" "lifetimes {} smart_test4 = Some {}"
  by (cases b) (simp_all add: compose_def create_obj_def drop_sptr_def destroy_obj_def is_null_def
      smart_test3_def smart_test4_def array_test_lifetimes)

end
