(* ===== verification/CommaInit.thy ===== *)
theory CommaInit
  imports Prelude
begin

text \<open>
  \<open>teigen3test.cpp\<close>: the matrix \<open>M3f\<close> with a comma initialiser, the variadic \<open>sum\<close> and the class \<open>kk\<close>. The
  use of the Eigen library in \<open>main\<close> is not modelled.
\<close>

section \<open>The matrix and its loader\<close>

text \<open>\<open>m[3][3]\<close> row by row; a cell that was never written is None.\<close>

type_synonym 'a m3f = "'a option list"

definition m3f_new :: "'a m3f" where "m3f_new = replicate 9 None"

text \<open>A \<open>Loader\<close> refers to the matrix, which is the first component here, and counts.\<close>

type_synonym 'a loader = "'a m3f \<times> nat"

definition cell :: "nat \<Rightarrow> nat \<Rightarrow> nat" where "cell r c = 3 * r + c"

definition loader_set :: "'a \<Rightarrow> 'a loader \<Rightarrow> 'a loader" where
  "loader_set x l = (case l of (m, i) \<Rightarrow> (if i < 9 then m[cell (i div 3) (i mod 3) := Some x] else m, i))"

text \<open>\<open>operator,\<close> and \<open>operator<<\<close>.\<close>

definition comma :: "'a \<Rightarrow> 'a loader \<Rightarrow> 'a loader" where
  "comma x l = (case loader_set x l of (m, i) \<Rightarrow> (m, i + 1))"

definition shl :: "'a m3f \<Rightarrow> 'a \<Rightarrow> 'a loader" where
  "shl m x = (m[cell 0 0 := Some x], 1)"

text \<open>The destructor of the temporary, at the end of the statement: the number it complains about.\<close>

definition loader_dtor :: "'a loader \<Rightarrow> nat option" where
  "loader_dtor l = (if snd l \<noteq> 9 then Some (snd l) else None)"

text \<open>The statement \<open>m << x, y, \<dots>\<close>.\<close>

definition comma_init :: "'a m3f \<Rightarrow> 'a \<Rightarrow> 'a list \<Rightarrow> 'a m3f \<times> nat option" where
  "comma_init m x ys = (let l = fold comma ys (shl m x) in (fst l, loader_dtor l))"

text \<open>\<open>operator<<\<close> of a stream: three rows of three values.\<close>

definition show_m3f :: "'a m3f \<Rightarrow> 'a option list list" where
  "show_m3f m = map (\<lambda>i. map (\<lambda>j. m ! cell i j) [0..<3]) [0..<3]"

text \<open>\<open>a << 1,2,3,4,5,6,7,8,'A','B'\<close> of \<open>main\<close>.\<close>

definition main_matrix :: "int m3f \<times> nat option" where
  "main_matrix = comma_init m3f_new 1 [2, 3, 4, 5, 6, 7, 8, 65, 66]"

subsection \<open>What is stored\<close>

lemma cell_divmod: "cell (i div 3) (i mod 3) = i"
  by (simp add: cell_def)

lemma comma_eq: "comma x (m, i) = (if i < 9 then m[i := Some x] else m, i + 1)"
  by (simp add: comma_def loader_set_def cell_divmod)

lemma fold_comma:
  "length m = 9 \<Longrightarrow> fold comma ys (m, i) =
     (if i \<le> 9 then take i m @ map Some (take (9 - i) ys) @ drop (i + length ys) m else m, i + length ys)"
proof (induction ys arbitrary: m i)
  case (Cons y ys)
  show ?case
  proof (cases "i < 9")
    case True
    then have "i < length m" using Cons.prems by simp
    have "fold comma (y # ys) (m, i) = fold comma ys (m[i := Some y], i + 1)"
      using True by (simp add: comma_eq)
    also have "\<dots> = (take (i + 1) (m[i := Some y]) @ map Some (take (9 - (i + 1)) ys) @
        drop (i + 1 + length ys) (m[i := Some y]), i + 1 + length ys)"
      using Cons True by simp
    also have "take (i + 1) (m[i := Some y]) = take i m @ [Some y]"
      using \<open>i < length m\<close> by (simp add: take_Suc_conv_app_nth)
    also have "drop (i + 1 + length ys) (m[i := Some y]) = drop (i + 1 + length ys) m"
      by (rule drop_update_cancel) simp
    finally show ?thesis using True by (simp add: take_Cons')
  next
    case False
    then show ?thesis using Cons by (auto simp: comma_eq)
  qed
qed simp

text \<open>\<open>m << x0, x1, \<dots>\<close> stores the first nine values row by row, leaves the other cells as they were, and
  the destructor complains, with the number of values, exactly when they are not nine.\<close>

theorem comma_init_stores:
  assumes "length m = 9"
  shows "comma_init m x ys =
    (map Some (take 9 (x # ys)) @ drop (length (x # ys)) m,
     if length (x # ys) = 9 then None else Some (length (x # ys)))"
proof -
  have "m[0 := Some x] = Some x # drop 1 m" using assms by (cases m) simp_all
  then show ?thesis
    using fold_comma[of "m[0 := Some x]" ys 1] assms
    by (cases m) (auto simp: comma_init_def shl_def loader_dtor_def cell_def take_Cons')
qed

theorem comma_init_stores_witness:
  "main_matrix = (map Some [1, 2, 3, 4, 5, 6, 7, 8, 65], Some 10)"
  using comma_init_stores[of m3f_new "1 :: int" "[2, 3, 4, 5, 6, 7, 8, 65, 66]"]
  by (simp add: main_matrix_def m3f_new_def)

lemma show_m3f_rows: "length m = 9 \<Longrightarrow> concat (show_m3f m) = m"
proof -
  assume "length m = 9"
  then have "m = map (\<lambda>i. m ! i) [0..<9]" by (metis map_nth)
  then show ?thesis by (simp add: show_m3f_def cell_def eval_nat_numeral upt_rec)
qed

section \<open>The variadic sum\<close>

text \<open>None is the call without arguments, which does not compile.\<close>

fun sum_args :: "'a::comm_semiring_1 list \<Rightarrow> 'a option" where
  "sum_args [] = None"
| "sum_args [t] = Some t"
| "sum_args (t # rest) = Option.bind (sum_args rest) (\<lambda>s. Some (t * 2 + s))"

text \<open>Every argument but the last is doubled.\<close>

lemma sum_args_eq: "ts \<noteq> [] \<Longrightarrow> sum_args ts = Some (2 * sum_list (butlast ts) + last ts)"
  by (induction ts rule: sum_args.induct) (auto simp: algebra_simps)

section \<open>The class \<open>kk\<close>\<close>

record kk =
  kk_name :: string
  kk_id :: int

datatype kk_event = KkCtor | KkCopyCtor | KkMoveCtor | KkDtor | KkShow string kk

definition kk_ctor :: "string \<Rightarrow> int \<Rightarrow> kk \<times> kk_event list" where
  "kk_ctor n i = (\<lparr>kk_name = n, kk_id = i\<rparr>, [KkCtor])"

definition kk_copy :: "kk \<Rightarrow> kk \<times> kk_event list" where
  "kk_copy m = (\<lparr>kk_name = kk_name m, kk_id = kk_id m\<rparr>, [KkCopyCtor])"

text \<open>
  The parameter of the move constructor is \<open>const kk &&\<close>, so \<open>std::move(m.name)\<close> is a constant string and
  the assignment copies it: the source keeps its name. The new object and the source after the call.
\<close>

definition kk_move :: "kk \<Rightarrow> (kk \<times> kk) \<times> kk_event list" where
  "kk_move m = ((\<lparr>kk_name = kk_name m, kk_id = kk_id m\<rparr>, m), [KkMoveCtor])"

text \<open>\<open>build_kk\<close>, and the part of \<open>main\<close> on \<open>kk\<close>, without the copies that compilers elide.\<close>

definition build_kk :: "kk \<times> kk_event list" where
  "build_kk = kk_ctor (replicate 2 CHR ''c'') 1"

definition kk_main :: "kk_event list" where
  "kk_main =
     (let (t, e1) = build_kk; (k1, e2) = build_kk; ((k2, k1), e3) = kk_move k1
      in e1 @ [KkShow ''build_kk() returns'' t, KkDtor] @ e2 @ e3 @
         [KkShow ''k1='' k1, KkShow ''k2='' k2, KkDtor, KkDtor])"

lemma kk_main_output:
  "kk_main =
     (let k = \<lparr>kk_name = ''cc'', kk_id = 1\<rparr>
      in [KkCtor, KkShow ''build_kk() returns'' k, KkDtor, KkCtor, KkMoveCtor, KkShow ''k1='' k, KkShow ''k2='' k,
          KkDtor, KkDtor])"
  by (simp add: kk_main_def build_kk_def kk_ctor_def kk_move_def eval_nat_numeral Let_def)

end
