(* ===== verification/TemplSpec.thy ===== *)
theory TemplSpec
  imports Main
begin

text \<open>
  The class template \<open>A\<close> of \<open>ttemplspec.cpp\<close> with its four partial specialisations. Patterns are matched as
  deduction does, a parameter that occurs twice having to be deduced alike; among several matches C++ takes
  the one that is more specialised than the others, which is decided by matching one pattern against another
  with its parameters replaced by unique types.
\<close>

section \<open>Types and patterns\<close>

datatype ty = TyInt | TyFloat | TyClass nat | TyPtr ty | TyTuple "ty list"

text \<open>The value of the parameter \<open>I\<close>; \<open>UniqueVal\<close> is the invented value of the partial ordering.\<close>

datatype ival = Val int | UniqueVal

datatype ty_pat = PVar nat | PFloat | PPtr ty_pat | PTuple ty_pat nat   \<comment> \<open>\<open>std::tuple<Head, Tail...>\<close>\<close>

datatype val_pat = AnyVal | ConstVal int

record specialization =
  sp_label :: string
  sp_first :: ty_pat
  sp_second :: ty_pat
  sp_value :: val_pat

section \<open>Deduction\<close>

text \<open>A parameter is bound to a list of types, of one element unless it is a pack.\<close>

type_synonym bindings = "nat \<rightharpoonup> ty list"

definition bind_param :: "nat \<Rightarrow> ty list \<Rightarrow> bindings \<Rightarrow> bindings option" where
  "bind_param v ts e =
     (case e v of None \<Rightarrow> Some (e(v \<mapsto> ts)) | Some us \<Rightarrow> if us = ts then Some e else None)"

fun match_ty :: "ty_pat \<Rightarrow> ty \<Rightarrow> bindings \<Rightarrow> bindings option" where
  "match_ty (PVar v) t e = bind_param v [t] e"
| "match_ty PFloat TyFloat e = Some e"
| "match_ty (PPtr p) (TyPtr t) e = match_ty p t e"
| "match_ty (PTuple p v) (TyTuple (t # ts)) e = Option.bind (match_ty p t e) (bind_param v ts)"
| "match_ty _ _ _ = None"

fun match_val :: "val_pat \<Rightarrow> ival \<Rightarrow> bool" where
  "match_val AnyVal i = True"
| "match_val (ConstVal c) i = (i = Val c)"

definition matches :: "specialization \<Rightarrow> ty \<Rightarrow> ty \<Rightarrow> ival \<Rightarrow> bool" where
  "matches s t1 t2 i \<longleftrightarrow>
     Option.bind (match_ty (sp_first s) t1 Map.empty) (match_ty (sp_second s) t2) \<noteq> None \<and> match_val (sp_value s) i"

section \<open>Partial ordering\<close>

fun unique_ty :: "ty_pat \<Rightarrow> ty" where
  "unique_ty (PVar v) = TyClass v"
| "unique_ty PFloat = TyFloat"
| "unique_ty (PPtr p) = TyPtr (unique_ty p)"
| "unique_ty (PTuple p v) = TyTuple [unique_ty p, TyClass v]"

fun unique_val :: "val_pat \<Rightarrow> ival" where
  "unique_val AnyVal = UniqueVal"
| "unique_val (ConstVal c) = Val c"

definition at_least_as_specialized :: "specialization \<Rightarrow> specialization \<Rightarrow> bool" where
  "at_least_as_specialized s r = matches r (unique_ty (sp_first s)) (unique_ty (sp_second s)) (unique_val (sp_value s))"

definition more_specialized :: "specialization \<Rightarrow> specialization \<Rightarrow> bool" where
  "more_specialized s r \<longleftrightarrow> at_least_as_specialized s r \<and> \<not> at_least_as_specialized r s"

datatype class_chosen = Instance string | Ambiguous

definition select :: "string \<Rightarrow> specialization list \<Rightarrow> ty \<Rightarrow> ty \<Rightarrow> ival \<Rightarrow> class_chosen" where
  "select primary specs t1 t2 i =
     (let ms = List.filter (\<lambda>s. matches s t1 t2 i) specs
      in if ms = [] then Instance primary
         else case find (\<lambda>s. list_all (\<lambda>r. r = s \<or> more_specialized s r) ms) ms of
           None \<Rightarrow> Ambiguous
         | Some s \<Rightarrow> Instance (sp_label s))"

section \<open>The program\<close>

definition spec1 :: specialization where
  "spec1 = \<lparr>sp_label = ''A#1'', sp_first = PVar 0, sp_second = PPtr (PVar 0), sp_value = AnyVal\<rparr>"

definition spec2 :: specialization where
  "spec2 = \<lparr>sp_label = ''A#2'', sp_first = PPtr (PVar 1), sp_second = PVar 0, sp_value = AnyVal\<rparr>"

definition spec3 :: specialization where
  "spec3 = \<lparr>sp_label = ''A#3'', sp_first = PFloat, sp_second = PPtr (PVar 0), sp_value = ConstVal 5\<rparr>"

definition spec4 :: specialization where
  "spec4 = \<lparr>sp_label = ''A#4'', sp_first = PTuple (PVar 0) 1, sp_second = PVar 0, sp_value = AnyVal\<rparr>"

definition A_specs :: "specialization list" where "A_specs = [spec1, spec2, spec3, spec4]"

text \<open>The class that \<open>A<t1, t2, i>\<close> is an instance of, by the text its constructor prints.\<close>

definition A_instance :: "ty \<Rightarrow> ty \<Rightarrow> int \<Rightarrow> class_chosen" where
  "A_instance t1 t2 i = select ''A'' A_specs t1 t2 (Val i)"

definition templspec_main :: "class_chosen list" where
  "templspec_main =
     [A_instance TyInt TyInt 5, A_instance TyInt (TyPtr TyInt) 6, A_instance (TyPtr TyFloat) (TyPtr TyFloat) 5,
      A_instance TyFloat (TyPtr TyInt) 5, A_instance (TyTuple [TyInt]) TyInt 5]"

section \<open>Which class an instance is\<close>

lemmas spec_defs = spec1_def spec2_def spec3_def spec4_def

lemma spec_fields:
  "sp_label spec1 = ''A#1''" "sp_first spec1 = PVar 0" "sp_second spec1 = PPtr (PVar 0)" "sp_value spec1 = AnyVal"
  "sp_label spec2 = ''A#2''" "sp_first spec2 = PPtr (PVar 1)" "sp_second spec2 = PVar 0" "sp_value spec2 = AnyVal"
  "sp_label spec3 = ''A#3''" "sp_first spec3 = PFloat" "sp_second spec3 = PPtr (PVar 0)" "sp_value spec3 = ConstVal 5"
  "sp_label spec4 = ''A#4''" "sp_first spec4 = PTuple (PVar 0) 1" "sp_second spec4 = PVar 0" "sp_value spec4 = AnyVal"
  by (simp_all add: spec_defs)

lemma matches_specs:
  "matches spec1 t1 t2 i \<longleftrightarrow> t2 = TyPtr t1"
  "matches spec2 t1 t2 i \<longleftrightarrow> (\<exists>t. t1 = TyPtr t)"
  "matches spec3 t1 t2 i \<longleftrightarrow> t1 = TyFloat \<and> (\<exists>t. t2 = TyPtr t) \<and> i = Val 5"
  "matches spec4 t1 t2 i \<longleftrightarrow> (\<exists>ts. t1 = TyTuple (t2 # ts))"
proof -
  show "matches spec1 t1 t2 i \<longleftrightarrow> t2 = TyPtr t1"
    by (cases t2) (auto simp: matches_def spec1_def bind_param_def)
  show "matches spec2 t1 t2 i \<longleftrightarrow> (\<exists>t. t1 = TyPtr t)"
    by (cases t1) (auto simp: matches_def spec2_def bind_param_def)
  show "matches spec3 t1 t2 i \<longleftrightarrow> t1 = TyFloat \<and> (\<exists>t. t2 = TyPtr t) \<and> i = Val 5"
    by (cases t1; cases t2) (auto simp: matches_def spec3_def bind_param_def)
  show "matches spec4 t1 t2 i \<longleftrightarrow> (\<exists>ts. t1 = TyTuple (t2 # ts))"
  proof (cases t1)
    case (TyTuple us)
    then show ?thesis by (cases us) (auto simp: matches_def spec4_def bind_param_def)
  qed (simp_all add: matches_def spec4_def)
qed

text \<open>None of the specialisations is more specialised than another.\<close>

lemma specs_incomparable:
  assumes "s \<in> set A_specs" "r \<in> set A_specs"
  shows "\<not> more_specialized s r"
  using assms by (auto simp: A_specs_def more_specialized_def at_least_as_specialized_def matches_specs spec_fields)

lemma A_specs_distinct: "distinct A_specs"
  by (simp add: A_specs_def spec_defs)

lemma select_unordered:
  assumes "distinct specs" "\<And>s r. s \<in> set specs \<Longrightarrow> r \<in> set specs \<Longrightarrow> \<not> more_specialized s r"
  shows "select p specs t1 t2 i =
    (case List.filter (\<lambda>s. matches s t1 t2 i) specs of [] \<Rightarrow> Instance p | [s] \<Rightarrow> Instance (sp_label s) | _ \<Rightarrow> Ambiguous)"
proof -
  let ?ms = "List.filter (\<lambda>s. matches s t1 t2 i) specs"
  have d: "distinct ?ms" using assms(1) by simp
  have no: "\<not> more_specialized s r" if "s \<in> set ?ms" "r \<in> set ?ms" for s r using assms(2) that by auto
  show ?thesis
  proof (cases ?ms)
    case (Cons s ss)
    show ?thesis
    proof (cases ss)
      case (Cons r rs)
      have "\<not> list_all (\<lambda>r. r = s' \<or> more_specialized s' r) ?ms" if "s' \<in> set ?ms" for s'
      proof -
        have "\<exists>r'\<in>set ?ms. r' \<noteq> s'" using d \<open>?ms = s # ss\<close> Cons by auto
        then show ?thesis using no[OF that] by (auto simp: list_all_iff)
      qed
      then have "find (\<lambda>s'. list_all (\<lambda>r. r = s' \<or> more_specialized s' r) ?ms) ?ms = None"
        by (simp only: find_None_iff) blast
      then show ?thesis using \<open>?ms = s # ss\<close> Cons by (simp add: select_def Let_def)
    qed (simp add: select_def \<open>?ms = s # ss\<close>)
  qed (simp add: select_def)
qed

lemma tuple_not_in_head: "h \<noteq> TyPtr (TyTuple (h # ts))"
proof
  assume "h = TyPtr (TyTuple (h # ts))"
  from arg_cong[OF this, of "size"] show False by simp
qed

text \<open>C27: Which class \<open>A<t1, t2, i>\<close> is for every argument: the first specialisation when \<open>t2\<close> points to \<open>t1\<close>, the
  second when \<open>t1\<close> is a pointer, the third for \<open>float\<close>, a pointer and 5, the fourth for a tuple and its first
  type, the primary template otherwise. Exactly \<open>A<T*, T**, i>\<close> and \<open>A<float, float*, 5>\<close> do not compile,
  since no specialisation is more specialised than another.\<close>

theorem A_instance_selected:
  "A_instance t1 t2 i =
     (case t1 of
        TyPtr t \<Rightarrow> if t2 = TyPtr t1 then Ambiguous else Instance ''A#2''
      | TyTuple (t # ts) \<Rightarrow> if t2 = t then Instance ''A#4'' else if t2 = TyPtr t1 then Instance ''A#1'' else Instance ''A''
      | TyFloat \<Rightarrow>
          if t2 = TyPtr TyFloat then (if i = 5 then Ambiguous else Instance ''A#1'')
          else if i = 5 \<and> (case t2 of TyPtr t \<Rightarrow> True | _ \<Rightarrow> False) then Instance ''A#3'' else Instance ''A''
      | _ \<Rightarrow> if t2 = TyPtr t1 then Instance ''A#1'' else Instance ''A'')"
proof -
  have sel: "A_instance s1 s2 j = (case List.filter (\<lambda>s. matches s s1 s2 (Val j)) A_specs of
      [] \<Rightarrow> Instance ''A'' | [s] \<Rightarrow> Instance (sp_label s) | _ \<Rightarrow> Ambiguous)" for s1 s2 j
    unfolding A_instance_def by (rule select_unordered[OF A_specs_distinct specs_incomparable])
  show ?thesis
  proof (cases t1)
    case (TyTuple us)
    then show ?thesis
      by (cases us) (use tuple_not_in_head in \<open>auto simp: sel A_specs_def matches_specs spec_fields\<close>)
  qed (auto simp: sel A_specs_def matches_specs spec_fields split: ty.split)
qed

text \<open>The objects of \<open>main\<close> show each class once.\<close>

lemma templspec_output:
  "templspec_main = [Instance ''A'', Instance ''A#1'', Instance ''A#2'', Instance ''A#3'', Instance ''A#4'']"
  by (simp add: templspec_main_def A_instance_def select_def A_specs_def matches_specs Let_def spec_fields)

end
