(* ===== verification/Rtsp.thy ===== *)
theory Rtsp
  imports Main
begin

text \<open>
  The RTSP client \<open>trtsp.cpp\<close>: \<open>main\<close>, \<open>openURL\<close> and the handler of the answer to DESCRIBE. The file is a
  fragment of a program for the live555 library; that library and the two functions the handler ends in
  (\<open>setupNextSubsession\<close>, \<open>shutdownStream\<close>), which are not in the file, are events. Clients are numbered by
  their position among the created ones, and the strings of answers, which the handler owns, by the order of
  the answers.
\<close>

section \<open>Events and answers\<close>

datatype rtsp_event =
    Usage
  | CreateClient string
  | SendDescribe nat
  | Complain
  | Answer nat           \<comment> \<open>the library hands over the string of this answer\<close>
  | UseString nat
  | DeleteString nat
  | CreateSession nat
  | NewIterator nat
  | SetupNextSubsession nat
  | ShutdownStream nat

text \<open>
  What the library answers: whether \<open>createNew\<close> gives a client for a URL, and the session for a
  description: NULL, or whether it has subsessions.
\<close>

record live555 =
  lv_client :: "string \<Rightarrow> bool"
  lv_session :: "string \<Rightarrow> bool option"

record answer =
  an_client :: nat
  an_code :: int
  an_string :: string

section \<open>The program\<close>

text \<open>\<open>openURL\<close>, with \<open>rtspClientCount\<close>.\<close>

definition openURL :: "live555 \<Rightarrow> string \<Rightarrow> nat \<Rightarrow> rtsp_event list \<times> nat" where
  "openURL lv url rtspClientCount =
     (if \<not> lv_client lv url then ([CreateClient url, Complain], rtspClientCount)
      else ([CreateClient url, SendDescribe rtspClientCount], Suc rtspClientCount))"

fun open_all :: "live555 \<Rightarrow> string list \<Rightarrow> nat \<Rightarrow> rtsp_event list \<times> nat" where
  "open_all lv [] n = ([], n)"
| "open_all lv (url # urls) n =
     (let (ev, n) = openURL lv url n; (evs, n) = open_all lv urls n in (ev @ evs, n))"

text \<open>\<open>on_DESCRIBE\<close> of client \<open>c\<close> for the answer of number \<open>k\<close>; a \<open>break\<close> leads to \<open>shutdownStream\<close>.\<close>

definition on_DESCRIBE :: "live555 \<Rightarrow> nat \<Rightarrow> nat \<Rightarrow> int \<Rightarrow> string \<Rightarrow> rtsp_event list" where
  "on_DESCRIBE lv k c resultCode resultString =
     (if resultCode \<noteq> 0 then [UseString k, DeleteString k, ShutdownStream c]
      else [UseString k, UseString k, CreateSession c, DeleteString k] @
        (case lv_session lv resultString of
           None \<Rightarrow> [Complain, ShutdownStream c]
         | Some False \<Rightarrow> [Complain, ShutdownStream c]
         | Some True \<Rightarrow> [NewIterator c, SetupNextSubsession c]))"

text \<open>\<open>continueAfterDESCRIBE\<close>, called by the event loop for every answer.\<close>

fun event_loop :: "live555 \<Rightarrow> nat \<Rightarrow> answer list \<Rightarrow> rtsp_event list" where
  "event_loop lv k [] = []"
| "event_loop lv k (a # as) =
     Answer k # on_DESCRIBE lv k (an_client a) (an_code a) (an_string a) @ event_loop lv (Suc k) as"

text \<open>\<open>main\<close>: None is the event loop, which does not return; otherwise the exit status.\<close>

definition rtsp_main :: "live555 \<Rightarrow> string list \<Rightarrow> answer list \<Rightarrow> rtsp_event list \<times> int option" where
  "rtsp_main lv urls answers =
     (if urls = [] then ([Usage], Some 1) else (fst (open_all lv urls 0) @ event_loop lv 0 answers, None))"

section \<open>Strings and streams\<close>

text \<open>
  The strings that are alive after a sequence of events; None when one is used or deleted that is not.
\<close>

fun live_strings :: "nat set \<Rightarrow> rtsp_event list \<Rightarrow> nat set option" where
  "live_strings A [] = Some A"
| "live_strings A (Answer k # es) = live_strings (insert k A) es"
| "live_strings A (UseString k # es) = (if k \<in> A then live_strings A es else None)"
| "live_strings A (DeleteString k # es) = (if k \<in> A then live_strings (A - {k}) es else None)"
| "live_strings A (_ # es) = live_strings A es"

text \<open>What an answer decides for its stream.\<close>

definition playable :: "live555 \<Rightarrow> answer \<Rightarrow> bool" where
  "playable lv a \<longleftrightarrow> an_code a = 0 \<and> lv_session lv (an_string a) = Some True"

fun is_end :: "rtsp_event \<Rightarrow> bool" where
  "is_end (SetupNextSubsession c) = True"
| "is_end (ShutdownStream c) = True"
| "is_end _ = False"

fun is_describe :: "rtsp_event \<Rightarrow> bool" where
  "is_describe (SendDescribe c) = True"
| "is_describe _ = False"

lemma live_strings_append:
  "live_strings A (es @ fs) = Option.bind (live_strings A es) (\<lambda>B. live_strings B fs)"
  by (induction A es rule: live_strings.induct) simp_all

lemma on_DESCRIBE_strings: "k \<in> A \<Longrightarrow> live_strings A (on_DESCRIBE lv k c r s) = Some (A - {k})"
  by (auto simp: on_DESCRIBE_def split: option.splits bool.splits)

lemma on_DESCRIBE_ends:
  "List.filter is_end (on_DESCRIBE lv k (an_client a) (an_code a) (an_string a)) =
     [if playable lv a then SetupNextSubsession (an_client a) else ShutdownStream (an_client a)]"
  by (auto simp: on_DESCRIBE_def playable_def split: option.splits bool.splits)

lemma on_DESCRIBE_silent: "List.filter is_describe (on_DESCRIBE lv k c r s) = []"
  by (auto simp: on_DESCRIBE_def split: option.splits bool.splits)

lemma event_loop_strings: "live_strings {} (event_loop lv k as) = Some {}"
  by (induction as arbitrary: k) (simp_all add: live_strings_append on_DESCRIBE_strings)

lemma event_loop_ends:
  "List.filter is_end (event_loop lv k as) =
     map (\<lambda>a. if playable lv a then SetupNextSubsession (an_client a) else ShutdownStream (an_client a)) as"
  by (induction as arbitrary: k) (simp_all add: on_DESCRIBE_ends)

lemma event_loop_silent: "List.filter is_describe (event_loop lv k as) = []"
  by (induction as arbitrary: k) (simp_all add: on_DESCRIBE_silent)

lemma open_all_facts:
  "live_strings A (fst (open_all lv urls n)) = Some A \<and> List.filter is_end (fst (open_all lv urls n)) = [] \<and>
   snd (open_all lv urls n) = n + length (List.filter (lv_client lv) urls) \<and>
   List.filter is_describe (fst (open_all lv urls n)) = map SendDescribe [n..<snd (open_all lv urls n)]"
proof (induction urls arbitrary: n)
  case (Cons url urls)
  let ?m = "length (List.filter (lv_client lv) urls)"
  have "[n..<Suc n + ?m] = n # [Suc n..<Suc n + ?m]" by (simp add: upt_conv_Cons del: upt_Suc)
  then have "map SendDescribe [n..<Suc n + ?m] = SendDescribe n # map SendDescribe [Suc n..<Suc n + ?m]" by simp
  then show ?case
    using Cons.IH[of n] Cons.IH[of "Suc n"]
    by (simp add: openURL_def Let_def split_beta live_strings_append del: upt_Suc)
qed simp

text \<open>Every created client asks once, with its own number; every answer's string is deleted exactly
  once, on all paths, and never used after that; every answer either starts the stream or shuts it down,
  the latter exactly when the code is an error or the description gives no session with subsessions.\<close>

theorem rtsp_strings_owned:
  assumes "urls \<noteq> []"
  shows "live_strings {} (fst (rtsp_main lv urls answers)) = Some {} \<and>
    List.filter is_describe (fst (rtsp_main lv urls answers)) =
      map SendDescribe [0..<length (List.filter (lv_client lv) urls)] \<and>
    List.filter is_end (fst (rtsp_main lv urls answers)) =
      map (\<lambda>a. if playable lv a then SetupNextSubsession (an_client a) else ShutdownStream (an_client a)) answers \<and>
    snd (rtsp_main lv urls answers) = None"
  using assms open_all_facts[of "{}" lv urls 0]
  by (simp add: rtsp_main_def live_strings_append event_loop_strings event_loop_ends event_loop_silent)

theorem rtsp_strings_owned_witness:
  "live_strings {} (fst (rtsp_main \<lparr>lv_client = (\<lambda>u. u \<noteq> ''bad''), lv_session = (\<lambda>s. Some (s \<noteq> ''''))\<rparr>
      [''rtsp://a'', ''bad'', ''rtsp://b'']
      [\<lparr>an_client = 1, an_code = 0, an_string = ''m=video''\<rparr>, \<lparr>an_client = 0, an_code = 404, an_string = ''''\<rparr>])) = Some {}"
  using rtsp_strings_owned[of "[''rtsp://a'', ''bad'', ''rtsp://b'']"] by simp

end
