(* ===== verification/Chrono.thy ===== *)
theory Chrono
  imports Complex_Main "HOL-Library.Signed_Division"
begin

text \<open>
  \<open>tchrono.cpp\<close>: durations as ticks of a period, their sums in the common period, the range of the ticks and
  the text of points in time. Ticks are 64-bit integers, and an arithmetic result that they do not hold is
  undefined (None). The \<open>double\<close> of \<open>Year365\<close> is taken as exact; the clocks and \<open>ctime\<close> are parameters.
\<close>

section \<open>Durations\<close>

record duration =
  du_ticks :: int
  du_num :: int      \<comment> \<open>the period is \<open>num/den\<close> seconds\<close>
  du_den :: int

definition in_rep :: "int \<Rightarrow> bool" where
  "in_rep x \<longleftrightarrow> - (2 ^ 63) \<le> x \<and> x < 2 ^ 63"

definition seconds :: "int \<Rightarrow> duration" where
  "seconds n = \<lparr>du_ticks = n, du_num = 1, du_den = 1\<rparr>"

definition hours :: "int \<Rightarrow> duration" where
  "hours n = \<lparr>du_ticks = n, du_num = 3600, du_den = 1\<rparr>"

definition in_ticks :: "int \<Rightarrow> duration \<Rightarrow> duration option" where
  "in_ticks n d = (if in_rep n then Some (d\<lparr>du_ticks := n\<rparr>) else None)"

text \<open>The prefix increment.\<close>

definition dur_incr :: "duration \<Rightarrow> duration option" where
  "dur_incr d = in_ticks (du_ticks d + 1) d"

text \<open>
  The sum has the common period, the largest of which both periods are multiples: the greatest common
  divisor of the numerators over the least common multiple of the denominators. Both operands are
  converted to it, exactly, before they are added.
\<close>

definition to_period :: "int \<Rightarrow> int \<Rightarrow> duration \<Rightarrow> duration option" where
  "to_period num den d =
     in_ticks (du_ticks d * ((du_num d div num) * (den div du_den d))) \<lparr>du_ticks = 0, du_num = num, du_den = den\<rparr>"

definition dur_add :: "duration \<Rightarrow> duration \<Rightarrow> duration option" where
  "dur_add c d =
     (let num = gcd (du_num c) (du_num d); den = lcm (du_den c) (du_den d)
      in Option.bind (to_period num den c) (\<lambda>c. Option.bind (to_period num den d) (\<lambda>d.
           in_ticks (du_ticks c + du_ticks d) c)))"

definition dur_max :: "duration \<Rightarrow> duration" where
  "dur_max d = d\<lparr>du_ticks := 2 ^ 63 - 1\<rparr>"

definition year_seconds :: int where "year_seconds = 3600 * 24 * 365"

text \<open>\<open>duration_cast<Year365>(d).count()\<close>.\<close>

definition in_years :: "duration \<Rightarrow> rat" where
  "in_years d = of_int (du_ticks d) * of_int (du_num d) / of_int (du_den d * year_seconds)"

section \<open>Points in time\<close>

text \<open>\<open>system_clock\<close> counts nanoseconds; \<open>to_time_t\<close> truncates towards zero, and the newline of \<open>ctime\<close> is cut.\<close>

definition to_time_t :: "int \<Rightarrow> int" where "to_time_t tp = tp sdiv 10 ^ 9"

definition asString :: "(int \<Rightarrow> string) \<Rightarrow> int \<Rightarrow> string" where
  "asString ctime tp = (let ts = ctime (to_time_t tp) in take (length ts - 1) ts)"

section \<open>The program\<close>

datatype chrono_line =
    Shown string duration
  | Years string rat
  | Precision string "int \<times> int"
  | Moment string string

definition chrono_main ::
  "(int \<Rightarrow> string) \<Rightarrow> (string \<Rightarrow> int \<times> int) \<Rightarrow> int \<Rightarrow> chrono_line list option" where
  "chrono_main ctime period now =
     (let sec20 = seconds 20; aDay = hours 24 in
      Option.bind (dur_incr aDay) (\<lambda>aDay'.
      Option.bind (dur_incr sec20) (\<lambda>sec20'.
      Option.bind (dur_add sec20' aDay') (\<lambda>s1.
      Option.bind (dur_add aDay' sec20') (\<lambda>s2.
        Some [Shown ''aDay'' aDay, Shown ''sec20'' sec20, Shown ''++aDay'' aDay', Shown ''++sec20'' sec20',
          Shown ''aDay'' aDay', Shown ''sec20'' sec20', Shown ''sec20 + aDay'' s1, Shown ''aDay + sec20'' s2,
          Shown ''aDay.max()'' (dur_max aDay'), Shown ''sec20.max()'' (dur_max sec20'),
          Years ''max years hours'' (in_years (hours (du_ticks (dur_max aDay')))),
          Years ''max years seconds'' (in_years (seconds (du_ticks (dur_max sec20')))),
          Precision ''system_clock'' (period ''system_clock''),
          Precision ''high_resolution_clock'' (period ''high_resolution_clock''),
          Precision ''steady_clock'' (period ''steady_clock''),
          Moment ''Epoch'' (asString ctime 0), Moment ''Now'' (asString ctime now),
          Moment ''Min'' (asString ctime (- (2 ^ 63))), Moment ''Max'' (asString ctime (2 ^ 63 - 1))])))))"

section \<open>Sums are exact\<close>

definition dur_value :: "duration \<Rightarrow> rat" where
  "dur_value d = of_int (du_ticks d) * of_int (du_num d) / of_int (du_den d)"

definition valid_period :: "duration \<Rightarrow> bool" where
  "valid_period d \<longleftrightarrow> 0 < du_num d \<and> 0 < du_den d"

lemma to_period_value:
  assumes "valid_period d" "num dvd du_num d" "du_den d dvd den" "0 < num" "0 < den" "to_period num den d = Some e"
  shows "dur_value e = dur_value d \<and> du_num e = num \<and> du_den e = den"
proof -
  obtain a b where ab: "du_num d = num * a" "den = du_den d * b" using assms(2,3) by (auto elim!: dvdE)
  have nz: "num \<noteq> 0" "du_den d \<noteq> 0" "b \<noteq> 0" using assms(1,4,5) ab by (auto simp: valid_period_def)
  have e: "e = \<lparr>du_ticks = du_ticks d * (a * b), du_num = num, du_den = den\<rparr>"
    using assms(6) nz ab by (auto simp: to_period_def in_ticks_def split: if_splits)
  show ?thesis using nz by (simp add: e dur_value_def ab field_simps)
qed

lemma dur_add_value:
  assumes "valid_period c" "valid_period d" "dur_add c d = Some s"
  shows "dur_value s = dur_value c + dur_value d"
proof -
  let ?num = "gcd (du_num c) (du_num d)" and ?den = "lcm (du_den c) (du_den d)"
  have pos: "0 < ?num" "0 < ?den" using assms(1,2) by (auto simp: valid_period_def lcm_pos_int)
  obtain c' d' where cd: "to_period ?num ?den c = Some c'" "to_period ?num ?den d = Some d'"
    "in_ticks (du_ticks c' + du_ticks d') c' = Some s"
    using assms(3) by (auto simp: dur_add_def Let_def bind_eq_Some_conv)
  have v: "dur_value c' = dur_value c \<and> du_num c' = ?num \<and> du_den c' = ?den"
    "dur_value d' = dur_value d \<and> du_num d' = ?num \<and> du_den d' = ?den"
    using to_period_value[OF assms(1) gcd_dvd1 dvd_lcm1 pos cd(1)] to_period_value[OF assms(2) gcd_dvd2 dvd_lcm2 pos cd(2)]
    by blast+
  have "s = c'\<lparr>du_ticks := du_ticks c' + du_ticks d'\<rparr>" using cd(3) by (auto simp: in_ticks_def split: if_splits)
  then have "dur_value s = dur_value c' + dur_value d'"
    using v by (simp add: dur_value_def ring_distribs add_divide_distrib)
  then show ?thesis using v by simp
qed

lemma dur_add_commutes: "dur_add c d = dur_add d c"
proof -
  have "Option.bind x (\<lambda>a. Option.bind y (\<lambda>b. in_ticks (du_ticks a + du_ticks b) a)) =
      Option.bind y (\<lambda>b. Option.bind x (\<lambda>a. in_ticks (du_ticks b + du_ticks a) b))"
    if "\<And>a. x = Some a \<Longrightarrow> du_num a = m \<and> du_den a = n" "\<And>b. y = Some b \<Longrightarrow> du_num b = m \<and> du_den b = n" for x y m n
    using that by (cases x; cases y) (auto simp: in_ticks_def add.commute)
  moreover have "to_period m n e = Some a \<Longrightarrow> du_num a = m \<and> du_den a = n" for m n e a
    by (auto simp: to_period_def in_ticks_def split: if_splits)
  ultimately show ?thesis
    by (simp only: dur_add_def Let_def gcd.commute[of "du_num c"] lcm.commute[of "du_den c"])
qed

text \<open>The sum of two durations lasts as long as both together and does not depend on their order; it is defined
  for seconds and hours as long as the ticks of the result, in seconds, fit.\<close>

theorem durations_add:
  "(valid_period c \<and> valid_period d \<longrightarrow> dur_add c d = Some s \<longrightarrow> dur_value s = dur_value c + dur_value d) \<and>
   dur_add c d = dur_add d c \<and>
   dur_add (seconds m) (hours n) =
     (if in_rep m \<and> in_rep (3600 * n) \<and> in_rep (m + 3600 * n) then Some (seconds (m + 3600 * n)) else None)"
proof (intro conjI)
  show "dur_add (seconds m) (hours n) =
     (if in_rep m \<and> in_rep (3600 * n) \<and> in_rep (m + 3600 * n) then Some (seconds (m + 3600 * n)) else None)"
    by (simp add: dur_add_def seconds_def hours_def to_period_def in_ticks_def mult.commute)
qed (use dur_add_value in blast, rule dur_add_commutes)

theorem durations_add_witness:
  "\<exists>s. dur_add \<lparr>du_ticks = 1, du_num = 60, du_den = 1\<rparr> \<lparr>du_ticks = 500, du_num = 1, du_den = 1000\<rparr> = Some s \<and>
     dur_value s = 121 / 2"
proof -
  let ?c = "\<lparr>du_ticks = 1, du_num = 60, du_den = 1\<rparr>" and ?d = "\<lparr>du_ticks = 500, du_num = 1, du_den = 1000\<rparr>"
  let ?s = "\<lparr>du_ticks = 60500, du_num = 1, du_den = 1000\<rparr>"
  have s: "dur_add ?c ?d = Some ?s"
    by (simp add: dur_add_def to_period_def in_ticks_def in_rep_def)
  have "dur_value ?s = dur_value ?c + dur_value ?d"
    using durations_add[of ?c ?d ?s] s by (simp add: valid_period_def)
  then show ?thesis using s by (simp add: dur_value_def)
qed

text \<open>What \<open>main\<close> prints of the sums and ranges. A day of 24 hours has become 25 by then.\<close>

lemma chrono_main_lines:
  "\<exists>ls. chrono_main ctime period now = Some ls \<and> ls ! 6 = Shown ''sec20 + aDay'' (seconds 90021) \<and>
     ls ! 7 = Shown ''aDay + sec20'' (seconds 90021) \<and>
     ls ! 10 = Years ''max years hours'' (of_int (2 ^ 63 - 1) / 8760)"
  by (simp add: chrono_main_def seconds_def hours_def dur_incr_def dur_add_def to_period_def in_ticks_def in_rep_def
      dur_max_def in_years_def year_seconds_def)

text \<open>The shortest text of \<open>ctime\<close> that has a newline is cut to nothing; the length is never negative.\<close>

lemma asString_drops_newline: "ctime (to_time_t tp) = ts @ [c] \<Longrightarrow> asString ctime tp = ts"
  by (simp add: asString_def)

end
