(* ===== verification/LanguageTests.thy ===== *)
theory LanguageTests
  imports IpcHandlers
begin

text \<open>
  The small programs on the language: \<open>tmem_problem.cpp\<close> misuses the heap on purpose, \<open>t1.cpp\<close> resets an object,
  \<open>t2.cpp\<close> is a template over two classes, \<open>t3.cpp\<close> has a class with a static value, \<open>t4.cpp\<close> copies a derived
  class, \<open>tcast.cpp\<close> asks for dynamic types and \<open>tfunctor_param.cpp\<close> takes callbacks in three ways.
\<close>

section \<open>tmem_problem.cpp\<close>

text \<open>Variables hold blocks; a block has its allocator and its size.\<close>

datatype allocator = NewArray | Malloc

datatype heap_op =
    Alloc string allocator nat
  | StoreAt string int byte
  | Dealloc string allocator

datatype heap_fault = OutOfBounds nat int | BadDealloc | NoBlock

record heap =
  hp_blocks :: "(allocator \<times> nat) list"
  hp_live :: "nat set"
  hp_vars :: "string \<rightharpoonup> nat"
  hp_faults :: "heap_fault list"

definition heap0 :: heap where
  "heap0 = \<lparr>hp_blocks = [], hp_live = {}, hp_vars = Map.empty, hp_faults = []\<rparr>"

definition add_fault :: "heap_fault \<Rightarrow> heap \<Rightarrow> heap" where
  "add_fault e h = h\<lparr>hp_faults := hp_faults h @ [e]\<rparr>"

fun heap_exec :: "heap_op \<Rightarrow> heap \<Rightarrow> heap" where
  "heap_exec (Alloc v a n) h =
     (let b = length (hp_blocks h)
      in h\<lparr>hp_blocks := hp_blocks h @ [(a, n)], hp_live := insert b (hp_live h), hp_vars := (hp_vars h)(v \<mapsto> b)\<rparr>)"
| "heap_exec (StoreAt v i x) h =
     (case hp_vars h v of
        None \<Rightarrow> add_fault NoBlock h
      | Some b \<Rightarrow>
          if b \<in> hp_live h \<and> 0 \<le> i \<and> i < int (snd (hp_blocks h ! b)) then h else add_fault (OutOfBounds b i) h)"
| "heap_exec (Dealloc v a) h =
     (case hp_vars h v of
        None \<Rightarrow> add_fault NoBlock h
      | Some b \<Rightarrow>
          if b \<in> hp_live h \<and> fst (hp_blocks h ! b) = a then h\<lparr>hp_live := hp_live h - {b}\<rparr> else add_fault BadDealloc h)"

definition alloc_release :: "allocator \<Rightarrow> heap_op list" where
  "alloc_release a = [Alloc ''p'' a 100, Dealloc ''p'' a]"

definition mem_main :: "heap_op list" where
  "mem_main = alloc_release NewArray @ alloc_release NewArray @
     [Alloc ''p2'' NewArray 100, Alloc ''p'' NewArray 100, StoreAt ''p'' 100 1, Dealloc ''p'' NewArray, Dealloc ''p2'' NewArray] @
     alloc_release Malloc @ alloc_release NewArray @ alloc_release Malloc @ alloc_release NewArray"

text \<open>The only misuse is the store of one byte behind the fourth block; everything is released by its own
  deallocator and nothing is left.\<close>

lemma mem_main_faults:
  "hp_faults (fold heap_exec mem_main heap0) = [OutOfBounds 3 100] \<and> hp_live (fold heap_exec mem_main heap0) = {}"
  by (simp add: mem_main_def alloc_release_def heap0_def add_fault_def Let_def)

section \<open>t1.cpp\<close>

datatype t1_event = MyobjCtor | MyobjDtor | ZeroSetCtor | ZeroSetDtor | ShowSet string int "int list" | ShowLine string nat

text \<open>\<open>ZeroSet\<close>; \<open>q\<close> has no initialiser.\<close>

record zero_set =
  zs_q :: "int option"
  zs_a :: "int list"
  zs_s :: string
  zs_data :: int

definition zero_set_ctor :: "zero_set \<times> t1_event list" where
  "zero_set_ctor = (\<lparr>zs_q = None, zs_a = replicate 10 0, zs_s = [], zs_data = 6\<rparr>, [MyobjCtor, ZeroSetCtor])"

definition zero_set_dtor :: "t1_event list" where
  "zero_set_dtor = [ZeroSetDtor, MyobjDtor]"

definition zero_set_show :: "zero_set \<Rightarrow> t1_event" where
  "zero_set_show z = ShowSet (zs_s z) (zs_data z) (zs_a z)"

text \<open>\<open>z = {}\<close> assigns a temporary.\<close>

definition assign_braces :: "zero_set \<Rightarrow> zero_set \<times> t1_event list" where
  "assign_braces z = (let (tmp, e) = zero_set_ctor in (tmp, e @ zero_set_dtor))"

definition t1_main :: "istream \<Rightarrow> t1_event list" where
  "t1_main cin =
     (let (z, e1) = zero_set_ctor; s1 = zero_set_show z;
          z = z\<lparr>zs_a := (zs_a z)[1 := 10], zs_s := ''hello'', zs_data := 18\<rparr>; s2 = zero_set_show z;
          (z, e2) = assign_braces z; s3 = zero_set_show z;
          tx = c_str (fst (cin_getline 8 cin))
      in e1 @ [s1, s2] @ e2 @ [s3, ShowLine tx (length tx)] @ zero_set_dtor)"

text \<open>The assignment shows the object as it was constructed, every constructor is matched by its destructor, and
  the line fits into its array.\<close>

lemma getline_fits: "0 < n \<Longrightarrow> length (fst (cin_getline n i)) < n"
  by (auto simp: cin_getline_def Let_def)

lemma c_str_shorter: "length (c_str l) \<le> length l"
  by (simp add: c_str_def length_takeWhile_le)

lemma t1_resets:
  "\<exists>tx. t1_main cin =
     [MyobjCtor, ZeroSetCtor, ShowSet [] 6 (replicate 10 0), ShowSet ''hello'' 18 ((replicate 10 0)[1 := 10]),
      MyobjCtor, ZeroSetCtor, ZeroSetDtor, MyobjDtor, ShowSet [] 6 (replicate 10 0), ShowLine tx (length tx),
      ZeroSetDtor, MyobjDtor] \<and> length tx < 8"
proof -
  have "length (c_str (fst (cin_getline 8 cin))) < 8"
    using c_str_shorter[of "fst (cin_getline 8 cin)"] getline_fits[of 8 cin] by simp
  then show ?thesis
    by (intro exI[of _ "c_str (fst (cin_getline 8 cin))"])
      (simp add: t1_main_def zero_set_ctor_def zero_set_show_def assign_braces_def zero_set_dtor_def Let_def)
qed

section \<open>t2.cpp\<close>

text \<open>What \<open>Base<T>\<close> uses of its parameter: the value \<open>T()\<close>, a member \<open>name\<close>, its size, and \<open>show_type\<close>.\<close>

record 't base_param =
  bp_new :: 't
  bp_set_name :: "int \<Rightarrow> 't \<Rightarrow> 't"
  bp_type :: string
  bp_size :: nat

record obj1 =
  o1_name :: cint
  o1_v :: cint

record obj2 =
  o2_name :: byte

definition Obj1_param :: "obj1 base_param" where
  "Obj1_param = \<lparr>bp_new = \<lparr>o1_name = 0, o1_v = 0\<rparr>, bp_set_name = (\<lambda>n o1. o1\<lparr>o1_name := word_of_int n\<rparr>),
     bp_type = ''Obj1'', bp_size = 4\<rparr>"

definition Obj2_param :: "obj2 base_param" where
  "Obj2_param = \<lparr>bp_new = \<lparr>o2_name = 0\<rparr>, bp_set_name = (\<lambda>n o2. o2\<lparr>o2_name := word_of_int n\<rparr>),
     bp_type = ''Obj2, param1=10'', bp_size = 1\<rparr>"

definition base_fun :: "'t base_param \<Rightarrow> 't list \<Rightarrow> 't list \<times> string \<times> nat" where
  "base_fun T objs =
     (let objs = objs @ [bp_new T]; i = length objs - 1
      in (objs[i := bp_set_name T 1 (objs ! i)], bp_type T, bp_size T))"

lemma base_fun_appends: "fst (base_fun T objs) = objs @ [bp_set_name T 1 (bp_new T)]"
  by (simp add: base_fun_def nth_append list_update_append)

section \<open>t3.cpp\<close>

text \<open>Both objects convert to the one static \<open>value\<close>: \<open>x++\<close> and \<open>x += 6\<close> change what \<open>y\<close> shows.\<close>

datatype t3_line = IsConst bool | OpConst | XY int int | Trivial bool

definition integral_shift :: "int \<Rightarrow> int \<Rightarrow> int" where "integral_shift d v = v + d"

definition t3_program :: "t3_line list \<times> byte list" where
  "t3_program =
     (let bytes = map (\<lambda>i. word_of_nat i) [0..<100]; v0 = 0; l1 = XY v0 v0;
          v = integral_shift 6 (integral_shift 1 v0); l2 = XY v v
      in ([IsConst False, IsConst True, OpConst, l1, l2, Trivial True, Trivial False], bytes))"

lemma t3_shared: "fst t3_program ! 3 = XY 0 0 \<and> fst t3_program ! 4 = XY 7 7 \<and> length (snd t3_program) = 100"
  by (simp add: t3_program_def integral_shift_def Let_def)

section \<open>t4.cpp and tcast.cpp\<close>

text \<open>The implicit copy constructor of \<open>foo\<close> copies the base with its constructor, and an \<open>int\<close> nobody stored.\<close>

datatype t4_event = DefaultCtor | CopyCtor

definition foo_default :: "int option \<times> t4_event list" where "foo_default = (None, [DefaultCtor])"
definition foo_copy :: "int option \<Rightarrow> int option \<times> t4_event list" where "foo_copy c = (c, [CopyCtor])"

definition t4_main :: "int option \<times> t4_event list" where
  "t4_main = (let (c, e1) = foo_default; (c2, e2) = foo_copy c in (c2, e1 @ e2))"

lemma t4_events: "t4_main = (None, [DefaultCtor, CopyCtor])"
  by (simp add: t4_main_def foo_default_def foo_copy_def)

datatype dynamic_type = BaseT | DerivedT

text \<open>\<open>Base\<close> has a virtual function, so \<open>typeid\<close> of the object is that of its dynamic type.\<close>

definition whoami :: "dynamic_type \<Rightarrow> string list" where
  "whoami t = (if t = DerivedT then [''Derived''] else []) @ (if t = BaseT then [''Base''] else [])"

definition tcast_main :: "string list" where "tcast_main = whoami BaseT @ whoami DerivedT"

lemma whoami_one: "length (whoami t) = 1"
  by (cases t) (simp_all add: whoami_def)

section \<open>tfunctor_param.cpp\<close>

text \<open>The arithmetic of \<open>float\<close> is a parameter without laws.\<close>

record 'f float_ops =
  fl_add :: "'f \<Rightarrow> 'f \<Rightarrow> 'f"
  fl_mul :: "'f \<Rightarrow> 'f \<Rightarrow> 'f"
  fl_lit :: "int \<Rightarrow> int \<Rightarrow> 'f"   \<comment> \<open>the nearest value to a fraction\<close>

datatype 'f call_result = Result 'f | BadFunctionCall | NullCall

definition calc_value :: "'f float_ops \<Rightarrow> ('f \<Rightarrow> 'f) \<Rightarrow> 'f" where
  "calc_value F f = fl_add F (fl_mul F (fl_lit F (-1) 1) (f (fl_lit F 33 10))) (fl_lit F 666 1)"

definition calc1 :: "'f float_ops \<Rightarrow> ('f \<Rightarrow> 'f) \<Rightarrow> 'f call_result" where
  "calc1 F f = Result (calc_value F f)"

text \<open>A \<open>std::function\<close> may be empty, a function pointer NULL, which is the default argument.\<close>

definition calc2 :: "'f float_ops \<Rightarrow> ('f \<Rightarrow> 'f) option \<Rightarrow> 'f call_result" where
  "calc2 F f = (case f of None \<Rightarrow> BadFunctionCall | Some f \<Rightarrow> Result (calc_value F f))"

definition calc3 :: "'f float_ops \<Rightarrow> ('f \<Rightarrow> 'f) option \<Rightarrow> 'f call_result" where
  "calc3 F f = (case f of None \<Rightarrow> NullCall | Some f \<Rightarrow> Result (calc_value F f))"

definition lambda_f :: "'f float_ops \<Rightarrow> 'f \<Rightarrow> 'f" where
  "lambda_f F arg = (let coeff = fl_lit F 1 2 in fl_mul F arg coeff)"

definition functor_f :: "'f float_ops \<Rightarrow> 'f \<Rightarrow> 'f" where
  "functor_f F arg = fl_mul F arg (fl_lit F 1 2)"

definition true_func :: "int \<Rightarrow> int \<Rightarrow> int option" where
  "true_func a b = (if - (2 ^ 31) \<le> a + b \<and> a + b < 2 ^ 31 then Some (a + b) else None)"

text \<open>\<open>std::bind(true_func, _1, 10)\<close>.\<close>

definition bound_func :: "int \<Rightarrow> int option" where "bound_func a = true_func a 10"

text \<open>The callbacks that \<open>main\<close> measures are the same function, and however one is passed, the result is the
  same; only a callback that is not there makes a difference.\<close>

lemma callbacks_agree:
  "lambda_f F = functor_f F \<and> calc2 F (Some f) = calc1 F f \<and> calc3 F (Some f) = calc1 F f \<and>
   calc2 F None = BadFunctionCall \<and> calc3 F None = NullCall"
  by (auto simp: lambda_f_def functor_f_def calc1_def calc2_def calc3_def)

lemma bound_func_adds: "bound_func 1 = Some 11 \<and> bound_func 2 = Some 12 \<and> bound_func (2 ^ 31 - 10) = None"
  by (simp add: bound_func_def true_func_def)

text \<open>
  What \<open>main\<close> prints: \<open>func(a)=\<close> lines, directly and by \<open>test2\<close>, and four measurements of 10 million calls each.
  \<open>test\<close> prints the same line for a function pointer, which \<open>func\<close> is not.
\<close>

datatype 'f functor_line = FuncLine int int | Measured "'f call_result" nat

definition print_func :: "(int \<Rightarrow> int option) \<Rightarrow> int \<Rightarrow> 'f functor_line option" where
  "print_func func a = map_option (FuncLine a) (func a)"

definition dotest :: "('p \<Rightarrow> 'f call_result) \<Rightarrow> 'p \<Rightarrow> 'f functor_line" where
  "dotest f p = Measured (f p) (10 ^ 7)"

definition call_back1 :: "int \<Rightarrow> string \<times> int" where "call_back1 a = (''D::call_back1('', a)"
definition call_back2 :: "int \<Rightarrow> string \<times> int" where "call_back2 a = (''D::call_back2('', a)"

definition functor_main :: "'f float_ops \<Rightarrow> 'f functor_line option list" where
  "functor_main F =
     [print_func bound_func 1, print_func bound_func 2,
      Some (dotest (calc1 F) (lambda_f F)), Some (dotest (\<lambda>f. calc2 F (Some f)) (lambda_f F)),
      Some (dotest (calc1 F) (functor_f F)), Some (dotest (\<lambda>f. calc2 F (Some f)) (functor_f F))]"

text \<open>The four measured calls give the same value.\<close>

lemma functor_main_prints:
  "\<exists>v. functor_main F = [Some (FuncLine 1 11), Some (FuncLine 2 12), Some (Measured v (10 ^ 7)), Some (Measured v (10 ^ 7)),
     Some (Measured v (10 ^ 7)), Some (Measured v (10 ^ 7))]"
  using callbacks_agree[of F "lambda_f F"] callbacks_agree[of F "functor_f F"] bound_func_adds
  by (simp add: functor_main_def print_func_def dotest_def)

section \<open>texcept.cpp\<close>

text \<open>The line that \<open>myerr\<close> prints, and the text of the exception, which nobody catches: the program is terminated.\<close>

datatype program_end = ReturnsNormally | Terminated string

definition myerr :: "string \<Rightarrow> string list" where
  "myerr err = [err @ [CHR 0x0A]]"

definition texcept_main :: "string list \<times> program_end" where
  "texcept_main = (myerr (''Error'' @ ''1'' @ ''.'' @ ''2''), Terminated (''main'' @ '':'' @ ''13'' @ ''Error'' @ ''100''))"

end
