(* ===== verification/ClientOutput.thy ===== *)
theory ClientOutput
  imports IpcHandlers
begin

text \<open>
  The other half of the client of \<open>tipc.cpp\<close>: the handlers it installs for answers of the server and for the
  end of the connection. \<open>epoll\<close> is level-triggered, so the handler runs once per event and may leave bytes
  for the next one.
\<close>

section \<open>Handlers\<close>

datatype client_event = ServerData | ServerClosed

datatype client_line = ServerSays "byte list" | SaysClosed

definition client_buffer :: nat where "client_buffer = 32"

text \<open>
  \<open>on_read\<close>, with the error code it does not look at. The first \<open>cnt\<close> bytes of the buffer are printed also when
  the read failed, \<open>cnt\<close> being 0 then.
\<close>

definition client_on_read :: "'s conn_ops \<Rightarrow> byte list \<Rightarrow> 's \<Rightarrow> (client_line \<times> byte list \<times> 's) option" where
  "client_on_read ops buff_rx s =
     (case co_poll ops buff_rx client_buffer s of
        None \<Rightarrow> None
      | Some (err, cnt, buff_rx, s) \<Rightarrow> Some (ServerSays (take cnt buff_rx), buff_rx, s))"

text \<open>The thread of the service; \<open>on_close\<close> leaves the program.\<close>

fun client_events ::
  "'s conn_ops \<Rightarrow> byte list \<Rightarrow> client_event list \<Rightarrow> 's \<Rightarrow> (client_line list \<times> 's) option" where
  "client_events ops rx [] s = Some ([], s)"
| "client_events ops rx (ServerData # es) s =
     (case client_on_read ops rx s of
        None \<Rightarrow> None
      | Some (l, rx, s) \<Rightarrow> map_option (\<lambda>(ls, s). (l # ls, s)) (client_events ops rx es s))"
| "client_events ops rx (ServerClosed # es) s = Some ([SaysClosed], s)"

fun line_bytes :: "client_line \<Rightarrow> byte list" where
  "line_bytes (ServerSays bs) = bs"
| "line_bytes SaysClosed = []"

definition printed_bytes :: "client_line list \<Rightarrow> byte list" where
  "printed_bytes ls = concat (map line_bytes ls)"

section \<open>What is printed\<close>

context app_channel
begin

lemma client_prints:
  "ok s \<Longrightarrow> length rx = client_buffer \<Longrightarrow>
   \<exists>ls s'. client_events ops rx es s = Some (ls, s') \<and> ok s' \<and> pending s = printed_bytes ls @ pending s' \<and>
     sent s' = sent s \<and> (\<forall>l\<in>set ls. length (line_bytes l) \<le> client_buffer)"
proof (induction es arbitrary: rx s)
  case Nil
  then show ?case by (simp add: printed_bytes_def)
next
  case (Cons e es)
  show ?case
  proof (cases e)
    case ServerData
    obtain got s1 where g: "co_poll ops rx client_buffer s = Some (0, length got, got @ drop (length got) rx, s1)" "ok s1"
      "pending s = got @ pending s1" "length got \<le> client_buffer" "sent s1 = sent s"
      using poll_law[OF Cons.prems(1), of client_buffer rx] Cons.prems(2) by (auto simp: client_buffer_def)
    have "length (got @ drop (length got) rx) = client_buffer" using g(4) Cons.prems(2) by simp
    from Cons.IH[OF g(2) this] g ServerData show ?thesis
      by (fastforce simp: client_on_read_def printed_bytes_def)
  next
    case ServerClosed
    then show ?thesis using Cons.prems by (simp add: printed_bytes_def)
  qed
qed

end

text \<open>The client prints the bytes of the server once and in order, at most 32 in a line: what it has printed and
  what is still to be read is always the stream; and its handlers write nothing.\<close>

theorem client_prints_stream:
  assumes "duplex_ok d" "length rx = client_buffer"
  shows "\<exists>ls d'. client_events dx_ops rx es d = Some (ls, d') \<and> dx_pending d = printed_bytes ls @ dx_pending d' \<and>
    dx_sent d' = dx_sent d \<and> (\<forall>l\<in>set ls. length (line_bytes l) \<le> 32)"
  using dx.client_prints[OF assms, of es] by (auto simp: client_buffer_def)

theorem client_prints_stream_witness:
  "\<exists>ls d'. client_events dx_ops (replicate 32 0) [ServerData, ServerData, ServerClosed] (demo_duplex (bytes_of ''GOT IT'')) = Some (ls, d') \<and>
     bytes_of ''GOT IT'' = printed_bytes ls @ dx_pending d'"
proof -
  have "length (replicate 32 0 :: byte list) = client_buffer" by (simp add: client_buffer_def)
  from client_prints_stream[OF demo_duplex_sure(2) this, of "[ServerData, ServerData, ServerClosed]" "bytes_of ''GOT IT''"]
  show ?thesis unfolding demo_duplex_pending by blast
qed

end
