(* ===== verification/ChatSession.thy ===== *)
theory ChatSession
  imports ClientOutput
begin

text \<open>
  Both sides of \<open>tipc.cpp\<close> together: the server handles a sequence of \<open>on_read\<close> events on one connection, and the
  client prints what it answers.
\<close>

section \<open>A sequence of events\<close>

text \<open>The calls of \<open>on_read\<close> for one connection; each has fresh buffers of its own.\<close>

fun server_events ::
  "'s conn_ops \<Rightarrow> (nat \<Rightarrow> int) \<Rightarrow> (byte list \<times> byte list \<times> string) list \<Rightarrow> 's \<Rightarrow> (handled list \<times> 's) option" where
  "server_events ops clock [] s = Some ([], s)"
| "server_events ops clock ((rx, junk, tx) # bufs) s =
     (case server_on_read ops clock rx junk tx 0 s of
        None \<Rightarrow> None
      | Some (h, s) \<Rightarrow> map_option (\<lambda>(hs, s). (h # hs, s)) (server_events ops clock bufs s))"

definition bufs_ok :: "(byte list \<times> byte list \<times> string) list \<Rightarrow> bool" where
  "bufs_ok bufs \<longleftrightarrow> (\<forall>(rx, junk, tx)\<in>set bufs. length rx = buffer_size \<and> length junk = buffer_size \<and> length tx = buffer_size)"

text \<open>The command \<open>tst1\<close> occurs nowhere in a stream.\<close>

definition no_command :: "byte list \<Rightarrow> bool" where
  "no_command bs \<longleftrightarrow> (\<forall>i. take 4 (drop i bs) \<noteq> tst1_command)"

lemma no_command_start: "no_command bs \<Longrightarrow> take 4 bs \<noteq> tst1_command"
  unfolding no_command_def by (metis drop0)

lemma no_command_suffix: "no_command (as @ bs) \<Longrightarrow> no_command bs"
  unfolding no_command_def
proof
  fix i
  assume "\<forall>i. take 4 (drop i (as @ bs)) \<noteq> tst1_command"
  then have "take 4 (drop (length as + i) (as @ bs)) \<noteq> tst1_command" by blast
  then show "take 4 (drop i bs) \<noteq> tst1_command" by simp
qed

text \<open>A handled message: its bytes, and those that \<open>on_read\<close> takes from the next one.\<close>

definition answer_to :: "byte list \<times> byte list \<Rightarrow> handled \<Rightarrow> bool" where
  "answer_to p h \<longleftrightarrow> length (fst p) \<le> buffer_size \<and> length (snd p) \<le> 1 \<and> (\<exists>b. h = HAnswered (take 32 (fst p)) b)"

definition part_bytes :: "byte list \<times> byte list \<Rightarrow> byte list" where
  "part_bytes p = fst p @ snd p"

context sure_channel
begin

lemma events_answered:
  "ok s \<Longrightarrow> bufs_ok bufs \<Longrightarrow> no_command (pending s) \<Longrightarrow>
   \<exists>hs s' parts. server_events ops clock bufs s = Some (hs, s') \<and> ok s' \<and>
     pending s = concat (map part_bytes parts) @ pending s' \<and> list_all2 answer_to parts hs \<and> length hs = length bufs \<and>
     sent s' = sent s @ concat (replicate (length bufs) (bytes_of ''GOT IT''))"
proof (induction bufs arbitrary: s)
  case Nil
  then show ?case by (intro exI[of _ "[]"] exI[of _ s]) simp
next
  case (Cons buf bufs)
  obtain rx junk tx where buf: "buf = (rx, junk, tx)" by (cases buf)
  have l: "length rx = buffer_size" "length junk = buffer_size" "length tx = buffer_size" "bufs_ok bufs"
    using Cons.prems(2) by (simp_all add: bufs_ok_def buf)
  obtain msg eaten b s1 where r: "server_on_read ops clock rx junk tx 0 s = Some (HAnswered (take 32 msg) b, s1)" "ok s1"
    "pending s = msg @ eaten @ pending s1" "length msg \<le> buffer_size" "length eaten \<le> 1"
    "sent s1 = sent s @ bytes_of ''GOT IT''"
    using on_read_answers[OF Cons.prems(1) l(1-3) no_command_start[OF Cons.prems(3)], of clock] by blast
  have "no_command (pending s1)"
    using Cons.prems(3) no_command_suffix[of "msg @ eaten" "pending s1"] r(3) by simp
  from Cons.IH[OF r(2) l(4) this] obtain hs s' parts where i:
    "server_events ops clock bufs s1 = Some (hs, s')" "ok s'" "pending s1 = concat (map part_bytes parts) @ pending s'"
    "list_all2 answer_to parts hs" "length hs = length bufs"
    "sent s' = sent s1 @ concat (replicate (length bufs) (bytes_of ''GOT IT''))"
    by blast
  have answered: "answer_to (msg, eaten) (HAnswered (take 32 msg) b)" using r(4,5) by (simp add: answer_to_def)
  have bytes: "part_bytes (msg, eaten) = msg @ eaten" by (simp add: part_bytes_def)
  show ?case
    by (rule exI[of _ "HAnswered (take 32 msg) b # hs"], rule exI[of _ s'], rule exI[of _ "(msg, eaten) # parts"])
      (use r i answered in \<open>simp add: buf bytes\<close>)
qed

end

text \<open>C35: A conversation, whatever the sizes of the reads. For any stream without the command \<open>tst1\<close> and any number of
  events the server answers each event exactly once; the messages it handles, with the byte it takes from each
  next one, are the stream in order, and it prints the first 32 bytes of each. The client, on the other end,
  prints a part of the answers, in order, and the rest is still to be read.\<close>

theorem chat_session:
  fixes d :: "'k duplex"
  assumes "duplex_sure d" "bufs_ok bufs" "no_command (dx_pending d)"
  shows "\<exists>hs d' parts. server_events dx_ops clock bufs d = Some (hs, d') \<and> length hs = length bufs \<and>
    dx_pending d = concat (map part_bytes parts) @ dx_pending d' \<and> list_all2 answer_to parts hs \<and>
    (\<forall>(c :: 'l duplex) rx es. duplex_ok c \<longrightarrow> length rx = client_buffer \<longrightarrow> dx_sent d' = dx_sent d @ dx_pending c \<longrightarrow>
       (\<exists>ls c'. client_events dx_ops rx es c = Some (ls, c') \<and>
          printed_bytes ls @ dx_pending c' = concat (replicate (length bufs) (bytes_of ''GOT IT''))))"
proof -
  obtain hs d' parts where s: "server_events dx_ops clock bufs d = Some (hs, d')"
    "dx_pending d = concat (map part_bytes parts) @ dx_pending d'" "list_all2 answer_to parts hs" "length hs = length bufs"
    "dx_sent d' = dx_sent d @ concat (replicate (length bufs) (bytes_of ''GOT IT''))"
    using dx_sure.events_answered[OF assms, of clock] by blast
  have "\<exists>ls c'. client_events dx_ops rx es c = Some (ls, c') \<and>
      printed_bytes ls @ dx_pending c' = concat (replicate (length bufs) (bytes_of ''GOT IT''))"
    if c: "duplex_ok c" "length rx = client_buffer" "dx_sent d' = dx_sent d @ dx_pending c" for c :: "'l duplex" and rx es
  proof -
    have "dx_pending c = concat (replicate (length bufs) (bytes_of ''GOT IT''))" using c(3) s(5) by simp
    then show ?thesis using dx.client_prints[OF c(1,2), of es] by metis
  qed
  then show ?thesis using s(1-4) by blast
qed

theorem chat_session_witness:
  "\<exists>hs d'. server_events dx_ops (\<lambda>_. 5) [(replicate 1024 0, replicate 1024 7, replicate 1024 NUL)]
     (demo_duplex [104, 105]) = Some (hs, d') \<and> length hs = 1"
proof -
  let ?bufs = "[(replicate 1024 0, replicate 1024 7, replicate 1024 NUL)] :: (byte list \<times> byte list \<times> string) list"
  have bufs: "bufs_ok ?bufs" by (simp add: bufs_ok_def buffer_size_def)
  have "length (take 4 (drop i [104, 105 :: byte])) < length tst1_command" for i
    by (simp add: tst1_command_def bytes_of_def)
  then have "no_command [104, 105]" unfolding no_command_def by (metis less_irrefl)
  then have "no_command (dx_pending (demo_duplex [104, 105]))" by (simp only: demo_duplex_pending)
  from chat_session[OF demo_duplex_sure(1) bufs this, of "\<lambda>_. 5"]
  obtain hs d' where "server_events dx_ops (\<lambda>_. 5) ?bufs (demo_duplex [104, 105]) = Some (hs, d')" "length hs = length ?bufs"
    by blast
  then show ?thesis by (intro exI[of _ hs] exI[of _ d']) (simp only: list.size add_0 One_nat_def simp_thms)
qed

end
