(* ===== verification/ReaderProgram.thy ===== *)
theory ReaderProgram
  imports CharDevice
begin

text \<open>
  The program \<open>kernel_module/test.c\<close>: the main thread prints a digit a second until a second thread, which
  copies the device to the output with \<open>cat\<close>, has set the shared variable \<open>fd\<close> to 0. The two interleave in any
  order; what \<open>cat\<close> writes, piece by piece, is given by theory \<open>CharDevice\<close>. \<open>fd\<close> is a plain \<open>int\<close> that both
  threads access; the model takes its accesses as atomic.
\<close>

section \<open>State and steps\<close>

datatype reader_pc = Copying "cat_out list" | Closing | Clearing | Finished

datatype main_pc = Counting nat | Joining | Returned

datatype out_item = Digit nat | Copied cat_out

record reader_prog =
  rp_main :: main_pc
  rp_thread :: reader_pc
  rp_fd :: int
  rp_out :: "out_item list"
  rp_closed :: "int list"     \<comment> \<open>the arguments of \<open>close\<close>\<close>

definition reader_start :: "cat_out list \<Rightarrow> int \<Rightarrow> reader_prog" where
  "reader_start out fd = \<lparr>rp_main = Counting 0, rp_thread = Copying out, rp_fd = fd, rp_out = [], rp_closed = []\<rparr>"

text \<open>\<open>main\<close> up to the creation of the thread: \<open>argc\<close>, and what \<open>open\<close> returns.\<close>

datatype reader_launch = PrintsUsage | OpenFailed | Launched reader_prog

definition reader_main :: "nat \<Rightarrow> int \<Rightarrow> cat_out list \<Rightarrow> reader_launch" where
  "reader_main argc fd out =
     (if argc < 2 then PrintsUsage else if fd = - 1 then OpenFailed else Launched (reader_start out fd))"

inductive reader_step :: "reader_prog \<Rightarrow> reader_prog \<Rightarrow> bool" where
  thread_write: "rp_thread s = Copying (c # cs) \<Longrightarrow>
     reader_step s (s\<lparr>rp_thread := Copying cs, rp_out := rp_out s @ [Copied c]\<rparr>)"
| thread_end: "rp_thread s = Copying [] \<Longrightarrow> reader_step s (s\<lparr>rp_thread := Closing\<rparr>)"
| thread_close: "rp_thread s = Closing \<Longrightarrow>
     reader_step s (s\<lparr>rp_thread := Clearing, rp_closed := rp_closed s @ [rp_fd s]\<rparr>)"
| thread_clear: "rp_thread s = Clearing \<Longrightarrow> reader_step s (s\<lparr>rp_thread := Finished, rp_fd := 0\<rparr>)"
| main_digit: "rp_main s = Counting i \<Longrightarrow> i < 1000 \<Longrightarrow> 0 < rp_fd s \<Longrightarrow>
     reader_step s (s\<lparr>rp_main := Counting (Suc i), rp_out := rp_out s @ [Digit (i mod 10)]\<rparr>)"
| main_interrupted: "rp_main s = Counting i \<Longrightarrow> i < 1000 \<Longrightarrow> 0 < rp_fd s \<Longrightarrow>
     reader_step s (s\<lparr>rp_main := Joining, rp_out := rp_out s @ [Digit (i mod 10)]\<rparr>)"
| main_leave: "rp_main s = Counting i \<Longrightarrow> \<not> (i < 1000 \<and> 0 < rp_fd s) \<Longrightarrow> reader_step s (s\<lparr>rp_main := Joining\<rparr>)"
| main_join: "rp_main s = Joining \<Longrightarrow> rp_thread s = Finished \<Longrightarrow> reader_step s (s\<lparr>rp_main := Returned\<rparr>)"

section \<open>Runs\<close>

fun reader_left :: "reader_pc \<Rightarrow> nat" where
  "reader_left (Copying cs) = length cs + 3"
| "reader_left Closing = 2"
| "reader_left Clearing = 1"
| "reader_left Finished = 0"

fun main_left :: "main_pc \<Rightarrow> nat" where
  "main_left (Counting i) = 1000 - i + 2"
| "main_left Joining = 1"
| "main_left Returned = 0"

fun still_copying :: "reader_pc \<Rightarrow> cat_out list" where
  "still_copying (Copying cs) = cs"
| "still_copying _ = []"

definition copied :: "out_item list \<Rightarrow> cat_out list" where
  "copied xs = concat (map (\<lambda>x. case x of Copied c \<Rightarrow> [c] | Digit _ \<Rightarrow> []) xs)"

definition digits_out :: "out_item list \<Rightarrow> nat list" where
  "digits_out xs = concat (map (\<lambda>x. case x of Copied _ \<Rightarrow> [] | Digit d \<Rightarrow> [d]) xs)"

lemma out_append [simp]:
  "copied (xs @ [Copied c]) = copied xs @ [c]" "copied (xs @ [Digit d]) = copied xs"
  "digits_out (xs @ [Copied c]) = digits_out xs" "digits_out (xs @ [Digit d]) = digits_out xs @ [d]"
  "copied [] = []" "digits_out [] = []"
  by (simp_all add: copied_def digits_out_def)

definition reader_inv :: "cat_out list \<Rightarrow> int \<Rightarrow> reader_prog \<Rightarrow> bool" where
  "reader_inv out fd s \<longleftrightarrow>
     copied (rp_out s) @ still_copying (rp_thread s) = out \<and>
     rp_fd s = (if rp_thread s = Finished then 0 else fd) \<and>
     rp_closed s = (if rp_thread s \<in> {Clearing, Finished} then [fd] else []) \<and>
     (\<exists>n\<le>1000. digits_out (rp_out s) = map (\<lambda>i. i mod 10) [0..<n] \<and> (\<forall>i. rp_main s = Counting i \<longrightarrow> i = n)) \<and>
     (rp_main s = Returned \<longrightarrow> rp_thread s = Finished)"

lemma reader_inv_step: "reader_step s t \<Longrightarrow> reader_inv out fd s \<Longrightarrow> reader_inv out fd t"
proof (induction rule: reader_step.induct)
  case (main_digit s i)
  then show ?case by (auto simp: reader_inv_def intro!: exI[of _ "Suc i"])
next
  case (main_interrupted s i)
  then show ?case by (auto simp: reader_inv_def intro!: exI[of _ "Suc i"])
qed (auto simp: reader_inv_def)

interpretation reader: bounded_system "\<lambda>s. s = reader_start out fd" reader_step "reader_inv out fd"
  "\<lambda>s. reader_left (rp_thread s) + main_left (rp_main s)" for out fd
proof (unfold_locales, goal_cases)
  case (1 s)
  then show ?case by (simp add: reader_inv_def reader_start_def)
next
  case (2 s t)
  then show ?case by (rule reader_inv_step)
next
  case (3 s t)
  then show ?case by (induction rule: reader_step.induct) auto
qed

lemma reader_moves: "rp_main s \<noteq> Returned \<Longrightarrow> \<exists>t. reader_step s t"
proof -
  assume main: "rp_main s \<noteq> Returned"
  show "\<exists>t. reader_step s t"
  proof (cases "rp_thread s")
    case (Copying cs)
    then show ?thesis using thread_write[of s] thread_end[of s] by (cases cs) blast+
  next
    case Finished
    then show ?thesis
      using main main_join[of s] main_digit[of s] main_leave[of s] by (cases "rp_main s") blast+
  qed (use thread_close[of s] thread_clear[of s] in blast)+
qed

text \<open>In every schedule, also when a sleep is interrupted, the program ends after at most 1005 steps more than \<open>cat\<close>
  writes pieces, and is never stuck before. Then the whole device was copied in order, the digits count up from 0,
  and the descriptor was closed once. When the device is opened as descriptor 0 no digit is ever printed.\<close>

theorem reader_program_ends:
  assumes "(reader_step ^^ k) (reader_start out fd) s"
  shows "k \<le> length out + 1005 \<and> (rp_main s = Returned \<or> (\<exists>t. reader_step s t)) \<and>
    (rp_main s = Returned \<longrightarrow> copied (rp_out s) = out \<and> rp_closed s = [fd]) \<and>
    (\<exists>n\<le>1000. digits_out (rp_out s) = map (\<lambda>i. i mod 10) [0..<n])"
proof -
  note r = reader.run_bound[OF assms refl]
  then have "k \<le> length out + 1005" by (simp add: reader_start_def)
  moreover have "copied (rp_out s) = out \<and> rp_closed s = [fd]" if "rp_main s = Returned"
    using r that by (auto simp: reader_inv_def)
  ultimately show ?thesis using r reader_moves[of s] by (auto simp: reader_inv_def)
qed

text \<open>With the device of \<open>hello.c\<close> the output holds its string.\<close>

theorem reader_program_ends_witness:
  "\<exists>out. cat hello_dev (\<lambda>_. True) 0 [] = Some out \<and> pieces out = hello_string \<and>
     (\<exists>t. reader_step (reader_start out 3) t)"
proof -
  obtain out where out: "cat hello_dev (\<lambda>_. True) 0 [] = Some out" "pieces out = hello_string"
    using hello.cat_all[of 0 "\<lambda>_. True" "[]"] by auto
  have "\<exists>t. reader_step (reader_start out 3) t"
    using reader_program_ends[of 0 out 3 "reader_start out 3"] by (simp add: reader_start_def)
  then show ?thesis using out by blast
qed

end
