(* ===== verification/FontSetup.thy ===== *)
theory FontSetup
  imports FontDraw
begin

text \<open>
  The rest of \<open>ft2wrap.h\<close>: opening a font, the size that the wrapper remembers, text of several lines (disabled in
  the code), and the endless \<open>selfTest\<close>, which \<open>tfreetype.cpp\<close> runs. FreeType is a parameter again: which files
  are there, what \<open>FT_New_Face\<close> gives, and for which sizes \<open>FT_Set_Pixel_Sizes\<close> succeeds; its result is not looked at.
\<close>

section \<open>Opening a font\<close>

record ft2wrap =
  fw_face :: font
  fw_cur_size :: int
  fw_px :: int       \<comment> \<open>the pixel size of the face\<close>
  fw_slot :: int     \<comment> \<open>\<open>advance.x\<close> of its glyph slot\<close>

datatype init_result = NoFontFile | FaceFailed string | Opened string ft2wrap

definition default_font :: string where
  "default_font = ''/usr/share/fonts/wqy-zenhei/wqy-zenhei.ttc''"

definition default_font_ubuntu :: string where
  "default_font_ubuntu = ''/usr/share/fonts/truetype/wqy/wqy-zenhei.ttc''"

definition choose_font :: "(string \<Rightarrow> bool) \<Rightarrow> string option \<Rightarrow> string option" where
  "choose_font access fontfile =
     (case fontfile of
        Some f \<Rightarrow> Some f
      | None \<Rightarrow> if access default_font then Some default_font
          else if access default_font_ubuntu then Some default_font_ubuntu
          else None)"

text \<open>\<open>FT_Set_Pixel_Sizes(face, size, 0)\<close>.\<close>

definition set_pixel_sizes :: "(int \<Rightarrow> bool) \<Rightarrow> int \<Rightarrow> ft2wrap \<Rightarrow> ft2wrap" where
  "set_pixel_sizes sizes size0 w = (if sizes size0 then w\<lparr>fw_px := size0\<rparr> else w)"

text \<open>\<open>new_face\<close> gives the face with the size and advance it begins with.\<close>

definition init ::
  "(string \<Rightarrow> bool) \<Rightarrow> (string \<Rightarrow> (font \<times> int \<times> int) option) \<Rightarrow> (int \<Rightarrow> bool) \<Rightarrow> string option \<Rightarrow> init_result" where
  "init access new_face sizes fontfile =
     (case choose_font access fontfile of
        None \<Rightarrow> NoFontFile
      | Some f \<Rightarrow>
          (case new_face f of
             None \<Rightarrow> FaceFailed f
           | Some (face, px, slot) \<Rightarrow>
               Opened f (set_pixel_sizes sizes 24 \<lparr>fw_face = face, fw_cur_size = 24, fw_px = px, fw_slot = slot\<rparr>)))"

section \<open>Printing\<close>

definition setSize :: "(int \<Rightarrow> bool) \<Rightarrow> int \<Rightarrow> ft2wrap \<Rightarrow> ft2wrap" where
  "setSize sizes size0 w =
     (if fw_cur_size w \<noteq> size0 then set_pixel_sizes sizes size0 (w\<lparr>fw_cur_size := size0\<rparr>) else w)"

text \<open>The member \<open>printString\<close>: the text is drawn in the size the face has after \<open>setSize\<close>.\<close>

definition fw_print ::
  "(int \<Rightarrow> bool) \<Rightarrow> nat list \<Rightarrow> int \<Rightarrow> int \<Rightarrow> colour3 \<Rightarrow> int \<Rightarrow> ft2wrap \<times> image \<Rightarrow> ft_fault + int \<times> ft2wrap \<times> image" where
  "fw_print sizes str penx peny c size0 s =
     (case s of (w, img) \<Rightarrow>
        let w = setSize sizes size0 w in
        (case printString (fw_face w) (fw_slot w) str penx peny c (fw_px w) img of
           Inl f \<Rightarrow> Inl f
         | Inr (dy, p, img) \<Rightarrow> Inr (dy, w\<lparr>fw_slot := pn_slot p\<rparr>, img)))"

text \<open>The loop of \<open>printText\<close> cuts the text at its line feeds; \<open>posy\<close> adds up the heights.\<close>

function print_text_loop ::
  "(int \<Rightarrow> bool) \<Rightarrow> nat list \<Rightarrow> int \<Rightarrow> int \<Rightarrow> int \<Rightarrow> colour3 \<Rightarrow> int \<Rightarrow> ft2wrap \<times> image \<Rightarrow> ft_fault + ft2wrap \<times> image" where
  "print_text_loop sizes str x y posy c size0 s =
     (if 10 \<in> set str then
        let pos = length (takeWhile (\<lambda>ch. ch \<noteq> 10) str);
            substr = take pos str;
            str = drop (pos + 1) str
        in (case fw_print sizes substr x (y + posy) c size0 s of
              Inl f \<Rightarrow> Inl f
            | Inr (dy, s) \<Rightarrow> print_text_loop sizes str x y (posy + dy) c size0 s)
      else map_sum id snd (fw_print sizes str x (y + posy) c size0 s))"
  by pat_completeness auto
termination
  by (relation "measure (\<lambda>(_, str, _). length str)") (auto simp: neq_Nil_conv dest: split_list)

declare print_text_loop.simps [simp del]

definition printText ::
  "(int \<Rightarrow> bool) \<Rightarrow> nat list \<Rightarrow> int \<Rightarrow> int \<Rightarrow> colour3 \<Rightarrow> int \<Rightarrow> ft2wrap \<times> image \<Rightarrow> ft_fault + ft2wrap \<times> image" where
  "printText sizes str x y c size0 s =
     (case s of (w, img) \<Rightarrow> print_text_loop sizes str x y 0 c size0 (setSize sizes size0 w, img))"

section \<open>The self test\<close>

text \<open>A \<open>wchar_t\<close> is signed and widened to \<open>FT_ULong\<close>; a \<open>wstring\<close> made of an array ends before the first 0.\<close>

type_synonym wchar = "32 word"

definition wchar_code :: "wchar \<Rightarrow> nat" where
  "wchar_code ch = unat (scast ch :: 64 word)"

definition wstring_of :: "wchar list \<Rightarrow> nat list" where
  "wstring_of wstr = map wchar_code (takeWhile (\<lambda>ch. ch \<noteq> 0) wstr)"

definition put_wchar :: "nat \<Rightarrow> wchar \<Rightarrow> wchar list \<Rightarrow> ft_fault + wchar list" where
  "put_wchar i ch wstr = (if i < length wstr then Inr (wstr[i := ch]) else Inl OutsideText)"

text \<open>
  The loop that fills \<open>wstr\<close>, \<open>n\<close> characters from index \<open>i\<close> on. \<open>rnd n\<close> is the \<open>n\<close>-th result of \<open>rand\<close>, \<open>k\<close> counts
  the calls. A store outside or a division by 0 is a fault.
\<close>

fun fill_wstr :: "wchar \<Rightarrow> wchar \<Rightarrow> (nat \<Rightarrow> int) \<Rightarrow> nat \<Rightarrow> nat \<Rightarrow> nat \<Rightarrow> wchar list \<Rightarrow> ft_fault + wchar list" where
  "fill_wstr c0 c1 rnd k i 0 wstr = put_wchar i 0 wstr"
| "fill_wstr c0 c1 rnd k i (Suc n) wstr =
     (if c1 - c0 = 0 then Inl DivisionByZero
      else case put_wchar i (c0 + word_of_int (rnd k) mod (c1 - c0)) wstr of
             Inl f \<Rightarrow> Inl f
           | Inr wstr \<Rightarrow> fill_wstr c0 c1 rnd (Suc k) (Suc i) n wstr)"

record test_text =
  tt_str :: "nat list"
  tt_x :: int
  tt_y :: int
  tt_size :: int
  tt_colour :: colour3

text \<open>What a round draws, and the buffer and the number of random numbers after it.\<close>

definition test_round ::
  "wchar \<Rightarrow> wchar \<Rightarrow> (nat \<Rightarrow> int) \<Rightarrow> nat \<Rightarrow> wchar list \<Rightarrow> ft_fault + test_text \<times> nat \<times> wchar list" where
  "test_round c0 c1 rnd k wstr =
     (let len = rnd k mod 256;
          sz = 8 + (rnd (k + 1) mod 63);
          k = k + 2
      in case fill_wstr c0 c1 rnd k 0 (nat len) wstr of
           Inl f \<Rightarrow> Inl f
         | Inr wstr \<Rightarrow>
             let k = k + nat len;
                 x0 = - len * sz; x1 = 960;
                 y0 = - sz; y1 = 480 + sz;
                 x = x0 + rnd k mod (x1 - x0);
                 y = y0 + rnd (k + 1) mod (y1 - y0)
             in Inr (\<lparr>tt_str = wstring_of wstr, tt_x = x, tt_y = y, tt_size = sz,
                        tt_colour = (take_bit 8 (rnd (k + 2)), take_bit 8 (rnd (k + 3)), take_bit 8 (rnd (k + 4)))\<rparr>,
                      k + 5, wstr))"

text \<open>The rounds, one for each key that \<open>waitKey\<close> reports; 113 is \<open>q\<close>.\<close>

fun test_rounds ::
  "(int \<Rightarrow> bool) \<Rightarrow> wchar \<Rightarrow> wchar \<Rightarrow> (nat \<Rightarrow> int) \<Rightarrow> int list \<Rightarrow> nat \<Rightarrow> wchar list \<Rightarrow> ft2wrap \<times> image \<Rightarrow>
     ft_fault + test_text list \<times> ft2wrap \<times> image" where
  "test_rounds sizes c0 c1 rnd [] k wstr s = Inr ([], s)"
| "test_rounds sizes c0 c1 rnd (key # keys) k wstr s =
     (case test_round c0 c1 rnd k wstr of
        Inl f \<Rightarrow> Inl f
      | Inr (t, k, wstr) \<Rightarrow>
          (case fw_print sizes (tt_str t) (tt_x t) (tt_y t) (tt_colour t) (tt_size t) s of
             Inl f \<Rightarrow> Inl f
           | Inr (dy, s) \<Rightarrow>
               if take_bit 8 key = 113 then Inr ([t], s)
               else map_sum id (\<lambda>(ts, s). (t # ts, s)) (test_rounds sizes c0 c1 rnd keys k wstr s)))"

definition selfTest ::
  "(int \<Rightarrow> bool) \<Rightarrow> wchar \<Rightarrow> wchar \<Rightarrow> (nat \<Rightarrow> int) \<Rightarrow> int list \<Rightarrow> ft2wrap \<Rightarrow>
     ft_fault + test_text list \<times> ft2wrap \<times> image" where
  "selfTest sizes c0 c1 rnd keys w =
     test_rounds sizes c0 c1 rnd keys 0 (replicate 256 0) (w, blank_image 480 960)"

definition tfreetype_main ::
  "(string \<Rightarrow> bool) \<Rightarrow> (string \<Rightarrow> (font \<times> int \<times> int) option) \<Rightarrow> (int \<Rightarrow> bool) \<Rightarrow> (nat \<Rightarrow> int) \<Rightarrow> int list \<Rightarrow>
     init_result + (ft_fault + test_text list \<times> ft2wrap \<times> image)" where
  "tfreetype_main access new_face sizes rnd keys =
     (case init access new_face sizes None of
        Opened f w \<Rightarrow> Inr (selfTest sizes 0x4E00 0x9FA5 rnd keys w)
      | r \<Rightarrow> Inl r)"

section \<open>The remembered size\<close>

definition size_known :: "ft2wrap \<Rightarrow> bool" where
  "size_known w \<longleftrightarrow> fw_px w = fw_cur_size w"

lemma setSize_px:
  assumes "\<And>sz. sizes sz"
  shows "size_known w \<Longrightarrow> fw_px (setSize sizes size0 w) = size0" "size_known w \<Longrightarrow> size_known (setSize sizes size0 w)"
  using assms by (simp_all add: setSize_def set_pixel_sizes_def size_known_def)

lemma setSize_keeps [simp]: "fw_face (setSize sizes size0 w) = fw_face w" "fw_slot (setSize sizes size0 w) = fw_slot w"
  by (simp_all add: setSize_def set_pixel_sizes_def)

lemma init_size_known: "(\<And>sz. sizes sz) \<Longrightarrow> init access new_face sizes f = Opened g w \<Longrightarrow> size_known w"
  by (auto simp: init_def size_known_def set_pixel_sizes_def split: option.splits)

text \<open>A sequence of calls of the member, and the same calls when every one gives the face its size.\<close>

fun fw_prints :: "(int \<Rightarrow> bool) \<Rightarrow> test_text list \<Rightarrow> ft2wrap \<times> image \<Rightarrow> ft_fault + int list \<times> ft2wrap \<times> image" where
  "fw_prints sizes [] s = Inr ([], s)"
| "fw_prints sizes (t # ts) s =
     (case fw_print sizes (tt_str t) (tt_x t) (tt_y t) (tt_colour t) (tt_size t) s of
        Inl f \<Rightarrow> Inl f
      | Inr (dy, s) \<Rightarrow> map_sum id (\<lambda>(dys, s). (dy # dys, s)) (fw_prints sizes ts s))"

fun sized_prints :: "font \<Rightarrow> test_text list \<Rightarrow> int \<Rightarrow> image \<Rightarrow> ft_fault + int list \<times> int \<times> image" where
  "sized_prints ft [] slot img = Inr ([], slot, img)"
| "sized_prints ft (t # ts) slot img =
     (case printString ft slot (tt_str t) (tt_x t) (tt_y t) (tt_colour t) (tt_size t) img of
        Inl f \<Rightarrow> Inl f
      | Inr (dy, p, img) \<Rightarrow> map_sum id (\<lambda>(dys, s). (dy # dys, s)) (sized_prints ft ts (pn_slot p) img))"

lemma fw_prints_sized:
  assumes "\<And>sz. sizes sz"
  shows "size_known w \<Longrightarrow>
    map_sum id (\<lambda>(dys, w, img). (dys, fw_slot w, img)) (fw_prints sizes ts (w, img)) = sized_prints (fw_face w) ts (fw_slot w) img"
proof (induction ts arbitrary: w img)
  case (Cons t ts)
  let ?w = "setSize sizes (tt_size t) w"
  have px: "fw_px ?w = tt_size t" "size_known ?w" using setSize_px[OF assms Cons.prems] by simp_all
  show ?case
  proof (cases "printString (fw_face w) (fw_slot w) (tt_str t) (tt_x t) (tt_y t) (tt_colour t) (tt_size t) img")
    case (Inl f)
    then show ?thesis using px by (simp add: fw_print_def Let_def)
  next
    case (Inr r)
    obtain dy p img' where r: "r = (dy, p, img')" by (cases r)
    have "size_known (?w\<lparr>fw_slot := pn_slot p\<rparr>)" using px(2) by (simp add: size_known_def)
    from Cons.IH[OF this, of img', symmetric] show ?thesis
      using Inr px by (cases "fw_prints sizes ts (?w\<lparr>fw_slot := pn_slot p\<rparr>, img')") (auto simp: r fw_print_def Let_def)
  qed
qed simp

theorem size_cache_transparent:
  assumes "\<And>sz. sizes sz" "init access new_face sizes fontfile = Opened f w"
  shows "map_sum id (\<lambda>(dys, w, img). (dys, fw_slot w, img)) (fw_prints sizes ts (w, img)) =
    sized_prints (fw_face w) ts (fw_slot w) img"
  using fw_prints_sized[OF assms(1) init_size_known[OF assms]] by simp

section \<open>Several lines\<close>

fun lines_of :: "nat list \<Rightarrow> nat list list" where
  "lines_of [] = [[]]"
| "lines_of (ch # str) = (if ch = 10 then [] # lines_of str else (ch # List.hd (lines_of str)) # tl (lines_of str))"

fun print_lines ::
  "(int \<Rightarrow> bool) \<Rightarrow> nat list list \<Rightarrow> int \<Rightarrow> int \<Rightarrow> colour3 \<Rightarrow> int \<Rightarrow> ft2wrap \<times> image \<Rightarrow> ft_fault + ft2wrap \<times> image" where
  "print_lines sizes [] x y c size0 s = Inr s"
| "print_lines sizes (l # ls) x y c size0 s =
     (case fw_print sizes l x y c size0 s of Inl f \<Rightarrow> Inl f | Inr (dy, s) \<Rightarrow> print_lines sizes ls x (y + dy) c size0 s)"

lemma lines_of_Cons: "\<exists>l ls. lines_of str = l # ls"
  by (cases str) auto

lemma lines_of_none: "10 \<notin> set str \<Longrightarrow> lines_of str = [str]"
  by (induction str) auto

lemma lines_of_split: "10 \<notin> set a \<Longrightarrow> lines_of (a @ 10 # b) = a # lines_of b"
  by (induction a) auto

lemma print_text_lines: "print_text_loop sizes str x y posy c size0 s = print_lines sizes (lines_of str) x (y + posy) c size0 s"
proof (induction str arbitrary: posy s rule: length_induct)
  case (1 str)
  show ?case
  proof (cases "10 \<in> set str")
    case False
    then show ?thesis
      by (subst print_text_loop.simps) (auto simp: lines_of_none split: sum.split)
  next
    case True
    then obtain a b where s: "str = a @ 10 # b" "10 \<notin> set a" using split_list_first by metis
    have "takeWhile (\<lambda>ch. ch \<noteq> 10) str = a" using s by (induction a arbitrary: str) auto
    moreover have "length b < length str" using s by simp
    ultimately show ?thesis
      using 1 s by (subst print_text_loop.simps) (auto simp: lines_of_split add.assoc split: sum.split)
  qed
qed

lemma lines_of_join:
  "(\<forall>l\<in>set (lines_of str). 10 \<notin> set l) \<and> tl (concat (map ((#) 10) (lines_of str))) = str"
proof (induction str)
  case (Cons ch str)
  obtain l ls where l: "lines_of str = l # ls" using lines_of_Cons by blast
  then show ?case using Cons by auto
qed simp

theorem printText_lines:
  "printText sizes str x y c size0 (w, img) = print_lines sizes (lines_of str) x y c size0 (setSize sizes size0 w, img) \<and>
   (\<forall>l\<in>set (lines_of str). 10 \<notin> set l) \<and> tl (concat (map ((#) 10) (lines_of str))) = str"
  using lines_of_join by (simp add: printText_def print_text_lines)

section \<open>The self test stays inside\<close>

lemma fill_wstr_ok:
  "c0 \<noteq> c1 \<Longrightarrow> i + n < length wstr \<Longrightarrow>
   \<exists>wstr'. fill_wstr c0 c1 rnd k i n wstr = Inr wstr' \<and> length wstr' = length wstr \<and> take i wstr' = take i wstr \<and>
     wstr' ! (i + n) = 0 \<and> (\<forall>j<n. wstr' ! (i + j) = c0 + word_of_int (rnd (k + j)) mod (c1 - c0))"
proof (induction n arbitrary: i k wstr)
  case 0
  then show ?case by (simp add: put_wchar_def)
next
  case (Suc n)
  let ?v = "c0 + word_of_int (rnd k) mod (c1 - c0)"
  obtain w' where w: "fill_wstr c0 c1 rnd (Suc k) (Suc i) n (wstr[i := ?v]) = Inr w'" "length w' = length wstr"
    "take (Suc i) w' = take (Suc i) (wstr[i := ?v])" "w' ! (Suc i + n) = 0"
    "\<forall>j<n. w' ! (Suc i + j) = c0 + word_of_int (rnd (Suc k + j)) mod (c1 - c0)"
    using Suc.IH[OF Suc.prems(1), of "Suc i" "wstr[i := ?v]" "Suc k"] Suc.prems(2) by auto
  have i: "i < length w'" "i < length wstr" using w(2) Suc.prems(2) by simp_all
  have "w' ! i = ?v" using w(3) i by (metis lessI nth_list_update_eq nth_take)
  moreover have "take i w' = take i wstr"
    using arg_cong[OF w(3), of "take i"] by (simp add: take_update_cancel)
  moreover have "\<forall>j<Suc n. w' ! (i + j) = c0 + word_of_int (rnd (k + j)) mod (c1 - c0)"
    using w(5) \<open>w' ! i = ?v\<close> by (auto simp: less_Suc_eq_0_disj)
  ultimately show ?case using Suc.prems w(1,2,4) i(2) by (simp add: put_wchar_def)
qed

text \<open>The texts of the test: sizes, positions and length; the characters when the range is not empty.\<close>

definition test_text_ok :: "wchar \<Rightarrow> wchar \<Rightarrow> test_text \<Rightarrow> bool" where
  "test_text_ok c0 c1 t \<longleftrightarrow>
     length (tt_str t) < 256 \<and> set (tt_str t) \<subseteq> wchar_code ` {v. v \<noteq> 0 \<and> v - c0 < c1 - c0} \<and>
     8 \<le> tt_size t \<and> tt_size t \<le> 70 \<and>
     - (255 * 70) \<le> tt_x t \<and> tt_x t < 960 \<and> - 70 \<le> tt_y t \<and> tt_y t < 550"

lemma takeWhile_nth_0: "n < length xs \<Longrightarrow> xs ! n = 0 \<Longrightarrow>
  length (takeWhile (\<lambda>x. x \<noteq> 0) xs) \<le> n \<and> set (takeWhile (\<lambda>x. x \<noteq> 0) xs) \<subseteq> {x \<in> set (take n xs). x \<noteq> 0}"
  for xs :: "'a :: zero list"
proof (induction xs arbitrary: n)
  case (Cons x xs)
  then show ?case by (cases n) (auto dest: set_takeWhileD)
qed simp

lemma word_mod_less: "(c :: wchar) \<noteq> 0 \<Longrightarrow> v mod c < c"
  by (simp add: word_less_nat_alt unat_mod unat_gt_0)

lemma test_round_ok:
  assumes c: "c0 \<noteq> c1" and rnd: "\<And>n. 0 \<le> rnd n" and len: "length wstr = 256"
  shows "\<exists>t k' wstr'. test_round c0 c1 rnd k wstr = Inr (t, k', wstr') \<and> length wstr' = 256 \<and> test_text_ok c0 c1 t"
proof -
  define n where "n = nat (rnd k mod 256)"
  define sz where "sz = 8 + (rnd (k + 1) mod 63)"
  have n: "n < 256" "rnd k mod 256 = int n" by (simp_all add: n_def)
  obtain w where w: "fill_wstr c0 c1 rnd (k + 2) 0 n wstr = Inr w" "length w = 256" "w ! n = 0"
    "\<forall>j<n. w ! j = c0 + word_of_int (rnd (k + 2 + j)) mod (c1 - c0)"
    using fill_wstr_ok[OF c, of 0 n wstr rnd "k + 2"] len n(1) by auto
  have sz: "8 \<le> sz" "sz \<le> 70"
    using pos_mod_bound[of 63 "rnd (k + 1)"] pos_mod_sign[of 63 "rnd (k + 1)"] unfolding sz_def by linarith+
  have a: "0 \<le> int n * sz" "int n * sz \<le> 255 * 70"
    using sz n(1) mult_mono[of "int n" 255 sz 70] by simp_all
  have mods: "0 \<le> r mod m \<and> r mod m < m" if "0 < m" for r m :: int
    using pos_mod_bound[OF that] pos_mod_sign[OF that] by simp
  define x where "x = - int n * sz + rnd (k + 2 + n) mod (960 - - int n * sz)"
  define y where "y = - sz + rnd (k + 2 + n + 1) mod (480 + sz - - sz)"
  have xy: "- (255 * 70) \<le> x" "x < 960" "- 70 \<le> y" "y < 550"
    using mods[of "960 - - int n * sz" "rnd (k + 2 + n)"] mods[of "480 + sz - - sz" "rnd (k + 2 + n + 1)"] a sz
    unfolding x_def y_def by linarith+
  note tw = takeWhile_nth_0[of n w, unfolded w(2), OF n(1) w(3)]
  have chars: "set (wstring_of w) \<subseteq> wchar_code ` {v. v \<noteq> 0 \<and> v - c0 < c1 - c0}"
  proof -
    have "v - c0 < c1 - c0" if "v \<in> set (take n w)" for v
    proof -
      from that obtain j where "j < n" "v = w ! j" using w(2) n(1) by (auto simp: in_set_conv_nth)
      then have "v - c0 = word_of_int (rnd (k + 2 + j)) mod (c1 - c0)" using w(4) by simp
      moreover have "c1 - c0 \<noteq> 0" using c by simp
      ultimately show ?thesis using word_mod_less by metis
    qed
    then show ?thesis using tw by (auto simp: wstring_of_def)
  qed
  let ?t = "\<lparr>tt_str = wstring_of w, tt_x = x, tt_y = y, tt_size = sz,
      tt_colour = (take_bit 8 (rnd (k + 2 + n + 2)), take_bit 8 (rnd (k + 2 + n + 3)), take_bit 8 (rnd (k + 2 + n + 4)))\<rparr>"
  have "test_round c0 c1 rnd k wstr = Inr (?t, k + 2 + n + 5, w)"
    by (simp only: test_round_def Let_def n(2) nat_int w(1) sum.case sz_def[symmetric] x_def y_def)
  moreover have "test_text_ok c0 c1 ?t"
    using n(1) tw chars sz xy by (simp add: test_text_ok_def wstring_of_def)
  ultimately show ?thesis using w(2) by blast
qed

text \<open>What a run of the test may come to.\<close>

definition test_outcome ::
  "wchar \<Rightarrow> wchar \<Rightarrow> font \<Rightarrow> int \<Rightarrow> int \<Rightarrow> ft_fault + test_text list \<times> ft2wrap \<times> image \<Rightarrow> bool" where
  "test_outcome c0 c1 ft rows cols r \<longleftrightarrow>
     (case r of
        Inl f \<Rightarrow> f = OutsideBitmap \<and> \<not> gray_font ft
      | Inr (ts, w', img') \<Rightarrow> im_rows img' = rows \<and> im_cols img' = cols \<and> Ball (set ts) (test_text_ok c0 c1))"

lemma test_rounds_ok:
  assumes c: "c0 \<noteq> c1" and rnd: "\<And>n. 0 \<le> rnd n" and B: "255 * 70 \<le> B" "B \<le> 32000"
  shows "length wstr = 256 \<Longrightarrow> font_metrics (fw_face w) B \<Longrightarrow> \<bar>cdiv (fw_slot w) 64\<bar> \<le> B \<Longrightarrow>
    test_outcome c0 c1 (fw_face w) (im_rows img) (im_cols img) (test_rounds sizes c0 c1 rnd keys k wstr (w, img))"
proof (induction keys arbitrary: k wstr w img)
  case (Cons key keys)
  obtain t k1 wstr1 where t: "test_round c0 c1 rnd k wstr = Inr (t, k1, wstr1)" "length wstr1 = 256" "test_text_ok c0 c1 t"
    using test_round_ok[of c0 c1 rnd wstr k, OF c rnd Cons.prems(1)] by blast
  define w0 where "w0 = setSize sizes (tt_size t) w"
  have w0: "fw_face w0 = fw_face w" "fw_slot w0 = fw_slot w" by (simp_all add: w0_def)
  have "2 * B * int (length (tt_str t)) \<le> 2 * 32000 * 255"
    using t(3) B by (intro mult_mono) (simp_all add: test_text_ok_def)
  then have lim: "2 * B * int (length (tt_str t)) + 4 * B < 2 ^ 24" "0 \<le> B" using B by simp_all
  have xy: "\<bar>tt_x t\<bar> \<le> B" "\<bar>tt_y t\<bar> \<le> B" using t(3) B by (auto simp: test_text_ok_def)
  note p = ft_print_safe[OF Cons.prems(2) lim(2) Cons.prems(3) xy lim(1), of img "tt_colour t" "fw_px w0"]
  show ?case
  proof (cases "printString (fw_face w) (fw_slot w) (tt_str t) (tt_x t) (tt_y t) (tt_colour t) (fw_px w0) img")
    case (Inl f)
    then have "fw_print sizes (tt_str t) (tt_x t) (tt_y t) (tt_colour t) (tt_size t) (w, img) = Inl f"
      by (simp add: fw_print_def w0_def Let_def)
    then show ?thesis using p t Inl by (simp add: test_outcome_def)
  next
    case (Inr r)
    obtain dy q img1 where r: "r = (dy, q, img1)" by (cases r)
    have q: "\<bar>cdiv (pn_slot q) 64\<bar> \<le> B" "im_rows img1 = im_rows img" "im_cols img1 = im_cols img"
      using p Inr r by simp_all
    have f: "fw_print sizes (tt_str t) (tt_x t) (tt_y t) (tt_colour t) (tt_size t) (w, img) =
        Inr (dy, w0\<lparr>fw_slot := pn_slot q\<rparr>, img1)"
      using Inr by (simp add: fw_print_def w0_def r Let_def)
    have "font_metrics (fw_face (w0\<lparr>fw_slot := pn_slot q\<rparr>)) B" "\<bar>cdiv (fw_slot (w0\<lparr>fw_slot := pn_slot q\<rparr>)) 64\<bar> \<le> B"
      using Cons.prems(2) q(1) w0 by simp_all
    from Cons.IH[OF t(2) this, of img1 k1] show ?thesis
      using t f q(2,3) w0 by (auto simp: test_outcome_def split: sum.splits prod.splits)
  qed
qed (simp add: test_outcome_def)

text \<open>C38: however long it runs and whatever \<open>rand\<close> gives, the self test stores inside \<open>wstr\<close> and draws inside the
  image, for every font with metrics up to 32000 pixels, and its texts have characters of the range asked for. One
  fault is left: a read outside a glyph's bitmap, possible only when the library gives some bitmap that is not of the
  8-bit gray format, which the code does not check.\<close>

theorem self_test_safe:
  assumes "c0 \<noteq> c1" "\<And>n. 0 \<le> rnd n" "font_metrics (fw_face w) B" "\<bar>cdiv (fw_slot w) 64\<bar> \<le> B" "255 * 70 \<le> B" "B \<le> 32000"
  shows "case selfTest sizes c0 c1 rnd keys w of
     Inl f \<Rightarrow> f = OutsideBitmap \<and> \<not> gray_font (fw_face w)
   | Inr (ts, w', img') \<Rightarrow> im_rows img' = 480 \<and> im_cols img' = 960 \<and> Ball (set ts) (test_text_ok c0 c1)"
  using test_rounds_ok[of c0 c1 rnd B "replicate 256 0" w "blank_image 480 960" sizes keys 0, OF assms(1,2,5,6) _ assms(3,4)]
  by (simp add: selfTest_def blank_image_def test_outcome_def)

theorem self_test_safe_witness:
  "\<exists>ts w' img'. selfTest (\<lambda>_. True) 0x4E00 0x9FA5 (\<lambda>n. int (n * 7919)) [- 1, 113]
       \<lparr>fw_face = demo_font, fw_cur_size = 24, fw_px = 24, fw_slot = 0\<rparr> = Inr (ts, w', img') \<and>
     im_rows img' = 480 \<and> im_cols img' = 960"
  using self_test_safe[of "0x4E00" "0x9FA5" "\<lambda>n. int (n * 7919)"
      "\<lparr>fw_face = demo_font, fw_cur_size = 24, fw_px = 24, fw_slot = 0\<rparr>" 20000 "\<lambda>_. True" "[- 1, 113]"]
    demo_font_ok(1)[of 20000] demo_font_ok(2)
  by (auto simp: cdiv_def split: sum.splits)

theorem size_cache_transparent_witness:
  "map_sum id (\<lambda>(dys, w, img). (dys, fw_slot w, img))
      (fw_prints (\<lambda>_. True) [\<lparr>tt_str = [65], tt_x = 1, tt_y = 2, tt_size = 12, tt_colour = (255, 0, 0)\<rparr>]
        (\<lparr>fw_face = demo_font, fw_cur_size = 24, fw_px = 24, fw_slot = 0\<rparr>, demo_image)) =
    sized_prints demo_font [\<lparr>tt_str = [65], tt_x = 1, tt_y = 2, tt_size = 12, tt_colour = (255, 0, 0)\<rparr>] 0 demo_image"
  using size_cache_transparent[of "\<lambda>_. True" "\<lambda>_. False" "\<lambda>_. Some (demo_font, 0, 0)" "Some ''a''" "''a''"
      "\<lparr>fw_face = demo_font, fw_cur_size = 24, fw_px = 24, fw_slot = 0\<rparr>"
      "[\<lparr>tt_str = [65], tt_x = 1, tt_y = 2, tt_size = 12, tt_colour = (255, 0, 0)\<rparr>]" demo_image]
  by (simp add: init_def choose_font_def set_pixel_sizes_def del: fw_prints.simps sized_prints.simps)

text \<open>What the wrapper does not handle: an empty range divides by 0, and a size that the library refuses is remembered
  all the same, so that the texts that follow stay in the old size and the library is not asked again.\<close>

lemma self_test_empty_range:
  "0 < rnd 0 mod 256 \<Longrightarrow> selfTest sizes c c rnd (key # keys) w = Inl DivisionByZero"
proof -
  assume "0 < rnd 0 mod 256"
  then obtain n where "nat (rnd 0 mod 256) = Suc n" by (cases "nat (rnd 0 mod 256)") auto
  then show ?thesis by (simp add: selfTest_def test_round_def Let_def)
qed

lemma refused_size_remembered:
  assumes "\<not> sizes sz" "fw_cur_size w \<noteq> sz"
  defines "w1 \<equiv> setSize sizes sz w"
  shows "fw_cur_size w1 = sz \<and> fw_px w1 = fw_px w \<and> setSize sizes' sz w1 = w1"
  using assms by (simp add: setSize_def set_pixel_sizes_def)

end
