(* ===== verification/CubeOrder.thy ===== *)
theory CubeOrder
  imports Cube "HOL-Library.RBT"
begin

text \<open>
  The program of \<open>tcube.cpp\<close> on its own data: cubes of 48 bytes, which \<open>operator<\<close> compares with \<open>memcmp\<close>,
  a \<open>std::set\<close> ordered by it, and the two vectors that take turns as the current and the next round. The six turns
  reach about 4.3e19 positions, so no run of the program ends: the \<open>int\<close> counter of a round or the memory runs out
  before. Both are faults of the model, and what is shown is what any number of rounds leaves that the program
  completes, or which of the two stopped it. The search works over any set with the contract \<open>node_set\<close>.
\<close>

section \<open>Cubes and their order\<close>

typedef cube = "{s :: byte list. length s = 48}"
  morphisms stickers Cube
  by (rule exI[of _ "replicate 48 0"]) simp

setup_lifting type_definition_cube

text \<open>The sign of what \<open>memcmp\<close> returns; it compares unsigned bytes.\<close>

fun memcmp :: "byte list \<Rightarrow> byte list \<Rightarrow> nat \<Rightarrow> int" where
  "memcmp (x # xs) (y # ys) (Suc n) = (if x = y then memcmp xs ys n else if x < y then - 1 else 1)"
| "memcmp xs ys n = 0"

definition cube_eq :: "cube \<Rightarrow> cube \<Rightarrow> bool" where
  "cube_eq a b \<longleftrightarrow> memcmp (stickers a) (stickers b) 48 = 0"

definition cube_less :: "cube \<Rightarrow> cube \<Rightarrow> bool" where
  "cube_less a b \<longleftrightarrow> memcmp (stickers a) (stickers b) 48 < 0"

lemma memcmp_0: "length xs = length ys \<Longrightarrow> memcmp xs ys (length xs) = 0 \<longleftrightarrow> xs = ys"
  by (induction xs ys rule: list_induct2) simp_all

lemma memcmp_sign: "length xs = length ys \<Longrightarrow> memcmp ys xs (length xs) = - memcmp xs ys (length xs)"
  by (induction xs ys rule: list_induct2) auto

lemma memcmp_trans:
  "length xs = length ys \<Longrightarrow> length ys = length zs \<Longrightarrow>
   memcmp xs ys (length xs) < 0 \<Longrightarrow> memcmp ys zs (length xs) < 0 \<Longrightarrow> memcmp xs zs (length xs) < 0"
  by (induction xs ys zs rule: list_induct3) (auto split: if_splits)

lemma stickers_length [simp]: "length (stickers c) = 48"
  using stickers[of c] by simp

lemma cube_eq_iff: "cube_eq a b \<longleftrightarrow> a = b"
  using memcmp_0[of "stickers a" "stickers b"] by (simp add: cube_eq_def stickers_inject)

instantiation cube :: linorder
begin

definition less_cube :: "cube \<Rightarrow> cube \<Rightarrow> bool" where
  "less_cube = cube_less"

definition less_eq_cube :: "cube \<Rightarrow> cube \<Rightarrow> bool" where
  "less_eq_cube a b \<longleftrightarrow> cube_less a b \<or> cube_eq a b"

instance
proof
  fix a b c :: cube
  have sign: "memcmp (stickers b) (stickers a) 48 = - memcmp (stickers a) (stickers b) 48"
    using memcmp_sign[of "stickers a" "stickers b"] by simp
  show "a < b \<longleftrightarrow> a \<le> b \<and> \<not> b \<le> a"
    using sign by (auto simp: less_cube_def less_eq_cube_def cube_less_def cube_eq_def)
  show "a \<le> a" by (simp add: less_eq_cube_def cube_eq_iff)
  show "a \<le> b \<Longrightarrow> b \<le> c \<Longrightarrow> a \<le> c"
    using memcmp_trans[of "stickers a" "stickers b" "stickers c"]
    by (auto simp: less_eq_cube_def cube_eq_iff cube_less_def)
  show "a \<le> b \<Longrightarrow> b \<le> a \<Longrightarrow> a = b"
    using sign by (auto simp: less_eq_cube_def cube_eq_iff cube_less_def)
  show "a \<le> b \<or> b \<le> a"
    using sign by (auto simp: less_eq_cube_def cube_less_def cube_eq_def)
qed

end

instance cube :: finite
proof
  have "finite {s. set s \<subseteq> (UNIV :: byte set) \<and> length s = 48}"
    by (rule finite_lists_length_eq) simp
  then have "finite (stickers ` UNIV)"
    by (rule rev_finite_subset) (auto)
  then show "finite (UNIV :: cube set)"
    by (rule finite_imageD) (auto intro: injI simp: stickers_inject)
qed

section \<open>Turns\<close>

lemma length_rotate_any: "length s = 48 \<Longrightarrow> length (rotate_face f s) = 48"
  by (cases "f < 6") (auto simp: length_rotate_face rotate_face_def rotate_with_def Let_def)

lift_definition solved_cube :: cube is "map word_of_nat reset_cube"
  by simp

lift_definition turned :: "nat \<Rightarrow> cube \<Rightarrow> cube" is rotate_face
  by (rule length_rotate_any)

definition cube_turns :: "cube \<Rightarrow> cube list" where
  "cube_turns c = map (\<lambda>i. turned i c) [0..<6]"

section \<open>The program\<close>

text \<open>The operations of \<open>std::set\<close> that the search calls.\<close>

record ('a, 't) set_ops =
  so_empty :: 't
  so_insert :: "'a \<Rightarrow> 't \<Rightarrow> 't"
  so_find :: "'a \<Rightarrow> 't \<Rightarrow> bool"
  so_size :: "'t \<Rightarrow> nat"

datatype search_line = is_round: RoundLine nat nat nat | Progress int nat

text \<open>\<open>k++\<close> past the largest \<open>int\<close>, which is undefined, and \<open>std::bad_alloc\<close>.\<close>

datatype search_fault = KOverflow | NoMemory

record ('a, 't) search_state =
  node_fixed :: 't
  node_act :: "nat \<Rightarrow> 'a list"
  actid :: nat
  depth :: nat
  printed :: "search_line list"

text \<open>
  The loop over the six turns of a cube, and the loop over the cubes of a round, \<open>n\<close> of them, from the \<open>k\<close>-th on.
  \<open>fits\<close> tells which sets and vectors the memory holds.
\<close>

fun try_turns ::
  "('a, 't) set_ops \<Rightarrow> ('t \<times> 'a list \<Rightarrow> bool) \<Rightarrow> 'a list \<Rightarrow> 't \<times> 'a list \<Rightarrow> search_fault + 't \<times> 'a list" where
  "try_turns ops fits [] s = Inr s"
| "try_turns ops fits (n # ns) (fixed, na_next) =
     (if \<not> so_find ops n fixed
      then let s = (so_insert ops n fixed, na_next @ [n])
           in if fits s then try_turns ops fits ns s else Inl NoMemory
      else try_turns ops fits ns (fixed, na_next))"

definition INT_MAX :: int where "INT_MAX = 2 ^ 31 - 1"

fun expand_round ::
  "('a, 't) set_ops \<Rightarrow> ('a \<Rightarrow> 'a list) \<Rightarrow> ('t \<times> 'a list \<Rightarrow> bool) \<Rightarrow> nat \<Rightarrow> int \<Rightarrow> 'a list \<Rightarrow>
     't \<times> 'a list \<times> search_line list \<Rightarrow> search_fault + 't \<times> 'a list \<times> search_line list" where
  "expand_round ops turns fits n k [] s = Inr s"
| "expand_round ops turns fits n k (c # cs) (fixed, na_next, out) =
     (let fixed = so_insert ops c fixed in
      if \<not> fits (fixed, na_next) then Inl NoMemory
      else case try_turns ops fits (turns c) (fixed, na_next) of
        Inl e \<Rightarrow> Inl e
      | Inr (fixed, na_next) \<Rightarrow>
          let out = (if take_bit 4 k = 0 then out @ [Progress k n] else out)
          in if k = INT_MAX then Inl KOverflow
             else expand_round ops turns fits n (k + 1) cs (fixed, na_next, out))"

text \<open>The body of the outer loop, and its first \<open>d\<close> rounds, fewer when the loop ends before.\<close>

definition search_round ::
  "('a, 't) set_ops \<Rightarrow> ('a \<Rightarrow> 'a list) \<Rightarrow> ('t \<times> 'a list \<Rightarrow> bool) \<Rightarrow> ('a, 't) search_state \<Rightarrow>
     search_fault + ('a, 't) search_state" where
  "search_round ops turns fits st =
     (let na_cur = node_act st (actid st);
          out = printed st @ [RoundLine (depth st) (length na_cur) (so_size ops (node_fixed st))]
      in case expand_round ops turns fits (length na_cur) 0 na_cur (node_fixed st, [], out) of
           Inl e \<Rightarrow> Inl e
         | Inr (fixed, na_next, out) \<Rightarrow>
             Inr (st\<lparr>node_fixed := fixed, node_act := (node_act st)(1 - actid st := na_next),
                     actid := 1 - actid st, depth := Suc (depth st), printed := out\<rparr>))"

fun search_rounds ::
  "('a, 't) set_ops \<Rightarrow> ('a \<Rightarrow> 'a list) \<Rightarrow> ('t \<times> 'a list \<Rightarrow> bool) \<Rightarrow> nat \<Rightarrow> ('a, 't) search_state \<Rightarrow>
     search_fault + ('a, 't) search_state" where
  "search_rounds ops turns fits 0 st = Inr st"
| "search_rounds ops turns fits (Suc d) st =
     (if 0 < length (node_act st (actid st))
      then case search_round ops turns fits st of
             Inl e \<Rightarrow> Inl e
           | Inr st \<Rightarrow> search_rounds ops turns fits d st
      else Inr st)"

definition search_start :: "('a, 't) set_ops \<Rightarrow> 'a \<Rightarrow> ('a, 't) search_state" where
  "search_start ops root =
     \<lparr>node_fixed = so_empty ops, node_act = (\<lambda>_. [])(0 := [root]), actid = 0, depth = 0, printed = []\<rparr>"

text \<open>\<open>std::set\<close> as a red-black tree over the order of its elements.\<close>

definition std_set :: "('a :: linorder, ('a, unit) rbt) set_ops" where
  "std_set = \<lparr>so_empty = RBT.empty, so_insert = (\<lambda>x. RBT.insert x ()), so_find = (\<lambda>x t. RBT.lookup t x \<noteq> None),
     so_size = (\<lambda>t. length (RBT.keys t))\<rparr>"

text \<open>The first \<open>d\<close> rounds of \<open>main\<close>.\<close>

definition cube_rounds ::
  "((cube, unit) rbt \<times> cube list \<Rightarrow> bool) \<Rightarrow> nat \<Rightarrow> search_fault + (cube, (cube, unit) rbt) search_state" where
  "cube_rounds fits d = search_rounds std_set cube_turns fits d (search_start std_set solved_cube)"

section \<open>Distances\<close>

definition step_rel :: "('a \<Rightarrow> 'a list) \<Rightarrow> 'a \<Rightarrow> 'a \<Rightarrow> bool" where
  "step_rel turns a b \<longleftrightarrow> b \<in> set (turns a)"

text \<open>What at most \<open>d\<close> turns reach, and what \<open>d\<close> turns reach but no fewer.\<close>

definition ball :: "('a \<Rightarrow> 'a list) \<Rightarrow> 'a \<Rightarrow> nat \<Rightarrow> 'a set" where
  "ball turns r d = {c. \<exists>n\<le>d. (step_rel turns ^^ n) r c}"

definition sphere :: "('a \<Rightarrow> 'a list) \<Rightarrow> 'a \<Rightarrow> nat \<Rightarrow> 'a set" where
  "sphere turns r d = {c. (step_rel turns ^^ d) r c \<and> \<not> (\<exists>n<d. (step_rel turns ^^ n) r c)}"

lemma ball_0 [simp]: "ball turns r 0 = {r}"
  by (auto simp: ball_def)

lemma sphere_0 [simp]: "sphere turns r 0 = {r}"
  by (auto simp: sphere_def)

lemma ballI: "n \<le> d \<Longrightarrow> (step_rel turns ^^ n) r c \<Longrightarrow> c \<in> ball turns r d"
  unfolding ball_def by blast

lemma ballE:
  assumes "c \<in> ball turns r d" obtains n where "n \<le> d" "(step_rel turns ^^ n) r c"
  using assms unfolding ball_def by blast

lemma ball_Suc: "ball turns r (Suc d) = ball turns r d \<union> (\<Union>c\<in>ball turns r d. set (turns c))"
proof (intro equalityI subsetI)
  fix c assume "c \<in> ball turns r (Suc d)"
  then obtain n where n: "n \<le> Suc d" "(step_rel turns ^^ n) r c" by (rule ballE)
  show "c \<in> ball turns r d \<union> (\<Union>c\<in>ball turns r d. set (turns c))"
  proof (cases n)
    case 0
    then show ?thesis using ballI[of 0 d turns r c] n by simp
  next
    case (Suc m)
    then have "(step_rel turns ^^ Suc m) r c" using n(2) by simp
    then obtain b where "(step_rel turns ^^ m) r b" "step_rel turns b c" by (rule relpowp_Suc_E)
    then show ?thesis using ballI[of m d turns r b] n(1) Suc by (auto simp: step_rel_def)
  qed
next
  fix c assume "c \<in> ball turns r d \<union> (\<Union>c\<in>ball turns r d. set (turns c))"
  then consider "c \<in> ball turns r d" | b where "b \<in> ball turns r d" "c \<in> set (turns b)" by blast
  then show "c \<in> ball turns r (Suc d)"
  proof cases
    case 1
    then show ?thesis by (elim ballE) (rule ballI, simp_all)
  next
    case 2
    then obtain n where "n \<le> d" "(step_rel turns ^^ n) r b" by (elim ballE)
    then show ?thesis using 2 by (intro ballI[of "Suc n"] relpowp_Suc_I) (simp_all add: step_rel_def)
  qed
qed

lemma sphere_Suc: "sphere turns r (Suc d) = ball turns r (Suc d) - ball turns r d"
  unfolding sphere_def ball_def by (auto simp: less_Suc_eq_le le_Suc_eq simp del: relpowp.simps)

lemma ball_split: "ball turns r (Suc d) = ball turns r d \<union> sphere turns r (Suc d)"
  using ball_Suc[of turns r d] by (auto simp: sphere_Suc)

lemma sphere_in_ball: "sphere turns r d \<subseteq> ball turns r d"
  unfolding sphere_def ball_def by auto

lemma ball_grow: "ball turns r (Suc d) = ball turns r d \<union> (\<Union>c\<in>sphere turns r d. set (turns c))"
proof (cases d)
  case (Suc e)
  have "(\<Union>c\<in>ball turns r d. set (turns c)) =
      (\<Union>c\<in>ball turns r e. set (turns c)) \<union> (\<Union>c\<in>sphere turns r d. set (turns c))"
    using ball_split[of turns r e] Suc by auto
  moreover have "(\<Union>c\<in>ball turns r e. set (turns c)) \<subseteq> ball turns r d"
    using ball_Suc[of turns r e] Suc by auto
  ultimately show ?thesis using ball_Suc[of turns r d] by auto
qed (simp add: ball_Suc)

lemma sphere_empty: "sphere turns r e = {} \<Longrightarrow> sphere turns r (e + d) = {} \<and> ball turns r (e + d) = ball turns r e"
proof (induction d)
  case (Suc d)
  then show ?case using ball_grow[of turns r "e + d"] sphere_Suc[of turns r "e + d"] by simp
qed simp

section \<open>Sets\<close>

locale node_set =
  fixes ops :: "('a, 't) set_ops"
    and members :: "'t \<Rightarrow> 'a set"
  assumes empty_law: "members (so_empty ops) = {}"
    and insert_law: "members (so_insert ops x t) = insert x (members t)"
    and find_law: "so_find ops x t \<longleftrightarrow> x \<in> members t"
    and size_law: "so_size ops t = card (members t)"
    and finite_law: "finite (members t)"
begin

text \<open>What a round adds is new, and each cube of it is queued once.\<close>

lemma turns_new:
  "try_turns ops fits ns (fx, nx) = Inr (fx', nx') \<Longrightarrow>
   \<exists>ys. nx' = nx @ ys \<and> distinct ys \<and> set ys = set ns - members fx \<and> members fx' = members fx \<union> set ns"
proof (induction ns arbitrary: fx nx)
  case (Cons n ns)
  show ?case
  proof (cases "n \<in> members fx")
    case True
    then obtain ys where "nx' = nx @ ys" "distinct ys" "set ys = set ns - members fx"
        "members fx' = members fx \<union> set ns"
      using Cons.IH[of fx nx] Cons.prems by (auto simp: find_law)
    then show ?thesis using True by (intro exI[of _ ys]) auto
  next
    case False
    then obtain ys where "nx' = nx @ n # ys" "distinct ys" "set ys = set ns - members (so_insert ops n fx)"
      "members fx' = members (so_insert ops n fx) \<union> set ns"
      using Cons.IH[of "so_insert ops n fx" "nx @ [n]"] Cons.prems by (auto simp: find_law Let_def split: if_splits)
    then show ?thesis using False by (intro exI[of _ "n # ys"]) (auto simp: insert_law)
  qed
qed simp

lemma expand_cons:
  assumes "expand_round ops turns fits n k (c # cs) (fx, nx, out) = Inr z"
  obtains fx1 nx1 where "try_turns ops fits (turns c) (so_insert ops c fx, nx) = Inr (fx1, nx1)" "k \<noteq> INT_MAX"
    "expand_round ops turns fits n (k + 1) cs
       (fx1, nx1, if take_bit 4 k = 0 then out @ [Progress k n] else out) = Inr z"
  using assms by (auto simp: Let_def split: if_splits sum.splits prod.splits)

lemma round_new:
  "expand_round ops turns fits n k cs (fx, nx, out) = Inr (fx', nx', out') \<Longrightarrow>
   set cs \<subseteq> members fx \<or> (\<exists>c. cs = [c]) \<Longrightarrow> k \<le> INT_MAX \<Longrightarrow>
   k + int (length cs) \<le> INT_MAX \<and> filter is_round out' = filter is_round out \<and>
   (\<exists>ys. nx' = nx @ ys \<and> distinct ys \<and> set ys = (\<Union>c\<in>set cs. set (turns c)) - (members fx \<union> set cs) \<and>
     members fx' = members fx \<union> set cs \<union> (\<Union>c\<in>set cs. set (turns c)))"
proof (induction cs arbitrary: fx nx out k)
  case Nil
  then show ?case by (auto intro!: exI[of _ "[]"])
next
  case (Cons c cs)
  from Cons.prems(1) obtain fx1 nx1 where t: "try_turns ops fits (turns c) (so_insert ops c fx, nx) = Inr (fx1, nx1)"
    "k \<noteq> INT_MAX" "expand_round ops turns fits n (k + 1) cs
       (fx1, nx1, if take_bit 4 k = 0 then out @ [Progress k n] else out) = Inr (fx', nx', out')"
    by (rule expand_cons)
  obtain ys where y: "nx1 = nx @ ys" "distinct ys" "set ys = set (turns c) - insert c (members fx)"
    "members fx1 = insert c (members fx) \<union> set (turns c)"
    using turns_new[OF t(1)] by (auto simp: insert_law)
  have sub: "set cs \<subseteq> members fx1 \<or> (\<exists>c. cs = [c])" using Cons.prems(2) y(4) by auto
  have k1: "k + 1 \<le> INT_MAX" using Cons.prems(3) t(2) by simp
  from Cons.IH[OF t(3) sub k1] obtain zs where z: "nx' = nx1 @ zs" "distinct zs"
    "set zs = (\<Union>c\<in>set cs. set (turns c)) - (members fx1 \<union> set cs)"
    "members fx' = members fx1 \<union> set cs \<union> (\<Union>c\<in>set cs. set (turns c))"
    "filter is_round out' = filter is_round out" "k + 1 + int (length cs) \<le> INT_MAX"
    by (auto split: if_splits)
  have cs: "set cs \<subseteq> insert c (members fx)" using Cons.prems(2) by auto
  have "distinct (ys @ zs)" using y(2,3,4) z(2,3) by auto
  moreover have "set (ys @ zs) = (\<Union>c\<in>set (c # cs). set (turns c)) - (members fx \<union> set (c # cs))"
    using y(3,4) z(3) cs by auto
  moreover have "members fx' = members fx \<union> set (c # cs) \<union> (\<Union>c\<in>set (c # cs). set (turns c))" using y(4) z(4) by auto
  moreover have "nx' = nx @ ys @ zs" using y(1) z(1) by simp
  ultimately show ?case using z(5,6) by auto
qed

lemma try_turns_fault: "try_turns ops fits ns s = Inl e \<Longrightarrow> e = NoMemory \<and> (\<exists>x. \<not> fits x)"
  by (induction ops fits ns s rule: try_turns.induct) (auto simp: Let_def split: if_splits)

lemma expand_fault:
  "expand_round ops turns fits n k cs s = Inl e \<Longrightarrow> k \<le> INT_MAX \<Longrightarrow>
   (case e of KOverflow \<Rightarrow> INT_MAX < k + int (length cs) | NoMemory \<Rightarrow> \<exists>x. \<not> fits x)"
proof (induction cs arbitrary: k s)
  case (Cons c cs)
  obtain fixed na_next out where s: "s = (fixed, na_next, out)" by (cases s)
  show ?case
  proof (cases "fits (so_insert ops c fixed, na_next)")
    case False
    then show ?thesis using Cons.prems(1) s by (auto simp: Let_def)
  next
    case fits: True
    show ?thesis
    proof (cases "try_turns ops fits (turns c) (so_insert ops c fixed, na_next)")
      case (Inl e')
      then show ?thesis using Cons.prems(1) s fits try_turns_fault[OF Inl] by (auto simp: Let_def)
    next
      case (Inr z)
      obtain fx nx where z: "z = (fx, nx)" by (cases z)
      show ?thesis
      proof (cases "k = INT_MAX")
        case True
        then have "e = KOverflow" using Cons.prems(1) s fits Inr z by (simp add: Let_def)
        then show ?thesis using True by simp
      next
        case False
        then have "case e of KOverflow \<Rightarrow> INT_MAX < k + 1 + int (length cs) | NoMemory \<Rightarrow> \<exists>x. \<not> fits x"
          using Cons.prems s fits Inr z by (intro Cons.IH) (simp_all add: Let_def)
        then show ?thesis by (cases e) simp_all
      qed
    qed
  qed
qed simp

text \<open>The state after \<open>e\<close> rounds from \<open>r\<close>.\<close>

definition layered :: "('a \<Rightarrow> 'a list) \<Rightarrow> 'a \<Rightarrow> nat \<Rightarrow> ('a, 't) search_state \<Rightarrow> bool" where
  "layered turns r e st \<longleftrightarrow>
     depth st = e \<and> actid st < 2 \<and> distinct (node_act st (actid st)) \<and>
     set (node_act st (actid st)) = sphere turns r e \<and>
     members (node_fixed st) = (if e = 0 then {} else ball turns r e) \<and>
     filter is_round (printed st) =
       map (\<lambda>i. RoundLine i (card (sphere turns r i)) (if i = 0 then 0 else card (ball turns r i))) [0..<e] \<and>
     sphere turns r ` {..<e} \<subseteq> {S. int (card S) \<le> INT_MAX}"

lemma search_round_layered:
  assumes l: "layered turns r e st" and step: "search_round ops turns fits st = Inr st'"
  shows "layered turns r (Suc e) st'"
proof -
  let ?cs = "node_act st (actid st)"
  let ?out = "printed st @ [RoundLine (depth st) (length ?cs) (so_size ops (node_fixed st))]"
  have L: "depth st = e" "actid st < 2" "distinct ?cs" "set ?cs = sphere turns r e"
    "members (node_fixed st) = (if e = 0 then {} else ball turns r e)"
    using l by (simp_all add: layered_def)
  obtain fx nx out where ex: "expand_round ops turns fits (length ?cs) 0 ?cs (node_fixed st, [], ?out) = Inr (fx, nx, out)"
    and st': "st' = st\<lparr>node_fixed := fx, node_act := (node_act st)(1 - actid st := nx),
                     actid := 1 - actid st, depth := Suc (depth st), printed := out\<rparr>"
    using step by (auto simp: search_round_def Let_def split: sum.splits)
  have sub: "set ?cs \<subseteq> members (node_fixed st) \<or> (\<exists>c. ?cs = [c])"
  proof (cases "e = 0")
    case True
    then have "length ?cs = 1" using L(3,4) distinct_card[of ?cs] by simp
    then show ?thesis by (auto simp: length_Suc_conv)
  next
    case False
    then show ?thesis using L(4,5) sphere_in_ball[of turns r e] by simp
  qed
  have "0 \<le> INT_MAX" by (simp add: INT_MAX_def)
  from round_new[OF ex sub this] have n: "distinct nx" "int (length ?cs) \<le> INT_MAX"
    "filter is_round out = filter is_round ?out"
    "set nx = (\<Union>c\<in>set ?cs. set (turns c)) - (members (node_fixed st) \<union> set ?cs)"
    "members fx = members (node_fixed st) \<union> set ?cs \<union> (\<Union>c\<in>set ?cs. set (turns c))"
    by auto
  have all: "members (node_fixed st) \<union> set ?cs = ball turns r e"
    using L(4,5) sphere_in_ball[of turns r e] by auto
  have fx: "members fx = ball turns r (Suc e)" unfolding n(5) all unfolding L(4) ball_grow ..
  have nx: "set nx = sphere turns r (Suc e)"
    unfolding n(4) all unfolding L(4) sphere_Suc using ball_grow[of turns r e] by blast
  have card: "length ?cs = card (sphere turns r e)" using distinct_card[OF L(3)] L(4) by simp
  have "filter is_round out = map (\<lambda>i. RoundLine i (card (sphere turns r i))
      (if i = 0 then 0 else card (ball turns r i))) [0..<Suc e]"
    unfolding n(3) using l card by (simp add: layered_def size_law)
  moreover have "sphere turns r ` {..<Suc e} \<subseteq> {S. int (card S) \<le> INT_MAX}"
    using l n(2) card unfolding layered_def lessThan_Suc by simp
  ultimately show ?thesis
    using L(1,2) n(1) nx fx by (auto simp: layered_def st')
qed

lemma rounds_layered:
  "layered turns r e st \<Longrightarrow>
   case search_rounds ops turns fits d st of
     Inl KOverflow \<Rightarrow> \<exists>i<e + d. 2 ^ 31 \<le> card (sphere turns r i)
   | Inl NoMemory \<Rightarrow> \<exists>x. \<not> fits x
   | Inr st' \<Rightarrow> \<exists>m. layered turns r m st' \<and> (m = e + d \<or> m \<le> e + d \<and> sphere turns r m = {})"
proof (induction d arbitrary: e st)
  case 0
  then show ?case by auto
next
  case (Suc d)
  let ?cs = "node_act st (actid st)"
  have L: "length ?cs = card (sphere turns r e)" "set ?cs = sphere turns r e"
    using Suc.prems distinct_card[of ?cs] by (simp_all add: layered_def)
  show ?case
  proof (cases "?cs = []")
    case True
    then have "layered turns r e st \<and> (e = e + Suc d \<or> e \<le> e + Suc d \<and> sphere turns r e = {})" using Suc.prems L(2) by simp
    then show ?thesis using True by auto
  next
    case False
    show ?thesis
    proof (cases "search_round ops turns fits st")
      case (Inl x)
      then obtain s0 where "expand_round ops turns fits (length ?cs) 0 ?cs s0 = Inl x"
        by (auto simp: search_round_def Let_def split: sum.splits)
      from expand_fault[OF this]
      have "case x of KOverflow \<Rightarrow> INT_MAX < int (length ?cs) | NoMemory \<Rightarrow> \<exists>y. \<not> fits y"
        by (cases x) (simp_all add: INT_MAX_def)
      then have "case x of KOverflow \<Rightarrow> 2 ^ 31 \<le> card (sphere turns r e) | NoMemory \<Rightarrow> \<exists>y. \<not> fits y"
        using L(1) by (cases x) (simp_all add: INT_MAX_def)
      moreover have "e < e + Suc d" by simp
      ultimately show ?thesis using Inl False
        by (cases x) (simp_all only: search_rounds.simps length_greater_0_conv sum.case search_fault.case if_True not_False_eq_True simp_thms, blast)
    next
      case (Inr st1)
      from Suc.IH[OF search_round_layered[OF Suc.prems Inr]] show ?thesis
        using Inr False unfolding add_Suc_shift by simp
    qed
  qed
qed

lemma start_layered: "layered turns r 0 (search_start ops r)"
  by (simp add: layered_def search_start_def empty_law)

lemma rounds_from_start:
  "case search_rounds ops turns fits d (search_start ops r) of
     Inl KOverflow \<Rightarrow> \<exists>i<d. 2 ^ 31 \<le> card (sphere turns r i)
   | Inl NoMemory \<Rightarrow> \<exists>x. \<not> fits x
   | Inr st \<Rightarrow>
       members (node_fixed st) = (if d = 0 then {} else ball turns r d) \<and>
       distinct (node_act st (actid st)) \<and> set (node_act st (actid st)) = sphere turns r d \<and>
       filter is_round (printed st) =
         map (\<lambda>i. RoundLine i (card (sphere turns r i)) (if i = 0 then 0 else card (ball turns r i))) [0..<depth st] \<and>
       sphere turns r ` {..<depth st} \<subseteq> {S. card S < 2 ^ 31} \<and>
       (depth st = d \<or> depth st < d \<and> node_act st (actid st) = [])"
proof (cases "search_rounds ops turns fits d (search_start ops r)")
  case (Inl x)
  then show ?thesis using rounds_layered[OF start_layered[of turns r], of d fits] by (cases x) simp_all
next
  case (Inr st)
  then obtain m where m: "layered turns r m st" "m = d \<or> m \<le> d \<and> sphere turns r m = {}"
    using rounds_layered[OF start_layered[of turns r], of d fits] by auto
  then have "m \<noteq> 0 \<or> d = 0" by (cases m) auto
  then have "sphere turns r m = sphere turns r d" "(if m = 0 then {} else ball turns r m) = (if d = 0 then {} else ball turns r d)"
    using m(2) sphere_empty[of turns r m "d - m"] by auto
  moreover have "{S. int (card S) \<le> INT_MAX} = {S :: 'a set. card S < 2 ^ 31}" by (auto simp: INT_MAX_def)
  moreover have "depth st = m" "distinct (node_act st (actid st))" "set (node_act st (actid st)) = sphere turns r m"
    "members (node_fixed st) = (if m = 0 then {} else ball turns r m)"
    "filter is_round (printed st) =
       map (\<lambda>i. RoundLine i (card (sphere turns r i)) (if i = 0 then 0 else card (ball turns r i))) [0..<m]"
    "sphere turns r ` {..<m} \<subseteq> {S. int (card S) \<le> INT_MAX}"
    using m(1) by (simp_all add: layered_def)
  moreover have "depth st = d \<or> depth st < d \<and> node_act st (actid st) = []"
    using m(2) calculation(4,6) by (cases "m = d") auto
  ultimately show ?thesis using Inr by simp
qed

end

lemma keys_lookup: "set (RBT.keys t) = {x. RBT.lookup t x \<noteq> None}"
  by (auto simp: RBT.lookup_keys[symmetric] dom_def)

interpretation std: node_set std_set "\<lambda>t. set (RBT.keys t)"
proof (unfold_locales, goal_cases)
  case (4 t)
  then show ?case by (simp add: std_set_def distinct_card)
next
  case (5 t)
  then show ?case by simp
qed (auto simp: std_set_def keys_lookup)

lemma keys_ascending: "sorted_wrt cube_less (RBT.keys t)"
  using strict_sorted_iff[of "RBT.keys t"] by (simp add: less_cube_def[symmetric])

text \<open>C10: the rounds of \<open>main\<close> of \<open>tcube.cpp\<close>, for any memory and any number \<open>d\<close> of them. When the program completes
  them, its \<open>std::set\<close>, ordered by \<open>memcmp\<close>, holds exactly the positions that at most \<open>d\<close> turns reach from the solved
  cube (nothing before the first round), in strictly ascending order; the vector of acting cubes holds exactly those that
  need \<open>d\<close> turns, each once; every line printed for a round gives the true number of positions at that distance and of
  positions within it; and every layer it went through had less than \<open>2 ^ 31\<close> positions. When it does not complete them,
  memory ran out, or one of these layers has \<open>2 ^ 31\<close> positions or more and the counter \<open>k\<close> overflowed.\<close>

theorem cube_rounds_exact:
  "case cube_rounds fits d of
     Inl KOverflow \<Rightarrow> \<exists>i<d. 2 ^ 31 \<le> card (sphere cube_turns solved_cube i)
   | Inl NoMemory \<Rightarrow> \<exists>x. \<not> fits x
   | Inr st \<Rightarrow>
       set (RBT.keys (node_fixed st)) = (if d = 0 then {} else ball cube_turns solved_cube d) \<and>
       sorted_wrt cube_less (RBT.keys (node_fixed st)) \<and>
       distinct (node_act st (actid st)) \<and>
       set (node_act st (actid st)) = sphere cube_turns solved_cube d \<and>
       filter is_round (printed st) =
         map (\<lambda>i. RoundLine i (card (sphere cube_turns solved_cube i))
                    (if i = 0 then 0 else card (ball cube_turns solved_cube i))) [0..<depth st] \<and>
       sphere cube_turns solved_cube ` {..<depth st} \<subseteq> {S. card S < 2 ^ 31} \<and>
       (depth st = d \<or> depth st < d \<and> node_act st (actid st) = [])"
  using std.rounds_from_start[of d cube_turns solved_cube fits] keys_ascending
  unfolding cube_rounds_def
  by (cases "search_rounds std_set cube_turns fits d (search_start std_set solved_cube)") (simp_all split: search_fault.splits)

end
