(* ===== verification/TestOutput.thy ===== *)
theory TestOutput
  imports Kernel Pipeline
begin

text \<open>
  What the tests of \<open>tthreads.cpp\<close> print: the report of \<open>show_pid_tid\<close> on the cores a thread may use, the threads of
  test 1, each of which prints it, and the lines of the tracker and the detecter of test 4. An insertion into
  \<open>std::cout\<close> is taken as one step; two insertions of a thread may have those of others between them.
\<close>

section \<open>\<open>show_pid_tid\<close>\<close>

definition CPU_SETSIZE :: nat where "CPU_SETSIZE = 1024"

text \<open>The core \<open>j\<close>, marked when it is the one the thread was on; \<open>sched_getcpu\<close> gives -1 when it fails.\<close>

definition cpu_mark :: "int \<Rightarrow> nat \<Rightarrow> string" where
  "cpu_mark cpuid j = (if int j = cpuid then ''*'' else '''') @ digits j"

definition affinity_text :: "string \<Rightarrow> nat \<Rightarrow> nat \<Rightarrow> (nat \<Rightarrow> bool) \<Rightarrow> int \<Rightarrow> string" where
  "affinity_text name pid tid cpuset cpuid =
     ''name='' @ name @ '' PID='' @ digits pid @ '' TID='' @ digits tid @ ''CPU affinity:'' @
     concat (map (\<lambda>j. '' ['' @ cpu_mark cpuid j @ '']'') (filter cpuset [0..<CPU_SETSIZE])) @ [CHR 0x0A]"

section \<open>Test 1\<close>

datatype report_pc = NotCreated | AtReport | AtNewline | ThreadEnded

datatype out_piece = Report nat | Newline nat

text \<open>
  Thread 0 is \<open>main\<close>: \<open>at_main\<close> counts its steps, two insertions, three creations and three joins. The text of a
  report is \<open>affinity_text\<close> of its thread.
\<close>

record affinity_test =
  at_main :: nat
  at_thr :: "nat \<Rightarrow> report_pc"
  at_out :: "out_piece list"

definition test1 :: affinity_test where
  "test1 = \<lparr>at_main = 0, at_thr = (\<lambda>_. NotCreated), at_out = []\<rparr>"

inductive test1_step :: "affinity_test \<Rightarrow> affinity_test \<Rightarrow> bool" where
  main_report: "at_main s = 0 \<Longrightarrow> test1_step s (s\<lparr>at_main := 1, at_out := at_out s @ [Report 0]\<rparr>)"
| main_newline: "at_main s = 1 \<Longrightarrow> test1_step s (s\<lparr>at_main := 2, at_out := at_out s @ [Newline 0]\<rparr>)"
| main_create: "at_main s = 1 + i \<Longrightarrow> i \<in> {1, 2, 3} \<Longrightarrow>
    test1_step s (s\<lparr>at_main := 2 + i, at_thr := (at_thr s)(i := AtReport)\<rparr>)"
| main_joins: "at_main s = 4 + i \<Longrightarrow> i \<in> {1, 2, 3} \<Longrightarrow> at_thr s i = ThreadEnded \<Longrightarrow> test1_step s (s\<lparr>at_main := 5 + i\<rparr>)"
| thread_report: "at_thr s i = AtReport \<Longrightarrow>
    test1_step s (s\<lparr>at_thr := (at_thr s)(i := AtNewline), at_out := at_out s @ [Report i]\<rparr>)"
| thread_newline: "at_thr s i = AtNewline \<Longrightarrow>
    test1_step s (s\<lparr>at_thr := (at_thr s)(i := ThreadEnded), at_out := at_out s @ [Newline i]\<rparr>)"

section \<open>Tracker and detecter\<close>

record obj_result =
  or_x :: int
  or_y :: int
  or_w :: int
  or_h :: int

record all_result =
  ar_fid :: int
  ar_rc :: "obj_result list"

definition with_result :: "string \<Rightarrow> all_result option \<Rightarrow> string" where
  "with_result kind r = (case r of None \<Rightarrow> '''' | Some a \<Rightarrow> ''(with '' @ kind @ '' '' @ digits (nat (ar_fid a)) @ '')'')"

text \<open>\<open>track\<close> once its futures are ready: the text, the new \<open>id\<close>, the result. None is a future that is not valid.\<close>

definition track :: "nat \<Rightarrow> nat \<Rightarrow> all_result option \<Rightarrow> all_result option \<Rightarrow> string \<times> nat \<times> all_result" where
  "track id0 fid prev det =
     ('' >>>>> track:'' @ with_result ''track'' prev @ with_result ''detect'' det @
        ''frame_'' @ digits fid @ '':'' @ digits id0 @ [CHR 0x0A],
      id0 + 1, \<lparr>ar_fid = int fid, ar_rc = []\<rparr>)"

text \<open>The texts that \<open>detect\<close> prints after the report of its thread.\<close>

definition detect :: "nat \<Rightarrow> string \<times> all_result" where
  "detect fid =
     (replicate 20 CHR '' '' @ ''deteting frame '' @ digits fid @ '' ...'' @ [CHR 0x0A], \<lparr>ar_fid = int fid, ar_rc = []\<rparr>)"

section \<open>A report can be read back\<close>

definition digit_value :: "string \<Rightarrow> nat" where
  "digit_value s = foldl (\<lambda>n c. n * 10 + (of_char c - 48)) 0 s"

lemma digit_char: "m < 10 \<Longrightarrow> of_char (char_of (48 + m) :: char) = (48 + m :: nat)"
  by (simp add: of_char_of)

lemma digit_value_digits: "digit_value (digits n) = n"
proof (induction n rule: digits.induct)
  case (1 n)
  show ?case
    using 1 digit_char[of n] digit_char[of "n mod 10"]
    by (subst digits.simps) (auto simp: digit_value_def)
qed

lemma digits_range: "c \<in> set (digits n) \<Longrightarrow> 48 \<le> (of_char c :: nat) \<and> (of_char c :: nat) < 58"
proof (induction n rule: digits.induct)
  case (1 n)
  then show ?case
    using digit_char[of n] digit_char[of "n mod 10"] by (subst (asm) (2) digits.simps) (auto split: if_splits)
qed

lemma digits_other: "of_char c < (48 :: nat) \<or> 58 \<le> (of_char c :: nat) \<Longrightarrow> c \<notin> set (digits n)"
  using digits_range[of c n] by auto

lemma cpu_mark_inject: "cpu_mark c j = cpu_mark c' k \<Longrightarrow> j = k \<and> (int j = c \<longleftrightarrow> int k = c')"
proof -
  assume e: "cpu_mark c j = cpu_mark c' k"
  have star: "CHR ''*'' \<notin> set (digits n)" for n by (rule digits_other) simp
  have ne: "digits n \<noteq> CHR ''*'' # xs" for n xs using star[of n] by (metis list.set_intros(1))
  have "digits j = digits k \<and> (int j = c \<longleftrightarrow> int k = c')"
    using e ne[of j "digits k"] ne[of k "digits j"] by (auto simp: cpu_mark_def split: if_splits)
  then show ?thesis using digit_value_digits by metis
qed

lemma cpu_mark_bracket: "CHR '']'' \<notin> set (cpu_mark c j)"
  using digits_other[of "CHR '']''" j] by (simp add: cpu_mark_def)

lemma split_at: "s @ c # x = t @ c # y \<Longrightarrow> c \<notin> set s \<Longrightarrow> c \<notin> set t \<Longrightarrow> s = t \<and> x = y"
proof (induction s arbitrary: t)
  case Nil
  then show ?case by (cases t) auto
next
  case (Cons a s)
  then show ?case by (cases t) auto
qed

lemma bracketed_inject:
  assumes "a \<noteq> e"
  shows "\<forall>s\<in>set ss \<union> set ts. c \<notin> set s \<Longrightarrow>
    concat (map (\<lambda>s. a # b # s @ [c]) ss) @ [e] = concat (map (\<lambda>s. a # b # s @ [c]) ts) @ [e] \<Longrightarrow> ss = ts"
proof (induction ss arbitrary: ts)
  case Nil
  then show ?case using assms by (cases ts) auto
next
  case (Cons s ss)
  then obtain t ts' where t: "ts = t # ts'" using assms by (cases ts) auto
  let ?rest = "\<lambda>ss. concat (map (\<lambda>s. a # b # s @ [c]) ss) @ [e]"
  have "s @ c # ?rest ss = t @ c # ?rest ts'" using Cons.prems(2) by (simp add: t)
  from split_at[OF this] have "s = t" "?rest ss = ?rest ts'" using Cons.prems(1) by (simp_all add: t)
  then show ?case using Cons.IH[of ts'] Cons.prems(1) by (simp add: t)
qed

lemma marks_inject:
  "map (cpu_mark c) xs = map (cpu_mark c') ys \<Longrightarrow> xs = ys \<and> (\<forall>j\<in>set xs. int j = c \<longleftrightarrow> int j = c')"
proof (induction xs arbitrary: ys)
  case (Cons x xs)
  then obtain y ys' where y: "ys = y # ys'" "cpu_mark c x = cpu_mark c' y" "map (cpu_mark c) xs = map (cpu_mark c') ys'"
    by (cases ys) simp_all
  have "x = y" "int y = c \<longleftrightarrow> int y = c'" using cpu_mark_inject[OF y(2)] by auto
  moreover have "xs = ys'" "\<forall>j\<in>set xs. int j = c \<longleftrightarrow> int j = c'" using Cons.IH[OF y(3)] by auto
  ultimately show ?case using y(1) by simp
qed simp

text \<open>The report of a thread tells exactly which cores it may run on, and on which of them it was.\<close>

theorem affinity_readable:
  assumes "affinity_text name pid tid cpuset cpuid = affinity_text name pid tid cpuset' cpuid'" "j < 1024"
  shows "cpuset j = cpuset' j \<and> (cpuset j \<longrightarrow> (int j = cpuid \<longleftrightarrow> int j = cpuid'))"
proof -
  let ?l = "\<lambda>S. filter S [0..<CPU_SETSIZE]"
  have "map (cpu_mark cpuid) (?l cpuset) = map (cpu_mark cpuid') (?l cpuset')"
    by (rule bracketed_inject[of "CHR '' ''" "CHR 0x0A" _ _ "CHR '']''" "CHR ''[''"]) (use assms(1) cpu_mark_bracket in \<open>auto simp: affinity_text_def comp_def\<close>)
  from marks_inject[OF this] have e: "?l cpuset = ?l cpuset'" and m: "\<forall>j\<in>set (?l cpuset). int j = cpuid \<longleftrightarrow> int j = cpuid'"
    by blast+
  have "j \<in> set (?l cpuset) \<longleftrightarrow> j \<in> set (?l cpuset')" by (simp only: e)
  then show ?thesis using assms(2) m by (auto simp: CPU_SETSIZE_def)
qed

theorem affinity_readable_witness:
  "affinity_text ''t'' 1 2 (\<lambda>j. j = 3) 3 \<noteq> affinity_text ''t'' 1 2 (\<lambda>j. j = 3) 4"
  using affinity_readable[of "''t''" 1 2 "\<lambda>j. j = 3" 3 "\<lambda>j. j = 3" 4 3] by auto

section \<open>Test 1 ends\<close>

fun report_left :: "report_pc \<Rightarrow> nat" where
  "report_left NotCreated = 2"
| "report_left AtReport = 2"
| "report_left AtNewline = 1"
| "report_left ThreadEnded = 0"

fun reported :: "nat \<Rightarrow> report_pc \<Rightarrow> out_piece list" where
  "reported i NotCreated = []"
| "reported i AtReport = []"
| "reported i AtNewline = [Report i]"
| "reported i ThreadEnded = [Report i, Newline i]"

fun piece_of :: "out_piece \<Rightarrow> nat" where
  "piece_of (Report i) = i"
| "piece_of (Newline i) = i"

definition by_thread :: "nat \<Rightarrow> out_piece list \<Rightarrow> out_piece list" where
  "by_thread i out = filter (\<lambda>x. piece_of x = i) out"

lemma by_thread_simps [simp]:
  "by_thread i (out @ [x]) = by_thread i out @ (if piece_of x = i then [x] else [])" "by_thread i [] = []"
  by (simp_all add: by_thread_def)

definition created :: "affinity_test \<Rightarrow> nat \<Rightarrow> bool" where
  "created s i \<longleftrightarrow> i \<in> {1, 2, 3} \<and> 2 + i \<le> at_main s"

definition test1_inv :: "affinity_test \<Rightarrow> bool" where
  "test1_inv s \<longleftrightarrow>
     at_main s \<le> 8 \<and>
     (\<forall>i. at_thr s i = NotCreated \<longleftrightarrow> \<not> created s i) \<and>
     (\<forall>i\<in>{1, 2, 3}. 5 + i \<le> at_main s \<longrightarrow> at_thr s i = ThreadEnded) \<and>
     by_thread 0 (at_out s) = take (at_main s) [Report 0, Newline 0] \<and>
     (\<forall>i. 0 < i \<longrightarrow> by_thread i (at_out s) = reported i (at_thr s i))"

definition test1_left :: "affinity_test \<Rightarrow> nat" where
  "test1_left s = 8 - at_main s + (report_left (at_thr s 1) + report_left (at_thr s 2) + report_left (at_thr s 3))"

lemma test1_invD:
  assumes "test1_inv s"
  shows "at_main s \<le> 8" "at_thr s i = NotCreated \<longleftrightarrow> \<not> created s i"
    "i \<in> {1, 2, 3} \<Longrightarrow> 5 + i \<le> at_main s \<Longrightarrow> at_thr s i = ThreadEnded"
    "by_thread 0 (at_out s) = take (at_main s) [Report 0, Newline 0]"
    "0 < i \<Longrightarrow> by_thread i (at_out s) = reported i (at_thr s i)"
  using assms unfolding test1_inv_def by blast+

lemma running_created: "test1_inv s \<Longrightarrow> at_thr s i \<noteq> NotCreated \<Longrightarrow> i \<in> {1, 2, 3} \<and> 2 + i \<le> at_main s"
  using test1_invD(2)[of s i] by (simp add: created_def)

lemma thread_prints_inv:
  assumes "test1_inv s" "at_thr s i \<noteq> NotCreated" "at_thr s i \<noteq> ThreadEnded" "p \<noteq> NotCreated"
    "piece_of x = i" "reported i p = reported i (at_thr s i) @ [x]"
  shows "test1_inv (s\<lparr>at_thr := (at_thr s)(i := p), at_out := at_out s @ [x]\<rparr>)"
proof -
  let ?t = "s\<lparr>at_thr := (at_thr s)(i := p), at_out := at_out s @ [x]\<rparr>"
  note inv = test1_invD[OF assms(1)]
  have i: "i \<in> {1, 2, 3}" using running_created[OF assms(1,2)] by simp
  have "at_thr ?t j = NotCreated \<longleftrightarrow> \<not> created ?t j" for j
    using inv(2)[of j] assms(2,4) by (cases "j = i") (simp_all add: created_def)
  moreover have "at_thr ?t j = ThreadEnded" if "j \<in> {1, 2, 3}" "5 + j \<le> at_main ?t" for j
    using inv(3)[OF that(1)] that(2) assms(3) by (cases "j = i") simp_all
  moreover have "by_thread 0 (at_out ?t) = take (at_main ?t) [Report 0, Newline 0]"
    using inv(4) i assms(5) by auto
  moreover have "by_thread j (at_out ?t) = reported j (at_thr ?t j)" if "0 < j" for j
    using inv(5)[OF that] assms(5,6) by (cases "j = i") simp_all
  ultimately show ?thesis using inv(1) unfolding test1_inv_def by simp
qed

lemma test1_inv_step: "test1_step s t \<Longrightarrow> test1_inv s \<Longrightarrow> test1_inv t"
proof (induction rule: test1_step.induct)
  case (main_create s i)
  let ?t = "s\<lparr>at_main := 2 + i, at_thr := (at_thr s)(i := AtReport)\<rparr>"
  note inv = test1_invD[OF main_create(3)]
  have m: "2 \<le> at_main s" "at_main s \<le> 4" using main_create(1,2) by auto
  have "at_thr s i = NotCreated" using inv(2)[of i] main_create(1) by (simp add: created_def)
  then have "by_thread j (at_out ?t) = reported j (at_thr ?t j)" if "0 < j" for j
    using inv(5)[OF that] by (cases "j = i") simp_all
  moreover have "at_thr ?t j = NotCreated \<longleftrightarrow> \<not> created ?t j" for j
    using inv(2)[of j] main_create(1,2) by (cases "j = i") (auto simp: created_def)
  moreover have "at_thr ?t j = ThreadEnded" if "j \<in> {1, 2, 3}" "5 + j \<le> at_main ?t" for j
    using that main_create(2) by auto
  moreover have "by_thread 0 (at_out ?t) = take (at_main ?t) [Report 0, Newline 0]" using m inv(4) by simp
  moreover have "at_main ?t \<le> 8" using main_create(2) by auto
  ultimately show ?case unfolding test1_inv_def by blast
next
  case (main_joins s i)
  let ?t = "s\<lparr>at_main := 5 + i\<rparr>"
  note inv = test1_invD[OF main_joins(4)]
  have m: "5 \<le> at_main s" "at_main s \<le> 7" using main_joins(1,2) by auto
  have "at_thr ?t j = NotCreated \<longleftrightarrow> \<not> created ?t j" for j
    using inv(2)[of j] m main_joins(1,2) by (auto simp: created_def)
  moreover have "at_thr ?t j = ThreadEnded" if "j \<in> {1, 2, 3}" "5 + j \<le> at_main ?t" for j
    using inv(3)[OF that(1)] that main_joins(1,3) by (cases "j = i") simp_all
  moreover have "by_thread 0 (at_out ?t) = take (at_main ?t) [Report 0, Newline 0]" using m inv(4) by simp
  moreover have "at_main ?t \<le> 8" using main_joins(2) by auto
  moreover have "by_thread j (at_out ?t) = reported j (at_thr ?t j)" if "0 < j" for j
    using inv(5)[OF that] by simp
  ultimately show ?case unfolding test1_inv_def by blast
next
  case (thread_report s i)
  then show ?case by (intro thread_prints_inv) simp_all
next
  case (thread_newline s i)
  then show ?case by (intro thread_prints_inv) simp_all
qed (auto simp: test1_inv_def created_def)

interpretation test1: bounded_system "\<lambda>s. s = test1" test1_step test1_inv test1_left
proof (unfold_locales, goal_cases)
  case (1 s)
  then show ?case by (auto simp: test1_inv_def test1_def created_def)
next
  case (2 s t)
  then show ?case by (rule test1_inv_step)
next
  case (3 s t)
  then show ?case
  proof (induction rule: test1_step.induct)
    case (main_create s i)
    then have "at_thr s i = NotCreated" using test1_invD(2)[OF main_create(3), of i] by (simp add: created_def)
    then show ?case using main_create(1,2) by (auto simp: test1_left_def)
  next
    case (thread_report s i)
    have "i \<in> {1, 2, 3}" using running_created[OF thread_report(2), of i] thread_report(1) by simp
    then show ?case using thread_report(1) by (auto simp: test1_left_def)
  next
    case (thread_newline s i)
    have "i \<in> {1, 2, 3}" using running_created[OF thread_newline(2), of i] thread_newline(1) by simp
    then show ?case using thread_newline(1) by (auto simp: test1_left_def)
  qed (auto simp: test1_left_def)
qed

lemma test1_moves:
  assumes "test1_inv s" "at_main s \<noteq> 8"
  shows "\<exists>t. test1_step s t"
proof (cases "\<exists>i. at_thr s i = AtReport \<or> at_thr s i = AtNewline")
  case True
  then show ?thesis using thread_report thread_newline by blast
next
  case False
  then have e: "at_thr s i = NotCreated \<or> at_thr s i = ThreadEnded" for i by (cases "at_thr s i") auto
  have "at_main s \<le> 8" using assms(1) by (simp add: test1_inv_def)
  then consider "at_main s = 0" | "at_main s = 1" | i where "i \<in> {1, 2, 3}" "at_main s = 1 + i"
    | i where "i \<in> {1, 2, 3}" "at_main s = 4 + i"
  proof -
    have "at_main s = 0 \<or> at_main s = 1 \<or> at_main s - 1 \<in> {1, 2, 3} \<or> at_main s - 4 \<in> {1, 2, 3}"
      using \<open>at_main s \<le> 8\<close> assms(2) by auto
    then show ?thesis using that by (metis (no_types, opaque_lifting) diff_is_0_eq insertE le_add_diff_inverse nat_le_linear singletonD zero_neq_numeral zero_neq_one)
  qed
  then show ?thesis
  proof cases
    case 4
    then have "at_thr s i \<noteq> NotCreated" using test1_invD(2)[OF assms(1), of i] by (simp add: created_def)
    then show ?thesis using e main_joins[OF 4(2,1)] by blast
  qed (use main_report main_newline main_create in blast)+
qed

text \<open>In every schedule test 1 ends within 14 steps and is never stuck. Each of the four threads prints its report
  and then the empty line, once; but the four may be mixed.\<close>

theorem test1_ends:
  assumes "(test1_step ^^ k) test1 s"
  shows "k \<le> 14 \<and> (at_main s = 8 \<or> (\<exists>t. test1_step s t)) \<and>
    (at_main s = 8 \<longrightarrow> (\<forall>i\<le>3. by_thread i (at_out s) = [Report i, Newline i]))"
proof -
  note r = test1.run_bound[OF assms refl]
  have "test1_left test1 = 14" by (simp add: test1_left_def test1_def)
  then have "k \<le> 14" using r by linarith
  moreover have "by_thread i (at_out s) = [Report i, Newline i]" if "at_main s = 8" "i \<le> 3" for i
  proof (cases "i = 0")
    case True
    then show ?thesis using test1_invD(4)[of s] r that(1) by simp
  next
    case False
    then have "i \<in> {1, 2, 3}" "5 + i \<le> at_main s" using that by auto
    then show ?thesis using test1_invD(3,5)[of s i] r False by simp
  qed
  ultimately show ?thesis using r test1_moves by blast
qed

theorem test1_ends_witness:
  "\<exists>s. (test1_step ^^ 1) test1 s \<and> at_main s = 1 \<and> (\<exists>t. test1_step s t)"
proof -
  have "test1_step test1 (test1\<lparr>at_main := 1, at_out := at_out test1 @ [Report 0]\<rparr>)"
    by (rule main_report) (simp add: test1_def)
  then have s: "(test1_step ^^ 1) test1 (test1\<lparr>at_main := 1, at_out := at_out test1 @ [Report 0]\<rparr>)" by (simp only: relpowp_1)
  from test1_ends[OF s] have "\<exists>t. test1_step (test1\<lparr>at_main := 1, at_out := at_out test1 @ [Report 0]\<rparr>) t" by simp
  with s show ?thesis by (intro exI[of _ "test1\<lparr>at_main := 1, at_out := at_out test1 @ [Report 0]\<rparr>"]) simp
qed

section \<open>What the tracker prints\<close>

text \<open>The result of a frame, which a future of its task holds.\<close>

definition result_of :: "nat \<Rightarrow> all_result" where
  "result_of k = \<lparr>ar_fid = int k, ar_rc = []\<rparr>"

text \<open>In every reachable state of test 4 the task that the tracker runs prints its frame twice, as \<open>fid\<close> and as \<open>id\<close>,
  after the frame before it and, for every fourth frame, its own detection; and its result is that frame.\<close>

theorem tracker_prints:
  assumes "(pipe_step ^^ n) pipeline0 s" "pp_tworker s = Some t"
  shows "\<exists>k<20. track (pp_id s) (tk_fid t) (map_option result_of (tk_prev t)) (map_option result_of (tk_det t)) =
    ('' >>>>> track:'' @ (if k = 0 then [] else ''(with track '' @ digits (k - 1) @ '')'') @
       (if k mod 4 = 0 then ''(with detect '' @ digits k @ '')'' else []) @
       ''frame_'' @ digits k @ '':'' @ digits k @ [CHR 0x0A],
     Suc k, result_of k)"
proof -
  have inv: "pipe_inv s" using pipe.run_bound[OF assms(1) refl] by simp
  then have e: "map task_of (pp_tracked s) @ [t] @ pp_tqueue s = map task_of [0..<pp_i s]"
    using assms(2) by (simp add: pipe_inv_def)
  obtain k where t: "t = task_of k" using running_task[OF e] by blast
  from running_prefix[of "pp_tracked s" k] e t have k: "pp_tracked s = [0..<k]" "k < pp_i s" by auto
  have "pp_id s = k" "k < 20" using inv k by (auto simp: pipe_inv_def task_cnt_def)
  moreover have "nat (int k - 1) = k - Suc 0" for k by simp
  ultimately show ?thesis
    by (intro exI[of _ k]) (simp add: t track_def with_result_def result_of_def fprev_def)
qed

theorem tracker_prints_witness:
  "\<exists>n s. (pipe_step ^^ n) pipeline0 s \<and> pp_tworker s = Some (task_of 0) \<and>
     snd (snd (track (pp_id s) 0 None (Some (result_of 0)))) = result_of 0"
proof -
  define s1 where "s1 = pipeline0\<lparr>pp_dqueue := pp_dqueue pipeline0 @ [pp_i pipeline0], pp_fdet := Some (Some (pp_i pipeline0))\<rparr>"
  define s2 where "s2 = s1\<lparr>pp_tqueue := pp_tqueue s1 @ [\<lparr>tk_fid = pp_i s1, tk_prev = fprev (pp_i s1), tk_det = Some 0\<rparr>],
      pp_fdet := None, pp_i := Suc (pp_i s1)\<rparr>"
  define s3 where "s3 = s2\<lparr>pp_tworker := Some (task_of 0), pp_tqueue := []\<rparr>"
  have "pipe_step pipeline0 s1" unfolding s1_def
    by (rule enqueue_detect) (simp_all add: pipeline0_def task_cnt_def work_limits_def)
  moreover have "pipe_step s1 s2" unfolding s2_def
    by (rule enqueue_track) (simp_all add: s1_def pipeline0_def task_cnt_def work_limits_def)
  moreover have "pipe_step s2 s3" unfolding s3_def
    by (rule start_track) (simp_all add: s2_def s1_def pipeline0_def task_of_def fprev_def)
  ultimately have r: "(pipe_step ^^ 3) pipeline0 s3" by (auto simp: numeral_3_eq_3)
  have w: "pp_tworker s3 = Some (task_of 0)" "pp_id s3 = 0" by (simp_all add: s3_def s2_def s1_def pipeline0_def)
  from tracker_prints[OF r w(1)] have "snd (snd (track (pp_id s3) 0 None (Some (result_of 0)))) = result_of 0"
    by (auto simp: fprev_def track_def result_of_def)
  with r w show ?thesis by blast
qed

end
