(* ===== verification/SmallPrograms.thy ===== *)
theory SmallPrograms
  imports ReverseDevice
begin

text \<open>
  What is left of \<open>kernel_module/hello.c\<close>, the life of the module from \<open>insmod\<close> to \<open>rmmod\<close> with the memory it holds,
  and the two smallest programs: \<open>tusbfs.cpp\<close>, which asks a hub for its ports, and \<open>tcvtest.cpp\<close>, which fills a matrix.
\<close>

section \<open>The life of the module\<close>

text \<open>
  The allocations that nobody has freed, the pointer \<open>buf\<close>, whether \<open>reverse_misc_device\<close> is registered, and
  whether a device was deregistered that is not.
\<close>

record kmodule =
  km_live :: nat
  km_buf :: "buffer option"
  km_registered :: bool
  km_fault :: bool

definition kmodule0 :: kmodule where
  "kmodule0 = \<lparr>km_live = 0, km_buf = None, km_registered = False, km_fault = False\<rparr>"

text \<open>\<open>reverse_init\<close> with what it leaves behind; the result of \<open>misc_register\<close> is not looked at.\<close>

definition module_init :: "bool \<Rightarrow> bool \<Rightarrow> bool \<Rightarrow> nat \<Rightarrow> kmodule \<Rightarrow> int \<times> kmodule" where
  "module_init ok_struct ok_data ok_register bsize m =
     (case reverse_init ok_struct ok_data bsize of
        (r, None) \<Rightarrow> (r, m\<lparr>km_buf := (if bsize = 0 then km_buf m else None)\<rparr>)
      | (r, Some b) \<Rightarrow> (r, m\<lparr>km_live := km_live m + 2, km_buf := Some b, km_registered := ok_register\<rparr>))"

definition buffer_free :: "kmodule \<Rightarrow> kmodule" where
  "buffer_free m = m\<lparr>km_live := km_live m - 2\<rparr>"

text \<open>Both only print; the calls that would create and free a buffer are comments.\<close>

definition reverse_open :: "kmodule \<Rightarrow> int \<times> kmodule" where "reverse_open m = (0, m)"

definition reverse_close :: "kmodule \<Rightarrow> int \<times> kmodule" where "reverse_close m = (0, m)"

definition reverse_exit :: "kmodule \<Rightarrow> kmodule" where
  "reverse_exit m = m\<lparr>km_registered := False, km_fault := km_fault m \<or> \<not> km_registered m\<rparr>"

text \<open>The kernel calls \<open>reverse_exit\<close> only for a module whose \<open>reverse_init\<close> returned 0; a new load starts with \<open>buf\<close> NULL.\<close>

record load_env =
  le_struct :: bool
  le_data :: bool
  le_register :: bool
  le_size :: nat
  le_opens :: nat

definition module_cycle :: "load_env \<Rightarrow> kmodule \<Rightarrow> kmodule" where
  "module_cycle e m =
     (let (r, m) = module_init (le_struct e) (le_data e) (le_register e) (le_size e) (m\<lparr>km_buf := None\<rparr>) in
      if r \<noteq> 0 then m
      else reverse_exit (((\<lambda>m. snd (reverse_close (snd (reverse_open m)))) ^^ le_opens e) m))"

definition loads :: "load_env \<Rightarrow> bool" where
  "loads e \<longleftrightarrow> le_struct e \<and> le_data e \<and> le_size e \<noteq> 0"

lemma opens_keep [simp]: "((\<lambda>m. snd (reverse_close (snd (reverse_open m)))) ^^ n) m = m"
  by (induction n) (simp_all add: reverse_open_def reverse_close_def)

lemma cycle_live:
  "km_live (module_cycle e m) = km_live m + (if loads e then 2 else 0)"
  "km_fault (module_cycle e m) = (km_fault m \<or> loads e \<and> \<not> le_register e)"
  by (auto simp: module_cycle_def module_init_def reverse_init_def buffer_alloc_def reverse_exit_def loads_def)

text \<open>The module never frees its buffer: every successful load leaves two allocations behind, which \<open>buffer_free\<close> would
  release, and a load whose registration failed deregisters a device that is not there.\<close>

theorem module_leaks:
  "km_live (fold module_cycle es kmodule0) = 2 * length (filter loads es) \<and>
   km_fault (fold module_cycle es kmodule0) = (\<exists>e\<in>set es. loads e \<and> \<not> le_register e)"
proof -
  have "km_live (fold module_cycle es m) = km_live m + 2 * length (filter loads es) \<and>
      km_fault (fold module_cycle es m) = (km_fault m \<or> (\<exists>e\<in>set es. loads e \<and> \<not> le_register e))" for m
    by (induction es arbitrary: m) (auto simp: cycle_live)
  from this[of kmodule0] show ?thesis by (simp add: kmodule0_def)
qed

lemma free_balances: "snd (module_init True True r n kmodule0) = m \<Longrightarrow> n \<noteq> 0 \<Longrightarrow> km_live (buffer_free m) = 0"
  by (auto simp: module_init_def reverse_init_def buffer_alloc_def buffer_free_def kmodule0_def)

section \<open>tusbfs.cpp\<close>

datatype usb_end = UsbOpenError | UsbIoctlError | UsbInterface int

text \<open>What \<open>open\<close> and \<open>ioctl\<close> return, with the \<open>nports\<close> it stores; the descriptors that are still open at the end.\<close>

definition tusbfs_main :: "int \<Rightarrow> int \<Rightarrow> int \<Rightarrow> usb_end \<times> int set" where
  "tusbfs_main fd ret nports =
     (if fd < 0 then (UsbOpenError, {})
      else if ret < 0 then (UsbIoctlError, {fd})
      else (UsbInterface nports, {fd} - {fd}))"

lemma tusbfs_closes: "snd (tusbfs_main fd ret nports) \<noteq> {} \<longleftrightarrow> fst (tusbfs_main fd ret nports) = UsbIoctlError"
  by (simp add: tusbfs_main_def)

section \<open>tcvtest.cpp\<close>

text \<open>The iterator runs over the cells of \<open>m\<close>, rows one after the other.\<close>

definition cv_zeros :: "nat \<Rightarrow> nat \<Rightarrow> 'f \<Rightarrow> 'f list" where
  "cv_zeros rows cols zero = replicate (rows * cols) zero"

definition tcvtest_main :: "'f \<Rightarrow> 'f \<Rightarrow> 'f list" where
  "tcvtest_main zero half = (let m = cv_zeros 480 960 zero in fold (\<lambda>i m. m[i := half]) [0..<length m] m)"

lemma fold_fill: "fold (\<lambda>i m. m[i := v]) [0..<n] xs = replicate (min n (length xs)) v @ drop n xs"
proof (induction n)
  case (Suc n)
  show ?case
  proof (cases "n < length xs")
    case True
    have "(replicate n v @ drop n xs)[n := v] = replicate n v @ v # drop (Suc n) xs"
      using True by (simp add: list_update_append Cons_nth_drop_Suc[symmetric])
    then show ?thesis using Suc True by (simp add: replicate_append_same[symmetric] min_def)
  qed (use Suc in \<open>simp add: list_update_beyond\<close>)
qed simp

lemma tcvtest_fills: "tcvtest_main zero half = replicate (480 * 960) half"
  unfolding tcvtest_main_def Let_def fold_fill by (simp only: cv_zeros_def length_replicate drop_replicate min.idem) simp

end
