(* ===== verification/ServiceStop.thy ===== *)
theory ServiceStop
  imports Prelude
begin

text \<open>
  How an \<open>ipc_io_service\<close> of \<open>tipc.cpp\<close> stops: \<open>run\<close>, in a thread of its own, clears \<open>m_exit\<close> and loops until it reads
  it set, while the destructor sets it and closes the handle that the loop waits on. A step is one access to \<open>m_exit\<close>,
  one return of the waiting call with what \<open>run\<close> does about it, or the closing. The Windows build leaves the loop
  also when the wait is abandoned, because the port is closed under it: the parameter \<open>abandons\<close>.
\<close>

section \<open>Thread and destructor\<close>

text \<open>\<open>RunFails\<close>: the call was made on a handle already closed, and fails.\<close>

datatype run_pc = RunStart | RunTest | RunWait | RunFails | RunEnded

datatype dtor_pc = Alive | Flagged | Destroyed

record stopping =
  ss_exit :: bool
  ss_open :: bool
  ss_runner :: run_pc
  ss_dtor :: dtor_pc

text \<open>The constructor opens the handle and leaves \<open>m_exit\<close> as the memory has it.\<close>

definition stop_start :: "bool \<Rightarrow> stopping" where
  "stop_start old = \<lparr>ss_exit = old, ss_open = True, ss_runner = RunStart, ss_dtor = Alive\<rparr>"

inductive stop_step :: "bool \<Rightarrow> stopping \<Rightarrow> stopping \<Rightarrow> bool" for abandons where
  run_store: "ss_runner s = RunStart \<Longrightarrow> stop_step abandons s (s\<lparr>ss_exit := False, ss_runner := RunTest\<rparr>)"
| run_leaves: "ss_runner s = RunTest \<Longrightarrow> ss_exit s \<Longrightarrow> stop_step abandons s (s\<lparr>ss_runner := RunEnded\<rparr>)"
| run_waits: "ss_runner s = RunTest \<Longrightarrow> \<not> ss_exit s \<Longrightarrow>
    stop_step abandons s (s\<lparr>ss_runner := (if ss_open s then RunWait else RunFails)\<rparr>)"
| wait_returns: "ss_runner s = RunWait \<Longrightarrow> ss_open s \<or> \<not> abandons \<Longrightarrow> stop_step abandons s (s\<lparr>ss_runner := RunTest\<rparr>)"
| wait_abandoned: "ss_runner s = RunWait \<Longrightarrow> \<not> ss_open s \<Longrightarrow> abandons \<Longrightarrow> stop_step abandons s (s\<lparr>ss_runner := RunEnded\<rparr>)"
| wait_fails: "ss_runner s = RunFails \<Longrightarrow> stop_step abandons s (s\<lparr>ss_runner := RunTest\<rparr>)"
| dtor_flag: "ss_dtor s = Alive \<Longrightarrow> stop_step abandons s (s\<lparr>ss_exit := True, ss_dtor := Flagged\<rparr>)"
| dtor_close: "ss_dtor s = Flagged \<Longrightarrow> stop_step abandons s (s\<lparr>ss_open := False, ss_dtor := Destroyed\<rparr>)"

inductive_simps stop_step_ended: "stop_step abandons \<lparr>ss_exit = e, ss_open = p, ss_runner = RunEnded, ss_dtor = Destroyed\<rparr> t"

lemma ended_is_final: "ss_runner s = RunEnded \<Longrightarrow> ss_dtor s = Destroyed \<Longrightarrow> \<not> stop_step abandons s t"
  by (cases s) (simp add: stop_step_ended)

lemma stop_moves: "ss_runner s \<noteq> RunEnded \<or> ss_dtor s \<noteq> Destroyed \<Longrightarrow> \<exists>t. stop_step abandons s t"
proof (cases "ss_runner s")
  case RunTest
  then show ?thesis using run_leaves[of s] run_waits[of s] by (cases "ss_exit s") blast+
next
  case RunWait
  then show ?thesis using wait_returns[of s abandons] wait_abandoned[of s abandons] by blast
next
  case RunEnded
  moreover assume "ss_runner s \<noteq> RunEnded \<or> ss_dtor s \<noteq> Destroyed"
  ultimately show ?thesis using dtor_flag[of s] dtor_close[of s] by (cases "ss_dtor s") auto
qed (use run_store[of s] wait_fails[of s] in blast)+

section \<open>A stop that is seen\<close>

text \<open>The flag was set after \<open>run\<close> had cleared it.\<close>

definition stop_seen :: "stopping \<Rightarrow> bool" where
  "stop_seen s \<longleftrightarrow> ss_exit s \<and> ss_runner s \<noteq> RunStart \<and> ss_dtor s \<noteq> Alive"

fun run_left :: "run_pc \<Rightarrow> nat" where
  "run_left RunTest = 1"
| "run_left RunEnded = 0"
| "run_left _ = 2"

definition stop_left :: "stopping \<Rightarrow> nat" where
  "stop_left s = run_left (ss_runner s) + (if ss_dtor s = Flagged then 1 else 0)"

interpretation seen: bounded_system stop_seen "stop_step abandons" stop_seen stop_left for abandons
proof (unfold_locales, goal_cases)
  case (2 s t)
  then show ?case by (induction rule: stop_step.induct) (auto simp: stop_seen_def)
next
  case (3 s t)
  then show ?case by (induction rule: stop_step.induct) (auto simp: stop_seen_def stop_left_def)
qed

section \<open>A stop that is lost\<close>

text \<open>\<open>run\<close> cleared the flag after the destructor had set it, and does not wait on a port whose closing would end it.\<close>

definition stop_lost :: "bool \<Rightarrow> stopping \<Rightarrow> bool" where
  "stop_lost abandons s \<longleftrightarrow> \<not> ss_exit s \<and> ss_dtor s \<noteq> Alive \<and> ss_runner s \<noteq> RunStart \<and> ss_runner s \<noteq> RunEnded \<and>
     (abandons \<longrightarrow> \<not> ss_open s \<and> ss_runner s \<noteq> RunWait)"

interpretation lost: invariant_system "stop_lost abandons" "stop_step abandons" "stop_lost abandons" for abandons
proof (unfold_locales, goal_cases)
  case (2 s t)
  then show ?case by (induction rule: stop_step.induct) (auto simp: stop_lost_def)
qed

text \<open>Every reachable state: the flag is set after the store of \<open>run\<close> only by the destructor.\<close>

definition stop_inv :: "bool \<Rightarrow> stopping \<Rightarrow> bool" where
  "stop_inv abandons s \<longleftrightarrow>
     (ss_runner s \<noteq> RunStart \<and> ss_exit s \<longrightarrow> ss_dtor s \<noteq> Alive) \<and>
     (ss_runner s = RunEnded \<and> \<not> abandons \<longrightarrow> ss_exit s)"

interpretation stop: invariant_system "\<lambda>s. s = stop_start old" "stop_step abandons" "stop_inv abandons" for old abandons
proof (unfold_locales, goal_cases)
  case (1 s)
  then show ?case by (simp add: stop_inv_def stop_start_def)
next
  case (2 s t)
  then show ?case by (induction rule: stop_step.induct) (auto simp: stop_inv_def)
qed

text \<open>C40: Whether the service stops is decided by who comes first. When the destructor sets \<open>m_exit\<close> after \<open>run\<close> has
  cleared it, the thread ends and the handle is closed after at most 3 more steps in every schedule. When \<open>run\<close> clears
  it afterwards, the stop is lost: in the Linux build the thread never ends, closed handle or not.\<close>

theorem service_stops:
  assumes "(stop_step abandons)\<^sup>*\<^sup>* (stop_start old) s" "ss_dtor s \<noteq> Alive" "ss_runner s \<noteq> RunStart"
  shows "if ss_exit s
    then \<forall>k t. (stop_step abandons ^^ k) s t \<longrightarrow>
      k \<le> 3 \<and> (ss_runner t = RunEnded \<and> ss_dtor t = Destroyed \<or> (\<exists>u. stop_step abandons t u))
    else \<not> abandons \<longrightarrow> (\<forall>t. (stop_step abandons)\<^sup>*\<^sup>* s t \<longrightarrow> ss_runner t \<noteq> RunEnded \<and> (\<exists>u. stop_step abandons t u))"
proof (cases "ss_exit s")
  case True
  have "stop_left s \<le> 3" by (cases "ss_runner s") (simp_all add: stop_left_def)
  moreover have "stop_seen s" using True assms(2,3) by (simp add: stop_seen_def)
  ultimately have "k \<le> 3" if "(stop_step abandons ^^ k) s t" for k t
    using seen.run_bound[OF that] by linarith
  then show ?thesis using True stop_moves by auto
next
  case False
  have "stop_inv abandons s" using stop.reach_inv[OF assms(1)] by simp
  then have "stop_lost abandons s" if "\<not> abandons"
    using that False assms(2,3) by (auto simp: stop_inv_def stop_lost_def)
  then have "ss_runner t \<noteq> RunEnded" if "\<not> abandons" "(stop_step abandons)\<^sup>*\<^sup>* s t" for t
    using lost.reach_inv[OF that(2)] that(1) by (simp add: stop_lost_def)
  then show ?thesis using False stop_moves by auto
qed

text \<open>The thread that \<open>main\<close> creates may be that late: then it runs on without its service.\<close>

theorem service_stops_witness:
  "\<exists>s. (stop_step False)\<^sup>*\<^sup>* (stop_start False) s \<and> ss_dtor s = Destroyed \<and>
     (\<forall>t. (stop_step False)\<^sup>*\<^sup>* s t \<longrightarrow> ss_runner t \<noteq> RunEnded \<and> (\<exists>u. stop_step False t u))"
proof -
  define s1 where "s1 = (stop_start False)\<lparr>ss_exit := True, ss_dtor := Flagged\<rparr>"
  define s2 where "s2 = s1\<lparr>ss_open := False, ss_dtor := Destroyed\<rparr>"
  define s3 where "s3 = s2\<lparr>ss_exit := False, ss_runner := RunTest\<rparr>"
  have "stop_step False (stop_start False) s1" unfolding s1_def by (rule dtor_flag) (simp add: stop_start_def)
  moreover have "stop_step False s1 s2" unfolding s2_def by (rule dtor_close) (simp add: s1_def)
  moreover have "stop_step False s2 s3" unfolding s3_def
    by (rule run_store) (simp add: s2_def s1_def stop_start_def)
  ultimately have r: "(stop_step False)\<^sup>*\<^sup>* (stop_start False) s3" by (rule steps3)
  have s3: "ss_dtor s3 = Destroyed" "ss_runner s3 = RunTest" "\<not> ss_exit s3" by (simp_all add: s3_def s2_def)
  from service_stops[OF r] s3 show ?thesis by (intro exI[of _ s3]) (simp add: r)
qed

end
