(* ===== verification/Spec2Isabelle.thy ===== *)
theory Spec2Isabelle
  imports BlockingQueue Workers ThreadPool IpcService StreamIO Kernel SocketHelper Uds IpcApp IpcHandlers PipeIO PipeService Pipeline ReverseDevice DrmDraw FontDraw Gemm Cube ClUtil HLog Configuration Iterators Forwarding SharedObjects
    AutoArray CubeScene RunGemm DeviceCaps CharDevice SymbolBinding SmartPtr CommaInit TemplSpec Rtsp Chrono
    LanguageTests ClientOutput ChatSession ReaderProgram FontSetup CubeOrder TestOutput SmallPrograms ServiceStop
begin

text \<open>
  This library models the programs of the repository that carry logic of their own and proves
  what makes them correct; where the code does not do what it means to, a theorem shows the
  behaviour it has.

  \<^bold>\<open>The programs.\<close> \<open>thread_queue.h\<close> and \<open>thread_pool.h\<close> are a blocking queue and a thread
  pool, used by the tests in \<open>tthreads.cpp\<close>. \<open>tipc.cpp\<close> is a server and client over Unix domain
  sockets: a service (\<open>ipc_io_service\<close>) runs an epoll loop in its own thread and dispatches
  events to connections (\<open>ipc_connection_linux_UDS\<close>), whose blocking reads and writes the
  application calls; its Windows build does the same over named pipes and a completion port
  (\<open>ipc_connection_win_namedpipe\<close>). \<open>SocketHelper.cpp\<close> holds the socket functions of another service,
  \<open>HLog.cpp\<close> its log function. \<open>kernel_module/hello.c\<close> is a character device that keeps a message.
  \<open>tdrm1.c\<close> sets display modes and draws, \<open>ft2wrap.h\<close> draws text with FreeType. \<open>topencl.cpp\<close> with
  \<open>myGEMM.cl\<close> compares matrix products on host and GPU, \<open>tcube.cpp\<close> searches the positions of a cube
  and, in a part that is disabled, loads bitmaps and draws it. \<open>tjingo.cpp\<close> with two libraries prints which of several
  functions of one name is called, \<open>trtsp.cpp\<close> starts RTSP streams. \<open>ttuple.cpp\<close>, \<open>t5.cpp\<close>, \<open>t6.cpp\<close>, \<open>tremove.cpp\<close> and \<open>tforward.cpp\<close>,
  \<open>tsmartptr.cpp\<close>, \<open>teigen3test.cpp\<close>, \<open>ttemplspec.cpp\<close> and \<open>tchrono.cpp\<close> are small programs on typed tuples,
  iterators, references, smart pointers, operators, templates and durations.

  \<^bold>\<open>The theories.\<close>
  \<^item> \<open>Prelude\<close>: machine types, conversions, lists, the locales \<open>invariant_system\<close> and
    \<open>bounded_system\<close>, in which a measure bounds the runs of every schedule.
  \<^item> \<open>BlockingQueue\<close>: the members of \<open>blocking_queue\<close> as functions on the record \<open>bqueue\<close>
    (\<open>bq_get\<close>, \<open>bq_put\<close>, \<open>bq_close\<close>, \<dots>), and the monitor \<open>bq_step\<close>: threads, the two
    condition variables, notifications and spurious wake-ups. Shown: \<open>get\<close> on every branch, no
    lost wake-up, no lost element, order, bounds.
  \<^item> \<open>Workers\<close>: tests 2 and 3 of \<open>tthreads.cpp\<close> over any queue with the contract of the locale
    \<open>work_queue\<close>, which \<open>blocking_queue\<close> satisfies. Shown: termination and the counts.
  \<^item> \<open>SharedObjects\<close>: test 3 with the reference counts of its objects, a step per constructor, destructor and
    queue operation (\<open>test3_step\<close>); the locale \<open>pair_queue\<close> extends \<open>work_queue\<close>. Shown: the counts are exact, no
    schedule gets stuck or takes more than 12025 steps.
  \<^item> \<open>TestOutput\<close>: test 1 with the report of \<open>show_pid_tid\<close>, and what tracker and detecter print. Shown: the report can be
    read back, test 1 ends, the lines of the tracker.
  \<^item> \<open>ThreadPool\<close>: worker loop, \<open>enqueue\<close> and \<open>stop_all\<close> as the step relation \<open>pool_step\<close>.
    Shown: no stranded task, order, exits, and that \<open>stop_all\<close> wakes no thread asleep in \<open>enqueue\<close>: without spurious
    wake-ups only a worker that takes a task does, and none is woken once all workers have ended.
  \<^item> \<open>IpcService\<close>: \<open>string_copy\<close>, the descriptor table (\<open>svc_get\<close>, \<open>svc_set\<close>, \<open>svc_erase\<close>) over an array of 1024
    entries that the Linux constructor leaves as it finds it, with accesses outside recorded (\<open>overrun\<close>), and
    its refinement of a map through the locale \<open>conn_table\<close>; \<open>associate\<close>, \<open>unassociate\<close> and the
    set of descriptors epoll watches, computed from the log of system calls.
  \<^item> \<open>ServiceStop\<close>: the flag \<open>m_exit\<close> between \<open>run\<close> and the destructor of the service, for both builds, as the step
    relation \<open>stop_step\<close>. Shown: when the thread ends, and when the stop is lost.
  \<^item> \<open>StreamIO\<close>: the loops of \<open>read\<close>, \<open>write\<close>, \<open>readSocket\<close>, \<open>writeSocket\<close> and the block mode.
    The loops are partial functions (None is not returning); that they return is proved from what
    POSIX promises of the calls (\<open>byte_source\<close>, \<open>byte_sink\<close>), with the bytes left and the
    interruptions to come as measure.
  \<^item> \<open>Kernel\<close>: programs over a history of system calls, with the kernel's answers as a parameter
    that may depend on the whole history, and the descriptors open after a history.
  \<^item> \<open>SocketHelper\<close>: every function of \<open>SocketHelper.cpp\<close> that is not in \<open>StreamIO\<close>, with the calls of the log
    function, which may change \<open>errno\<close>. Shown: no descriptor leaks on any error path, which \<open>errno\<close> the caller finds, the
    array overruns; open files that are passed arrive, under the new descriptors the receiver's kernel gives them.
  \<^item> \<open>Uds\<close>: life cycle of connections (\<open>uds_ctor\<close>, \<open>uds_adopt\<close>, \<open>uds_close\<close>, \<open>uds_delete\<close>),
    \<open>notify\<close>, the event loop (\<open>run_event\<close>) and the server's handlers, as the state machine
    \<open>srv_step\<close>, from any contents of the uninitialised table and for peer paths of any length; the invariant
    \<open>server_ok\<close> ties objects, table, epoll set and open descriptors, and paths of 108 bytes and more overrun \<open>sun_path\<close>.
  \<^item> \<open>IpcApp\<close>: the \<open>tst1\<close> transfer test of client and server over the interface of a connection
    (locales \<open>ipc_channel\<close> and \<open>reliable_channel\<close>, provided by the read of \<open>StreamIO\<close>).
  \<^item> \<open>IpcHandlers\<close>: the server's \<open>on_read\<close> and the client's input loop, over the operations of a
    connection (\<open>conn_ops\<close>, locales \<open>app_channel\<close> and \<open>sure_channel\<close>, provided by both directions of a
    socket). Shown: a whole \<open>tst1\<close> session for any clock (where the rate is defined), that a message is answered by
    exactly one write, the lines of the client.
  \<^item> \<open>ClientOutput\<close>: the client's handlers for answers and for the end of the connection (\<open>client_events\<close>).
    Shown: it prints the stream of the server once and in order. \<open>ChatSession\<close> puts the two sides together.
  \<^item> \<open>PipeIO\<close>: \<open>read\<close> and \<open>write\<close> of a named pipe with the byte an asynchronous read has cached; a pipe
    satisfies \<open>exact_channel\<close>, for which the \<open>tst1\<close> test is exact.
  \<^item> \<open>PipeService\<close>: life cycle, \<open>connect\<close>, \<open>listen\<close>, \<open>notify\<close> and a round of the completion loop
    (\<open>np_round\<close>) for any answers of the system (\<open>np_env\<close>); the protocol of the cached byte is an
    invariant over all completions (\<open>np_event\<close>).
  \<^item> \<open>Pipeline\<close>: test 4 of \<open>tthreads.cpp\<close>, a tracker and a detecter coupled by futures. Shown: no
    deadlock, the bound of 121 steps, order and results.
  \<^item> \<open>ReverseDevice\<close>: the device's critical sections as functions on \<open>buffer\<close>, and its readers and
    writers with mutex, wait queue and signals as \<open>dev_step\<close>. Shown: no lost wake-up, bounds, and
    the refinement of a message register.
  \<^item> \<open>CharDevice\<close>: the read-only device that the same file keeps disabled, registration, and \<open>cat\<close> of
    \<open>test.c\<close> over any device with the contract \<open>readable_device\<close>. Shown: reads stay inside the string, \<open>cat\<close> ends.
  \<^item> \<open>ReaderProgram\<close>: the two threads of \<open>test.c\<close> as the step relation \<open>reader_step\<close>. Shown: the program ends in
    every schedule, with the device copied and closed.
  \<^item> \<open>Drm\<close>, \<open>DrmDraw\<close>: \<open>drm_main\<close> and its parts over a log of what libdrm acquires and releases, any
    call of which may fail. Shown: nothing is released twice and only the name strings of \<open>modeset_open\<close> are left, or
    the clean-up meets the NULL of \<open>drmModeGetCrtc\<close>; CRTCs are exclusive and found; the
    drawing, on words of 32 bits, stays inside the mappings.
  \<^item> \<open>FontDraw\<close>: clipping and blending of bitmaps and the pen of \<open>printString\<close>, with FreeType as the
    parameter \<open>font\<close> and accesses outside as \<open>ft_fault\<close>. Shown: the image is never left; bitmaps of the 8-bit gray format
    are never left either, others may be.
  \<^item> \<open>FontSetup\<close>: opening the font, the size the wrapper remembers, several lines, and the self test (\<open>selfTest\<close>) with
    its buffer of 256 characters. Shown: the remembered size makes no difference as long as the library accepts all
    sizes; the test stays inside its buffer and the image.
  \<^item> \<open>Configuration\<close>: the template recursion that finds an element of a tuple and the members of
    \<open>Configuration\<close>. Shown: typed access, the index computation, the last value set.
  \<^item> \<open>Iterators\<close>: the linked list on a heap, refined to lists; \<open>find\<close> proved once for the iterators of
    list and array (locale \<open>forward_range\<close>); \<open>remove_if\<close> in place.
  \<^item> \<open>Forwarding\<close>: deduction and collapsing of references; forwarding keeps type and category.
  \<^item> \<open>Gemm\<close>: host product, sum and the three product kernels; the locale \<open>kernel_items\<close> says what makes a set of
    work items a matrix product in any order, and each kernel is an instance. Arithmetic is a
    parameter without laws.
  \<^item> \<open>Cube\<close>: stickers, the neighbour table and turns. Shown: a turn moves stickers only and has order 4.
  \<^item> \<open>CubeOrder\<close>: the search of \<open>main\<close> on cubes of 48 bytes, an instance of \<open>linorder\<close> by \<open>memcmp\<close>, with a red-black tree
    for \<open>std::set\<close> (locale \<open>node_set\<close>), round by round (\<open>cube_rounds\<close>), where the memory may run out and the counter \<open>int k\<close>
    may overflow (\<open>search_fault\<close>). Shown: after \<open>d\<close> rounds the set is exactly the ball of \<open>d\<close> turns and the acting
    positions its sphere, or the fault came first. The group of the turns has about 4.3e19 elements, so no run of the
    program gets to the end of the search.
  \<^item> \<open>RunGemm\<close>: \<open>run_myGEMM\<close> with the cache file, the build, ten runs of a kernel and the
    comparison, as a result with the objects acquired and released and the faults met, for any OpenCL runtime
    (\<open>cl_runtime\<close>). Shown: the errors reported are the cells that differ from the product; what it leaks; a device that
    computes as the host does gives none.
  \<^item> \<open>ClUtil\<close>, \<open>DeviceCaps\<close>, \<open>HLog\<close>: error strings and platform selection; what is printed of devices, platforms
    and the memory map, with the bytes of the variables; the log function.
  \<^item> \<open>Bitmap\<close>, \<open>AutoArray\<close>, \<open>CubeScene\<close>: the disabled part of \<open>tcube.cpp\<close>. \<open>loadBMP\<close> on a file as a list of bytes,
    with every \<open>int\<close> operation, array access and assertion a possible \<open>fault\<close>; the owning pointer on a heap of
    arrays; the OpenGL calls of initialisation, drawing and event handlers. Shown: which files load back exactly, and
    the outcome of loading any file (\<open>load_outcome\<close>); when no array is deleted twice; the calls are well-nested.
  \<^item> \<open>SymbolBinding\<close>: the functions of \<open>tjingo.cpp\<close> and its libraries and what the program prints, for any assignment
    \<open>resolve\<close> of definitions to the calls, which the dynamic linker makes.
  \<^item> \<open>TemplSpec\<close>: deduction and partial ordering of the specialisations of one class template. Shown: which
    class every argument list gives.
  \<^item> \<open>SmartPtr\<close>, \<open>CommaInit\<close>, \<open>Rtsp\<close>, \<open>Chrono\<close>: lifetimes under \<open>shared_ptr\<close> with a deleter, the comma initialiser,
    the ownership of the answers of an RTSP server, sums of durations in their common period.
  \<^item> \<open>SmallPrograms\<close>: the life of the kernel module with the memory it holds, \<open>tusbfs.cpp\<close> and \<open>tcvtest.cpp\<close>.
  \<^item> \<open>LanguageTests\<close>: the smallest programs, on allocation, assignment, templates, copies, dynamic types and callbacks.

  \<^bold>\<open>Bounds.\<close> No loop of the model has fuel: recursion is structural, has a proved measure, or is a
  partial function whose result is proved to exist where a property says so (the rounds of the cube search are
  counted instead, and any number of them is allowed). \<open>int\<close> values are
  words where their width matters (queue sizes, descriptors, \<open>total\<close>, flags) and integers where
  the code keeps them in range.

  \<^bold>\<open>Not modelled.\<close> Output to the terminal beyond what the theories name, timing, and the inside of the
  libraries (OpenCL, OpenGL, libdrm, FreeType, live555, Eigen, the dynamic linker), which are parameters. The
  code that \<open>#if 0\<close> disables in \<open>tipc.cpp\<close>, and \<open>tdrm2.cpp\<close>, which does not compile. Of the Windows service the cast
  of a pointer to \<open>unsigned long\<close>, which 64-bit builds cut, is taken as exact, and the handlers of its server are reduced to
  what they do to the cached byte. \<open>Pipeline\<close> ends when both threads of test 4 have, before \<open>stop_all\<close>. \<open>malloc\<close> and \<open>new\<close> succeed except where the code tests them.
\<close>

end
